(* ===== verification/Prelude.thy ===== *)
theory Prelude
  imports Complex_Main "HOL-Library.Multiset"
begin

text \<open>
  What every component shares: the fact collections of the development, Python's rounding,
  clamping, sorting, argmax and string primitives, and the generic lemmas about them.

  Conventions. A Python \<open>float\<close> (and a numpy \<open>float64\<close>) is a \<open>real\<close>: the arithmetic of
  the code is modelled exactly, rounding error is not. A Python \<open>int\<close> is an \<open>int\<close>, a length or
  an index known to be non-negative a \<open>nat\<close>. A Python \<open>str\<close> is a \<open>string\<close> of ASCII
  characters. An exception is the \<open>Inl\<close> side of a sum.
\<close>

named_theorems bounds_intros \<open>introduction rules for ranges and bounds\<close>
named_theorems py_defs \<open>definitions of the Python primitives, for evaluation\<close>

type_synonym ('e, 'a) result = "'e + 'a"

section \<open>Numbers\<close>

text \<open>Python's \<open>round(x)\<close>: to the nearest integer, ties to the even one.\<close>

definition round_half_even :: "real \<Rightarrow> int" where
  "round_half_even x =
     (let f = \<lfloor>x\<rfloor>; d = x - of_int f
      in if d < 1/2 then f
         else if 1/2 < d then f + 1
         else if even f then f else f + 1)"

text \<open>Python's \<open>round(x, n)\<close>.\<close>

definition round_dec :: "nat \<Rightarrow> real \<Rightarrow> real" where
  "round_dec n x = of_int (round_half_even (x * 10 ^ n)) / 10 ^ n"

text \<open>\<open>max(lo, min(hi, x))\<close>, which is also \<open>np.clip(x, lo, hi)\<close>.\<close>

definition clamp :: "'a::linorder \<Rightarrow> 'a \<Rightarrow> 'a \<Rightarrow> 'a" where
  "clamp lo hi x = max lo (min hi x)"

lemma clamp_bounds [bounds_intros]: "lo \<le> hi \<Longrightarrow> lo \<le> clamp lo hi x \<and> clamp lo hi x \<le> hi"
  by (auto simp: clamp_def)

lemma clamp_id: "lo \<le> x \<Longrightarrow> x \<le> hi \<Longrightarrow> clamp lo hi x = x"
  by (auto simp: clamp_def)

lemma round_half_even_of_int [simp]: "round_half_even (of_int n) = n"
  by (simp add: round_half_even_def)

lemma round_half_even_bounds:
  "x - 1/2 \<le> of_int (round_half_even x) \<and> of_int (round_half_even x) \<le> x + 1/2"
proof -
  have f: "of_int \<lfloor>x\<rfloor> \<le> x" "x < of_int \<lfloor>x\<rfloor> + 1" by linarith+
  show ?thesis
    unfolding round_half_even_def Let_def using f by (auto split: if_splits; linarith)
qed

lemma round_half_even_mono: "x \<le> y \<Longrightarrow> round_half_even x \<le> round_half_even y"
proof -
  assume xy: "x \<le> y"
  have fx: "of_int \<lfloor>x\<rfloor> \<le> x" "x < of_int \<lfloor>x\<rfloor> + 1" by linarith+
  have fy: "of_int \<lfloor>y\<rfloor> \<le> y" "y < of_int \<lfloor>y\<rfloor> + 1" by linarith+
  have "\<lfloor>x\<rfloor> \<le> \<lfloor>y\<rfloor>" using xy by (rule floor_mono)
  then consider "\<lfloor>x\<rfloor> = \<lfloor>y\<rfloor>" | "\<lfloor>x\<rfloor> + 1 \<le> \<lfloor>y\<rfloor>" by linarith
  then show ?thesis
  proof cases
    case 1
    then show ?thesis using xy by (auto simp: round_half_even_def Let_def)
  next
    case 2
    then show ?thesis by (auto simp: round_half_even_def Let_def)
  qed
qed

lemma round_dec_mono: "x \<le> y \<Longrightarrow> round_dec n x \<le> round_dec n y"
  by (simp add: round_dec_def divide_right_mono round_half_even_mono mult_right_mono)

lemma round_dec_of_int: "round_dec n (of_int k) = of_int k"
proof -
  have "(of_int k :: real) * 10 ^ n = of_int (k * 10 ^ n)" by simp
  then have "round_half_even (of_int k * 10 ^ n) = k * 10 ^ n"
    by (simp only: round_half_even_of_int)
  then show ?thesis by (simp add: round_dec_def)
qed

lemma round_dec_0 [simp]: "round_dec n 0 = 0"
  using round_dec_of_int [of n 0] by simp

lemma round_dec_1 [simp]: "round_dec n 1 = 1"
  using round_dec_of_int [of n 1] by simp

text \<open>Rounding keeps the ends of an integer range, so a clamped score is still in it.\<close>

lemma round_dec_unit [bounds_intros]:
  "0 \<le> x \<Longrightarrow> x \<le> 1 \<Longrightarrow> 0 \<le> round_dec n x \<and> round_dec n x \<le> 1"
  using round_dec_mono [of 0 x n] round_dec_mono [of x 1 n] by simp

lemma round_dec_nonneg: "0 \<le> x \<Longrightarrow> 0 \<le> round_dec n x"
  using round_dec_mono [of 0 x n] by simp

lemma round_dec_error: "\<bar>round_dec n x - x\<bar> \<le> 1 / (2 * 10 ^ n)"
proof -
  let ?p = "10 ^ n :: real"
  let ?d = "of_int (round_half_even (x * ?p)) - x * ?p"
  have "\<bar>?d\<bar> \<le> 1/2"
    using round_half_even_bounds [of "x * ?p"] unfolding abs_le_iff by linarith
  then have "\<bar>?d\<bar> / ?p \<le> (1/2) / ?p"
    by (rule divide_right_mono) simp
  moreover have "round_dec n x - x = ?d / ?p"
    by (simp add: round_dec_def diff_divide_distrib)
  ultimately show ?thesis by (simp only: abs_divide) simp
qed

section \<open>Lists\<close>

text \<open>\<open>list.sort(key=k, reverse=True)\<close>: descending and stable.\<close>

definition sort_desc :: "('a \<Rightarrow> real) \<Rightarrow> 'a list \<Rightarrow> 'a list" where
  "sort_desc k xs = sort_key (\<lambda>x. - k x) xs"

lemma set_sort_desc [simp]: "set (sort_desc k xs) = set xs"
  by (simp add: sort_desc_def)

lemma length_sort_desc [simp]: "length (sort_desc k xs) = length xs"
  by (simp add: sort_desc_def)

lemma sort_desc_Nil [simp]: "sort_desc k xs = [] \<longleftrightarrow> xs = []"
  by (metis length_0_conv length_sort_desc)

lemma sort_desc_hd_in: "xs \<noteq> [] \<Longrightarrow> hd (sort_desc k xs) \<in> set xs"
  by (metis hd_in_set set_sort_desc sort_desc_Nil)

lemma sort_desc_hd_max: "x \<in> set xs \<Longrightarrow> k x \<le> k (hd (sort_desc k xs))"
proof -
  assume x: "x \<in> set xs"
  let ?s = "sort_desc k xs"
  have ne: "?s \<noteq> []" using x by auto
  have srt: "sorted (map (\<lambda>x. - k x) ?s)" by (simp add: sort_desc_def)
  obtain y ys where s: "?s = y # ys" using ne by (cases ?s) auto
  have "x \<in> set (y # ys)" using x s by (metis set_sort_desc)
  then show ?thesis using srt s by auto
qed

text \<open>Dropping from a keyed list the keys of the first elements of a rearrangement of it.\<close>

lemma filter_length_drop:
  assumes "distinct (map fst xs)" and "mset ys = mset xs" and "n \<le> length ys"
  shows "length (filter (\<lambda>(k, b). k \<notin> set (map fst (take n ys))) xs) = length xs - n"
proof -
  let ?S = "set (map fst (take n ys))"
  let ?P = "\<lambda>(k, b). k \<notin> ?S"
  have "distinct (map fst ys)"
    using assms(1,2) by (metis mset_eq_imp_distinct_iff mset_map)
  then have "distinct (map fst (take n ys) @ map fst (drop n ys))"
    by (metis append_take_drop_id map_append)
  then have d: "set (map fst (drop n ys)) \<inter> ?S = {}" by auto
  have "filter ?P (take n ys) = []" by (force simp: filter_empty_conv)
  moreover have "filter ?P (drop n ys) = drop n ys" using d by (force simp: filter_id_conv)
  ultimately have "filter ?P ys = drop n ys"
    by (metis append_take_drop_id filter_append append_Nil)
  moreover have "length (filter ?P xs) = length (filter ?P ys)"
    using assms(2) by (metis mset_filter size_mset)
  ultimately show ?thesis using assms(2) by (metis length_drop size_mset)
qed

text \<open>Python's \<open>min(xs, key=k)\<close> and \<open>max(xs, key=k)\<close>: the first of the extreme elements.\<close>

fun first_min :: "('a \<Rightarrow> 'b::linorder) \<Rightarrow> 'a \<Rightarrow> 'a list \<Rightarrow> 'a" where
  "first_min k best [] = best"
| "first_min k best (x # xs) = first_min k (if k x < k best then x else best) xs"

fun first_max :: "('a \<Rightarrow> 'b::linorder) \<Rightarrow> 'a \<Rightarrow> 'a list \<Rightarrow> 'a" where
  "first_max k best [] = best"
| "first_max k best (x # xs) = first_max k (if k best < k x then x else best) xs"

lemma first_min_in: "first_min k b xs \<in> insert b (set xs)"
proof (induction xs arbitrary: b)
  case (Cons y ys)
  from Cons.IH [of "if k y < k b then y else b"] show ?case by (simp split: if_splits) blast+
qed simp

lemma first_max_in: "first_max k b xs \<in> insert b (set xs)"
proof (induction xs arbitrary: b)
  case (Cons y ys)
  from Cons.IH [of "if k b < k y then y else b"] show ?case by (simp split: if_splits) blast+
qed simp

lemma first_min_le: "x \<in> insert b (set xs) \<Longrightarrow> k (first_min k b xs) \<le> k x"
proof (induction xs arbitrary: b x)
  case Nil
  then show ?case by simp
next
  case (Cons y ys)
  define b' where "b' = (if k y < k b then y else b)"
  have ub: "k b' \<le> k b" "k b' \<le> k y" by (auto simp: b'_def)
  have hd: "k (first_min k b' ys) \<le> k b'" by (rule Cons.IH) simp
  have tl: "x \<in> set ys \<Longrightarrow> k (first_min k b' ys) \<le> k x" by (rule Cons.IH) simp
  have "first_min k b (y # ys) = first_min k b' ys" by (simp add: b'_def)
  moreover consider "x = b" | "x = y" | "x \<in> set ys" using Cons.prems by auto
  ultimately show ?case using hd tl ub by cases (metis order_trans)+
qed

lemma first_max_ge: "x \<in> insert b (set xs) \<Longrightarrow> k x \<le> k (first_max k b xs)"
proof (induction xs arbitrary: b x)
  case Nil
  then show ?case by simp
next
  case (Cons y ys)
  define b' where "b' = (if k b < k y then y else b)"
  have ub: "k b \<le> k b'" "k y \<le> k b'" by (auto simp: b'_def)
  have hd: "k b' \<le> k (first_max k b' ys)" by (rule Cons.IH) simp
  have tl: "x \<in> set ys \<Longrightarrow> k x \<le> k (first_max k b' ys)" by (rule Cons.IH) simp
  have "first_max k b (y # ys) = first_max k b' ys" by (simp add: b'_def)
  moreover consider "x = b" | "x = y" | "x \<in> set ys" using Cons.prems by auto
  ultimately show ?case using hd tl ub by cases (metis order_trans)+
qed

text \<open>Consecutive differences, \<open>np.diff\<close>.\<close>

fun np_diff :: "real list \<Rightarrow> real list" where
  "np_diff (x # y # ys) = (y - x) # np_diff (y # ys)"
| "np_diff xs = []"

lemma length_np_diff [simp]: "length (np_diff xs) = length xs - 1"
  by (induction xs rule: np_diff.induct) auto

lemma nth_np_diff: "Suc i < length xs \<Longrightarrow> np_diff xs ! i = xs ! Suc i - xs ! i"
proof (induction xs arbitrary: i rule: np_diff.induct)
  case (1 x y ys)
  then show ?case by (cases i) auto
qed auto

text \<open>Running sums from zero, \<open>np.concatenate([[0.0], np.cumsum(xs)])\<close>.\<close>

fun cumsum_from :: "real \<Rightarrow> real list \<Rightarrow> real list" where
  "cumsum_from a [] = [a]"
| "cumsum_from a (x # xs) = a # cumsum_from (a + x) xs"

lemma length_cumsum_from [simp]: "length (cumsum_from a xs) = Suc (length xs)"
  by (induction xs arbitrary: a) auto

lemma nth_cumsum_from: "i \<le> length xs \<Longrightarrow> cumsum_from a xs ! i = a + sum_list (take i xs)"
proof (induction xs arbitrary: a i)
  case Nil
  then show ?case by simp
next
  case (Cons x xs)
  then show ?case by (cases i) auto
qed

lemma cumsum_from_ne [simp]: "cumsum_from a xs \<noteq> []"
  by (cases xs) auto

lemma last_cumsum_from: "last (cumsum_from a xs) = a + sum_list xs"
  by (induction xs arbitrary: a) auto

lemma sorted_cumsum_from:
  "\<forall>x \<in> set xs. 0 \<le> x \<Longrightarrow> sorted (cumsum_from a xs) \<and> (\<forall>y \<in> set (cumsum_from a xs). a \<le> y)"
proof (induction xs arbitrary: a)
  case (Cons x xs)
  then have "sorted (cumsum_from (a + x) xs)" "\<forall>y \<in> set (cumsum_from (a + x) xs). a + x \<le> y"
    by auto
  then show ?case using Cons.prems by force
qed simp

text \<open>The elements \<open>xs[lo:hi]\<close> for \<open>0 <= lo <= hi\<close>.\<close>

definition slice :: "nat \<Rightarrow> nat \<Rightarrow> 'a list \<Rightarrow> 'a list" where
  "slice lo hi xs = take (hi - lo) (drop lo xs)"

lemma sum_list_nonneg_real: "\<forall>x \<in> set xs. 0 \<le> (x::real) \<Longrightarrow> 0 \<le> sum_list xs"
  by (induction xs) auto

lemma set_slice_subset: "set (slice lo hi xs) \<subseteq> set xs"
  unfolding slice_def by (meson order_trans set_drop_subset set_take_subset)

lemma slice_sum_nonneg: "\<forall>x \<in> set xs. 0 \<le> (x::real) \<Longrightarrow> 0 \<le> sum_list (slice lo hi xs)"
  using set_slice_subset [of lo hi xs] by (intro sum_list_nonneg_real) blast

lemma slice_sum_le: "\<forall>x \<in> set xs. 0 \<le> (x::real) \<Longrightarrow> sum_list (slice lo hi xs) \<le> sum_list xs"
proof -
  assume nn: "\<forall>x \<in> set xs. 0 \<le> x"
  have "sum_list xs = sum_list (take lo xs) + sum_list (drop lo xs)"
    by (metis append_take_drop_id sum_list_append)
  also have "sum_list (drop lo xs) = sum_list (slice lo hi xs) + sum_list (drop (hi - lo) (drop lo xs))"
    unfolding slice_def by (metis append_take_drop_id sum_list_append)
  finally have eq: "sum_list xs = sum_list (take lo xs) + (sum_list (slice lo hi xs)
      + sum_list (drop (hi - lo) (drop lo xs)))" .
  have "0 \<le> sum_list (take lo xs)" "0 \<le> sum_list (drop (hi - lo) (drop lo xs))"
    using nn by (auto intro!: sum_list_nonneg_real dest: in_set_takeD in_set_dropD)
  with eq show ?thesis by linarith
qed

text \<open>Python's \<open>enumerate\<close>-and-\<open>next\<close>: the first element with a property.\<close>

lemma find_Some_in: "find P xs = Some x \<Longrightarrow> x \<in> set xs \<and> P x"
  by (induction xs) (auto split: if_splits)

lemma find_None_iff': "find P xs = None \<longleftrightarrow> (\<forall>x \<in> set xs. \<not> P x)"
  by (induction xs) auto

section \<open>Strings\<close>

definition lower_letters :: string where
  "lower_letters = ''abcdefghijklmnopqrstuvwxyz''"

definition upper_letters :: string where
  "upper_letters = ''ABCDEFGHIJKLMNOPQRSTUVWXYZ''"

text \<open>\<open>str.upper\<close> and \<open>str.lower\<close> on ASCII.\<close>

definition char_upper :: "char \<Rightarrow> char" where
  "char_upper c = (case map_of (zip lower_letters upper_letters) c of Some u \<Rightarrow> u | None \<Rightarrow> c)"

definition char_lower :: "char \<Rightarrow> char" where
  "char_lower c = (case map_of (zip upper_letters lower_letters) c of Some u \<Rightarrow> u | None \<Rightarrow> c)"

definition str_upper :: "string \<Rightarrow> string" where
  "str_upper s = map char_upper s"

definition str_lower :: "string \<Rightarrow> string" where
  "str_lower s = map char_lower s"

text \<open>\<open>s.replace(a, b)\<close> for one-character strings.\<close>

definition replace_char :: "char \<Rightarrow> char \<Rightarrow> string \<Rightarrow> string" where
  "replace_char a b s = map (\<lambda>c. if c = a then b else c) s"

definition is_space :: "char \<Rightarrow> bool" where
  "is_space c \<longleftrightarrow> c \<in> {CHR '' '', CHR 0x09, CHR 0x0A, CHR 0x0B, CHR 0x0C, CHR 0x0D,
     CHR 0x1C, CHR 0x1D, CHR 0x1E, CHR 0x1F}"

text \<open>\<open>s.strip()\<close>.\<close>

definition strip :: "string \<Rightarrow> string" where
  "strip s = rev (dropWhile is_space (rev (dropWhile is_space s)))"

definition is_digit :: "char \<Rightarrow> bool" where
  "is_digit c \<longleftrightarrow> c \<in> set ''0123456789''"

text \<open>\<open>needle in s\<close>.\<close>

fun contains :: "string \<Rightarrow> string \<Rightarrow> bool" where
  "contains n [] \<longleftrightarrow> n = []"
| "contains n (c # cs) \<longleftrightarrow> take (length n) (c # cs) = n \<or> contains n cs"

text \<open>\<open>s.split(sep)\<close> for a one-character separator: always at least one piece.\<close>

fun split_on :: "char \<Rightarrow> string \<Rightarrow> string list" where
  "split_on sep [] = [[]]"
| "split_on sep (c # cs) =
     (if c = sep then [] # split_on sep cs
      else (case split_on sep cs of [] \<Rightarrow> [[c]] | w # ws \<Rightarrow> (c # w) # ws))"

text \<open>\<open>sep.join(parts)\<close>.\<close>

fun join :: "string \<Rightarrow> string list \<Rightarrow> string" where
  "join sep [] = []"
| "join sep [w] = w"
| "join sep (w # v # ws) = w @ sep @ join sep (v # ws)"

lemmas string_defs [py_defs] =
  char_upper_def char_lower_def str_upper_def str_lower_def replace_char_def is_space_def
  strip_def is_digit_def lower_letters_def upper_letters_def

lemma split_on_nonempty: "split_on sep s \<noteq> []"
  by (induction s) (auto split: list.splits)

lemma join_split_on: "join [sep] (split_on sep s) = s"
proof (induction s)
  case Nil
  then show ?case by simp
next
  case (Cons c cs)
  obtain w ws where sp: "split_on sep cs = w # ws"
    using split_on_nonempty [of sep cs] by (cases "split_on sep cs") auto
  show ?case
  proof (cases "c = sep")
    case True
    then show ?thesis using sp Cons.IH by simp
  next
    case False
    then show ?thesis using sp Cons.IH by (cases ws) auto
  qed
qed

lemma contains_iff: "contains n s \<longleftrightarrow> (\<exists>a b. s = a @ n @ b)"
proof (induction s)
  case Nil
  then show ?case by auto
next
  case (Cons c cs)
  show ?case
  proof
    assume "contains n (c # cs)"
    then consider "take (length n) (c # cs) = n" | "contains n cs" by auto
    then show "\<exists>a b. c # cs = a @ n @ b"
    proof cases
      case 1
      then have "c # cs = [] @ n @ drop (length n) (c # cs)"
        by (metis append_Nil append_take_drop_id)
      then show ?thesis by blast
    next
      case 2
      then obtain a b where "cs = a @ n @ b" using Cons.IH by blast
      then have "c # cs = (c # a) @ n @ b" by simp
      then show ?thesis by blast
    qed
  next
    assume "\<exists>a b. c # cs = a @ n @ b"
    then obtain a b where ab: "c # cs = a @ n @ b" by blast
    show "contains n (c # cs)"
    proof (cases a)
      case Nil
      then have "take (length n) (c # cs) = n" using ab by simp
      then show ?thesis by simp
    next
      case (Cons x a')
      then have "cs = a' @ n @ b" using ab by simp
      then show ?thesis using Cons.IH by auto
    qed
  qed
qed

text \<open>The decimal text of a natural number, as in an f-string.\<close>

definition digit_char :: "nat \<Rightarrow> char" where
  "digit_char d = ''0123456789'' ! (d mod 10)"

fun nat_text :: "nat \<Rightarrow> string" where
  "nat_text n = (if n < 10 then [digit_char n] else nat_text (n div 10) @ [digit_char n])"

declare nat_text.simps [simp del]

definition int_text :: "int \<Rightarrow> string" where
  "int_text i = (if i < 0 then CHR ''-'' # nat_text (nat (- i)) else nat_text (nat i))"

text \<open>Python's \<open>int(s)\<close> on a decimal text: blanks around it, a sign, single underscores inside.\<close>

definition digits_value :: "string \<Rightarrow> int" where
  "digits_value s = foldl (\<lambda>n c. 10 * n + (of_char c - 48)) 0 s"

lemma digit_value_nonneg: "is_digit c \<Longrightarrow> 0 \<le> (of_char c :: int) - 48"
  unfolding is_digit_def list.set insert_iff by (elim disjE; simp)

lemma digits_value_nonneg: "list_all is_digit s \<Longrightarrow> 0 \<le> digits_value s"
proof -
  have "list_all is_digit s \<Longrightarrow> 0 \<le> n \<Longrightarrow> 0 \<le> foldl (\<lambda>n c. 10 * n + (of_char c - 48)) n s" for n :: int
  proof (induction s arbitrary: n)
    case (Cons c s)
    then have "0 \<le> (of_char c :: int) - 48" using digit_value_nonneg [of c] by simp
    with Cons.prems have "0 \<le> 10 * n + (of_char c - 48)" by linarith
    with Cons show ?case by simp
  qed simp
  then show "list_all is_digit s \<Longrightarrow> 0 \<le> digits_value s" by (simp add: digits_value_def)
qed

definition parse_int :: "string \<Rightarrow> int option" where
  "parse_int s =
     (let t = strip s;
          (neg, u) = (case t of c # r \<Rightarrow> if c = CHR ''-'' then (True, r)
                                       else if c = CHR ''+'' then (False, r) else (False, t)
                      | [] \<Rightarrow> (False, t));
          parts = split_on (CHR ''_'') u
      in if list_all (\<lambda>p. p \<noteq> [] \<and> list_all is_digit p) parts
         then Some ((if neg then -1 else 1) * digits_value (concat parts))
         else None)"

text \<open>
  Python's \<open>float(s)\<close> on a decimal text: blanks around it, a sign, digits with at most one point,
  an exponent. The texts of infinities and of not-a-number, and underscores, are not read.
\<close>

definition split_sign :: "string \<Rightarrow> bool \<times> string" where
  "split_sign t = (case t of [] \<Rightarrow> (False, t)
     | c # r \<Rightarrow> if c = CHR ''-'' then (True, r) else if c = CHR ''+'' then (False, r) else (False, t))"

definition parse_decimal :: "string \<Rightarrow> real option" where
  "parse_decimal s =
     (case split_on (CHR ''.'') s of
        [i] \<Rightarrow> if i \<noteq> [] \<and> list_all is_digit i then Some (of_int (digits_value i)) else None
      | [i, f] \<Rightarrow> if (i \<noteq> [] \<or> f \<noteq> []) \<and> list_all is_digit (i @ f)
                 then Some (of_int (digits_value (i @ f)) / 10 ^ length f) else None
      | _ \<Rightarrow> None)"

definition parse_float :: "string \<Rightarrow> real option" where
  "parse_float s =
     (let (neg, u) = split_sign (strip s)
      in case split_on (CHR ''e'') (str_lower u) of
           [m] \<Rightarrow> map_option (\<lambda>x. if neg then - x else x) (parse_decimal m)
         | [m, e] \<Rightarrow> (case (parse_decimal m, split_sign e) of
               (Some x, (eneg, d)) \<Rightarrow>
                 if d \<noteq> [] \<and> list_all is_digit d
                 then let k = nat (digits_value d); y = (if eneg then x / 10 ^ k else x * 10 ^ k)
                      in Some (if neg then - y else y)
                 else None
             | _ \<Rightarrow> None)
         | _ \<Rightarrow> None)"

text \<open>\<open>s.split(sep, 1)[-1]\<close>: what follows the first occurrence, or all of it; \<open>s.split(c, 1)[0]\<close>.\<close>

fun after_first :: "string \<Rightarrow> string \<Rightarrow> string option" where
  "after_first n [] = (if n = [] then Some [] else None)"
| "after_first n (c # cs) =
     (if take (length n) (c # cs) = n then Some (drop (length n) (c # cs)) else after_first n cs)"

definition split1_last :: "string \<Rightarrow> string \<Rightarrow> string" where
  "split1_last n s = (case after_first n s of Some r \<Rightarrow> r | None \<Rightarrow> s)"

definition split1_first :: "char \<Rightarrow> string \<Rightarrow> string" where
  "split1_first c s = takeWhile (\<lambda>x. x \<noteq> c) s"

definition ends_with :: "string \<Rightarrow> string \<Rightarrow> bool" where
  "ends_with e s \<longleftrightarrow> length e \<le> length s \<and> drop (length s - length e) s = e"

definition starts_with :: "string \<Rightarrow> string \<Rightarrow> bool" where
  "starts_with b s \<longleftrightarrow> take (length b) s = b"

text \<open>\<open>f"{x:.nf}"\<close>: fixed-point text, from the exact value, ties to even.\<close>

definition zero_pad :: "nat \<Rightarrow> string \<Rightarrow> string" where
  "zero_pad n s = replicate (n - length s) (CHR ''0'') @ s"

definition fixed_text :: "nat \<Rightarrow> real \<Rightarrow> string" where
  "fixed_text n x =
     (let k = nat (round_half_even (\<bar>x\<bar> * 10 ^ n))
      in (if x < 0 then ''-'' else '''') @ nat_text (k div 10 ^ n)
         @ (if n = 0 then '''' else ''.'' @ zero_pad n (nat_text (k mod 10 ^ n))))"

text \<open>\<open>np.argmax\<close> of a key over the positions of a non-empty list: the first greatest one.\<close>

definition argmax :: "('a \<Rightarrow> 'b::linorder) \<Rightarrow> 'a list \<Rightarrow> nat" where
  "argmax k xs = first_max (\<lambda>i. k (xs ! i)) 0 [1..<length xs]"

lemma argmax_less: "xs \<noteq> [] \<Longrightarrow> argmax k xs < length xs"
  using first_max_in [of "\<lambda>i. k (xs ! i)" 0 "[1..<length xs]"] by (auto simp: argmax_def)

lemma argmax_ge: "i < length xs \<Longrightarrow> k (xs ! i) \<le> k (xs ! argmax k xs)"
  unfolding argmax_def by (rule first_max_ge [where k = "\<lambda>i. k (xs ! i)"]) auto

lemma argmax_exceeds:
  assumes ne: "xs \<noteq> []"
  shows "c < k (xs ! argmax k xs) \<longleftrightarrow> (\<exists>x \<in> set xs. c < k x)"
proof
  show "c < k (xs ! argmax k xs) \<Longrightarrow> \<exists>x \<in> set xs. c < k x"
    using argmax_less [OF ne] nth_mem by blast
  show "\<exists>x \<in> set xs. c < k x \<Longrightarrow> c < k (xs ! argmax k xs)"
    using argmax_ge [of _ xs k] by (fastforce simp: in_set_conv_nth intro: less_le_trans)
qed

text \<open>Python's \<open>int(x)\<close>: towards zero.\<close>

definition py_int :: "real \<Rightarrow> int" where
  "py_int x = (if 0 \<le> x then \<lfloor>x\<rfloor> else \<lceil>x\<rceil>)"

lemma py_int_gt: "0 \<le> x \<Longrightarrow> x < of_int (py_int x + 1)"
  by (simp add: py_int_def)

section \<open>UTC days\<close>

text \<open>
  \<open>datetime.now(UTC)\<close> is a number of seconds since the epoch, and its \<open>date()\<close> the day it falls
  on: the ISO text of a date and its ordinal determine each other.
\<close>

definition utc_date :: "real \<Rightarrow> int" where
  "utc_date utc = \<lfloor>utc / 86400\<rfloor>"

definition seconds_to_midnight_utc :: "real \<Rightarrow> int" where
  "seconds_to_midnight_utc utc = max 1 (py_int (of_int ((utc_date utc + 1) * 86400) - utc))"

lemma seconds_to_midnight_bounds: "1 \<le> seconds_to_midnight_utc utc \<and> seconds_to_midnight_utc utc \<le> 86400"
proof -
  have key: "0 \<le> (f + 1) * 86400 - u \<and> (f + 1) * 86400 - u \<le> 86400"
    if "f \<le> u / 86400" "u / 86400 < f + 1" for f u :: real
    using that by (simp add: field_simps)
  have "0 \<le> of_int ((utc_date utc + 1) * 86400) - utc \<and> of_int ((utc_date utc + 1) * 86400) - utc \<le> 86400"
    using key [OF of_int_floor_le [of "utc / 86400"] floor_correct [THEN conjunct2, of "utc / 86400", simplified of_int_add of_int_1]]
    by (simp add: utc_date_def)
  then show ?thesis by (auto simp: seconds_to_midnight_utc_def py_int_def floor_le_iff)
qed

end
