(* ===== verification/Geometry.thy ===== *)
theory Geometry
  imports Prelude
begin

text \<open>
  backend/geometry.py: coordinates, great-circle lengths, sampling a polyline, and the
  length-weighted tag scores with their blends. A numpy array is a list; the numpy calls the
  code makes on it (sums, slices, differences, clip, arange) are written out.

  A path-detail span is \<open>(start, end, value)\<close>, and a barrier span carries the node's own
  position and its distance along the route as well. A value is either Python's \<open>None\<close> or
  something the code reads through \<open>str()\<close>.
\<close>

section \<open>Coordinates and lengths\<close>

datatype latlon = LatLon (lat: real) (lon: real)

datatype tagval = TagNone | Tag string

datatype span = Span
  (sp_start: int) (sp_end: int) (sp_value: tagval) (sp_node: "latlon option") (sp_at_m: "real option")

abbreviation detail_span :: "int \<Rightarrow> int \<Rightarrow> tagval \<Rightarrow> span" where
  "detail_span a b v \<equiv> Span a b v None None"

definition EARTH_RADIUS_M :: real where
  "EARTH_RADIUS_M = 6371008.8"

definition radians :: "real \<Rightarrow> real" where
  "radians d = d * pi / 180"

definition degrees :: "real \<Rightarrow> real" where
  "degrees r = r * 180 / pi"

definition hav_h :: "latlon \<Rightarrow> latlon \<Rightarrow> real" where
  "hav_h a b =
     (let lat1 = radians (lat a); lon1 = radians (lon a);
          lat2 = radians (lat b); lon2 = radians (lon b);
          dlat = lat2 - lat1; dlon = lon2 - lon1
      in sin (dlat / 2) ^ 2 + cos lat1 * cos lat2 * sin (dlon / 2) ^ 2)"

definition haversine_m :: "latlon \<Rightarrow> latlon \<Rightarrow> real" where
  "haversine_m a b = 2 * EARTH_RADIUS_M * arcsin (sqrt (min 1 (hav_h a b)))"

fun segment_lengths_m :: "latlon list \<Rightarrow> real list" where
  "segment_lengths_m (p # q # ps) =
     2 * EARTH_RADIUS_M * arcsin (sqrt (min 1 (hav_h p q))) # segment_lengths_m (q # ps)"
| "segment_lengths_m _ = []"

definition path_length_m :: "latlon list \<Rightarrow> real" where
  "path_length_m ps = sum_list (segment_lengths_m ps)"

definition cumulative_distance_m :: "latlon list \<Rightarrow> real list" where
  "cumulative_distance_m ps = (if ps = [] then [] else cumsum_from 0 (segment_lengths_m ps))"

text \<open>Where the code's contract holds: latitudes on the globe.\<close>

definition on_globe :: "latlon \<Rightarrow> bool" where
  "on_globe p \<longleftrightarrow> -90 \<le> lat p \<and> lat p \<le> 90 \<and> -180 \<le> lon p \<and> lon p \<le> 180"

lemma cos_radians_nonneg: "-90 \<le> d \<Longrightarrow> d \<le> 90 \<Longrightarrow> 0 \<le> cos (radians d)"
proof -
  assume d: "-90 \<le> d" "d \<le> 90"
  have "d * pi \<le> 90 * pi" "-90 * pi \<le> d * pi"
    using d mult_right_mono [of d 90 pi] mult_right_mono [of "-90" d pi] by auto
  then show ?thesis by (intro cos_ge_zero) (simp_all add: radians_def)
qed

lemma hav_h_nonneg: "on_globe a \<Longrightarrow> on_globe b \<Longrightarrow> 0 \<le> hav_h a b"
  by (auto simp: hav_h_def Let_def on_globe_def intro!: add_nonneg_nonneg mult_nonneg_nonneg
      cos_radians_nonneg)

lemma haversine_nonneg: "on_globe a \<Longrightarrow> on_globe b \<Longrightarrow> 0 \<le> haversine_m a b"
proof -
  assume ab: "on_globe a" "on_globe b"
  have "0 \<le> sqrt (min 1 (hav_h a b))" "sqrt (min 1 (hav_h a b)) \<le> 1"
    using hav_h_nonneg [OF ab] by auto
  then have "0 \<le> arcsin (sqrt (min 1 (hav_h a b)))"
    using arcsin_le_mono [of 0 "sqrt (min 1 (hav_h a b))"] by simp
  then show ?thesis by (simp add: haversine_m_def EARTH_RADIUS_M_def)
qed

lemma segment_lengths_Cons:
  "segment_lengths_m (p # q # ps) = haversine_m p q # segment_lengths_m (q # ps)"
  by (simp add: haversine_m_def)

lemma length_segment_lengths [simp]: "length (segment_lengths_m ps) = length ps - 1"
  by (induction ps rule: segment_lengths_m.induct) auto

lemma segment_lengths_nonneg:
  "\<forall>p \<in> set ps. on_globe p \<Longrightarrow> \<forall>x \<in> set (segment_lengths_m ps). 0 \<le> x"
proof (induction ps rule: segment_lengths_m.induct)
  case (1 p q ps)
  then show ?case unfolding segment_lengths_Cons by (auto intro: haversine_nonneg)
qed auto

lemma path_length_nonneg: "\<forall>p \<in> set ps. on_globe p \<Longrightarrow> 0 \<le> path_length_m ps"
  using segment_lengths_nonneg by (auto simp: path_length_m_def intro!: sum_list_nonneg)

lemma nth_segment_lengths:
  "Suc i < length ps \<Longrightarrow> segment_lengths_m ps ! i = haversine_m (ps ! i) (ps ! Suc i)"
proof (induction ps arbitrary: i rule: segment_lengths_m.induct)
  case (1 p q ps)
  then show ?case unfolding segment_lengths_Cons by (cases i) auto
qed auto

lemma length_cumulative: "length (cumulative_distance_m ps) = length ps"
  by (cases ps) (auto simp: cumulative_distance_m_def)

lemma cumulative_sorted:
  "\<forall>p \<in> set ps. on_globe p \<Longrightarrow> sorted (cumulative_distance_m ps)"
  using sorted_cumsum_from [OF segment_lengths_nonneg] by (auto simp: cumulative_distance_m_def)

lemma last_cumulative: "ps \<noteq> [] \<Longrightarrow> last (cumulative_distance_m ps) = path_length_m ps"
  by (simp add: cumulative_distance_m_def path_length_m_def last_cumsum_from)

lemma haversine_self [simp]: "haversine_m p p = 0"
  by (simp add: haversine_m_def hav_h_def)

section \<open>Bearing, interpolation, sampling\<close>

text \<open>\<open>math.atan2\<close>, and \<open>%\<close> on floats (the sign of the divisor).\<close>

definition atan2 :: "real \<Rightarrow> real \<Rightarrow> real" where
  "atan2 y x =
     (if 0 < x then arctan (y / x)
      else if x < 0 then (if 0 \<le> y then arctan (y / x) + pi else arctan (y / x) - pi)
      else if 0 < y then pi / 2 else if y < 0 then - (pi / 2) else 0)"

definition fmod :: "real \<Rightarrow> real \<Rightarrow> real" where
  "fmod x m = x - m * of_int \<lfloor>x / m\<rfloor>"

definition bearing_deg :: "latlon \<Rightarrow> latlon \<Rightarrow> real" where
  "bearing_deg a b =
     (let lat1 = radians (lat a); lat2 = radians (lat b);
          dlon = radians (lon b - lon a);
          y = sin dlon * cos lat2;
          x = cos lat1 * sin lat2 - sin lat1 * cos lat2 * cos dlon;
          bearing = fmod (degrees (atan2 y x)) 360
      in if 360 \<le> bearing then 0 else bearing)"

lemma fmod_bounds: "0 < m \<Longrightarrow> 0 \<le> fmod x m \<and> fmod x m < m"
proof -
  assume m: "0 < m"
  have "of_int \<lfloor>x / m\<rfloor> \<le> x / m" "x / m < of_int \<lfloor>x / m\<rfloor> + 1" by linarith+
  then have "of_int \<lfloor>x / m\<rfloor> * m \<le> x" "x < (of_int \<lfloor>x / m\<rfloor> + 1) * m"
    by (simp_all only: pos_le_divide_eq [OF m] pos_divide_less_eq [OF m])
  then show ?thesis by (auto simp: fmod_def algebra_simps)
qed

lemma bearing_range: "0 \<le> bearing_deg a b \<and> bearing_deg a b < 360"
  using fmod_bounds [of 360] by (auto simp: bearing_deg_def Let_def)

definition interpolate :: "latlon \<Rightarrow> latlon \<Rightarrow> real \<Rightarrow> latlon" where
  "interpolate a b t =
     (let la = lat a + (lat b - lat a) * t; lo = lon a + (lon b - lon a) * t
      in LatLon (min 90 (max (-90) la)) (min 180 (max (-180) lo)))"

lemma interpolate_on_globe [simp]: "on_globe (interpolate a b t)"
  by (auto simp: interpolate_def on_globe_def Let_def)

datatype sample_point = SamplePoint (s_point: latlon) (s_at_m: real)

text \<open>\<open>np.arange(0.0, tot, step)\<close>.\<close>

definition arange :: "real \<Rightarrow> real \<Rightarrow> real list" where
  "arange tot step = map (\<lambda>i. real i * step) [0..<nat \<lceil>tot / step\<rceil>]"

text \<open>The inner \<open>while\<close> of \<open>sample_every\<close>: walk the vertex index up to the target's segment.\<close>

function advance :: "real list \<Rightarrow> real \<Rightarrow> nat \<Rightarrow> nat" where
  "advance cum target idx =
     (if idx + 2 < length cum \<and> cum ! (idx + 1) < target then advance cum target (idx + 1) else idx)"
  by pat_completeness auto
termination
  by (relation "measure (\<lambda>(cum, target, idx). length cum - idx)") auto

declare advance.simps [simp del]

fun sample_loop :: "latlon list \<Rightarrow> real list \<Rightarrow> real list \<Rightarrow> nat \<Rightarrow> sample_point list" where
  "sample_loop ps cum [] idx = []"
| "sample_loop ps cum (target # ts) idx =
     (let i = advance cum target idx;
          sp = cum ! (i + 1) - cum ! i;
          t = (if sp \<le> 0 then 0 else (target - cum ! i) / sp)
      in SamplePoint (interpolate (ps ! i) (ps ! (i + 1)) t) target # sample_loop ps cum ts i)"

definition sample_every :: "latlon list \<Rightarrow> real \<Rightarrow> nat \<Rightarrow> sample_point list" where
  "sample_every ps spacing_m max_points =
     (if ps = [] then []
      else if length ps = 1 then [SamplePoint (hd ps) 0]
      else let cum = cumulative_distance_m ps; tot = last cum
        in if tot \<le> 0 then [SamplePoint (hd ps) 0]
           else let spacing = max spacing_m (tot / real (max 1 (max_points - 1)));
                    targets = arange tot spacing
                in take max_points (sample_loop ps cum targets 0 @ [SamplePoint (last ps) tot]))"

lemma advance_bound: "idx + 1 < length cum \<Longrightarrow> advance cum target idx + 1 < length cum"
proof (induction cum target idx rule: advance.induct)
  case (1 cum target idx)
  then show ?case
    by (cases "idx + 2 < length cum \<and> cum ! (idx + 1) < target")
      (auto simp: advance.simps [of cum target idx])
qed

lemma advance_ge: "idx \<le> advance cum target idx"
proof (induction cum target idx rule: advance.induct)
  case (1 cum target idx)
  then show ?case
    by (cases "idx + 2 < length cum \<and> cum ! (idx + 1) < target")
      (auto simp: advance.simps [of cum target idx])
qed

text \<open>The walk stops in the segment that holds the target.\<close>

lemma advance_reaches:
  "idx + 1 < length cum \<Longrightarrow> target \<le> last cum \<Longrightarrow> target \<le> cum ! (advance cum target idx + 1)"
proof (induction cum target idx rule: advance.induct)
  case (1 cum target idx)
  show ?case
  proof (cases "idx + 2 < length cum \<and> cum ! (idx + 1) < target")
    case True
    with "1" show ?thesis by (simp add: advance.simps [of cum target idx])
  next
    case False
    then consider "length cum = idx + 2" | "target \<le> cum ! (idx + 1)"
      using "1.prems" by linarith
    then show ?thesis
    proof cases
      case 1
      then have "last cum = cum ! (idx + 1)" using last_conv_nth [of cum] by fastforce
      then show ?thesis using False "1.prems" by (simp add: advance.simps [of cum target idx])
    next
      case 2
      then show ?thesis using False by (simp add: advance.simps [of cum target idx])
    qed
  qed
qed

lemma sample_loop_at_m: "map s_at_m (sample_loop ps cum ts idx) = ts"
  by (induction ts arbitrary: idx) (auto simp: Let_def)

lemma sample_loop_on_globe:
  "s \<in> set (sample_loop ps cum ts idx) \<Longrightarrow> on_globe (s_point s)"
  by (induction ts arbitrary: idx) (auto simp: Let_def)

lemma sample_every_on_globe:
  assumes g: "\<forall>p \<in> set ps. on_globe p" and s: "s \<in> set (sample_every ps spacing n)"
  shows "on_globe (s_point s)"
proof -
  have "ps \<noteq> []" using s by (auto simp: sample_every_def)
  then have "on_globe (hd ps)" "on_globe (last ps)" using g by auto
  then show ?thesis
    using s by (auto simp: sample_every_def Let_def dest!: in_set_takeD dest: sample_loop_on_globe
        split: if_splits)
qed

lemma length_arange: "length (arange tot step) = nat \<lceil>tot / step\<rceil>"
  by (simp add: arange_def)

lemma arange_count:
  "0 < tot \<Longrightarrow> tot / real k \<le> step \<Longrightarrow> 0 < k \<Longrightarrow> length (arange tot step) \<le> k"
proof -
  assume tot: "0 < tot" and step: "tot / real k \<le> step" and k: "0 < k"
  have "0 < tot / real k" using tot k by simp
  with step have sp: "0 < step" by linarith
  have "tot \<le> step * real k" using step k by (simp add: pos_divide_le_eq)
  then have "tot / step \<le> of_int (int k)" using sp by (simp add: pos_divide_le_eq mult.commute)
  then have "\<lceil>tot / step\<rceil> \<le> int k" by (rule ceiling_le)
  then show ?thesis by (simp only: length_arange nat_le_iff)
qed

text \<open>
  The cap on samples never costs the end of the route: the spacing is widened so that the
  targets leave room for the final point.
\<close>

lemma sample_every_complete:
  assumes "2 \<le> length ps" and "0 < path_length_m ps" and "2 \<le> max_points"
  shows "length (sample_every ps spacing max_points) \<le> max_points
       \<and> last (sample_every ps spacing max_points) = SamplePoint (last ps) (path_length_m ps)"
proof -
  have ne: "ps \<noteq> []" using assms(1) by auto
  let ?tot = "path_length_m ps"
  let ?sp = "max spacing (?tot / real (max 1 (max_points - 1)))"
  let ?ts = "arange ?tot ?sp"
  have "length ?ts \<le> max_points - 1"
    by (rule arange_count) (use assms in auto)
  moreover have len: "length (sample_loop ps (cumulative_distance_m ps) ?ts 0) = length ?ts"
    by (metis length_map sample_loop_at_m)
  moreover have eq: "sample_every ps spacing max_points =
      take max_points (sample_loop ps (cumulative_distance_m ps) ?ts 0 @ [SamplePoint (last ps) ?tot])"
    using assms ne by (simp add: sample_every_def Let_def last_cumulative)
  ultimately show ?thesis using assms(3) by simp
qed

section \<open>Turning, loops, wire order\<close>

definition turn_angles_deg :: "latlon list \<Rightarrow> real list" where
  "turn_angles_deg ps =
     (if length ps < 3 then []
      else map (\<lambda>d. min \<bar>d\<bar> (360 - \<bar>d\<bar>))
             (np_diff (map (\<lambda>i. bearing_deg (ps ! i) (ps ! (i + 1))) [0..<length ps - 1])))"

definition closes_loop :: "latlon list \<Rightarrow> real \<Rightarrow> bool" where
  "closes_loop ps tolerance_m \<longleftrightarrow> 2 \<le> length ps \<and> haversine_m (hd ps) (last ps) \<le> tolerance_m"

text \<open>GeoJSON order on the wire, \<open>[lon, lat]\<close>, in and out.\<close>

definition to_lonlat_pairs :: "latlon list \<Rightarrow> (real \<times> real) list" where
  "to_lonlat_pairs ps = map (\<lambda>p. (round_dec 6 (lon p), round_dec 6 (lat p))) ps"

definition from_lonlat_pairs :: "(real \<times> real) list \<Rightarrow> latlon list" where
  "from_lonlat_pairs prs = map (\<lambda>(x, y). LatLon y x) prs"

lemma np_diff_bound:
  "\<forall>x \<in> set xs. 0 \<le> x \<and> x < (m::real) \<Longrightarrow> d \<in> set (np_diff xs) \<Longrightarrow> \<bar>d\<bar> < m"
  by (induction xs rule: np_diff.induct) auto

lemma turn_angles_range: "a \<in> set (turn_angles_deg ps) \<Longrightarrow> 0 \<le> a \<and> a \<le> 180"
proof -
  assume a: "a \<in> set (turn_angles_deg ps)"
  let ?bs = "map (\<lambda>i. bearing_deg (ps ! i) (ps ! (i + 1))) [0..<length ps - 1]"
  have "\<forall>x \<in> set ?bs. 0 \<le> x \<and> x < 360" using bearing_range by auto
  moreover obtain d where "d \<in> set (np_diff ?bs)" "a = min \<bar>d\<bar> (360 - \<bar>d\<bar>)"
    using a by (auto simp: turn_angles_deg_def split: if_splits)
  ultimately show ?thesis using np_diff_bound [of ?bs 360 d] by auto
qed

text \<open>Half the equator: a path whose length evaluates, for the concrete examples.\<close>

definition equator :: "latlon list" where
  "equator = [LatLon 0 0, LatLon 0 180]"

lemma equator_length: "segment_lengths_m equator = [pi * EARTH_RADIUS_M]"
  by (simp add: equator_def hav_h_def radians_def)

lemma equator_positive [simp]: "0 < pi * EARTH_RADIUS_M"
  by (simp add: EARTH_RADIUS_M_def)

text \<open>
  Points a given number of metres up the zero meridian: their distances are exact, so short
  routes of known length can be written down. \<open>lin_interp\<close> is a function that behaves as
  \<open>np.interp\<close> is documented to.
\<close>

definition metre_mark :: "real \<Rightarrow> latlon" where
  "metre_mark m = LatLon (m * 180 / (pi * EARTH_RADIUS_M)) 0"

fun lin_interp :: "real list \<Rightarrow> real list \<Rightarrow> real \<Rightarrow> real" where
  "lin_interp (x0 # x1 # xs) (y0 # y1 # ys) x =
     (if x \<le> x0 then y0
      else if x \<le> x1 then y0 + (y1 - y0) * (x - x0) / (x1 - x0)
      else lin_interp (x1 # xs) (y1 # ys) x)"
| "lin_interp _ (y0 # _) x = y0"
| "lin_interp _ [] x = 0"

lemma metre_mark_distance:
  assumes "a \<le> b" "b - a \<le> 1000000"
  shows "2 * EARTH_RADIUS_M * arcsin (sqrt (min 1 (hav_h (metre_mark a) (metre_mark b)))) = b - a"
proof -
  let ?x = "(b - a) / (2 * EARTH_RADIUS_M)"
  have rad: "radians (m * 180 / (pi * EARTH_RADIUS_M)) = m / EARTH_RADIUS_M" for m
    by (simp add: radians_def EARTH_RADIUS_M_def)
  have d: "(b / EARTH_RADIUS_M - a / EARTH_RADIUS_M) / 2 = ?x"
    by (simp add: diff_divide_distrib)
  have h: "hav_h (metre_mark a) (metre_mark b) = sin ?x ^ 2"
    unfolding hav_h_def metre_mark_def latlon.sel Let_def rad d by (simp add: radians_def)
  have x: "0 \<le> ?x" "?x \<le> 1"
    using assms by (simp_all add: EARTH_RADIUS_M_def)
  have "?x \<le> pi / 2" using x pi_ge_two by linarith
  have s: "0 \<le> sin ?x" "sin ?x \<le> 1" using x pi_ge_two by (auto intro!: sin_ge_zero)
  then have "min 1 (sin ?x ^ 2) = sin ?x ^ 2"
    by (meson min.absorb2 power_le_one)
  then have "sqrt (min 1 (sin ?x ^ 2)) = sin ?x" using s(1) by simp
  moreover have "arcsin (sin ?x) = ?x"
    using x \<open>?x \<le> pi / 2\<close> by (intro arcsin_sin) linarith+
  ultimately show ?thesis unfolding h by (simp add: EARTH_RADIUS_M_def)
qed

definition forty_metres :: "latlon list" where
  "forty_metres = [metre_mark 0, metre_mark 20, metre_mark 40]"

lemma forty_metres_lengths: "segment_lengths_m forty_metres = [20, 20]"
  unfolding forty_metres_def segment_lengths_m.simps
  by (simp add: metre_mark_distance del: arcsin_sin)

lemma forty_metres_cumulative: "cumulative_distance_m forty_metres = [0, 20, 40]"
  unfolding cumulative_distance_m_def forty_metres_lengths by (simp add: forty_metres_def)

lemma forty_metres_length [simp]: "length forty_metres = 3"
  by (simp add: forty_metres_def)

end
