(* ===== verification/Scenery.thy ===== *)
theory Scenery
  imports Geometry
begin

text \<open>
  The second half of backend/geometry.py: the tag tables, the length-weighted mean over the
  spans of a route, the blends and the route's geometry scores. \<open>None\<close> means "not measured"
  throughout and is never turned into a number.
\<close>

section \<open>Constants and tables\<close>

definition WEIGHT_CLIP :: real where "WEIGHT_CLIP = 0.45"
definition WEIGHT_NATURALNESS :: real where "WEIGHT_NATURALNESS = 0.20"
definition WEIGHT_CURVINESS :: real where "WEIGHT_CURVINESS = 0.20"
definition WEIGHT_ELEVATION :: real where "WEIGHT_ELEVATION = 0.15"
definition CURVINESS_SATURATION_DEG_PER_100M :: real where "CURVINESS_SATURATION_DEG_PER_100M = 45"
definition ELEVATION_SATURATION_M :: real where "ELEVATION_SATURATION_M = 15"
definition MIN_SCORABLE_LENGTH_M :: real where "MIN_SCORABLE_LENGTH_M = 50"
definition CANOPY_ROAD_CLASS_WEIGHT :: real where "CANOPY_ROAD_CLASS_WEIGHT = 0.60"
definition CANOPY_SURFACE_WEIGHT :: real where "CANOPY_SURFACE_WEIGHT = 0.40"
definition QUIET_ROAD_CLASS_WEIGHT :: real where "QUIET_ROAD_CLASS_WEIGHT = 0.75"
definition QUIET_SURFACE_WEIGHT :: real where "QUIET_SURFACE_WEIGHT = 0.25"

lemmas weight_defs =
  WEIGHT_CLIP_def WEIGHT_NATURALNESS_def WEIGHT_CURVINESS_def WEIGHT_ELEVATION_def
  CANOPY_ROAD_CLASS_WEIGHT_def CANOPY_SURFACE_WEIGHT_def QUIET_ROAD_CLASS_WEIGHT_def
  QUIET_SURFACE_WEIGHT_def

definition ROAD_CLASS_NATURALNESS :: "(string \<times> real) list" where
  "ROAD_CLASS_NATURALNESS =
    [(''PATH'', 1.00),
     (''TRACK'', 0.95),
     (''BRIDLEWAY'', 0.95),
     (''FOOTWAY'', 0.75),
     (''CYCLEWAY'', 0.70),
     (''PEDESTRIAN'', 0.60),
     (''STEPS'', 0.60),
     (''LIVING_STREET'', 0.55),
     (''RESIDENTIAL'', 0.40),
     (''SERVICE'', 0.35),
     (''UNCLASSIFIED'', 0.35),
     (''ROAD'', 0.30),
     (''TERTIARY'', 0.25),
     (''SECONDARY'', 0.15),
     (''PRIMARY'', 0.08),
     (''TRUNK'', 0.02),
     (''MOTORWAY'', 0.00)]"

definition SURFACE_NATURALNESS :: "(string \<times> real) list" where
  "SURFACE_NATURALNESS =
    [(''GROUND'', 1.00),
     (''DIRT'', 1.00),
     (''EARTH'', 1.00),
     (''GRASS'', 1.00),
     (''SAND'', 0.90),
     (''WOOD'', 0.90),
     (''FINE_GRAVEL'', 0.80),
     (''GRAVEL'', 0.75),
     (''COMPACTED'', 0.70),
     (''COBBLESTONE'', 0.45),
     (''PAVING_STONES'', 0.40),
     (''UNPAVED'', 0.80),
     (''CONCRETE'', 0.20),
     (''ASPHALT'', 0.15),
     (''PAVED'', 0.20)]"

definition ROAD_CLASS_AIR_PROXY :: "(string \<times> real) list" where
  "ROAD_CLASS_AIR_PROXY =
    [(''MOTORWAY'', 0.00),
     (''TRUNK'', 0.05),
     (''PRIMARY'', 0.15),
     (''SECONDARY'', 0.30),
     (''TERTIARY'', 0.45),
     (''ROAD'', 0.55),
     (''SERVICE'', 0.60),
     (''UNCLASSIFIED'', 0.60),
     (''RESIDENTIAL'', 0.65),
     (''LIVING_STREET'', 0.75),
     (''PEDESTRIAN'', 0.85),
     (''CYCLEWAY'', 0.85),
     (''FOOTWAY'', 0.85),
     (''STEPS'', 0.85),
     (''BRIDLEWAY'', 0.95),
     (''TRACK'', 0.95),
     (''PATH'', 1.00)]"

definition ROAD_CLASS_QUIET_PROXY :: "(string \<times> real) list" where
  "ROAD_CLASS_QUIET_PROXY =
    [(''MOTORWAY'', 0.00),
     (''TRUNK'', 0.03),
     (''PRIMARY'', 0.12),
     (''SECONDARY'', 0.28),
     (''TERTIARY'', 0.45),
     (''ROAD'', 0.55),
     (''UNCLASSIFIED'', 0.62),
     (''RESIDENTIAL'', 0.68),
     (''SERVICE'', 0.70),
     (''LIVING_STREET'', 0.85),
     (''FOOTWAY'', 0.88),
     (''CYCLEWAY'', 0.90),
     (''STEPS'', 0.90),
     (''PEDESTRIAN'', 0.92),
     (''TRACK'', 0.95),
     (''BRIDLEWAY'', 0.97),
     (''PATH'', 1.00)]"

definition SURFACE_QUIET :: "(string \<times> real) list" where
  "SURFACE_QUIET =
    [(''ASPHALT'', 1.00),
     (''GRASS'', 0.95),
     (''PAVED'', 0.95),
     (''CONCRETE'', 0.90),
     (''COMPACTED'', 0.90),
     (''GROUND'', 0.90),
     (''DIRT'', 0.90),
     (''EARTH'', 0.90),
     (''SAND'', 0.85),
     (''UNPAVED'', 0.80),
     (''FINE_GRAVEL'', 0.75),
     (''WOOD'', 0.55),
     (''GRAVEL'', 0.55),
     (''PAVING_STONES'', 0.45),
     (''COBBLESTONE'', 0.20)]"

definition ROAD_CLASS_CANOPY_PROXY :: "(string \<times> real) list" where
  "ROAD_CLASS_CANOPY_PROXY =
    [(''MOTORWAY'', 0.05),
     (''TRUNK'', 0.08),
     (''PRIMARY'', 0.15),
     (''SECONDARY'', 0.25),
     (''PEDESTRIAN'', 0.25),
     (''ROAD'', 0.35),
     (''TERTIARY'', 0.35),
     (''SERVICE'', 0.40),
     (''UNCLASSIFIED'', 0.40),
     (''CYCLEWAY'', 0.50),
     (''LIVING_STREET'', 0.50),
     (''STEPS'', 0.50),
     (''RESIDENTIAL'', 0.55),
     (''FOOTWAY'', 0.60),
     (''TRACK'', 0.80),
     (''PATH'', 0.85),
     (''BRIDLEWAY'', 0.85)]"

definition SURFACE_CANOPY_PROXY :: "(string \<times> real) list" where
  "SURFACE_CANOPY_PROXY =
    [(''SAND'', 0.20),
     (''CONCRETE'', 0.25),
     (''ASPHALT'', 0.30),
     (''PAVED'', 0.30),
     (''PAVING_STONES'', 0.30),
     (''COBBLESTONE'', 0.40),
     (''GRASS'', 0.50),
     (''GRAVEL'', 0.60),
     (''FINE_GRAVEL'', 0.60),
     (''COMPACTED'', 0.60),
     (''UNPAVED'', 0.70),
     (''WOOD'', 0.80),
     (''GROUND'', 0.85),
     (''DIRT'', 0.85),
     (''EARTH'', 0.85)]"

definition ROAD_ENVIRONMENT_COVER :: "(string \<times> real) list" where
  "ROAD_ENVIRONMENT_COVER =
    [(''TUNNEL'', 1.00),
     (''BRIDGE'', 0.10)]"

lemmas table_defs =
  ROAD_CLASS_NATURALNESS_def SURFACE_NATURALNESS_def ROAD_CLASS_AIR_PROXY_def ROAD_CLASS_QUIET_PROXY_def SURFACE_QUIET_def ROAD_CLASS_CANOPY_PROXY_def SURFACE_CANOPY_PROXY_def ROAD_ENVIRONMENT_COVER_def

text \<open>Every rating of every table is a fraction.\<close>

definition unit_table :: "(string \<times> real) list \<Rightarrow> bool" where
  "unit_table t \<longleftrightarrow> (\<forall>(k, v) \<in> set t. 0 \<le> v \<and> v \<le> 1)"

lemma unit_tables [simp]:
  "unit_table ROAD_CLASS_NATURALNESS"
  "unit_table SURFACE_NATURALNESS"
  "unit_table ROAD_CLASS_AIR_PROXY"
  "unit_table ROAD_CLASS_QUIET_PROXY"
  "unit_table SURFACE_QUIET"
  "unit_table ROAD_CLASS_CANOPY_PROXY"
  "unit_table SURFACE_CANOPY_PROXY"
  "unit_table ROAD_ENVIRONMENT_COVER"
  by (simp_all add: unit_table_def table_defs)

definition UNKNOWN_TAG_VALUES :: "string set" where
  "UNKNOWN_TAG_VALUES = {'''', ''MISSING'', ''OTHER'', ''UNKNOWN'', ''NONE''}"

text \<open>\<open>str(value)\<close>, then \<open>_normalise_tag\<close>.\<close>

fun tag_text :: "tagval \<Rightarrow> string" where
  "tag_text TagNone = ''None''"
| "tag_text (Tag s) = s"

definition normalise_tag :: "tagval \<Rightarrow> string" where
  "normalise_tag v = replace_char (CHR ''-'') (CHR ''_'') (str_upper (strip (tag_text v)))"

section \<open>The weighted mean\<close>

datatype weighted_tag_score = WTS (wts_score: "real option") (wts_coverage: real)

definition span_bounds :: "nat \<Rightarrow> span \<Rightarrow> nat \<times> nat" where
  "span_bounds n s =
     (let lo = max 0 (min (sp_start s) (int n)); hi = max lo (min (sp_end s) (int n))
      in (nat lo, nat hi))"

definition span_length :: "real list \<Rightarrow> span \<Rightarrow> real" where
  "span_length lens s = (let (lo, hi) = span_bounds (length lens) s in sum_list (slice lo hi lens))"

fun wts_loop :: "real list \<Rightarrow> (string \<times> real) list \<Rightarrow> span list \<Rightarrow> real \<times> real \<Rightarrow> real \<times> real" where
  "wts_loop lens table [] acc = acc"
| "wts_loop lens table (s # ss) (sl, ws) =
     (let len = span_length lens s; key = normalise_tag (sp_value s)
      in if len \<le> 0 then wts_loop lens table ss (sl, ws)
         else if key \<in> UNKNOWN_TAG_VALUES then wts_loop lens table ss (sl, ws)
         else case map_of table key of
             None \<Rightarrow> wts_loop lens table ss (sl, ws)
           | Some v \<Rightarrow> wts_loop lens table ss (sl + len, ws + v * len))"

text \<open>
  \<open>weighted_tag_score\<close>, on the segment lengths it computes first; \<open>spans\<close> is \<open>None\<close> when the
  route carries no such detail.
\<close>

definition weighted_tag_score_lens ::
    "real list \<Rightarrow> span list option \<Rightarrow> (string \<times> real) list \<Rightarrow> weighted_tag_score" where
  "weighted_tag_score_lens lens spans table =
     (let tot = sum_list lens; ss = (case spans of None \<Rightarrow> [] | Some ss \<Rightarrow> ss)
      in if ss = [] \<or> tot \<le> 0 then WTS None 0
         else let (scored_length, weighted_sum) = wts_loop lens table ss (0, 0)
              in if scored_length \<le> 0 then WTS None 0
                 else WTS (Some (weighted_sum / scored_length)) (min 1 (scored_length / tot)))"

definition weighted_tag_score ::
    "latlon list \<Rightarrow> span list option \<Rightarrow> (string \<times> real) list \<Rightarrow> weighted_tag_score" where
  "weighted_tag_score ps spans table = weighted_tag_score_lens (segment_lengths_m ps) spans table"

lemma map_of_unit_table:
  "unit_table t \<Longrightarrow> map_of t k = Some v \<Longrightarrow> 0 \<le> v \<and> v \<le> 1"
  by (auto simp: unit_table_def dest!: map_of_SomeD)

text \<open>The loop invariant: the scored length grows, and the sum stays between 0 and it.\<close>

lemma wts_loop_bounds:
  assumes "unit_table table" and "wts_loop lens table ss (sl, ws) = (sl', ws')"
    and "0 \<le> ws" and "ws \<le> sl"
  shows "0 \<le> ws' \<and> ws' \<le> sl' \<and> sl \<le> sl'"
  using assms(2-4)
proof (induction ss arbitrary: sl ws)
  case Nil
  then show ?case by simp
next
  case (Cons s ss)
  let ?len = "span_length lens s" and ?key = "normalise_tag (sp_value s)"
  show ?case
  proof (cases "?len \<le> 0 \<or> ?key \<in> UNKNOWN_TAG_VALUES \<or> map_of table ?key = None")
    case True
    then show ?thesis using Cons.prems Cons.IH by (auto simp: Let_def split: if_splits)
  next
    case False
    then obtain v where v: "map_of table ?key = Some v" "0 < ?len" "?key \<notin> UNKNOWN_TAG_VALUES"
      by auto
    have u: "0 \<le> v" "v \<le> 1" using map_of_unit_table [OF assms(1) v(1)] by auto
    have vl: "0 \<le> v * ?len" "v * ?len \<le> ?len"
      using u v(2) by (simp_all add: mult_left_le_one_le)
    have "wts_loop lens table ss (sl + ?len, ws + v * ?len) = (sl', ws')"
      using Cons.prems(1) v by (simp add: Let_def)
    from Cons.IH [OF this] show ?thesis using Cons.prems(2,3) vl v(2) by linarith
  qed
qed

lemma weighted_tag_score_lens_unit:
  assumes "unit_table table"
  shows "0 \<le> wts_coverage (weighted_tag_score_lens lens spans table)
       \<and> wts_coverage (weighted_tag_score_lens lens spans table) \<le> 1
       \<and> pred_option (\<lambda>x. 0 \<le> x \<and> x \<le> 1) (wts_score (weighted_tag_score_lens lens spans table))"
proof -
  define ss where "ss = (case spans of None \<Rightarrow> [] | Some ss \<Rightarrow> ss)"
  obtain sl ws where r: "wts_loop lens table ss (0, 0) = (sl, ws)" by fastforce
  have b: "0 \<le> ws" "ws \<le> sl" using wts_loop_bounds [OF assms r] by auto
  show ?thesis
  proof (cases "ss = [] \<or> sum_list lens \<le> 0 \<or> sl \<le> 0")
    case True
    then show ?thesis using r by (auto simp: weighted_tag_score_lens_def ss_def [symmetric] Let_def)
  next
    case False
    then have "0 \<le> ws / sl" "ws / sl \<le> 1" "0 \<le> sl / sum_list lens" using b by auto
    then show ?thesis using False r
      by (auto simp: weighted_tag_score_lens_def ss_def [symmetric] Let_def)
  qed
qed

lemmas weighted_tag_score_unit =
  weighted_tag_score_lens_unit [of _ "segment_lengths_m ps" for ps, folded weighted_tag_score_def]

text \<open>A span whose value says nothing, or whose value the table does not rate, is invisible.\<close>

definition rated :: "(string \<times> real) list \<Rightarrow> span \<Rightarrow> bool" where
  "rated table s \<longleftrightarrow> normalise_tag (sp_value s) \<notin> UNKNOWN_TAG_VALUES
     \<and> map_of table (normalise_tag (sp_value s)) \<noteq> None"

lemma wts_loop_filter: "wts_loop lens table (filter (rated table) ss) acc = wts_loop lens table ss acc"
proof (induction ss arbitrary: acc)
  case (Cons s ss)
  obtain sl ws where "acc = (sl, ws)" by fastforce
  then show ?case using Cons by (auto simp: rated_def Let_def split: option.splits)
qed simp

lemma weighted_tag_score_lens_filter:
  "weighted_tag_score_lens lens (Some (filter (rated table) ss)) table
     = weighted_tag_score_lens lens (Some ss) table"
proof (cases "filter (rated table) ss = []")
  case True
  then have "wts_loop lens table ss (0, 0) = (0, 0)"
    by (metis wts_loop.simps(1) wts_loop_filter)
  then show ?thesis using True by (simp add: weighted_tag_score_lens_def Let_def)
next
  case False
  then have "ss \<noteq> []" by auto
  then show ?thesis using False by (simp add: weighted_tag_score_lens_def Let_def wts_loop_filter)
qed

section \<open>Shape terms\<close>

definition curviness :: "latlon list \<Rightarrow> real" where
  "curviness ps =
     (let distance = path_length_m ps
      in if distance < MIN_SCORABLE_LENGTH_M then 0
         else let total_turn = sum_list (turn_angles_deg ps);
                  per_100m = total_turn / (distance / 100)
              in clamp 0 1 (per_100m / CURVINESS_SATURATION_DEG_PER_100M))"

text \<open>\<open>arr.std()\<close>; a real is always finite, so the \<open>isfinite\<close> guard never fires.\<close>

definition np_mean :: "real list \<Rightarrow> real" where
  "np_mean xs = sum_list xs / real (length xs)"

definition np_std :: "real list \<Rightarrow> real" where
  "np_std xs = sqrt (np_mean (map (\<lambda>x. (x - np_mean xs) ^ 2) xs))"

definition elevation_variance :: "real list option \<Rightarrow> real option" where
  "elevation_variance elevations =
     (case elevations of
        None \<Rightarrow> None
      | Some es \<Rightarrow> if length es < 3 then None else Some (clamp 0 1 (np_std es / ELEVATION_SATURATION_M)))"

lemma curviness_unit: "0 \<le> curviness ps \<and> curviness ps \<le> 1"
  using clamp_bounds [of 0 "1::real"] by (auto simp: curviness_def Let_def)

section \<open>Blending optional terms\<close>

definition blend_terms :: "real option \<Rightarrow> real \<Rightarrow> real option \<Rightarrow> real \<Rightarrow> real option" where
  "blend_terms fst_t w1 snd_t w2 =
     (case (fst_t, snd_t) of
        (None, None) \<Rightarrow> None
      | (None, Some b) \<Rightarrow> Some b
      | (Some a, None) \<Rightarrow> Some a
      | (Some a, Some b) \<Rightarrow> Some ((a * w1 + b * w2) / (w1 + w2)))"

abbreviation unit_opt :: "real option \<Rightarrow> bool" where
  "unit_opt \<equiv> pred_option (\<lambda>x. 0 \<le> x \<and> x \<le> 1)"

lemma convex_unit:
  assumes "0 \<le> a" "a \<le> 1" "0 \<le> b" "b \<le> (1::real)" "0 < w1" "0 < w2"
  shows "0 \<le> (a * w1 + b * w2) / (w1 + w2) \<and> (a * w1 + b * w2) / (w1 + w2) \<le> 1"
proof -
  have "a * w1 \<le> w1" "b * w2 \<le> w2" "0 \<le> a * w1" "0 \<le> b * w2"
    using assms by (simp_all add: mult_left_le_one_le)
  then have "0 \<le> a * w1 + b * w2" "a * w1 + b * w2 \<le> w1 + w2" by linarith+
  then show ?thesis using assms by simp
qed

lemma blend_terms_unit:
  "unit_opt a \<Longrightarrow> unit_opt b \<Longrightarrow> 0 < w1 \<Longrightarrow> 0 < w2 \<Longrightarrow> unit_opt (blend_terms a w1 b w2)"
  using convex_unit by (auto simp: blend_terms_def split: option.splits)

section \<open>The route's geometry scores\<close>

record geometry_scores =
  g_scenic :: real
  g_air :: "real option"
  g_curviness :: real
  g_elevation_variance :: "real option"
  g_naturalness :: "real option"
  g_tag_coverage :: real
  g_has_elevation :: bool
  g_quiet :: "real option"
  g_shade_cover :: "real option"

type_synonym details = "string \<rightharpoonup> span list"

definition naturalness_of :: "real option \<Rightarrow> real option \<Rightarrow> real option" where
  "naturalness_of road_class surface =
     (case (road_class, surface) of
        (Some a, Some b) \<Rightarrow> Some (0.65 * a + 0.35 * b)
      | (Some a, None) \<Rightarrow> Some a
      | (None, b) \<Rightarrow> b)"

definition shade_cover_of :: "real option \<Rightarrow> weighted_tag_score \<Rightarrow> real option" where
  "shade_cover_of canopy cover =
     (case (canopy, wts_score cover) of
        (None, c) \<Rightarrow> c
      | (Some a, None) \<Rightarrow> Some a
      | (Some a, Some c) \<Rightarrow> Some (a * (1 - wts_coverage cover) + c * wts_coverage cover))"

definition scenic_terms ::
    "real \<Rightarrow> real option \<Rightarrow> real option \<Rightarrow> real option \<Rightarrow> (real \<times> real) list" where
  "scenic_terms curve clip_score naturalness elevation =
     [(WEIGHT_CURVINESS, curve)]
     @ (case clip_score of None \<Rightarrow> [] | Some c \<Rightarrow> [(WEIGHT_CLIP, c)])
     @ (case naturalness of None \<Rightarrow> [] | Some n \<Rightarrow> [(WEIGHT_NATURALNESS, n)])
     @ (case elevation of None \<Rightarrow> [] | Some e \<Rightarrow> [(WEIGHT_ELEVATION, e)])"

definition renormalised :: "(real \<times> real) list \<Rightarrow> real" where
  "renormalised terms =
     (let weight_total = sum_list (map fst terms)
      in if 0 < weight_total then sum_list (map (\<lambda>(w, v). w * v) terms) / weight_total else 0)"

definition score_geometry ::
    "latlon list \<Rightarrow> real list option \<Rightarrow> details option \<Rightarrow> real option \<Rightarrow> geometry_scores" where
  "score_geometry ps elevations details_opt clip_score =
     (let details = (case details_opt of None \<Rightarrow> Map.empty | Some d \<Rightarrow> d);
          class_spans = details ''road_class'';
          surface_spans = details ''surface'';
          road_class = weighted_tag_score ps class_spans ROAD_CLASS_NATURALNESS;
          surface = weighted_tag_score ps surface_spans SURFACE_NATURALNESS;
          air = weighted_tag_score ps class_spans ROAD_CLASS_AIR_PROXY;
          naturalness = naturalness_of (wts_score road_class) (wts_score surface);
          quiet = blend_terms
            (wts_score (weighted_tag_score ps class_spans ROAD_CLASS_QUIET_PROXY)) QUIET_ROAD_CLASS_WEIGHT
            (wts_score (weighted_tag_score ps surface_spans SURFACE_QUIET)) QUIET_SURFACE_WEIGHT;
          canopy = blend_terms
            (wts_score (weighted_tag_score ps class_spans ROAD_CLASS_CANOPY_PROXY)) CANOPY_ROAD_CLASS_WEIGHT
            (wts_score (weighted_tag_score ps surface_spans SURFACE_CANOPY_PROXY)) CANOPY_SURFACE_WEIGHT;
          cover = weighted_tag_score ps (details ''road_environment'') ROAD_ENVIRONMENT_COVER;
          shade_cover = shade_cover_of canopy cover;
          curve = curviness ps;
          elevation = (if elevations = None \<or> elevations = Some [] then None
                       else elevation_variance elevations);
          scenic = renormalised (scenic_terms curve clip_score naturalness elevation)
      in \<lparr>g_scenic = round_dec 4 (clamp 0 1 scenic),
          g_air = map_option (round_dec 4) (wts_score air),
          g_curviness = round_dec 4 curve,
          g_elevation_variance = map_option (round_dec 4) elevation,
          g_naturalness = map_option (round_dec 4) naturalness,
          g_tag_coverage = round_dec 4 (max (wts_coverage road_class) (wts_coverage surface)),
          g_has_elevation = (elevation \<noteq> None),
          g_quiet = map_option (\<lambda>q. round_dec 4 (clamp 0 1 q)) quiet,
          g_shade_cover = map_option (\<lambda>c. round_dec 4 (clamp 0 1 c)) shade_cover\<rparr>)"

text \<open>
  A weighted mean lies between the least and the greatest term, so a missing CLIP score, missing
  tags or missing elevation only renormalise: they cannot push the score out of the range the
  measured terms span.
\<close>

lemma weighted_sum_between:
  fixes terms :: "(real \<times> real) list"
  assumes "\<forall>(w, v) \<in> set terms. 0 \<le> w \<and> lo \<le> v \<and> v \<le> hi"
  shows "lo * sum_list (map fst terms) \<le> sum_list (map (\<lambda>(w, v). w * v) terms)
       \<and> sum_list (map (\<lambda>(w, v). w * v) terms) \<le> hi * sum_list (map fst terms)"
  using assms
proof (induction terms)
  case (Cons t terms)
  obtain w v where t: "t = (w, v)" by fastforce
  have "w * lo \<le> w * v" "w * v \<le> w * hi" using Cons.prems t by (auto intro: mult_left_mono)
  then show ?case using Cons t by (auto simp: algebra_simps)
qed simp

lemma renormalised_between:
  assumes "\<forall>(w, v) \<in> set terms. 0 \<le> w \<and> lo \<le> v \<and> v \<le> hi" and "0 < sum_list (map fst terms)"
  shows "lo \<le> renormalised terms \<and> renormalised terms \<le> hi"
  using weighted_sum_between [OF assms(1)] assms(2)
  by (auto simp: renormalised_def Let_def pos_le_divide_eq pos_divide_le_eq mult.commute)

lemma scenic_terms_weight: "0 < sum_list (map fst (scenic_terms c clip n e))"
  by (auto simp: scenic_terms_def weight_defs split: option.splits)

lemma unit_opt_naturalness: "unit_opt a \<Longrightarrow> unit_opt b \<Longrightarrow> unit_opt (naturalness_of a b)"
  by (auto simp: naturalness_of_def split: option.splits)

lemma unit_opt_round: "unit_opt x \<Longrightarrow> unit_opt (map_option (round_dec 4) x)"
  using round_dec_unit by (cases x) auto

lemma unit_opt_round_clamp: "unit_opt (map_option (\<lambda>q. round_dec 4 (clamp 0 1 q)) x)"
  using round_dec_unit clamp_bounds [of 0 "1::real"] by (cases x) auto

lemma elevation_variance_unit: "unit_opt (elevation_variance es)"
  using clamp_bounds [of 0 "1::real"] by (auto simp: elevation_variance_def split: option.splits)

definition unit_scores :: "geometry_scores \<Rightarrow> bool" where
  "unit_scores g \<longleftrightarrow>
     0 \<le> g_scenic g \<and> g_scenic g \<le> 1 \<and> unit_opt (g_air g) \<and> 0 \<le> g_curviness g \<and> g_curviness g \<le> 1
     \<and> unit_opt (g_elevation_variance g) \<and> unit_opt (g_naturalness g)
     \<and> 0 \<le> g_tag_coverage g \<and> g_tag_coverage g \<le> 1
     \<and> unit_opt (g_quiet g) \<and> unit_opt (g_shade_cover g)"

lemma round_dec_unitD:
  "0 \<le> x \<Longrightarrow> x \<le> 1 \<Longrightarrow> 0 \<le> round_dec n x" "0 \<le> x \<Longrightarrow> x \<le> 1 \<Longrightarrow> round_dec n x \<le> 1"
  using round_dec_unit by auto

lemma clamp_unitD: "0 \<le> clamp 0 1 (x::real)" "clamp 0 1 (x::real) \<le> 1"
  using clamp_bounds [of 0 "1::real"] by auto

lemma max_unitD: "0 \<le> x \<Longrightarrow> 0 \<le> max x (y::real)" "x \<le> 1 \<Longrightarrow> y \<le> 1 \<Longrightarrow> max x (y::real) \<le> 1"
  by auto

lemmas curviness_unitD = curviness_unit [THEN conjunct1] curviness_unit [THEN conjunct2]

lemma weighted_tag_scoreD:
  "unit_table t \<Longrightarrow> unit_opt (wts_score (weighted_tag_score ps sp t))"
  "unit_table t \<Longrightarrow> 0 \<le> wts_coverage (weighted_tag_score ps sp t)"
  "unit_table t \<Longrightarrow> wts_coverage (weighted_tag_score ps sp t) \<le> 1"
  using weighted_tag_score_unit by auto

lemma score_geometry_unit: "unit_scores (score_geometry ps es ds clip)"
proof -
  have e: "unit_opt (if es = None \<or> es = Some [] then None else elevation_variance es)"
    by (simp add: elevation_variance_unit)
  show ?thesis
    unfolding unit_scores_def score_geometry_def Let_def geometry_scores.simps
    by (intro conjI unit_opt_round_clamp unit_opt_round unit_opt_naturalness weighted_tag_scoreD
        unit_tables e round_dec_unitD clamp_unitD max_unitD curviness_unitD)
qed

end
