(* ===== verification/Accessibility.thy ===== *)
theory Accessibility
  imports Scenery
begin

text \<open>
  backend/accessibility.py: the three-valued verdict, the hard constraints as sets, the
  per-value checks, the span walk, the gradient check and the whole-route assessment.

  \<open>np.interp\<close> is the one numpy routine here that is more than list arithmetic: it is a
  parameter (\<open>interp\<close>) of the resampling and of everything above it.
\<close>

section \<open>Verdicts and constraint tables\<close>

datatype verdict = PASS | FAIL | UNKNOWN

text \<open>
  The verdicts in the order of what they let a person do. The code has no such order (its enumeration
  only compares for equality); it is what "more data can only lower a verdict" is said with.
\<close>

fun verdict_rank :: "verdict \<Rightarrow> nat" where
  "verdict_rank FAIL = 0" | "verdict_rank UNKNOWN = 1" | "verdict_rank PASS = 2"

lemma verdict_rank_inj: "verdict_rank v = verdict_rank w \<longleftrightarrow> v = w"
  by (cases v; cases w) auto

instantiation verdict :: linorder
begin

definition less_eq_verdict :: "verdict \<Rightarrow> verdict \<Rightarrow> bool" where
  "less_eq_verdict v w = (verdict_rank v \<le> verdict_rank w)"

definition less_verdict :: "verdict \<Rightarrow> verdict \<Rightarrow> bool" where
  "less_verdict v w = (verdict_rank v < verdict_rank w)"

instance
  by standard (auto simp: less_eq_verdict_def less_verdict_def verdict_rank_inj)

end

lemma verdict_le_cases: "v \<le> (w :: verdict) \<longleftrightarrow> v = FAIL \<or> w = PASS \<or> v = w"
  by (cases v; cases w) (simp_all add: less_eq_verdict_def)

text \<open>\<open>Verdict.__bool__\<close>: truth testing is an error, for every member.\<close>

datatype truth_error = TypeError

definition verdict_bool :: "verdict \<Rightarrow> (truth_error, bool) result" where
  "verdict_bool v = Inl TypeError"

definition ACCEPTABLE_SURFACES :: "string set" where
  "ACCEPTABLE_SURFACES =
     {''PAVED'', ''ASPHALT'', ''CONCRETE'', ''PAVING_STONES'', ''COMPACTED''}"

definition REJECTED_SURFACES :: "string set" where
  "REJECTED_SURFACES =
     {''GRAVEL'', ''FINE_GRAVEL'', ''GROUND'', ''DIRT'', ''EARTH'', ''GRASS'', ''SAND'',
      ''MUD'', ''WOOD'', ''COBBLESTONE'', ''SETT'', ''UNHEWN_COBBLESTONE'', ''PEBBLESTONE'',
      ''UNPAVED'', ''METAL_GRID'', ''WOODCHIPS'', ''SNOW'', ''ICE''}"

definition REJECTED_SMOOTHNESS :: "string set" where
  "REJECTED_SMOOTHNESS = {''BAD'', ''VERY_BAD'', ''HORRIBLE'', ''VERY_HORRIBLE'', ''IMPASSABLE''}"

definition ACCEPTED_SMOOTHNESS :: "string set" where
  "ACCEPTED_SMOOTHNESS = {''EXCELLENT'', ''GOOD'', ''INTERMEDIATE''}"

definition REJECTED_BARRIERS :: "string set" where
  "REJECTED_BARRIERS = {''GATE'', ''STILE'', ''TURNSTILE'', ''KISSING_GATE''}"

definition ACCEPTED_BARRIERS :: "string set" where
  "ACCEPTED_BARRIERS = {''NO'', ''NONE'', ''ENTRANCE''}"

definition BARRIER_VALUES_WITH_A_VERDICT :: "string set" where
  "BARRIER_VALUES_WITH_A_VERDICT = REJECTED_BARRIERS \<union> ACCEPTED_BARRIERS"

definition REJECTED_ROAD_CLASSES :: "string set" where
  "REJECTED_ROAD_CLASSES = {''STEPS''}"

definition UNKNOWN_VALUES :: "string set" where
  "UNKNOWN_VALUES = {'''', ''MISSING'', ''UNKNOWN'', ''OTHER'', ''NONE'', ''NULL''}"

definition MAX_INCLINE_PCT :: real where "MAX_INCLINE_PCT = 8"
definition SUSTAINED_INCLINE_PCT :: real where "SUSTAINED_INCLINE_PCT = 5"
definition SUSTAINED_INCLINE_OVER_M :: real where "SUSTAINED_INCLINE_OVER_M = 50"
definition INCLINE_SMOOTHING_WINDOW_M :: real where "INCLINE_SMOOTHING_WINDOW_M = 20"
definition LOW_CONFIDENCE_THRESHOLD :: real where "LOW_CONFIDENCE_THRESHOLD = 0.6"
definition VERY_LOW_CONFIDENCE_THRESHOLD :: real where "VERY_LOW_CONFIDENCE_THRESHOLD = 0.3"

lemmas constraint_sets =
  ACCEPTABLE_SURFACES_def REJECTED_SURFACES_def REJECTED_SMOOTHNESS_def ACCEPTED_SMOOTHNESS_def
  REJECTED_BARRIERS_def ACCEPTED_BARRIERS_def REJECTED_ROAD_CLASSES_def UNKNOWN_VALUES_def

lemmas incline_constants =
  MAX_INCLINE_PCT_def SUSTAINED_INCLINE_PCT_def SUSTAINED_INCLINE_OVER_M_def
  INCLINE_SMOOTHING_WINDOW_M_def

section \<open>Per-value checks\<close>

definition normalise :: "tagval \<Rightarrow> string" where
  "normalise v =
     replace_char (CHR '' '') (CHR ''_'')
       (replace_char (CHR ''-'') (CHR ''_'') (str_upper (strip (tag_text v))))"

definition is_unknown :: "tagval \<Rightarrow> bool" where
  "is_unknown v \<longleftrightarrow> v = TagNone \<or> normalise v \<in> UNKNOWN_VALUES"

definition assess_surface :: "tagval \<Rightarrow> verdict" where
  "assess_surface v =
     (if is_unknown v then UNKNOWN
      else let key = normalise v
        in if key \<in> ACCEPTABLE_SURFACES then PASS
           else if key \<in> REJECTED_SURFACES then FAIL
           else UNKNOWN)"

definition assess_smoothness :: "tagval \<Rightarrow> verdict" where
  "assess_smoothness v =
     (if is_unknown v then UNKNOWN
      else let key = normalise v
        in if key \<in> REJECTED_SMOOTHNESS then FAIL
           else if key \<in> ACCEPTED_SMOOTHNESS then PASS
           else UNKNOWN)"

definition assess_barrier :: "tagval \<Rightarrow> verdict" where
  "assess_barrier v =
     (if is_unknown v then UNKNOWN
      else let key = normalise v
        in if key \<in> REJECTED_BARRIERS then FAIL
           else if key \<in> ACCEPTED_BARRIERS then PASS
           else UNKNOWN)"

definition assess_road_class :: "tagval \<Rightarrow> verdict" where
  "assess_road_class v =
     (if is_unknown v then UNKNOWN
      else if normalise v \<in> REJECTED_ROAD_CLASSES then FAIL
      else UNKNOWN)"

lemmas assess_defs = assess_surface_def assess_smoothness_def assess_barrier_def assess_road_class_def

text \<open>No table accepts and rejects the same value, and none rates a value that says nothing.\<close>

lemma constraint_tables_disjoint:
  "ACCEPTABLE_SURFACES \<inter> REJECTED_SURFACES = {}"
  "ACCEPTED_SMOOTHNESS \<inter> REJECTED_SMOOTHNESS = {}"
  "ACCEPTED_BARRIERS \<inter> REJECTED_BARRIERS = {}"
  "(ACCEPTABLE_SURFACES \<union> REJECTED_SURFACES) \<inter> UNKNOWN_VALUES = {}"
  "(ACCEPTED_SMOOTHNESS \<union> REJECTED_SMOOTHNESS) \<inter> UNKNOWN_VALUES = {}"
  "REJECTED_BARRIERS \<inter> UNKNOWN_VALUES = {}"
  "REJECTED_ROAD_CLASSES \<inter> UNKNOWN_VALUES = {}"
  by (auto simp: constraint_sets)

section \<open>Walking the spans\<close>

datatype finding = Finding
  (f_type: string) (f_lat: real) (f_lon: real) (f_description: string) (f_at_m: int)

text \<open>\<open>_HUMAN_BLOCKER_TEXT.get(finding_type, "{value}").format(value=...)\<close>.\<close>

definition blocker_text :: "string \<Rightarrow> tagval \<Rightarrow> string" where
  "blocker_text finding_type v =
     (let value = replace_char (CHR ''_'') (CHR '' '') (str_lower (tag_text v))
      in if finding_type = ''steps'' then ''Steps with no recorded step-free alternative.''
         else if finding_type = ''surface''
           then ''Surface recorded as '' @ value @ '', which is not passable.''
         else if finding_type = ''smoothness'' then ''Surface condition recorded as '' @ value @ ''.''
         else if finding_type = ''barrier'' then ''A '' @ value @ '' across the path.''
         else value)"

definition span_finding :: "latlon list \<Rightarrow> real list \<Rightarrow> real list \<Rightarrow> string \<Rightarrow> span \<Rightarrow> finding" where
  "span_finding ps lens cum finding_type s =
     (let lo = fst (span_bounds (length lens) s);
          pos = (case sp_node s of Some p \<Rightarrow> p | None \<Rightarrow> ps ! min lo (length ps - 1));
          at_m = (case sp_at_m s of Some m \<Rightarrow> m | None \<Rightarrow> cum ! min lo (length cum - 1))
      in Finding finding_type (lat pos) (lon pos) (blocker_text finding_type (sp_value s))
           (round_half_even at_m))"

fun span_loop :: "latlon list \<Rightarrow> real list \<Rightarrow> real list \<Rightarrow> (tagval \<Rightarrow> verdict) \<Rightarrow> string \<Rightarrow> span list
    \<Rightarrow> (real \<times> verdict) list \<times> finding list" where
  "span_loop ps lens cum check finding_type [] = ([], [])"
| "span_loop ps lens cum check finding_type (s # ss) =
     (let len = span_length lens s; rest = span_loop ps lens cum check finding_type ss
      in if len \<le> 0 then rest
         else let v = check (sp_value s)
              in ((len, v) # fst rest,
                  if v = FAIL then span_finding ps lens cum finding_type s # snd rest else snd rest))"

definition span_verdicts :: "latlon list \<Rightarrow> span list option \<Rightarrow> (tagval \<Rightarrow> verdict) \<Rightarrow> string
    \<Rightarrow> (real \<times> verdict) list \<times> finding list" where
  "span_verdicts ps spans check finding_type =
     (let lens = segment_lengths_m ps; ss = (case spans of None \<Rightarrow> [] | Some ss \<Rightarrow> ss)
      in if ss = [] \<or> lens = [] then ([], [])
         else span_loop ps lens (cumulative_distance_m ps) check finding_type ss)"

text \<open>The stretches a span really covers: those of positive length.\<close>

definition covers :: "latlon list \<Rightarrow> span list option \<Rightarrow> span \<Rightarrow> bool" where
  "covers ps spans s \<longleftrightarrow> (\<exists>ss. spans = Some ss \<and> s \<in> set ss) \<and> 0 < span_length (segment_lengths_m ps) s"

lemma span_loop_weighted:
  "(l, v) \<in> set (fst (span_loop ps lens cum check ft ss)) \<longleftrightarrow>
     (\<exists>s \<in> set ss. 0 < span_length lens s \<and> l = span_length lens s \<and> v = check (sp_value s))"
  by (induction ss) (auto simp: Let_def)

lemma span_loop_findings:
  "f \<in> set (snd (span_loop ps lens cum check ft ss)) \<longleftrightarrow>
     (\<exists>s \<in> set ss. 0 < span_length lens s \<and> check (sp_value s) = FAIL
        \<and> f = span_finding ps lens cum ft s)"
  by (induction ss) (auto simp: Let_def)

lemma span_length_Nil [simp]: "span_length [] s = 0"
  by (simp add: span_length_def span_bounds_def slice_def Let_def split_def)

lemma span_verdicts_weighted:
  "(l, v) \<in> set (fst (span_verdicts ps spans check ft)) \<longleftrightarrow>
     (\<exists>s. covers ps spans s \<and> l = span_length (segment_lengths_m ps) s \<and> v = check (sp_value s))"
  by (cases spans) (auto simp: span_verdicts_def covers_def Let_def span_loop_weighted)

lemma span_verdicts_findings:
  "f \<in> set (snd (span_verdicts ps spans check ft)) \<longleftrightarrow>
     (\<exists>s. covers ps spans s \<and> check (sp_value s) = FAIL
        \<and> f = span_finding ps (segment_lengths_m ps) (cumulative_distance_m ps) ft s)"
  by (cases spans) (auto simp: span_verdicts_def covers_def Let_def span_loop_findings)

lemma span_verdicts_no_findings:
  "snd (span_verdicts ps spans check ft) = [] \<longleftrightarrow> (\<forall>s. covers ps spans s \<longrightarrow> check (sp_value s) \<noteq> FAIL)"
proof -
  have "snd (span_verdicts ps spans check ft) = [] \<longleftrightarrow>
      (\<forall>f. f \<notin> set (snd (span_verdicts ps spans check ft)))" by (metis all_not_in_conv set_empty)
  then show ?thesis unfolding span_verdicts_findings by blast
qed

section \<open>The interface a constraint gives the span walk\<close>

text \<open>
  \<open>_span_verdicts\<close> takes the check as an argument. What it relies on is one law: a value nobody
  recorded is neither a pass nor a fail.
\<close>

locale tag_constraint =
  fixes check :: "tagval \<Rightarrow> verdict" and finding_type :: string
  assumes untagged: "is_unknown v \<Longrightarrow> check v = UNKNOWN"
begin

lemma untagged_spans_silent:
  assumes "\<forall>s. covers ps spans s \<longrightarrow> is_unknown (sp_value s)"
  shows "snd (span_verdicts ps spans check finding_type) = []
       \<and> (\<forall>(l, v) \<in> set (fst (span_verdicts ps spans check finding_type)). v = UNKNOWN)"
proof -
  have u: "covers ps spans s \<Longrightarrow> check (sp_value s) = UNKNOWN" for s
    using assms untagged by blast
  have "snd (span_verdicts ps spans check finding_type) = []"
    unfolding span_verdicts_no_findings using u by auto
  moreover have "\<forall>(l, v) \<in> set (fst (span_verdicts ps spans check finding_type)). v = UNKNOWN"
    using u span_verdicts_weighted by auto
  ultimately show ?thesis by blast
qed

lemma verdict_needs_a_tag:
  "(l, v) \<in> set (fst (span_verdicts ps spans check finding_type)) \<Longrightarrow> v \<noteq> UNKNOWN \<Longrightarrow>
     \<exists>s. covers ps spans s \<and> \<not> is_unknown (sp_value s) \<and> check (sp_value s) = v"
  unfolding span_verdicts_weighted using untagged by blast

end

interpretation road_class: tag_constraint assess_road_class "''steps''"
  by unfold_locales (simp add: assess_road_class_def)

interpretation surface: tag_constraint assess_surface "''surface''"
  by unfold_locales (simp add: assess_surface_def)

interpretation smoothness: tag_constraint assess_smoothness "''smoothness''"
  by unfold_locales (simp add: assess_smoothness_def)

interpretation barrier: tag_constraint assess_barrier "''barrier''"
  by unfold_locales (simp add: assess_barrier_def)

section \<open>Gradients\<close>

type_synonym interp_fn = "real list \<Rightarrow> real list \<Rightarrow> real \<Rightarrow> real"

definition resample_elevation ::
    "interp_fn \<Rightarrow> latlon list \<Rightarrow> real list \<Rightarrow> real \<Rightarrow> real list \<times> real list" where
  "resample_elevation interp ps elevations spacing_m =
     (let cum = cumulative_distance_m ps; tot = (if cum = [] then 0 else last cum)
      in if tot < spacing_m * 2 then ([], [])
         else let grid0 = arange tot spacing_m;
                  grid = (if grid0 = [] \<or> last grid0 < tot then grid0 @ [tot] else grid0)
              in (grid, map (interp cum elevations) grid))"

text \<open>\<open>np.diff(profile) / INCLINE_SMOOTHING_WINDOW_M * 100.0\<close>.\<close>

definition gradients_of :: "real list \<Rightarrow> real list" where
  "gradients_of profile = map (\<lambda>d. d / INCLINE_SMOOTHING_WINDOW_M * 100) (np_diff profile)"

text \<open>\<open>point_at\<close>: \<open>np.searchsorted\<close> counts the distances strictly before the one asked for.\<close>

definition point_at :: "latlon list \<Rightarrow> real list \<Rightarrow> real \<Rightarrow> latlon" where
  "point_at ps cum d = ps ! min (length (takeWhile (\<lambda>c. c < d) cum)) (length ps - 1)"

definition incline_finding :: "latlon list \<Rightarrow> real \<Rightarrow> string \<Rightarrow> finding" where
  "incline_finding ps at_m description =
     (let p = point_at ps (cumulative_distance_m ps) at_m
      in Finding ''incline'' (lat p) (lon p) description (round_half_even at_m))"

definition steepest_findings :: "latlon list \<Rightarrow> real list \<Rightarrow> real list \<Rightarrow> finding list" where
  "steepest_findings ps grid gradients =
     (if gradients = [] then []
      else let steepest = argmax abs gradients; g = gradients ! steepest
        in if MAX_INCLINE_PCT < \<bar>g\<bar>
           then [incline_finding ps (grid ! steepest)
                  (''A gradient of '' @ fixed_text 1 \<bar>g\<bar> @ ''% '' @ (if 0 < g then ''up'' else ''down'')
                   @ '', steeper than the '' @ fixed_text 0 MAX_INCLINE_PCT @ ''% limit.'')]
           else [])"

text \<open>\<open>np.convolve(xs, np.ones(w) / w, mode="valid")\<close>: the mean of every window of \<open>w\<close>.\<close>

definition rolling_mean :: "nat \<Rightarrow> real list \<Rightarrow> real list" where
  "rolling_mean w xs = map (\<lambda>i. sum_list (slice i (i + w) xs) / real w) [0..<Suc (length xs) - w]"

definition sustained_window :: nat where
  "sustained_window = nat (max 2 \<lfloor>SUSTAINED_INCLINE_OVER_M / INCLINE_SMOOTHING_WINDOW_M\<rfloor>)"

definition sustained_findings :: "latlon list \<Rightarrow> real list \<Rightarrow> real list \<Rightarrow> finding list" where
  "sustained_findings ps grid gradients =
     (if length gradients < sustained_window then []
      else let rolling = rolling_mean sustained_window gradients;
               worst = argmax abs rolling; r = rolling ! worst
        in if SUSTAINED_INCLINE_PCT < \<bar>r\<bar>
           then [incline_finding ps (grid ! worst)
                  (''A sustained '' @ fixed_text 1 \<bar>r\<bar> @ ''% gradient over ''
                   @ fixed_text 0 SUSTAINED_INCLINE_OVER_M @ '' m or more.'')]
           else [])"

definition incline_findings :: "interp_fn \<Rightarrow> latlon list \<Rightarrow> real list option \<Rightarrow> finding list" where
  "incline_findings interp ps elevations =
     (case elevations of
        None \<Rightarrow> []
      | Some es \<Rightarrow>
          if es = [] \<or> length es \<noteq> length ps \<or> length ps < 3 then []
          else let (grid, profile) = resample_elevation interp ps es INCLINE_SMOOTHING_WINDOW_M
            in if length grid < 3 then []
               else let gradients = gradients_of profile; steep = steepest_findings ps grid gradients
                 in if steep \<noteq> [] then steep else sustained_findings ps grid gradients)"

lemma sustained_window_2: "sustained_window = 2"
  by (simp add: sustained_window_def incline_constants)

lemma steepest_findings_Nil:
  "steepest_findings ps grid gs = [] \<longleftrightarrow> (\<forall>g \<in> set gs. \<bar>g\<bar> \<le> MAX_INCLINE_PCT)"
proof (cases "gs = []")
  case False
  have "steepest_findings ps grid gs = [] \<longleftrightarrow> \<not> MAX_INCLINE_PCT < \<bar>gs ! argmax abs gs\<bar>"
    using False by (simp add: steepest_findings_def Let_def)
  then show ?thesis unfolding argmax_exceeds [OF False] by (simp add: not_less)
qed (simp add: steepest_findings_def)

lemma resample_lengths:
  "resample_elevation interp ps es sp = (grid, profile) \<Longrightarrow> length profile = length grid"
  by (auto simp: resample_elevation_def Let_def split: if_splits)

lemma length_gradients [simp]: "length (gradients_of profile) = length profile - 1"
  by (simp add: gradients_of_def)

section \<open>The whole route\<close>

record route_accessibility =
  ra_verdict :: verdict
  ra_findings :: "finding list"
  ra_coverage :: real
  ra_pass_fraction :: real
  ra_fail_fraction :: real
  ra_unknown_fraction :: real
  ra_barriers_checked :: bool

text \<open>\<open>(details or {}).get(k)\<close>.\<close>

definition spans_of :: "details option \<Rightarrow> string \<Rightarrow> span list option" where
  "spans_of d k = (case d of None \<Rightarrow> None | Some m \<Rightarrow> m k)"

fun tally :: "(real \<times> verdict) list \<Rightarrow> real \<times> real \<times> real \<Rightarrow> real \<times> real \<times> real" where
  "tally [] acc = acc"
| "tally ((len, v) # rest) (definite, passed, failed) =
     (if v = UNKNOWN then tally rest (definite, passed, failed)
      else if v = PASS then tally rest (definite + len, passed + len, failed)
      else tally rest (definite + len, passed, failed + len))"

definition assess_route ::
    "interp_fn \<Rightarrow> latlon list \<Rightarrow> real list option \<Rightarrow> details option \<Rightarrow> details option
     \<Rightarrow> route_accessibility" where
  "assess_route interp ps elevations details_opt osm_tags =
     (let barrier_spans = spans_of osm_tags ''barrier'';
          barriers_checked = (barrier_spans \<noteq> None);
          tot = sum_list (segment_lengths_m ps)
      in if tot \<le> 0 \<or> length ps < 2
         then \<lparr>ra_verdict = UNKNOWN, ra_findings = [], ra_coverage = 0, ra_pass_fraction = 0,
               ra_fail_fraction = 0, ra_unknown_fraction = 1, ra_barriers_checked = barriers_checked\<rparr>
         else
           let (steps_w, steps_f) = span_verdicts ps (spans_of details_opt ''road_class'') assess_road_class ''steps'';
               (surface_w, surface_f) = span_verdicts ps (spans_of details_opt ''surface'') assess_surface ''surface'';
               (smooth_w, smooth_f) = span_verdicts ps (spans_of details_opt ''smoothness'') assess_smoothness ''smoothness'';
               (barrier_w, barrier_f) = span_verdicts ps barrier_spans assess_barrier ''barrier'';
               findings = steps_f @ surface_f @ smooth_f @ barrier_f
                          @ incline_findings interp ps elevations;
               (definite, passed, failed) = tally (surface_w @ smooth_w) (0, 0, 0);
               sources = length (filter (\<lambda>w. w \<noteq> []) [surface_w, smooth_w]);
               denominator = tot * real (max 1 sources);
               frac = (\<lambda>x. if 0 < denominator then min 1 (x / denominator) else 0);
               coverage = frac definite
           in \<lparr>ra_verdict = (if findings \<noteq> [] then FAIL
                             else if coverage \<le> 0 then UNKNOWN else PASS),
               ra_findings = findings,
               ra_coverage = round_dec 4 coverage,
               ra_pass_fraction = round_dec 4 (frac passed),
               ra_fail_fraction = round_dec 4 (frac failed),
               ra_unknown_fraction = round_dec 4 (max 0 (1 - coverage)),
               ra_barriers_checked = barriers_checked\<rparr>)"

definition is_blocked :: "route_accessibility \<Rightarrow> bool" where
  "is_blocked r \<longleftrightarrow> ra_verdict r = FAIL"

definition sentence_subject :: "route_accessibility \<Rightarrow> string" where
  "sentence_subject r = (if ra_barriers_checked r then ''Accessibility data'' else ''Surface data'')"

definition sentence :: "route_accessibility \<Rightarrow> string" where
  "sentence r =
     (let pct = int_text (round_half_even (ra_coverage r * 100));
          body = (if ra_coverage r < VERY_LOW_CONFIDENCE_THRESHOLD
                  then sentence_subject r @ '' covers only '' @ pct @ ''% of this route. ''
                       @ ''Most of it is unverified. Do not rely on it.''
                  else if ra_coverage r < LOW_CONFIDENCE_THRESHOLD
                  then sentence_subject r @ '' covers '' @ pct @ ''% of this route; ''
                       @ ''treat the remainder as unverified.''
                  else sentence_subject r @ '' covers '' @ pct @ ''% of this route.'')
      in if ra_barriers_checked r then body else body @ '' Gates and stiles were not checked.'')"

section \<open>What an assessment promises\<close>


text \<open>A stretch the tags positively reject, and one they positively accept.\<close>

definition rejected :: "latlon list \<Rightarrow> details option \<Rightarrow> details option \<Rightarrow> bool" where
  "rejected ps d osm \<longleftrightarrow>
     (\<exists>s. covers ps (spans_of d ''road_class'') s \<and> assess_road_class (sp_value s) = FAIL)
   \<or> (\<exists>s. covers ps (spans_of d ''surface'') s \<and> assess_surface (sp_value s) = FAIL)
   \<or> (\<exists>s. covers ps (spans_of d ''smoothness'') s \<and> assess_smoothness (sp_value s) = FAIL)
   \<or> (\<exists>s. covers ps (spans_of osm ''barrier'') s \<and> assess_barrier (sp_value s) = FAIL)"

definition accepted :: "latlon list \<Rightarrow> details option \<Rightarrow> bool" where
  "accepted ps d \<longleftrightarrow>
     (\<exists>s. covers ps (spans_of d ''surface'') s \<and> assess_surface (sp_value s) = PASS)
   \<or> (\<exists>s. covers ps (spans_of d ''smoothness'') s \<and> assess_smoothness (sp_value s) = PASS)"

definition tally_weights :: "latlon list \<Rightarrow> details option \<Rightarrow> (real \<times> verdict) list" where
  "tally_weights ps d =
     fst (span_verdicts ps (spans_of d ''surface'') assess_surface ''surface'')
     @ fst (span_verdicts ps (spans_of d ''smoothness'') assess_smoothness ''smoothness'')"

definition tally_sources :: "latlon list \<Rightarrow> details option \<Rightarrow> nat" where
  "tally_sources ps d =
     max 1 (length (filter (\<lambda>w. w \<noteq> [])
       [fst (span_verdicts ps (spans_of d ''surface'') assess_surface ''surface''),
        fst (span_verdicts ps (spans_of d ''smoothness'') assess_smoothness ''smoothness'')]))"

definition all_findings ::
    "interp_fn \<Rightarrow> latlon list \<Rightarrow> real list option \<Rightarrow> details option \<Rightarrow> details option \<Rightarrow> finding list" where
  "all_findings interp ps es d osm =
     snd (span_verdicts ps (spans_of d ''road_class'') assess_road_class ''steps'')
     @ snd (span_verdicts ps (spans_of d ''surface'') assess_surface ''surface'')
     @ snd (span_verdicts ps (spans_of d ''smoothness'') assess_smoothness ''smoothness'')
     @ snd (span_verdicts ps (spans_of osm ''barrier'') assess_barrier ''barrier'')
     @ incline_findings interp ps es"

definition frac_of :: "latlon list \<Rightarrow> details option \<Rightarrow> real \<Rightarrow> real" where
  "frac_of ps d x = min 1 (x / (sum_list (segment_lengths_m ps) * real (tally_sources ps d)))"

definition long_enough :: "latlon list \<Rightarrow> bool" where
  "long_enough ps \<longleftrightarrow> 0 < sum_list (segment_lengths_m ps) \<and> 2 \<le> length ps"

text \<open>The assessment in one equation per case, with the loops named.\<close>

lemma assess_route_short:
  "\<not> long_enough ps \<Longrightarrow> ra_verdict (assess_route interp ps es d osm) = UNKNOWN
     \<and> ra_findings (assess_route interp ps es d osm) = []
     \<and> ra_coverage (assess_route interp ps es d osm) = 0"
  by (auto simp: assess_route_def Let_def long_enough_def)

lemma assess_route_eq:
  assumes "long_enough ps" and "tally (tally_weights ps d) (0, 0, 0) = (definite, passed, failed)"
  shows "assess_route interp ps es d osm =
    \<lparr>ra_verdict = (if all_findings interp ps es d osm \<noteq> [] then FAIL
                   else if frac_of ps d definite \<le> 0 then UNKNOWN else PASS),
     ra_findings = all_findings interp ps es d osm,
     ra_coverage = round_dec 4 (frac_of ps d definite),
     ra_pass_fraction = round_dec 4 (frac_of ps d passed),
     ra_fail_fraction = round_dec 4 (frac_of ps d failed),
     ra_unknown_fraction = round_dec 4 (max 0 (1 - frac_of ps d definite)),
     ra_barriers_checked = (spans_of osm ''barrier'' \<noteq> None)\<rparr>"
proof -
  obtain w1 f1 where s1: "span_verdicts ps (spans_of d ''road_class'') assess_road_class ''steps'' = (w1, f1)"
    by fastforce
  obtain w2 f2 where s2: "span_verdicts ps (spans_of d ''surface'') assess_surface ''surface'' = (w2, f2)"
    by fastforce
  obtain w3 f3 where s3: "span_verdicts ps (spans_of d ''smoothness'') assess_smoothness ''smoothness'' = (w3, f3)"
    by fastforce
  obtain w4 f4 where s4: "span_verdicts ps (spans_of osm ''barrier'') assess_barrier ''barrier'' = (w4, f4)"
    by fastforce
  define T where "T = sum_list (segment_lengths_m ps)"
  define N where "N = max 1 (length (filter (\<lambda>w. w \<noteq> []) [w2, w3]))"
  have T: "0 < T" "\<not> (T \<le> 0 \<or> length ps < 2)" using assms(1) by (auto simp: long_enough_def T_def)
  have pos: "0 < T * real N" using T by (simp add: N_def)
  have t: "tally (w2 @ w3) (0, 0, 0) = (definite, passed, failed)"
    using assms(2) by (simp add: tally_weights_def s2 s3)
  have fr: "frac_of ps d x = min 1 (x / (T * real N))" for x
    by (simp add: frac_of_def tally_sources_def s2 s3 T_def N_def)
  show ?thesis
    unfolding assess_route_def all_findings_def s1 s2 s3 s4 fr T_def [symmetric] Let_def
      prod.case fst_conv snd_conv N_def [symmetric] t if_not_P [OF T(2)] if_P [OF pos] by (rule refl)
qed

lemma tally_sums:
  "tally ws (d0, p0, f0) = (d, p, f) \<Longrightarrow> \<forall>(l, v) \<in> set ws. 0 < l \<Longrightarrow>
     d - d0 = (p - p0) + (f - f0) \<and> p0 \<le> p \<and> f0 \<le> f
     \<and> (d0 < d \<longleftrightarrow> (\<exists>(l, v) \<in> set ws. v \<noteq> UNKNOWN)) \<and> d \<le> d0 + sum_list (map fst ws)"
proof (induction ws arbitrary: d0 p0 f0)
  case (Cons w ws)
  obtain l v where w: "w = (l, v)" by fastforce
  have l: "0 < l" using Cons.prems w by auto
  have pos: "\<forall>(l, v) \<in> set ws. 0 < l" using Cons.prems by auto
  show ?case
    using Cons.IH [OF _ pos] Cons.prems(1) w l by (cases v) (fastforce split: if_splits)+
qed auto


lemma tally_weights_pos: "\<forall>(l, v) \<in> set (tally_weights ps d). 0 < l"
proof -
  have "(l, v) \<in> set (fst (span_verdicts ps spans check ft)) \<Longrightarrow> 0 < l" for l v spans check ft
    unfolding span_verdicts_weighted covers_def by blast
  then show ?thesis unfolding tally_weights_def by auto
qed

lemma tally_weights_iff:
  "(\<exists>l. (l, v) \<in> set (tally_weights ps d)) \<longleftrightarrow>
     (\<exists>s. covers ps (spans_of d ''surface'') s \<and> assess_surface (sp_value s) = v)
   \<or> (\<exists>s. covers ps (spans_of d ''smoothness'') s \<and> assess_smoothness (sp_value s) = v)"
  by (auto simp: tally_weights_def span_verdicts_weighted)

lemma frac_of_pos: "long_enough ps \<Longrightarrow> 0 < frac_of ps d x \<longleftrightarrow> 0 < x"
  by (simp add: frac_of_def long_enough_def tally_sources_def zero_less_divide_iff)

lemma frac_of_unit: "long_enough ps \<Longrightarrow> 0 \<le> x \<Longrightarrow> 0 \<le> frac_of ps d x \<and> frac_of ps d x \<le> 1"
  by (simp add: frac_of_def long_enough_def)

lemma all_findings_Nil:
  "all_findings interp ps es d osm = [] \<longleftrightarrow> \<not> rejected ps d osm \<and> incline_findings interp ps es = []"
  by (auto simp: all_findings_def rejected_def span_verdicts_no_findings)

lemma tally_route:
  assumes "tally (tally_weights ps d) (0, 0, 0) = (definite, passed, failed)"
  shows "definite = passed + failed" "0 \<le> passed" "0 \<le> failed"
    "0 < definite \<longleftrightarrow> (\<exists>(l, v) \<in> set (tally_weights ps d). v \<noteq> UNKNOWN)"
  using tally_sums [OF assms tally_weights_pos] by auto

lemma ra_verdict_cases:
  "ra_verdict (assess_route interp ps es d osm) =
     (if \<not> long_enough ps then UNKNOWN
      else if rejected ps d osm \<or> incline_findings interp ps es \<noteq> [] then FAIL
      else if accepted ps d then PASS else UNKNOWN)"
proof (cases "long_enough ps")
  case True
  obtain a p f where t: "tally (tally_weights ps d) (0, 0, 0) = (a, p, f)"
    using prod_cases3 by blast
  have def: "0 < a \<longleftrightarrow> (\<exists>v. v \<noteq> UNKNOWN \<and> (\<exists>l. (l, v) \<in> set (tally_weights ps d)))"
    using tally_route(4) [OF t] by auto
  have fail: "\<not> rejected ps d osm \<Longrightarrow> \<not> (\<exists>l. (l, FAIL) \<in> set (tally_weights ps d))"
    unfolding tally_weights_iff rejected_def by blast
  have acc: "accepted ps d \<longleftrightarrow> (\<exists>l. (l, PASS) \<in> set (tally_weights ps d))"
    unfolding tally_weights_iff accepted_def ..
  have "\<not> rejected ps d osm \<Longrightarrow> 0 < a \<longleftrightarrow> accepted ps d"
    unfolding def acc using fail verdict.exhaust by (metis (full_types) verdict.distinct(3))
  then show ?thesis
    using True frac_of_pos [OF True, of d a]
    by (auto simp: assess_route_eq [OF True t] all_findings_Nil not_le [symmetric])
qed (simp add: assess_route_short)

lemma assess_fractions_unit:
  "0 \<le> ra_coverage (assess_route interp ps es d osm) \<and> ra_coverage (assess_route interp ps es d osm) \<le> 1
 \<and> 0 \<le> ra_pass_fraction (assess_route interp ps es d osm) \<and> ra_pass_fraction (assess_route interp ps es d osm) \<le> 1
 \<and> 0 \<le> ra_fail_fraction (assess_route interp ps es d osm) \<and> ra_fail_fraction (assess_route interp ps es d osm) \<le> 1
 \<and> 0 \<le> ra_unknown_fraction (assess_route interp ps es d osm) \<and> ra_unknown_fraction (assess_route interp ps es d osm) \<le> 1"
proof (cases "long_enough ps")
  case True
  obtain a p f where t: "tally (tally_weights ps d) (0, 0, 0) = (a, p, f)"
    using prod_cases3 by blast
  have nn: "0 \<le> a" "0 \<le> p" "0 \<le> f" using tally_route [OF t] by auto
  have u: "0 \<le> x \<Longrightarrow> 0 \<le> round_dec 4 (frac_of ps d x) \<and> round_dec 4 (frac_of ps d x) \<le> 1" for x
    using frac_of_unit [OF True] round_dec_unit by blast
  have "0 \<le> max 0 (1 - frac_of ps d a) \<and> max 0 (1 - frac_of ps d a) \<le> 1"
    using frac_of_unit [OF True nn(1), of d] by linarith
  then have "0 \<le> round_dec 4 (max 0 (1 - frac_of ps d a)) \<and> round_dec 4 (max 0 (1 - frac_of ps d a)) \<le> 1"
    using round_dec_unit by blast
  then show ?thesis
    unfolding assess_route_eq [OF True t] route_accessibility.simps
    using u [OF nn(1)] u [OF nn(2)] u [OF nn(3)] by blast
next
  case False
  then have "assess_route interp ps es d osm =
      \<lparr>ra_verdict = UNKNOWN, ra_findings = [], ra_coverage = 0, ra_pass_fraction = 0,
       ra_fail_fraction = 0, ra_unknown_fraction = 1,
       ra_barriers_checked = (spans_of osm ''barrier'' \<noteq> None)\<rparr>"
    unfolding assess_route_def Let_def long_enough_def by (subst if_P) auto
  then show ?thesis by simp
qed

lemma verdict_blocked:
  "is_blocked (assess_route interp ps es d osm) \<longleftrightarrow>
     long_enough ps \<and> (rejected ps d osm \<or> incline_findings interp ps es \<noteq> [])"
  by (simp add: is_blocked_def ra_verdict_cases)

lemma coverage_cases:
  "ra_coverage (assess_route interp ps es d osm) =
     (if long_enough ps then round_dec 4 (frac_of ps d (fst (tally (tally_weights ps d) (0, 0, 0)))) else 0)"
proof (cases "long_enough ps")
  case True
  obtain a p f where t: "tally (tally_weights ps d) (0, 0, 0) = (a, p, f)"
    using prod_cases3 by blast
  show ?thesis unfolding assess_route_eq [OF True t] using t True by simp
qed (simp add: assess_route_short)

lemma untagged_coverage:
  assumes "\<forall>(l, v) \<in> set (tally_weights ps d). v = UNKNOWN"
  shows "ra_coverage (assess_route interp ps es d osm) = 0"
proof -
  obtain a p f where t: "tally (tally_weights ps d) (0, 0, 0) = (a, p, f)"
    using prod_cases3 by blast
  have "\<not> 0 < a" using tally_route(4) [OF t] assms by auto
  moreover have "0 \<le> a" using tally_route [OF t] by simp
  ultimately have "a = 0" by simp
  then show ?thesis using t by (simp add: coverage_cases frac_of_def)
qed

lemma barriers_checked_iff:
  "ra_barriers_checked (assess_route interp ps es d osm) \<longleftrightarrow> spans_of osm ''barrier'' \<noteq> None"
proof (cases "long_enough ps")
  case True
  obtain a p f where t: "tally (tally_weights ps d) (0, 0, 0) = (a, p, f)"
    using prod_cases3 by blast
  show ?thesis unfolding assess_route_eq [OF True t] by simp
next
  case False
  then show ?thesis unfolding assess_route_def Let_def long_enough_def by (subst if_P) auto
qed

lemma sentence_shape:
  "\<exists>body. sentence r = sentence_subject r @ '' covers'' @ body
     @ (if ra_barriers_checked r then '''' else '' Gates and stiles were not checked.'')"
proof -
  define pct where "pct = int_text (round_half_even (ra_coverage r * 100))"
  consider "ra_coverage r < VERY_LOW_CONFIDENCE_THRESHOLD"
    | "\<not> ra_coverage r < VERY_LOW_CONFIDENCE_THRESHOLD" "ra_coverage r < LOW_CONFIDENCE_THRESHOLD"
    | "\<not> ra_coverage r < VERY_LOW_CONFIDENCE_THRESHOLD" "\<not> ra_coverage r < LOW_CONFIDENCE_THRESHOLD"
    by blast
  then show ?thesis
  proof cases
    case 1
    then show ?thesis unfolding sentence_def Let_def pct_def [symmetric]
      by (intro exI [of _ "'' only '' @ pct @ ''% of this route. ''
            @ ''Most of it is unverified. Do not rely on it.''"]) (simp del: ex_simps)
  next
    case 2
    then show ?thesis unfolding sentence_def Let_def pct_def [symmetric]
      by (intro exI [of _ "'' '' @ pct @ ''% of this route; '' @ ''treat the remainder as unverified.''"]) simp
  next
    case 3
    then show ?thesis unfolding sentence_def Let_def pct_def [symmetric]
      by (intro exI [of _ "'' '' @ pct @ ''% of this route.''"]) simp
  qed
qed

lemma equator_covered [simp]: "covers equator (Some [detail_span 0 1 v]) s \<longleftrightarrow> s = detail_span 0 1 v"
  by (auto simp: covers_def equator_length span_length_def span_bounds_def slice_def)

lemma equator_long [simp]: "long_enough equator"
  by (simp add: long_enough_def equator_length) (simp add: equator_def)

lemma no_elevation [simp]: "incline_findings interp ps None = []"
  by (simp add: incline_findings_def)

lemma no_spans [simp]: "\<not> covers ps None s"
  by (simp add: covers_def)

lemma findings_block:
  "is_blocked (assess_route interp ps es d osm) \<longleftrightarrow> ra_findings (assess_route interp ps es d osm) \<noteq> []"
proof -
  have "ra_findings (assess_route interp ps es d osm)
      = (if long_enough ps then all_findings interp ps es d osm else [])"
  proof (cases "long_enough ps")
    case True
    obtain a p f where t: "tally (tally_weights ps d) (0, 0, 0) = (a, p, f)"
      using prod_cases3 by blast
    show ?thesis unfolding assess_route_eq [OF True t] using True by simp
  qed (simp add: assess_route_short)
  then show ?thesis by (auto simp: verdict_blocked all_findings_Nil)
qed

section \<open>Properties\<close>

text \<open>
  C1 The whole-route verdict, characterised: a route of positive length is blocked exactly when a
  stretch of it carries a rejected tag (steps, surface, smoothness, barrier) or its gradient
  breaks a limit; it passes exactly when none does and at least one stretch of positive length
  carries a surface or smoothness the tables accept; every other route, the untagged ones
  included, is UNKNOWN.
\<close>

theorem verdict_characterised:
  "(ra_verdict (assess_route interp ps es d osm) = FAIL \<longleftrightarrow>
      long_enough ps \<and> (rejected ps d osm \<or> incline_findings interp ps es \<noteq> []))
 \<and> (ra_verdict (assess_route interp ps es d osm) = PASS \<longleftrightarrow>
      long_enough ps \<and> \<not> rejected ps d osm \<and> incline_findings interp ps es = [] \<and> accepted ps d)
 \<and> (is_blocked (assess_route interp ps es d osm) \<longleftrightarrow> ra_findings (assess_route interp ps es d osm) \<noteq> [])"
  using findings_block [of interp ps es d osm] by (auto simp: ra_verdict_cases verdict_blocked)

lemma verdict_characterised_witness:
  "ra_verdict (assess_route (\<lambda>_ _ _. 0) forty_metres None
     (Some [''surface'' \<mapsto> [detail_span 0 2 (Tag ''asphalt'')]]) None) = PASS"
proof -
  let ?d = "Some [''surface'' \<mapsto> [detail_span 0 2 (Tag ''asphalt'')]] :: details option"
  have none: "spans_of ?d ''road_class'' = None" "spans_of ?d ''smoothness'' = None" "spans_of None ''barrier'' = None"
    by (simp_all add: spans_of_def)
  have verdict: "assess_surface (Tag ''asphalt'') = PASS"
    by (simp add: assess_surface_def is_unknown_def normalise_def constraint_sets py_defs)
  have surf: "covers forty_metres (spans_of ?d ''surface'') s \<longleftrightarrow> s = detail_span 0 2 (Tag ''asphalt'')" for s
    unfolding covers_def forty_metres_lengths spans_of_def
    by (auto simp: span_length_def span_bounds_def slice_def)
  have "long_enough forty_metres" by (simp add: long_enough_def forty_metres_lengths)
  moreover have "\<not> rejected forty_metres ?d None"
    unfolding rejected_def none surf by (simp add: covers_def verdict)
  moreover have "accepted forty_metres ?d"
    unfolding accepted_def none surf by (auto simp: verdict)
  moreover have "incline_findings (\<lambda>_ _ _. 0) forty_metres None = []" by (simp add: incline_findings_def)
  ultimately show ?thesis using verdict_characterised [of "\<lambda>_ _ _. 0" forty_metres None ?d None] by blast
qed

text \<open>
  C2 A missing tag never reads as accessible: when every surface and smoothness stretch of a
  route carries a value that says nothing (absent, MISSING, UNKNOWN, OTHER, ...), the verdict is
  not PASS, whatever the other sources say, the coverage is zero, and the sentence the traveller
  reads ends its claim with the warning not to rely on it.
\<close>

theorem untagged_never_passes:
  assumes "\<forall>k \<in> {''surface'', ''smoothness''}. \<forall>s. covers ps (spans_of d k) s \<longrightarrow> is_unknown (sp_value s)"
  shows "ra_verdict (assess_route interp ps es d osm) \<noteq> PASS
       \<and> ra_coverage (assess_route interp ps es d osm) = 0
       \<and> contains ''Do not rely on it.'' (sentence (assess_route interp ps es d osm))"
proof -
  have s: "snd (span_verdicts ps (spans_of d ''surface'') assess_surface ''surface'') = []
      \<and> (\<forall>(l, v) \<in> set (fst (span_verdicts ps (spans_of d ''surface'') assess_surface ''surface'')). v = UNKNOWN)"
    using assms by (intro surface.untagged_spans_silent) blast
  have m: "snd (span_verdicts ps (spans_of d ''smoothness'') assess_smoothness ''smoothness'') = []
      \<and> (\<forall>(l, v) \<in> set (fst (span_verdicts ps (spans_of d ''smoothness'') assess_smoothness ''smoothness'')). v = UNKNOWN)"
    using assms by (intro smoothness.untagged_spans_silent) blast
  have u: "\<forall>(l, v) \<in> set (tally_weights ps d). v = UNKNOWN"
    using s m by (auto simp: tally_weights_def)
  then have "\<not> accepted ps d" unfolding accepted_def using tally_weights_iff [of PASS ps d] by auto
  then have "ra_verdict (assess_route interp ps es d osm) \<noteq> PASS" by (simp add: ra_verdict_cases)
  moreover have c: "ra_coverage (assess_route interp ps es d osm) = 0"
    by (rule untagged_coverage [OF u])
  moreover have "contains ''Do not rely on it.'' (sentence (assess_route interp ps es d osm))"
  proof -
    let ?r = "assess_route interp ps es d osm"
    have "\<exists>a b. sentence ?r = a @ ''Do not rely on it.'' @ b"
      unfolding sentence_def c Let_def VERY_LOW_CONFIDENCE_THRESHOLD_def
      by (rule exI [of _ "sentence_subject ?r @ '' covers only '' @ int_text (round_half_even (0 * 100))
            @ ''% of this route. Most of it is unverified. ''"]) auto
    then show ?thesis by (simp only: contains_iff)
  qed
  ultimately show ?thesis by blast
qed

lemma untagged_never_passes_witness:
  "ra_verdict (assess_route (\<lambda>_ _ _. 0) equator None
     (Some [''surface'' \<mapsto> [detail_span 0 1 (Tag ''missing'')]]) None) \<noteq> PASS"
  using untagged_never_passes [of equator "Some [''surface'' \<mapsto> [detail_span 0 1 (Tag ''missing'')]]"
      "\<lambda>_ _ _. 0" None None]
  by (simp add: spans_of_def is_unknown_def normalise_def UNKNOWN_VALUES_def py_defs)

text \<open>
  Barrier data from OpenStreetMap only ever rejects: adding it can lower the verdict and never raises
  it, and leaves the coverage where surface and smoothness put it; without it the sentence says that
  gates and stiles were not checked and speaks of surface data only.
\<close>

theorem barriers_only_reject:
  "ra_verdict (assess_route interp ps es d osm) \<le> ra_verdict (assess_route interp ps es d None)
 \<and> ra_coverage (assess_route interp ps es d osm) = ra_coverage (assess_route interp ps es d None)
 \<and> (spans_of osm ''barrier'' = None \<longrightarrow>
      (\<exists>rest. sentence (assess_route interp ps es d osm) = ''Surface data covers'' @ rest
         \<and> contains ''Gates and stiles were not checked.'' rest))"
proof (intro conjI impI)
  have mono: "rejected ps d None \<Longrightarrow> rejected ps d osm"
    by (auto simp: rejected_def spans_of_def)
  show "ra_verdict (assess_route interp ps es d osm) \<le> ra_verdict (assess_route interp ps es d None)"
    using mono by (auto simp: ra_verdict_cases verdict_le_cases)
  show "ra_coverage (assess_route interp ps es d osm) = ra_coverage (assess_route interp ps es d None)"
    by (simp add: coverage_cases)
  assume nb: "spans_of osm ''barrier'' = None"
  let ?r = "assess_route interp ps es d osm"
  have b: "\<not> ra_barriers_checked ?r"
    using nb by (simp only: barriers_checked_iff simp_thms)
  have ex: "\<exists>body. sentence ?r = ''Surface data covers'' @ body @ '' Gates and stiles were not checked.''"
    using sentence_shape [of ?r] b by (simp add: sentence_subject_def)
  then obtain body where "sentence ?r = ''Surface data covers'' @ body @ '' Gates and stiles were not checked.''"
    by blast
  moreover have "contains ''Gates and stiles were not checked.'' (body @ '' Gates and stiles were not checked.'')"
    unfolding contains_iff by (rule exI [of _ "body @ '' ''"], rule exI [of _ "[]"]) simp
  ultimately show "\<exists>rest. sentence ?r = ''Surface data covers'' @ rest
      \<and> contains ''Gates and stiles were not checked.'' rest" by blast
qed

lemma barriers_only_reject_witness:
  "is_blocked (assess_route (\<lambda>_ _ _. 0) equator None
      (Some [''surface'' \<mapsto> [detail_span 0 1 (Tag ''gravel'')]]) (Some [''barrier'' \<mapsto> []]))"
proof -
  let ?d = "Some [''surface'' \<mapsto> [detail_span 0 1 (Tag ''gravel'')]] :: details option"
  have "is_blocked (assess_route (\<lambda>_ _ _. 0) equator None ?d None)"
    by (simp add: verdict_blocked rejected_def spans_of_def assess_surface_def is_unknown_def
        normalise_def constraint_sets py_defs)
  then show ?thesis
    using barriers_only_reject [of "\<lambda>_ _ _. 0" equator None ?d "Some [''barrier'' \<mapsto> []]"] 
    by (auto simp: is_blocked_def verdict_le_cases)
qed

end
