(* ===== verification/Elevation.thy ===== *)
theory Elevation
  imports Accessibility
begin

text \<open>
  backend/elevation.py: the drawable profile. It shares the resampling and the limit with
  \<open>incline_findings\<close>, and marks the runs of samples whose gradient is over that limit.
\<close>

section \<open>Thinning\<close>

definition MAX_PROFILE_POINTS :: nat where "MAX_PROFILE_POINTS = 120"

text \<open>\<open>np.linspace(0, n - 1, target).round()\<close> as indices.\<close>

definition thin_index :: "nat \<Rightarrow> nat \<Rightarrow> nat \<Rightarrow> nat" where
  "thin_index n target i = nat (round_half_even (real i * real (n - 1) / real (target - 1)))"

definition thin :: "real list \<Rightarrow> nat \<Rightarrow> real list" where
  "thin values target =
     (if length values \<le> target then values
      else map (\<lambda>i. values ! thin_index (length values) target i) [0..<target])"

section \<open>Runs over the limit\<close>

fun steep_runs :: "bool list \<Rightarrow> nat \<Rightarrow> nat option \<Rightarrow> (nat \<times> nat) list" where
  "steep_runs [] i start = (case start of None \<Rightarrow> [] | Some a \<Rightarrow> [(a, i + 1)])"
| "steep_runs (flag # flags) i start =
     (case start of
        None \<Rightarrow> steep_runs flags (i + 1) (if flag then Some i else None)
      | Some a \<Rightarrow> if flag then steep_runs flags (i + 1) (Some a)
                  else (a, i + 1) # steep_runs flags (i + 1) None)"

definition scaled_run :: "nat \<Rightarrow> real \<Rightarrow> nat \<times> nat \<Rightarrow> nat \<times> nat" where
  "scaled_run n scale run =
     (let lo = max 0 (min (int n - 1) (round_half_even (real (fst run) * scale)));
          hi = max 0 (min (int n) (round_half_even (real (snd run) * scale)))
      in (nat lo, nat (max hi (lo + 1))))"

record elevation_profile =
  ep_distances_m :: "real list"
  ep_elevations_m :: "real list"
  ep_ascent_m :: real
  ep_descent_m :: real
  ep_max_gradient_pct :: real
  ep_steep_spans :: "(nat \<times> nat) list"
  ep_limit_pct :: real

definition build_profile ::
    "interp_fn \<Rightarrow> latlon list \<Rightarrow> real list option \<Rightarrow> elevation_profile option" where
  "build_profile interp ps elevations =
     (case elevations of
        None \<Rightarrow> None
      | Some es \<Rightarrow>
          if es = [] \<or> length es \<noteq> length ps \<or> length ps < 3 then None
          else let (grid, profile) = resample_elevation interp ps es INCLINE_SMOOTHING_WINDOW_M
            in if length grid < 3 then None
               else let deltas = np_diff profile;
                        ascent = sum_list (filter (\<lambda>d. 0 < d) deltas);
                        descent = sum_list (map uminus (filter (\<lambda>d. d < 0) deltas));
                        gradients = gradients_of profile;
                        max_gradient = (if gradients = [] then 0
                                        else first_max id (hd (map abs gradients)) (map abs gradients));
                        over = map (\<lambda>g. MAX_INCLINE_PCT < \<bar>g\<bar>) gradients;
                        steep = steep_runs over 0 None;
                        thin_grid = thin grid MAX_PROFILE_POINTS;
                        thin_profile = thin profile MAX_PROFILE_POINTS;
                        scale = real (length thin_grid - 1) / real (max 1 (length grid - 1))
                    in Some \<lparr>ep_distances_m = map (round_dec 1) thin_grid,
                             ep_elevations_m = map (round_dec 1) thin_profile,
                             ep_ascent_m = round_dec 1 ascent,
                             ep_descent_m = round_dec 1 descent,
                             ep_max_gradient_pct = round_dec 1 max_gradient,
                             ep_steep_spans = map (scaled_run (length thin_grid) scale) steep,
                             ep_limit_pct = MAX_INCLINE_PCT\<rparr>)"

section \<open>The runs are exactly the marked samples\<close>

definition in_run :: "(nat \<times> nat) list \<Rightarrow> nat \<Rightarrow> bool" where
  "in_run runs j \<longleftrightarrow> (\<exists>(a, b) \<in> set runs. a \<le> j \<and> j + 1 < b)"

lemma in_run_Cons: "in_run (r # rs) j \<longleftrightarrow> (fst r \<le> j \<and> j + 1 < snd r) \<or> in_run rs j"
  by (auto simp: in_run_def)

lemma in_run_Nil [simp]: "\<not> in_run [] j"
  by (simp add: in_run_def)

lemma steep_runs_in_run:
  "(\<And>a. start = Some a \<Longrightarrow> a < i) \<Longrightarrow>
   in_run (steep_runs flags i start) j \<longleftrightarrow>
     (i \<le> j \<and> j < i + length flags \<and> flags ! (j - i))
   \<or> (\<exists>a. start = Some a \<and> a \<le> j \<and> j < i)"
proof (induction flags i start rule: steep_runs.induct)
  case (1 i start)
  then show ?case by (auto simp: in_run_Cons split: option.splits)
next
  case (2 flag flags i start)
  have nth: "i \<le> j \<and> j < i + length (flag # flags) \<and> (flag # flags) ! (j - i) \<longleftrightarrow>
      (j = i \<and> flag) \<or> (i + 1 \<le> j \<and> j < i + 1 + length flags \<and> flags ! (j - (i + 1)))"
    by (cases "j = i") (auto simp: nth_Cons' Suc_diff_Suc)
  show ?case
  proof (cases start)
    case None
    have "in_run (steep_runs flags (i + 1) (if flag then Some i else None)) j \<longleftrightarrow>
        (i + 1 \<le> j \<and> j < i + 1 + length flags \<and> flags ! (j - (i + 1)))
      \<or> (\<exists>a. (if flag then Some i else None) = Some a \<and> a \<le> j \<and> j < i + 1)"
      by (rule "2.IH"(1) [OF None]) (auto split: if_splits)
    then show ?thesis unfolding nth using None by auto
  next
    case (Some a)
    have a: "a < i" using "2.prems" Some by simp
    show ?thesis
    proof (cases flag)
      case True
      then show ?thesis unfolding nth using "2.IH"(2) [OF Some True] a Some by auto
    next
      case False
      then show ?thesis unfolding nth using "2.IH"(3) [OF Some False] a Some
        by (auto simp: in_run_Cons)
    qed
  qed
qed

lemma steep_runs_bounds:
  "(a, b) \<in> set (steep_runs flags i start) \<Longrightarrow> (\<And>c. start = Some c \<Longrightarrow> c < i) \<Longrightarrow>
     a + 1 < b \<and> b \<le> i + length flags + 1"
proof (induction flags i start rule: steep_runs.induct)
  case (1 i start)
  then show ?case by (auto split: option.splits)
next
  case (2 flag flags i start)
  show ?case
  proof (cases start)
    case None
    then show ?thesis using 2 by (cases flag) force+
  next
    case (Some c)
    then have c: "c < i" using "2.prems" by simp
    show ?thesis
    proof (cases flag)
      case True
      then show ?thesis using "2.IH"(2) [OF Some True] "2.prems"(1) c Some by auto
    next
      case False
      then show ?thesis using "2.IH"(3) [OF Some False] "2.prems"(1) c Some by auto
    qed
  qed
qed

lemma steep_runs_flags: "in_run (steep_runs flags 0 None) j \<longleftrightarrow> j < length flags \<and> flags ! j"
  using steep_runs_in_run [of None 0 flags j] by simp

lemma steep_runs_Nil: "steep_runs flags 0 None = [] \<longleftrightarrow> True \<notin> set flags"
proof
  assume "steep_runs flags 0 None = []"
  then show "True \<notin> set flags" using steep_runs_flags [of flags] by (auto simp: in_set_conv_nth)
next
  assume t: "True \<notin> set flags"
  show "steep_runs flags 0 None = []"
  proof (rule ccontr)
    assume "steep_runs flags 0 None \<noteq> []"
    then obtain a b where ab: "(a, b) \<in> set (steep_runs flags 0 None)"
      by (metis list.set_intros(1) neq_Nil_conv surj_pair)
    have "a + 1 < b" using steep_runs_bounds [OF ab] by simp
    then have "in_run (steep_runs flags 0 None) a" using ab by (auto simp: in_run_def)
    then have "a < length flags" "flags ! a" unfolding steep_runs_flags by auto
    then show False using t nth_mem by fastforce
  qed
qed

lemma length_thin: "length (thin values target) = min (length values) target"
  by (simp add: thin_def)

lemma thin_short: "length values \<le> target \<Longrightarrow> thin values target = values"
  by (simp add: thin_def)

lemma thin_index_bound: "i < target \<Longrightarrow> 0 < n \<Longrightarrow> thin_index n target i < n"
proof -
  assume i: "i < target" and n: "0 < n"
  have "real i * real (n - 1) / real (target - 1) \<le> real (n - 1)"
  proof (cases "target - 1 = 0")
    case False
    have "real i * real (n - 1) \<le> real (target - 1) * real (n - 1)"
      using i by (intro mult_right_mono) auto
    then show ?thesis using False by (simp add: pos_divide_le_eq mult.commute)
  qed simp
  then have "round_half_even (real i * real (n - 1) / real (target - 1))
      \<le> round_half_even (of_int (int (n - 1)))"
    by (intro round_half_even_mono) simp
  then show ?thesis using n unfolding thin_index_def round_half_even_of_int by linarith
qed

lemma scaled_run_bounds:
  assumes "0 < n" and "scaled_run n scale run = (a, b)"
  shows "a < b \<and> b \<le> n"
proof -
  define l where "l = max 0 (min (int n - 1) (round_half_even (real (fst run) * scale)))"
  define h where "h = max 0 (min (int n) (round_half_even (real (snd run) * scale)))"
  have "0 \<le> l" "l \<le> int n - 1" "h \<le> int n" using assms(1) by (auto simp: l_def h_def)
  moreover have "a = nat l" "b = nat (max h (l + 1))"
    using assms(2) by (simp_all add: scaled_run_def Let_def l_def h_def)
  ultimately show ?thesis by linarith
qed

lemma scaled_run_id:
  assumes "a + 1 < b" "b \<le> n"
  shows "scaled_run n 1 (a, b) = (a, b)"
proof -
  have r: "round_half_even (real k) = int k" for k
    by (metis of_int_of_nat_eq round_half_even_of_int)
  show ?thesis
    using assms unfolding scaled_run_def Let_def fst_conv snd_conv mult_1_right r by simp
qed

lemma round_half_even_nat [simp]: "round_half_even (real k) = int k"
  by (metis of_int_of_nat_eq round_half_even_of_int)

section \<open>Profiles\<close>

text \<open>The measured part both modules share: the grid, the profile and its gradients.\<close>

definition measurable :: "interp_fn \<Rightarrow> latlon list \<Rightarrow> real list option \<Rightarrow> bool" where
  "measurable interp ps elevations \<longleftrightarrow>
     (\<exists>es. elevations = Some es \<and> es \<noteq> [] \<and> length es = length ps \<and> 3 \<le> length ps
        \<and> 3 \<le> length (fst (resample_elevation interp ps es INCLINE_SMOOTHING_WINDOW_M)))"

definition route_gradients :: "interp_fn \<Rightarrow> latlon list \<Rightarrow> real list option \<Rightarrow> real list" where
  "route_gradients interp ps elevations =
     (case elevations of None \<Rightarrow> []
      | Some es \<Rightarrow> gradients_of (snd (resample_elevation interp ps es INCLINE_SMOOTHING_WINDOW_M)))"

definition steep_at :: "interp_fn \<Rightarrow> latlon list \<Rightarrow> real list option \<Rightarrow> nat \<Rightarrow> bool" where
  "steep_at interp ps es j \<longleftrightarrow> j < length (route_gradients interp ps es)
     \<and> MAX_INCLINE_PCT < \<bar>route_gradients interp ps es ! j\<bar>"

lemma build_profile_None: "build_profile interp ps es = None \<longleftrightarrow> \<not> measurable interp ps es"
  by (auto simp: build_profile_def measurable_def Let_def split_def split: option.splits)

lemma build_profile_Some:
  assumes "build_profile interp ps es = Some p"
  shows "measurable interp ps es"
    and "length (ep_distances_m p)
           = min (Suc (length (route_gradients interp ps es))) MAX_PROFILE_POINTS"
    and "length (ep_elevations_m p) = length (ep_distances_m p)"
    and "ep_steep_spans p = map (scaled_run (length (ep_distances_m p))
           (real (length (ep_distances_m p) - 1) / real (max 1 (length (route_gradients interp ps es)))))
           (steep_runs (map (\<lambda>g. MAX_INCLINE_PCT < \<bar>g\<bar>) (route_gradients interp ps es)) 0 None)"
    and "0 \<le> ep_ascent_m p" and "0 \<le> ep_descent_m p"
proof -
  show m: "measurable interp ps es"
    using assms build_profile_None [of interp ps es] by auto
  then obtain zs grid profile where es: "es = Some zs" "zs \<noteq> []" "length zs = length ps" "3 \<le> length ps"
    and r: "resample_elevation interp ps zs INCLINE_SMOOTHING_WINDOW_M = (grid, profile)"
    and g3: "3 \<le> length grid"
    unfolding measurable_def by (metis prod.collapse)
  have len: "length profile = length grid" by (rule resample_lengths [OF r])
  have rg: "route_gradients interp ps es = gradients_of profile" by (simp add: route_gradients_def es r)
  have p: "p = (let deltas = np_diff profile in
     \<lparr>ep_distances_m = map (round_dec 1) (thin grid MAX_PROFILE_POINTS),
      ep_elevations_m = map (round_dec 1) (thin profile MAX_PROFILE_POINTS),
      ep_ascent_m = round_dec 1 (sum_list (filter (\<lambda>d. 0 < d) deltas)),
      ep_descent_m = round_dec 1 (sum_list (map uminus (filter (\<lambda>d. d < 0) deltas))),
      ep_max_gradient_pct = round_dec 1 (if gradients_of profile = [] then 0
         else first_max id (hd (map abs (gradients_of profile))) (map abs (gradients_of profile))),
      ep_steep_spans = map (scaled_run (length (thin grid MAX_PROFILE_POINTS))
         (real (length (thin grid MAX_PROFILE_POINTS) - 1) / real (max 1 (length grid - 1))))
         (steep_runs (map (\<lambda>g. MAX_INCLINE_PCT < \<bar>g\<bar>) (gradients_of profile)) 0 None),
      ep_limit_pct = MAX_INCLINE_PCT\<rparr>)"
    using assms es g3 r by (simp add: build_profile_def Let_def)
  show "length (ep_distances_m p) = min (Suc (length (route_gradients interp ps es))) MAX_PROFILE_POINTS"
    using g3 len by (simp add: p Let_def rg length_thin)
  show "length (ep_elevations_m p) = length (ep_distances_m p)"
    using len by (simp add: p Let_def length_thin)
  show "ep_steep_spans p = map (scaled_run (length (ep_distances_m p))
       (real (length (ep_distances_m p) - 1) / real (max 1 (length (route_gradients interp ps es)))))
       (steep_runs (map (\<lambda>g. MAX_INCLINE_PCT < \<bar>g\<bar>) (route_gradients interp ps es)) 0 None)"
    by (simp add: p Let_def rg len)
  show "0 \<le> ep_ascent_m p"
    unfolding p Let_def elevation_profile.simps
    by (intro round_dec_nonneg sum_list_nonneg_real) auto
  show "0 \<le> ep_descent_m p"
    unfolding p Let_def elevation_profile.simps
    by (intro round_dec_nonneg sum_list_nonneg_real) auto
qed

lemma incline_of_steep:
  "measurable interp ps es \<Longrightarrow> steep_at interp ps es j \<Longrightarrow> incline_findings interp ps es \<noteq> []"
proof -
  assume m: "measurable interp ps es" and j: "steep_at interp ps es j"
  then obtain zs grid profile where es: "es = Some zs" "zs \<noteq> []" "length zs = length ps" "3 \<le> length ps"
    and r: "resample_elevation interp ps zs INCLINE_SMOOTHING_WINDOW_M = (grid, profile)"
    and g3: "3 \<le> length grid"
    unfolding measurable_def by (metis prod.collapse)
  have "route_gradients interp ps es = gradients_of profile" by (simp add: route_gradients_def es r)
  then have "steepest_findings ps grid (gradients_of profile) \<noteq> []"
    using j unfolding steepest_findings_Nil steep_at_def by (metis not_le nth_mem)
  then show ?thesis using es r g3 by (simp add: incline_findings_def Let_def)
qed

text \<open>A ramp of 20 per cent over 20 m, then 20 m of flat.\<close>

lemma ramp_resampled:
  "resample_elevation lin_interp forty_metres [0, 4, 4] INCLINE_SMOOTHING_WINDOW_M
     = ([0, 20, 40], [0, 4, 4])"
  by (simp add: resample_elevation_def forty_metres_cumulative incline_constants arange_def
      numeral_2_eq_2 [symmetric] upt_rec Let_def)

lemma ramp_gradients: "route_gradients lin_interp forty_metres (Some [0, 4, 4]) = [20, 0]"
  unfolding route_gradients_def option.case ramp_resampled gradients_of_def
  by (simp add: incline_constants)

lemma ramp_measurable: "measurable lin_interp forty_metres (Some [0, 4, 4])"
  by (simp add: measurable_def ramp_resampled)

lemma measurable_long_enough: "measurable interp ps es \<Longrightarrow> long_enough ps"
proof -
  assume "measurable interp ps es"
  then obtain zs where z: "3 \<le> length ps"
      "3 \<le> length (fst (resample_elevation interp ps zs INCLINE_SMOOTHING_WINDOW_M))"
    unfolding measurable_def by blast
  then have "ps \<noteq> []" by auto
  then have "\<not> last (cumulative_distance_m ps) < INCLINE_SMOOTHING_WINDOW_M * 2"
    using z(2) by (auto simp: resample_elevation_def Let_def cumulative_distance_m_def split: if_splits)
  then show ?thesis using z(1) last_cumulative [OF \<open>ps \<noteq> []\<close>]
    by (simp add: long_enough_def path_length_m_def incline_constants)
qed

section \<open>Properties\<close>

text \<open>
  The drawing marks exactly the samples over the limit: on every profile short enough not to be
  thinned, sample j is inside a steep span if and only if the gradient between grid points j and
  j + 1 is over the limit accessibility.py rejects on; and, thinned or not, every span drawn is a
  non-empty index range of the drawn arrays.
\<close>

theorem profile_marks_the_steep_samples:
  assumes "build_profile interp ps es = Some p"
  shows "(\<forall>(a, b) \<in> set (ep_steep_spans p). a < b \<and> b \<le> length (ep_distances_m p))
       \<and> (length (ep_distances_m p) < MAX_PROFILE_POINTS \<longrightarrow>
            (\<forall>j. in_run (ep_steep_spans p) j \<longleftrightarrow> steep_at interp ps es j))"
proof (intro conjI impI)
  note P = build_profile_Some [OF assms]
  have dpos: "0 < length (ep_distances_m p)" unfolding P(2) MAX_PROFILE_POINTS_def by simp
  show "\<forall>(a, b) \<in> set (ep_steep_spans p). a < b \<and> b \<le> length (ep_distances_m p)"
    unfolding P(4) using scaled_run_bounds [OF dpos] by (fastforce dest: sym)
  assume "length (ep_distances_m p) < MAX_PROFILE_POINTS"
  then have n: "length (ep_distances_m p) = Suc (length (route_gradients interp ps es))"
    unfolding P(2) by linarith
  let ?over = "map (\<lambda>g. MAX_INCLINE_PCT < \<bar>g\<bar>) (route_gradients interp ps es)"
  let ?runs = "steep_runs ?over 0 None"
  have "ep_steep_spans p = ?runs"
  proof (cases "route_gradients interp ps es = []")
    case True
    then show ?thesis unfolding P(4) by simp
  next
    case False
    then have one: "real (length (ep_distances_m p) - 1) / real (max 1 (length (route_gradients interp ps es))) = 1"
      unfolding n by (cases "route_gradients interp ps es") auto
    have "scaled_run (length (ep_distances_m p)) 1 r = r" if "r \<in> set ?runs" for r
    proof -
      obtain a b where r: "r = (a, b)" by fastforce
      have "a + 1 < b" "b \<le> length (ep_distances_m p)"
        using steep_runs_bounds [of a b ?over 0 None] that r n by auto
      then show ?thesis unfolding r by (rule scaled_run_id)
    qed
    then show ?thesis unfolding P(4) one by (simp add: map_idI)
  qed
  then have "in_run (ep_steep_spans p) j \<longleftrightarrow> steep_at interp ps es j" for j
    using steep_runs_flags [of ?over j] unfolding steep_at_def by (simp cong: conj_cong)
  then show "\<forall>j. in_run (ep_steep_spans p) j \<longleftrightarrow> steep_at interp ps es j" by blast
qed

text \<open>Two neighbouring samples whose mean is over the sustained limit.\<close>

definition sustained_at :: "interp_fn \<Rightarrow> latlon list \<Rightarrow> real list option \<Rightarrow> nat \<Rightarrow> bool" where
  "sustained_at interp ps es j \<longleftrightarrow> Suc j < length (route_gradients interp ps es)
     \<and> SUSTAINED_INCLINE_PCT < \<bar>(route_gradients interp ps es ! j + route_gradients interp ps es ! Suc j) / 2\<bar>"

lemma rolling_two: "i < length xs - 1 \<Longrightarrow> rolling_mean 2 xs ! i = (xs ! i + xs ! Suc i) / 2"
proof -
  assume i: "i < length xs - 1"
  then have "slice i (i + 2) xs = [xs ! i, xs ! Suc i]"
    by (simp add: slice_def take_Suc_conv_app_nth Cons_nth_drop_Suc [symmetric] eval_nat_numeral)
  then show ?thesis using i by (simp add: rolling_mean_def)
qed

lemma length_rolling_two: "length (rolling_mean 2 xs) = length xs - 1"
  by (simp add: rolling_mean_def)

lemma sustained_findings_Nil:
  "sustained_findings ps grid gs \<noteq> [] \<longleftrightarrow>
     (\<exists>j. Suc j < length gs \<and> SUSTAINED_INCLINE_PCT < \<bar>(gs ! j + gs ! Suc j) / 2\<bar>)"
proof (cases "length gs < 2")
  case True
  then show ?thesis by (auto simp: sustained_findings_def sustained_window_2)
next
  case False
  then have ne: "rolling_mean 2 gs \<noteq> []" using length_rolling_two [of gs] by force
  have "sustained_findings ps grid gs \<noteq> [] \<longleftrightarrow>
      SUSTAINED_INCLINE_PCT < \<bar>rolling_mean 2 gs ! argmax abs (rolling_mean 2 gs)\<bar>"
    using False by (simp add: sustained_findings_def sustained_window_2 Let_def)
  also have "\<dots> \<longleftrightarrow> (\<exists>x \<in> set (rolling_mean 2 gs). SUSTAINED_INCLINE_PCT < \<bar>x\<bar>)" by (rule argmax_exceeds [OF ne])
  also have "\<dots> \<longleftrightarrow> (\<exists>j < length gs - 1. SUSTAINED_INCLINE_PCT < \<bar>rolling_mean 2 gs ! j\<bar>)"
    using length_rolling_two [of gs] by (metis in_set_conv_nth)
  also have "\<dots> \<longleftrightarrow> (\<exists>j. Suc j < length gs \<and> SUSTAINED_INCLINE_PCT < \<bar>(gs ! j + gs ! Suc j) / 2\<bar>)"
    using rolling_two [of _ gs] by (metis Suc_eq_plus1 less_diff_conv)
  finally show ?thesis .
qed

lemma incline_cases:
  assumes "measurable interp ps es"
  shows "incline_findings interp ps es \<noteq> [] \<longleftrightarrow> (\<exists>j. steep_at interp ps es j) \<or> (\<exists>j. sustained_at interp ps es j)"
proof -
  obtain zs grid profile where es: "es = Some zs" "zs \<noteq> []" "length zs = length ps" "3 \<le> length ps"
    and r: "resample_elevation interp ps zs INCLINE_SMOOTHING_WINDOW_M = (grid, profile)"
    and g3: "3 \<le> length grid"
    using assms unfolding measurable_def by (metis prod.collapse)
  have rg: "route_gradients interp ps es = gradients_of profile" by (simp add: route_gradients_def es r)
  have "incline_findings interp ps es \<noteq> [] \<longleftrightarrow> steepest_findings ps grid (gradients_of profile) \<noteq> []
      \<or> sustained_findings ps grid (gradients_of profile) \<noteq> []"
    using es r g3 by (auto simp: incline_findings_def Let_def)
  moreover have "steepest_findings ps grid (gradients_of profile) \<noteq> [] \<longleftrightarrow> (\<exists>j. steep_at interp ps es j)"
    unfolding steepest_findings_Nil steep_at_def rg by (metis in_set_conv_nth not_le)
  ultimately show ?thesis unfolding sustained_findings_Nil sustained_at_def rg by blast
qed

lemma incline_unmeasured: "\<not> measurable interp ps es \<Longrightarrow> incline_findings interp ps es = []"
  by (auto simp: incline_findings_def measurable_def Let_def split_def split: option.splits)

lemma steep_drawn: "build_profile interp ps es = Some p \<Longrightarrow> ep_steep_spans p \<noteq> [] \<longleftrightarrow> (\<exists>j. steep_at interp ps es j)"
proof -
  assume p: "build_profile interp ps es = Some p"
  have "ep_steep_spans p \<noteq> [] \<longleftrightarrow>
      steep_runs (map (\<lambda>g. MAX_INCLINE_PCT < \<bar>g\<bar>) (route_gradients interp ps es)) 0 None \<noteq> []"
    unfolding build_profile_Some(4) [OF p] by simp
  also have "\<dots> \<longleftrightarrow> (\<exists>j. steep_at interp ps es j)"
    unfolding steep_runs_Nil steep_at_def by (auto simp: in_set_conv_nth image_iff) (metis nth_mem)
  finally show ?thesis .
qed


lemma ramp_profile:
  "\<exists>p. build_profile lin_interp forty_metres (Some [0, 4, 4]) = Some p
     \<and> length (ep_distances_m p) = 3 \<and> ep_steep_spans p = [(0, 2)]"
proof -
  obtain p where p: "build_profile lin_interp forty_metres (Some [0, 4, 4]) = Some p"
    using build_profile_None [of lin_interp forty_metres "Some [0, 4, 4]"] ramp_measurable by auto
  note P = build_profile_Some [OF p, unfolded ramp_gradients]
  have l: "length (ep_distances_m p) = 3" unfolding P(2) by (simp add: MAX_PROFILE_POINTS_def)
  have "ep_steep_spans p = map (scaled_run 3 1) [(0, 2)]"
    unfolding P(4) l by (simp add: incline_constants numeral_2_eq_2)
  then show ?thesis using p l scaled_run_id [of 0 2 3] by auto
qed

lemma profile_marks_the_steep_samples_witness:
  "steep_at lin_interp forty_metres (Some [0, 4, 4]) 0
     \<and> \<not> steep_at lin_interp forty_metres (Some [0, 4, 4]) 1"
proof -
  obtain p where p: "build_profile lin_interp forty_metres (Some [0, 4, 4]) = Some p"
      "length (ep_distances_m p) = 3" "ep_steep_spans p = [(0, 2)]"
    using ramp_profile by blast
  show ?thesis
    using profile_marks_the_steep_samples [OF p(1)] p(2,3)
    by (auto simp: MAX_PROFILE_POINTS_def in_run_def)
qed


text \<open>
  Seven per cent for forty metres: over the sustained limit, under the single one. The engine rejects
  the route and the card draws it without a steep stretch, which elevation.py says cannot happen.
\<close>

lemma climb_resampled:
  "resample_elevation lin_interp forty_metres [0, 7 / 5, 14 / 5] INCLINE_SMOOTHING_WINDOW_M
     = ([0, 20, 40], [0, 7 / 5, 14 / 5])"
  by (simp add: resample_elevation_def forty_metres_cumulative incline_constants arange_def
      numeral_2_eq_2 [symmetric] upt_rec Let_def)

lemma a_sustained_slope_is_not_drawn:
  "is_blocked (assess_route lin_interp forty_metres (Some [0, 7 / 5, 14 / 5]) None None)
   \<and> (\<exists>p. build_profile lin_interp forty_metres (Some [0, 7 / 5, 14 / 5]) = Some p \<and> ep_steep_spans p = [])"
proof -
  let ?es = "Some [0, 7 / 5, 14 / 5 :: real]"
  have g: "route_gradients lin_interp forty_metres ?es = [7, 7]"
    unfolding route_gradients_def option.case climb_resampled gradients_of_def by (simp add: incline_constants)
  have m: "measurable lin_interp forty_metres ?es" by (simp add: measurable_def climb_resampled)
  then obtain p where p: "build_profile lin_interp forty_metres ?es = Some p"
    using build_profile_None [of lin_interp forty_metres ?es] by auto
  have "\<not> steep_at lin_interp forty_metres ?es j" for j
    by (simp add: steep_at_def g incline_constants nth_Cons')
  then have "ep_steep_spans p = []" using steep_drawn [OF p] by auto
  moreover have "sustained_at lin_interp forty_metres ?es 0" by (simp add: sustained_at_def g incline_constants)
  then have "incline_findings lin_interp forty_metres ?es \<noteq> []" using incline_cases [OF m] by blast
  ultimately show ?thesis using p measurable_long_enough [OF m] by (auto simp: verdict_blocked)
qed

end
