(* ===== verification/RateLimit.thy ===== *)
theory RateLimit
  imports Prelude "HOL-Library.AList"
begin

text \<open>
  backend/ratelimit.py: the per-client token bucket and the global daily ceiling.

  The buckets are a Python dict: an association list in insertion order, because the eviction
  sorts it stably. The keyed hash that turns an address into a bucket id is the parameter
  \<open>digest\<close>; the two clocks (monotonic, and seconds since the epoch in UTC) are arguments. Every
  operation runs under the limiter's lock, so a step is one whole operation.
\<close>

section \<open>State\<close>

record bucket =
  bk_tokens :: real
  bk_last_refill :: real
  bk_last_seen :: real

record decision =
  dc_allowed :: bool
  dc_reason :: string
  dc_message :: string
  dc_retry_after_s :: int

record 'k limiter =
  rl_capacity :: int
  rl_refill_per_min :: real
  rl_daily_ceiling :: int
  rl_buckets :: "('k \<times> bucket) list"
  rl_day :: int
  rl_served_today :: int

definition IDLE_EVICTION_S :: real where "IDLE_EVICTION_S = 3600"
definition MAX_BUCKETS :: nat where "MAX_BUCKETS = 20000"

definition client_digest :: "(string \<Rightarrow> 'k) \<Rightarrow> string option \<Rightarrow> 'k" where
  "client_digest digest ip =
     digest (case ip of None \<Rightarrow> ''unknown'' | Some s \<Rightarrow> if s = '''' then ''unknown'' else s)"

definition new_limiter :: "int \<Rightarrow> real \<Rightarrow> int \<Rightarrow> real \<Rightarrow> 'k limiter" where
  "new_limiter capacity refill ceil utc =
     \<lparr>rl_capacity = capacity, rl_refill_per_min = refill, rl_daily_ceiling = ceil,
      rl_buckets = [], rl_day = utc_date utc, rl_served_today = 0\<rparr>"

section \<open>Operations\<close>

definition evict :: "real \<Rightarrow> ('k \<times> bucket) list \<Rightarrow> ('k \<times> bucket) list" where
  "evict now bs =
     (if length bs < MAX_BUCKETS then bs
      else let fresh = filter (\<lambda>(k, b). \<not> IDLE_EVICTION_S < now - bk_last_seen b) bs
        in if length fresh < MAX_BUCKETS then fresh
           else let ordered = sort_key (\<lambda>(k, b). bk_last_seen b) fresh;
                    gone = map fst (take (length ordered div 2) ordered)
                in filter (\<lambda>(k, b). k \<notin> set gone) fresh)"

definition roll_day :: "real \<Rightarrow> 'k limiter \<Rightarrow> 'k limiter" where
  "roll_day utc r =
     (if utc_date utc \<noteq> rl_day r then r\<lparr>rl_day := utc_date utc, rl_served_today := 0\<rparr> else r)"

definition refilled :: "'k limiter \<Rightarrow> real \<Rightarrow> bucket \<Rightarrow> bucket" where
  "refilled r now b =
     \<lparr>bk_tokens = min (of_int (rl_capacity r))
        (bk_tokens b + max 0 (now - bk_last_refill b) / 60 * rl_refill_per_min r),
      bk_last_refill = now, bk_last_seen = now\<rparr>"

definition daily_message :: string where
  "daily_message = ''Meander has used up its routing allowance for today. It runs on a free ''
     @ ''tier with a fixed daily quota. Please try again tomorrow.''"

definition per_ip_message :: "int \<Rightarrow> string" where
  "per_ip_message wait = ''That is a lot of routes in a short time. Please wait about ''
     @ int_text wait @ '' seconds and try again.''"

text \<open>The bucket a check charges, and the table it is charged in.\<close>

definition bucket_for :: "'k \<Rightarrow> real \<Rightarrow> 'k limiter \<Rightarrow> ('k \<times> bucket) list \<times> bucket" where
  "bucket_for key now r =
     (case map_of (rl_buckets r) key of
        Some b \<Rightarrow> (rl_buckets r, b)
      | None \<Rightarrow>
          let b = \<lparr>bk_tokens = of_int (rl_capacity r), bk_last_refill = now, bk_last_seen = now\<rparr>
          in (AList.update key b (evict now (rl_buckets r)), b))"

definition check :: "(string \<Rightarrow> 'k) \<Rightarrow> string option \<Rightarrow> real \<Rightarrow> real \<Rightarrow> bool \<Rightarrow> 'k limiter
    \<Rightarrow> 'k limiter \<times> decision" where
  "check digest ip now utc counts r0 =
     (let key = client_digest digest ip; r = roll_day utc r0
      in if counts \<and> rl_daily_ceiling r \<le> rl_served_today r
         then (r, \<lparr>dc_allowed = False, dc_reason = ''daily_ceiling'', dc_message = daily_message,
                   dc_retry_after_s = seconds_to_midnight_utc utc\<rparr>)
         else
           let (bs, b0) = bucket_for key now r;
               b = refilled r now b0
           in if bk_tokens b < 1
              then let wait = py_int ((1 - bk_tokens b) / max (rl_refill_per_min r) (1/100) * 60) + 1
                in (r\<lparr>rl_buckets := AList.update key b bs\<rparr>,
                    \<lparr>dc_allowed = False, dc_reason = ''per_ip'', dc_message = per_ip_message wait,
                     dc_retry_after_s = wait\<rparr>)
              else (r\<lparr>rl_buckets := AList.update key (b\<lparr>bk_tokens := bk_tokens b - 1\<rparr>) bs,
                      rl_served_today := (if counts then rl_served_today r + 1 else rl_served_today r)\<rparr>,
                    \<lparr>dc_allowed = True, dc_reason = '''', dc_message = '''', dc_retry_after_s = 0\<rparr>))"

definition refund :: "(string \<Rightarrow> 'k) \<Rightarrow> string option \<Rightarrow> 'k limiter \<Rightarrow> 'k limiter" where
  "refund digest ip r =
     (let key = client_digest digest ip
      in case map_of (rl_buckets r) key of
           None \<Rightarrow> r
         | Some b \<Rightarrow> r\<lparr>rl_buckets := AList.update key
               (b\<lparr>bk_tokens := min (of_int (rl_capacity r)) (bk_tokens b + 1)\<rparr>) (rl_buckets r),
             rl_served_today := max 0 (rl_served_today r - 1)\<rparr>)"

definition served_today :: "real \<Rightarrow> 'k limiter \<Rightarrow> 'k limiter \<times> int" where
  "served_today utc r = (let r' = roll_day utc r in (r', rl_served_today r'))"

definition reset :: "real \<Rightarrow> 'k limiter \<Rightarrow> 'k limiter" where
  "reset utc r = r\<lparr>rl_buckets := [], rl_served_today := 0, rl_day := utc_date utc\<rparr>"

lemmas limiter_ops = roll_day_def refund_def served_today_def reset_def

section \<open>Runs\<close>

text \<open>One operation, whoever calls it, with whatever clocks.\<close>

inductive rl_step :: "(string \<Rightarrow> 'k) \<Rightarrow> 'k limiter \<Rightarrow> 'k limiter \<Rightarrow> bool" for digest where
  step_check: "check digest ip now utc counts r = (r', d) \<Longrightarrow> rl_step digest r r'"
| step_refund: "rl_step digest r (refund digest ip r)"
| step_served: "served_today utc r = (r', n) \<Longrightarrow> rl_step digest r r'"
| step_reset: "rl_step digest r (reset utc r)"

inductive rl_reach :: "(string \<Rightarrow> 'k) \<Rightarrow> 'k limiter \<Rightarrow> 'k limiter \<Rightarrow> bool" for digest where
  rl_refl: "rl_reach digest r r"
| rl_trans: "rl_reach digest r r' \<Longrightarrow> rl_step digest r' r'' \<Longrightarrow> rl_reach digest r r''"

inductive_cases rl_stepE: "rl_step digest r r'"

definition good_bucket :: "int \<Rightarrow> bucket \<Rightarrow> bool" where
  "good_bucket cap b \<longleftrightarrow> 0 \<le> bk_tokens b \<and> bk_tokens b \<le> of_int cap"

definition rl_ok :: "'k limiter \<Rightarrow> bool" where
  "rl_ok r \<longleftrightarrow> distinct (map fst (rl_buckets r)) \<and> length (rl_buckets r) \<le> MAX_BUCKETS
     \<and> (\<forall>(k, b) \<in> set (rl_buckets r). good_bucket (rl_capacity r) b)
     \<and> 0 \<le> rl_served_today r \<and> rl_served_today r \<le> max 0 (rl_daily_ceiling r)
     \<and> 0 \<le> rl_capacity r \<and> 0 \<le> rl_refill_per_min r"

lemma evict_set: "set (evict now bs) \<subseteq> set bs"
  by (auto simp: evict_def Let_def)

lemma evict_distinct: "distinct (map fst bs) \<Longrightarrow> distinct (map fst (evict now bs))"
  by (simp add: evict_def Let_def distinct_map_filter)

text \<open>The eviction always makes room.\<close>

lemma evict_room:
  assumes "distinct (map fst bs)" and "length bs \<le> MAX_BUCKETS"
  shows "length (evict now bs) < MAX_BUCKETS"
proof -
  define fresh where "fresh = filter (\<lambda>(k, b). \<not> IDLE_EVICTION_S < now - bk_last_seen b) bs"
  define ordered where "ordered = sort_key (\<lambda>(k, b). bk_last_seen b) fresh"
  have d: "distinct (map fst fresh)" using assms(1) by (simp add: fresh_def distinct_map_filter)
  have le: "length fresh \<le> MAX_BUCKETS" using assms(2) unfolding fresh_def by (meson length_filter_le order_trans)
  have drop: "length (filter (\<lambda>(k, b). k \<notin> set (map fst (take (length ordered div 2) ordered))) fresh)
      = length fresh - length ordered div 2"
    by (rule filter_length_drop [OF d]) (simp_all add: ordered_def)
  consider "length bs < MAX_BUCKETS" | "\<not> length bs < MAX_BUCKETS" "length fresh < MAX_BUCKETS"
    | "\<not> length bs < MAX_BUCKETS" "\<not> length fresh < MAX_BUCKETS" by blast
  then show ?thesis
  proof cases
    case 3
    then have "evict now bs = filter (\<lambda>(k, b). k \<notin> set (map fst (take (length ordered div 2) ordered))) fresh"
      by (simp add: evict_def Let_def fresh_def [symmetric] ordered_def [symmetric])
    moreover have "length ordered = MAX_BUCKETS" using 3 le by (simp add: ordered_def)
    ultimately show ?thesis using drop le by (simp add: MAX_BUCKETS_def)
  qed (simp_all add: evict_def Let_def fresh_def [symmetric])
qed

lemma refilled_good:
  "0 \<le> rl_capacity r \<Longrightarrow> 0 \<le> rl_refill_per_min r \<Longrightarrow> 0 \<le> bk_tokens b \<Longrightarrow>
     good_bucket (rl_capacity r) (refilled r now b)"
  by (simp add: good_bucket_def refilled_def)

lemma roll_day_simps [simp]:
  "rl_capacity (roll_day utc r) = rl_capacity r"
  "rl_refill_per_min (roll_day utc r) = rl_refill_per_min r"
  "rl_daily_ceiling (roll_day utc r) = rl_daily_ceiling r"
  "rl_buckets (roll_day utc r) = rl_buckets r"
  "rl_day (roll_day utc r) = utc_date utc"
  by (simp_all add: roll_day_def)

lemma roll_day_ok: "rl_ok r \<Longrightarrow> rl_ok (roll_day utc r)"
  by (auto simp: rl_ok_def roll_day_def)

lemma length_update_le: "length (AList.update k v xs) \<le> Suc (length xs)"
  by (induction xs) auto

lemma length_update_in: "map_of xs k = Some v \<Longrightarrow> length (AList.update k w xs) = length xs"
  by (induction xs) (auto split: if_splits)

lemma set_update_subset: "set (AList.update k v xs) \<subseteq> insert (k, v) (set xs)"
  by (induction xs) auto

lemma bucket_for_props:
  assumes ok: "rl_ok r" and bf: "bucket_for key now r = (bs, b)"
  shows "distinct (map fst bs)" "length bs \<le> MAX_BUCKETS"
    "\<forall>(k, b) \<in> set bs. good_bucket (rl_capacity r) b" "map_of bs key = Some b"
    "good_bucket (rl_capacity r) b"
proof -
  have r: "distinct (map fst (rl_buckets r))" "length (rl_buckets r) \<le> MAX_BUCKETS"
    "\<forall>(k, b) \<in> set (rl_buckets r). good_bucket (rl_capacity r) b" "0 \<le> rl_capacity r"
    using ok by (auto simp: rl_ok_def)
  have "distinct (map fst bs) \<and> length bs \<le> MAX_BUCKETS
      \<and> (\<forall>(k, b) \<in> set bs. good_bucket (rl_capacity r) b) \<and> map_of bs key = Some b
      \<and> good_bucket (rl_capacity r) b"
  proof (cases "map_of (rl_buckets r) key")
    case (Some b')
    then have e: "bs = rl_buckets r" "b' = b" using bf by (auto simp: bucket_for_def)
    have "(key, b) \<in> set bs" using Some e map_of_SomeD by fastforce
    then show ?thesis using r Some e by auto
  next
    case None
    have g: "good_bucket (rl_capacity r) b" and bs: "bs = AList.update key b (evict now (rl_buckets r))"
      using bf None r(4) by (auto simp: bucket_for_def Let_def good_bucket_def)
    have "length bs \<le> MAX_BUCKETS"
      using length_update_le [of key b "evict now (rl_buckets r)"] evict_room [OF r(1,2), of now]
      unfolding bs by linarith
    moreover have "distinct (map fst bs)"
      unfolding bs by (intro distinct_update evict_distinct r(1))
    moreover have "\<forall>(k, b) \<in> set bs. good_bucket (rl_capacity r) b"
      using set_update_subset [of key b "evict now (rl_buckets r)"] evict_set [of now "rl_buckets r"] g r(3)
      unfolding bs by blast
    moreover have "map_of bs key = Some b" unfolding bs by (simp add: update_conv)
    ultimately show ?thesis using g by blast
  qed
  then show "distinct (map fst bs)" "length bs \<le> MAX_BUCKETS"
    "\<forall>(k, b) \<in> set bs. good_bucket (rl_capacity r) b" "map_of bs key = Some b"
    "good_bucket (rl_capacity r) b" by blast+
qed

lemma put_bucket_ok:
  assumes "rl_ok r" "bucket_for key now r = (bs, b0)" "good_bucket (rl_capacity r) b"
    and "0 \<le> n" "n \<le> max 0 (rl_daily_ceiling r)"
  shows "rl_ok (r\<lparr>rl_buckets := AList.update key b bs, rl_served_today := n\<rparr>)"
proof -
  note p = bucket_for_props [OF assms(1,2)]
  have "length (AList.update key b bs) \<le> MAX_BUCKETS"
    using p(2) length_update_in [OF p(4)] by simp
  moreover have "\<forall>(k, b) \<in> set (AList.update key b bs). good_bucket (rl_capacity r) b"
    using set_update_subset [of key b bs] assms(3) p(3) by blast
  ultimately show ?thesis
    using assms p(1) by (auto simp: rl_ok_def distinct_update)
qed

text \<open>The three ways a check can end.\<close>

definition charged :: "(string \<Rightarrow> 'k) \<Rightarrow> string option \<Rightarrow> real \<Rightarrow> real \<Rightarrow> 'k limiter \<Rightarrow> bucket" where
  "charged digest ip now utc r =
     refilled r now (snd (bucket_for (client_digest digest ip) now (roll_day utc r)))"

lemma refilled_roll_day [simp]: "refilled (roll_day utc r) now b = refilled r now b"
  by (simp add: refilled_def)

lemma check_cases:
  assumes "check digest ip now utc counts r = (r', d)"
  obtains (ceiling) "counts" "rl_daily_ceiling r \<le> rl_served_today (roll_day utc r)"
      "r' = roll_day utc r" "\<not> dc_allowed d" "dc_reason d = ''daily_ceiling''"
      "dc_retry_after_s d = seconds_to_midnight_utc utc"
  | (per_ip) bs b0 wait where "bucket_for (client_digest digest ip) now (roll_day utc r) = (bs, b0)"
      "bk_tokens (refilled r now b0) < 1" "\<not> dc_allowed d" "dc_reason d = ''per_ip''"
      "r' = roll_day utc r\<lparr>rl_buckets := AList.update (client_digest digest ip) (refilled r now b0) bs\<rparr>"
      "dc_retry_after_s d = wait"
      "wait = py_int ((1 - bk_tokens (refilled r now b0)) / max (rl_refill_per_min r) (1/100) * 60) + 1"
  | (allowed) bs b0 where "bucket_for (client_digest digest ip) now (roll_day utc r) = (bs, b0)"
      "1 \<le> bk_tokens (refilled r now b0)" "dc_allowed d" "dc_reason d = ''''"
      "\<not> (counts \<and> rl_daily_ceiling r \<le> rl_served_today (roll_day utc r))"
      "r' = roll_day utc r\<lparr>rl_buckets := AList.update (client_digest digest ip)
              (refilled r now b0\<lparr>bk_tokens := bk_tokens (refilled r now b0) - 1\<rparr>) bs,
            rl_served_today := (if counts then rl_served_today (roll_day utc r) + 1
                                else rl_served_today (roll_day utc r))\<rparr>"
proof -
  obtain bs b0 where bf: "bucket_for (client_digest digest ip) now (roll_day utc r) = (bs, b0)"
    by fastforce
  consider "counts \<and> rl_daily_ceiling r \<le> rl_served_today (roll_day utc r)"
    | "\<not> (counts \<and> rl_daily_ceiling r \<le> rl_served_today (roll_day utc r))"
      "bk_tokens (refilled r now b0) < 1"
    | "\<not> (counts \<and> rl_daily_ceiling r \<le> rl_served_today (roll_day utc r))"
      "\<not> bk_tokens (refilled r now b0) < 1" by blast
  then show thesis
  proof cases
    case 1
    then show thesis using assms by (intro ceiling) (auto simp: check_def Let_def)
  next
    case 2
    then show thesis using assms bf by (intro per_ip [OF bf]) (auto simp: check_def Let_def)
  next
    case 3
    then show thesis using assms bf by (intro allowed [OF bf]) (auto simp: check_def Let_def)
  qed
qed

lemma check_ok:
  assumes "rl_ok r" and "check digest ip now utc counts r = (r', d)"
  shows "rl_ok r'"
  using assms(2)
proof (cases rule: check_cases)
  case ceiling
  then show ?thesis using roll_day_ok assms(1) by simp
next
  case (per_ip bs b0 wait)
  have ok: "rl_ok (roll_day utc r)" by (rule roll_day_ok [OF assms(1)])
  have "good_bucket (rl_capacity r) b0" using bucket_for_props(5) [OF ok per_ip(1)] by simp
  then have g: "good_bucket (rl_capacity r) (refilled r now b0)"
    using assms(1) by (intro refilled_good) (auto simp: rl_ok_def good_bucket_def)
  have "rl_ok (roll_day utc r\<lparr>rl_buckets := AList.update (client_digest digest ip) (refilled r now b0) bs,
      rl_served_today := rl_served_today (roll_day utc r)\<rparr>)"
    using ok g by (intro put_bucket_ok [OF ok per_ip(1)]) (auto simp: rl_ok_def)
  then show ?thesis unfolding per_ip(5) by simp
next
  case (allowed bs b0)
  have ok: "rl_ok (roll_day utc r)" by (rule roll_day_ok [OF assms(1)])
  have "good_bucket (rl_capacity r) b0" using bucket_for_props(5) [OF ok allowed(1)] by simp
  then have "good_bucket (rl_capacity r) (refilled r now b0)"
    using assms(1) by (intro refilled_good) (auto simp: rl_ok_def good_bucket_def)
  then have g: "good_bucket (rl_capacity r) (refilled r now b0\<lparr>bk_tokens := bk_tokens (refilled r now b0) - 1\<rparr>)"
    using allowed(2) by (simp add: good_bucket_def)
  show ?thesis unfolding allowed(6)
    using ok g allowed(5) by (intro put_bucket_ok [OF ok allowed(1)]) (auto simp: rl_ok_def)
qed

lemma refund_ok: "rl_ok r \<Longrightarrow> rl_ok (refund digest ip r)"
proof (cases "map_of (rl_buckets r) (client_digest digest ip)")
  case None
  then show "rl_ok r \<Longrightarrow> rl_ok (refund digest ip r)" by (simp add: refund_def)
next
  case (Some b)
  assume ok: "rl_ok r"
  have bf: "bucket_for (client_digest digest ip) 0 r = (rl_buckets r, b)"
    using Some by (simp add: bucket_for_def)
  have "good_bucket (rl_capacity r) b" by (rule bucket_for_props(5) [OF ok bf])
  then have "good_bucket (rl_capacity r) (b\<lparr>bk_tokens := min (of_int (rl_capacity r)) (bk_tokens b + 1)\<rparr>)"
    by (simp add: good_bucket_def)
  then show "rl_ok (refund digest ip r)"
    using Some ok put_bucket_ok [OF ok bf, of _ "max 0 (rl_served_today r - 1)"]
    by (simp add: refund_def rl_ok_def)
qed

lemma rl_step_ok: "rl_step digest r r' \<Longrightarrow> rl_ok r \<Longrightarrow> rl_ok r'"
  by (erule rl_stepE)
    (auto simp: served_today_def Let_def intro: check_ok refund_ok roll_day_ok,
     auto simp: rl_ok_def reset_def)

lemma rl_step_params:
  "rl_step digest r r' \<Longrightarrow> rl_daily_ceiling r' = rl_daily_ceiling r \<and> rl_capacity r' = rl_capacity r
     \<and> rl_refill_per_min r' = rl_refill_per_min r"
proof (erule rl_stepE)
  fix ip now utc counts d
  assume "check digest ip now utc counts r = (r', d)"
  then show ?thesis by (cases rule: check_cases) auto
qed (auto simp: served_today_def reset_def refund_def Let_def split: option.splits)

lemma rl_reach_ok:
  "rl_reach digest r r' \<Longrightarrow> rl_ok r \<Longrightarrow> rl_ok r' \<and> rl_daily_ceiling r' = rl_daily_ceiling r
     \<and> rl_capacity r' = rl_capacity r"
  by (induction rule: rl_reach.induct) (auto dest: rl_step_ok rl_step_params)

lemma new_limiter_ok: "0 \<le> cap \<Longrightarrow> 0 \<le> refill \<Longrightarrow> rl_ok (new_limiter cap refill ceil utc)"
  by (simp add: rl_ok_def new_limiter_def)

section \<open>The token bucket over a run of requests\<close>

text \<open>What the bucket of a key holds at a time, a client never seen holding a full one.\<close>

definition pot :: "'k \<Rightarrow> 'k limiter \<Rightarrow> real \<Rightarrow> real" where
  "pot k r t =
     (case map_of (rl_buckets r) k of
        None \<Rightarrow> of_int (rl_capacity r)
      | Some b \<Rightarrow> bk_tokens (refilled r t b))"

definition seen_by :: "real \<Rightarrow> 'k limiter \<Rightarrow> bool" where
  "seen_by t r \<longleftrightarrow> (\<forall>(k, b) \<in> set (rl_buckets r). bk_last_refill b \<le> t)"

lemma bucket_for_no_evict:
  assumes "length (rl_buckets r) < MAX_BUCKETS" and "bucket_for key now r = (bs, b0)"
  shows "map_of bs key = Some b0" and "\<And>k. k \<noteq> key \<Longrightarrow> map_of bs k = map_of (rl_buckets r) k"
    and "length bs \<le> Suc (length (rl_buckets r))"
    and "bk_tokens (refilled r now b0) = pot key r now"
    and "seen_by now r \<Longrightarrow> \<forall>(k, b) \<in> set bs. bk_last_refill b \<le> now"
proof -
  have ev: "evict now (rl_buckets r) = rl_buckets r" using assms(1) by (simp add: evict_def)
  show "map_of bs key = Some b0"
    using assms(2) by (auto simp: bucket_for_def ev update_conv Let_def split: option.splits)
  show "k \<noteq> key \<Longrightarrow> map_of bs k = map_of (rl_buckets r) k" for k
    using assms(2) by (auto simp: bucket_for_def ev update_conv Let_def split: option.splits)
  show "length bs \<le> Suc (length (rl_buckets r))"
    using assms(2) length_update_le [of key _ "rl_buckets r"]
    by (auto simp: bucket_for_def ev Let_def split: option.splits)
  show "bk_tokens (refilled r now b0) = pot key r now"
    using assms(2) by (auto simp: bucket_for_def pot_def refilled_def Let_def split: option.splits)
  show "seen_by now r \<Longrightarrow> \<forall>(k, b) \<in> set bs. bk_last_refill b \<le> now"
    using assms(2) set_update_subset [of key b0 "rl_buckets r"]
    by (auto simp: bucket_for_def ev seen_by_def Let_def split: option.splits)
qed

lemma pot_roll_day [simp]: "pot k (roll_day utc r) t = pot k r t"
  by (simp add: pot_def split: option.splits)

lemma seen_by_roll_day [simp]: "seen_by t (roll_day utc r) = seen_by t r"
  by (simp add: seen_by_def)

lemma pot_later:
  assumes "seen_by t r" "t \<le> t'" "0 \<le> rl_refill_per_min r"
  shows "pot k r t' \<le> pot k r t + (t' - t) / 60 * rl_refill_per_min r"
proof (cases "map_of (rl_buckets r) k")
  case None
  then show ?thesis using assms by (simp add: pot_def)
next
  case (Some b)
  then have "bk_last_refill b \<le> t" using assms(1) map_of_SomeD by (fastforce simp: seen_by_def)
  then have e: "max 0 (t' - bk_last_refill b) / 60 * rl_refill_per_min r
      = max 0 (t - bk_last_refill b) / 60 * rl_refill_per_min r + (t' - t) / 60 * rl_refill_per_min r"
    using assms(2) by (simp add: algebra_simps add_divide_distrib diff_divide_distrib)
  have "0 \<le> (t' - t) / 60 * rl_refill_per_min r" using assms by simp
  then show ?thesis unfolding pot_def Some option.case refilled_def bucket.simps e by linarith
qed

lemma pot_put:
  "bk_last_refill b = t \<Longrightarrow> bk_tokens b \<le> of_int (rl_capacity r) \<Longrightarrow>
     pot k (r\<lparr>rl_buckets := AList.update key b bs, rl_served_today := n\<rparr>) t
       = (if k = key then bk_tokens b
          else case map_of bs k of None \<Rightarrow> of_int (rl_capacity r) | Some b \<Rightarrow> bk_tokens (refilled r t b))"
  by (auto simp: pot_def update_conv refilled_def split: option.splits)

lemma seen_by_put:
  "\<forall>(k, b) \<in> set bs. bk_last_refill b \<le> t \<Longrightarrow> bk_last_refill b \<le> t \<Longrightarrow>
     seen_by t (r\<lparr>rl_buckets := AList.update key b bs, rl_served_today := n\<rparr>)"
  using set_update_subset [of key b bs] by (auto simp: seen_by_def)

lemma check_spends:
  assumes ok: "rl_ok r" and room: "length (rl_buckets r) < MAX_BUCKETS" and seen: "seen_by now r"
    and c: "check digest ip now utc counts r = (r', d)"
  shows "pot k r' now + (if client_digest digest ip = k \<and> dc_allowed d then 1 else 0) = pot k r now"
    and "seen_by now r'" and "length (rl_buckets r') \<le> Suc (length (rl_buckets r))"
proof -
  let ?key = "client_digest digest ip" and ?r = "roll_day utc r"
  have room': "length (rl_buckets ?r) < MAX_BUCKETS" and seen': "seen_by now ?r"
    using room seen by simp_all
  have cap: "bk_tokens (refilled r now b) \<le> of_int (rl_capacity r)"
    "bk_last_refill (refilled r now b) = now" for b
    by (simp_all add: refilled_def)
  have other: "(case map_of bs k of None \<Rightarrow> of_int (rl_capacity r) | Some b \<Rightarrow> bk_tokens (refilled r now b))
      = pot k r now" if "bucket_for ?key now ?r = (bs, b0)" "k \<noteq> ?key" for bs b0
    using bucket_for_no_evict(2) [OF room' that] by (simp add: pot_def)
  show "pot k r' now + (if client_digest digest ip = k \<and> dc_allowed d then 1 else 0) = pot k r now"
    using c
  proof (cases rule: check_cases)
    case ceiling
    then show ?thesis by simp
  next
    case (per_ip bs b0 wait)
    have "pot k (?r\<lparr>rl_buckets := AList.update ?key (refilled r now b0) bs,
          rl_served_today := rl_served_today ?r\<rparr>) now = pot k r now"
      using other [OF per_ip(1)] bucket_for_no_evict(4) [OF room' per_ip(1)] cap [of b0]
      by (subst pot_put) (auto split: option.splits)
    then show ?thesis using per_ip by simp
  next
    case (allowed bs b0)
    have "pot k r' now = (if k = ?key then bk_tokens (refilled r now b0) - 1 else pot k r now)"
      unfolding allowed(6) using other [OF allowed(1)] cap [of b0]
      by (subst pot_put) (auto split: option.splits)
    then show ?thesis using allowed bucket_for_no_evict(4) [OF room' allowed(1)] by auto
  qed
  show "seen_by now r'" using c
  proof (cases rule: check_cases)
    case ceiling
    then show ?thesis using seen by simp
  next
    case (per_ip bs b0 wait)
    then show ?thesis
      using seen_by_put [OF bucket_for_no_evict(5) [OF room' per_ip(1) seen'],
          where b = "refilled r now b0" and r = "?r" and key = "?key" and n = "rl_served_today ?r"] cap
      by simp
  next
    case (allowed bs b0)
    then show ?thesis unfolding allowed(6)
      by (intro seen_by_put [OF bucket_for_no_evict(5) [OF room' allowed(1) seen']]) (simp add: cap)
  qed
  show "length (rl_buckets r') \<le> Suc (length (rl_buckets r))" using c
  proof (cases rule: check_cases)
    case (per_ip bs b0 wait)
    show ?thesis unfolding per_ip(5)
      using bucket_for_no_evict(3) [OF room' per_ip(1)]
      by (simp add: length_update_in [OF bucket_for_no_evict(1) [OF room' per_ip(1)]])
  next
    case (allowed bs b0)
    show ?thesis unfolding allowed(6)
      using bucket_for_no_evict(3) [OF room' allowed(1)]
      by (simp add: length_update_in [OF bucket_for_no_evict(1) [OF room' allowed(1)]])
  qed simp
qed

type_synonym request = "string option \<times> real \<times> real \<times> bool"

fun run_checks :: "(string \<Rightarrow> 'k) \<Rightarrow> request list \<Rightarrow> 'k limiter \<Rightarrow> 'k limiter \<times> decision list" where
  "run_checks digest [] r = (r, [])"
| "run_checks digest ((ip, now, utc, counts) # qs) r =
     (let (r', d) = check digest ip now utc counts r; (r'', ds) = run_checks digest qs r'
      in (r'', d # ds))"

definition admitted :: "(string \<Rightarrow> 'k) \<Rightarrow> 'k \<Rightarrow> request list \<Rightarrow> decision list \<Rightarrow> nat" where
  "admitted digest k qs ds =
     length (filter (\<lambda>(q, d). client_digest digest (fst q) = k \<and> dc_allowed d) (zip qs ds))"

definition times_of :: "request list \<Rightarrow> real list" where
  "times_of qs = map (\<lambda>q. fst (snd q)) qs"

lemma run_checks_bound:
  assumes "rl_ok r" "length (rl_buckets r) + length qs \<le> MAX_BUCKETS" "seen_by t r"
    "sorted (t # times_of qs)" "run_checks digest qs r = (r', ds)"
  shows "real (admitted digest k qs ds) + pot k r' (last (t # times_of qs))
       \<le> pot k r t + (last (t # times_of qs) - t) / 60 * rl_refill_per_min r \<and> rl_ok r'
       \<and> rl_capacity r' = rl_capacity r"
  using assms
proof (induction qs arbitrary: r t ds)
  case Nil
  then show ?case by (simp add: admitted_def times_of_def)
next
  case (Cons q qs)
  obtain ip now utc counts where q: "q = (ip, now, utc, counts)" by (metis prod_cases4)
  obtain r1 d where c: "check digest ip now utc counts r = (r1, d)" by fastforce
  obtain ds' where rest: "run_checks digest qs r1 = (r', ds')" and ds: "ds = d # ds'"
    using Cons.prems(5) c unfolding q by (simp add: Let_def split: prod.splits)
  have tn: "t \<le> now" and srt: "sorted (now # times_of qs)"
    using Cons.prems(4) by (auto simp: q times_of_def)
  have room: "length (rl_buckets r) < MAX_BUCKETS" using Cons.prems(2) by simp
  have seen: "seen_by now r" using Cons.prems(3) tn by (fastforce simp: seen_by_def)
  note sp = check_spends [OF Cons.prems(1) room seen c]
  have params: "rl_refill_per_min r1 = rl_refill_per_min r" "rl_capacity r1 = rl_capacity r"
    using rl_step_params [OF step_check [OF c]] by auto
  have len: "length (rl_buckets r1) + length qs \<le> MAX_BUCKETS" using sp(3) Cons.prems(2) by simp
  note IH = Cons.IH [OF check_ok [OF Cons.prems(1) c] len sp(2) srt rest, unfolded params]
  have adm: "real (admitted digest k (q # qs) ds) = real (admitted digest k qs ds')
      + (if client_digest digest ip = k \<and> dc_allowed d then 1 else 0)"
    by (simp add: admitted_def ds q)
  have lst: "last (t # times_of (q # qs)) = last (now # times_of qs)"
    by (simp add: times_of_def q)
  have later: "pot k r now \<le> pot k r t + (now - t) / 60 * rl_refill_per_min r"
    using Cons.prems(1,3) tn by (intro pot_later) (auto simp: rl_ok_def)
  have split: "(last (now # times_of qs) - t) / 60 * rl_refill_per_min r
      = (last (now # times_of qs) - now) / 60 * rl_refill_per_min r + (now - t) / 60 * rl_refill_per_min r"
    by (simp add: algebra_simps diff_divide_distrib)
  show ?case
    unfolding adm lst split using IH sp(1) [of k] later by (simp add: params split: if_splits)
qed

section \<open>Properties\<close>

text \<open>
  C12 The limiter's invariant, over every sequence of checks, refunds, reads and resets by any
  clients at any clock readings: the count of served routes stays between zero and the daily
  ceiling, every bucket holds between zero and capacity tokens, and the table never holds two
  buckets of one client or more than 20,000 of them.
\<close>

theorem limiter_invariant:
  assumes "0 \<le> cap" "0 \<le> refill" and "rl_reach digest (new_limiter cap refill ceil utc) r"
  shows "0 \<le> rl_served_today r \<and> rl_served_today r \<le> max 0 ceil
       \<and> (\<forall>(k, b) \<in> set (rl_buckets r). 0 \<le> bk_tokens b \<and> bk_tokens b \<le> of_int cap)
       \<and> distinct (map fst (rl_buckets r)) \<and> length (rl_buckets r) \<le> MAX_BUCKETS"
  using rl_reach_ok [OF assms(3) new_limiter_ok [OF assms(1,2)]]
  by (auto simp: rl_ok_def good_bucket_def new_limiter_def)

definition burst :: "request list" where
  "burst = [(Some ''a'', 0, 0, True), (Some ''a'', 0, 0, True), (Some ''a'', 0, 0, True)]"

lemmas limiter_eval =
  new_limiter_def run_checks.simps check_def bucket_for_def roll_day_def refilled_def evict_def
  client_digest_def utc_date_def MAX_BUCKETS_def Let_def

lemma limiter_invariant_witness:
  "rl_served_today (fst (check id (Some ''a'') 0 0 True (new_limiter 2 1 5 0))) \<le> 5"
proof -
  obtain r d where c: "check id (Some ''a'') 0 0 True (new_limiter 2 1 5 0) = (r, d)" by fastforce
  have "rl_reach id (new_limiter 2 1 5 0) r"
    by (rule rl_trans [OF rl_refl step_check [OF c]])
  then show ?thesis using limiter_invariant [of 2 1 id 5 0 r] c by simp
qed

text \<open>
  C13 The token bucket's promise to the upstream quota: over any run of checks at non-decreasing
  times that fits in the bucket table, one client is admitted at most capacity plus the refill
  rate times the elapsed minutes, whatever the other clients do in between.
\<close>

theorem admitted_within_rate:
  assumes "rl_ok r" and "length (rl_buckets r) + length qs \<le> MAX_BUCKETS" and "seen_by t r"
    and "sorted (t # times_of qs)" and "run_checks digest qs r = (r', ds)"
  shows "real (admitted digest k qs ds)
       \<le> of_int (rl_capacity r) + (last (t # times_of qs) - t) / 60 * rl_refill_per_min r"
proof -
  have b: "real (admitted digest k qs ds) + pot k r' (last (t # times_of qs))
      \<le> pot k r t + (last (t # times_of qs) - t) / 60 * rl_refill_per_min r"
    "rl_ok r'" "rl_capacity r' = rl_capacity r"
    using run_checks_bound [OF assms, of k] by auto
  have range: "0 \<le> pot k s u \<and> pot k s u \<le> of_int (rl_capacity s)" if "rl_ok s" for s :: "'a limiter" and u
  proof (cases "map_of (rl_buckets s) k")
    case None
    then show ?thesis using that by (simp add: pot_def rl_ok_def)
  next
    case (Some b)
    then have "good_bucket (rl_capacity s) b" using that map_of_SomeD by (fastforce simp: rl_ok_def)
    then show ?thesis
      using refilled_good [of s b u] that Some by (simp add: pot_def good_bucket_def rl_ok_def)
  qed
  show ?thesis using b(1) range [OF assms(1), of t] range [OF b(2), of "last (t # times_of qs)"] by linarith
qed

lemma admitted_within_rate_witness:
  "admitted id ''a'' burst (snd (run_checks id burst (new_limiter 2 1 5 0))) \<le> 2"
proof -
  obtain r' ds where run: "run_checks id burst (new_limiter 2 1 5 0) = (r', ds)" by fastforce
  have "real (admitted id ''a'' burst ds)
      \<le> of_int (rl_capacity (new_limiter 2 1 5 0 :: string limiter))
        + (last (0 # times_of burst) - 0) / 60 * rl_refill_per_min (new_limiter 2 1 5 0 :: string limiter)"
    by (rule admitted_within_rate [OF _ _ _ _ run])
      (simp_all add: new_limiter_ok burst_def new_limiter_def MAX_BUCKETS_def seen_by_def times_of_def
        rl_ok_def)
  then show ?thesis using run by (simp add: new_limiter_def burst_def times_of_def)
qed

text \<open>
  The wait the client is told is long enough: when a check is refused for the client's own
  rate, the same client asking again once \<open>retry_after_s\<close> seconds have passed, with no slot of
  the daily ceiling missing, is allowed.
\<close>

theorem told_wait_suffices:
  assumes "rl_ok r" and "1 \<le> rl_capacity r" and "1/100 \<le> rl_refill_per_min r"
    and "check digest ip now utc counts r = (r1, d1)" and "dc_reason d1 = ''per_ip''"
    and "now + of_int (dc_retry_after_s d1) \<le> later"
    and "\<not> (counts' \<and> rl_daily_ceiling r \<le> rl_served_today (roll_day utc' r1))"
  shows "dc_allowed (snd (check digest ip later utc' counts' r1)) \<and> 1 \<le> dc_retry_after_s d1"
  using assms(4)
proof (cases rule: check_cases)
  case (per_ip bs b0 wait)
  let ?key = "client_digest digest ip" and ?b = "refilled r now b0" and ?c = "rl_refill_per_min r"
  have par: "rl_capacity r1 = rl_capacity r" "rl_refill_per_min r1 = ?c" "rl_daily_ceiling r1 = rl_daily_ceiling r"
    using rl_step_params [OF step_check [OF assms(4)]] by auto
  have c: "0 < ?c" "max ?c (1/100) = ?c" using assms(3) by auto
  have w0: "0 \<le> (1 - bk_tokens ?b) / ?c * 60" using per_ip(2) c(1) by simp
  then have w1: "1 \<le> wait" using per_ip(7) c(2) by (simp add: py_int_def)
  have "(1 - bk_tokens ?b) / ?c * 60 < of_int wait"
    using py_int_gt [OF w0] per_ip(7) c(2) by simp
  then have "(1 - bk_tokens ?b) < of_int wait / 60 * ?c"
    using c(1) by (simp add: field_simps)
  moreover have "of_int wait / 60 * ?c \<le> max 0 (later - now) / 60 * ?c"
    using assms(6) per_ip(6) c(1) by (intro mult_right_mono divide_right_mono) auto
  ultimately have enough: "1 \<le> bk_tokens ?b + max 0 (later - now) / 60 * ?c" by linarith
  have m: "map_of (rl_buckets (roll_day utc' r1)) ?key = Some ?b"
    by (simp add: per_ip(5) update_conv)
  have bf: "bucket_for ?key later (roll_day utc' r1) = (rl_buckets (roll_day utc' r1), ?b)"
    unfolding bucket_for_def m by simp
  have "bk_last_refill ?b = now" by (simp add: refilled_def)
  then have "\<not> bk_tokens (refilled r1 later ?b) < 1"
    using enough assms(2) by (simp add: refilled_def [of r1] par)
  then have "dc_allowed (snd (check digest ip later utc' counts' r1))"
    using assms(7) par(3) bf by (auto simp: check_def Let_def)
  then show ?thesis using w1 per_ip(6) by simp
qed (use assms(5) in auto)

definition spent :: "string limiter" where
  "spent = \<lparr>rl_capacity = 1, rl_refill_per_min = 6, rl_daily_ceiling = 100,
     rl_buckets = [(''a'', \<lparr>bk_tokens = 0, bk_last_refill = 0, bk_last_seen = 0\<rparr>)],
     rl_day = 0, rl_served_today = 1\<rparr>"

lemma told_wait_suffices_witness:
  "\<exists>d. snd (check id (Some ''a'') 0 0 True spent) = d \<and> \<not> dc_allowed d \<and> dc_retry_after_s d = 11
     \<and> dc_allowed (snd (check id (Some ''a'') 11 11 True (fst (check id (Some ''a'') 0 0 True spent))))"
proof -
  obtain r1 d1 where c: "check id (Some ''a'') 0 0 True spent = (r1, d1)" by fastforce
  have d: "\<not> dc_allowed d1" "dc_reason d1 = ''per_ip''" "dc_retry_after_s d1 = 11"
      "rl_served_today r1 = 1" "rl_day r1 = 0"
    using c by (auto simp: limiter_eval spent_def py_int_def)
  have "rl_ok spent" by (simp add: rl_ok_def spent_def MAX_BUCKETS_def good_bucket_def)
  then have "dc_allowed (snd (check id (Some ''a'') 11 11 True r1))"
    using told_wait_suffices [of spent id "Some ''a''" 0 0 True r1 d1 11 True 11] c d
    by (simp add: spent_def roll_day_def utc_date_def)
  then show ?thesis using c d by simp
qed

text \<open>
  A refund undoes the check it follows: after an allowed, counted check and its refund, the
  day's count is what it was and the client's bucket holds what it held before the token was
  taken (refilled up to the time of the check).
\<close>

theorem refund_undoes_check:
  assumes "rl_ok r" and "check digest ip now utc True r = (r1, d)" and "dc_allowed d"
  shows "rl_served_today (refund digest ip r1) = rl_served_today (roll_day utc r)
       \<and> map_of (rl_buckets (refund digest ip r1)) (client_digest digest ip) = Some (charged digest ip now utc r)
       \<and> rl_day (refund digest ip r1) = utc_date utc"
  using assms(2)
proof (cases rule: check_cases)
  case (allowed bs b0)
  have "bk_tokens (refilled r now b0) \<le> of_int (rl_capacity r)" by (simp add: refilled_def)
  then have "refilled r now b0\<lparr>bk_tokens := min (of_int (rl_capacity r)) (bk_tokens (refilled r now b0) - 1 + 1)\<rparr>
      = refilled r now b0" by simp
  moreover have "0 \<le> rl_served_today (roll_day utc r)"
    using roll_day_ok [OF assms(1), of utc] by (simp add: rl_ok_def)
  ultimately show ?thesis
    using allowed(1) by (simp add: refund_def allowed(6) update_conv charged_def)
qed (use assms(3) in auto)

lemma refund_undoes_check_witness:
  "rl_served_today (refund id (Some ''a'') (fst (check id (Some ''a'') 0 0 True (new_limiter 2 1 5 0)))) = 0"
proof -
  obtain r1 d where c: "check id (Some ''a'') 0 0 True (new_limiter 2 1 5 0) = (r1, d)" by fastforce
  have "dc_allowed d" using c by (auto simp: limiter_eval)
  then show ?thesis
    using refund_undoes_check [OF new_limiter_ok c] c by (simp add: roll_day_def new_limiter_def)
qed

text \<open>
  Where the refund's own account of itself is wrong. The comment says that a day roll between a
  check and its refund no longer makes the count drift; but a roll keeps the buckets, so the
  refund of a route charged before midnight still takes a slot off the new day: with one route
  served today by somebody else the count reads zero.
\<close>

theorem refund_crosses_midnight:
  assumes "check digest ip1 now1 utc1 True r = (r1, d1)" and "dc_allowed d1"
    and "check digest ip2 now2 utc2 True r1 = (r2, d2)" and "dc_allowed d2"
    and "utc_date utc2 \<noteq> utc_date utc1" and "client_digest digest ip1 \<noteq> client_digest digest ip2"
    and "length (rl_buckets r1) < MAX_BUCKETS"
  shows "rl_served_today r2 = 1 \<and> rl_served_today (refund digest ip1 r2) = 0"
proof -
  let ?k1 = "client_digest digest ip1"
  have day: "rl_day r1 = utc_date utc1" "map_of (rl_buckets r1) ?k1 \<noteq> None"
    using assms(1) by (cases rule: check_cases; use assms(2) in \<open>simp add: update_conv\<close>)+
  have s: "rl_served_today (roll_day utc2 r1) = 0" using assms(5) day by (simp add: roll_day_def)
  show ?thesis using assms(3)
  proof (cases rule: check_cases)
    case (allowed bs b0)
    have "map_of bs ?k1 \<noteq> None"
      using bucket_for_no_evict(2) [OF _ allowed(1) assms(6)] assms(7) day(2) by simp
    then obtain b where b: "map_of (rl_buckets r2) ?k1 = Some b"
      using assms(6) by (auto simp: allowed(6) update_conv)
    have "rl_served_today r2 = 1" by (simp add: allowed(6) s)
    then show ?thesis using b by (simp add: refund_def)
  qed (use assms(4) in auto)
qed

lemma refund_crosses_midnight_witness:
  "\<exists>r2. rl_served_today r2 = (1::int) \<and> rl_served_today (refund id (Some ''a'') r2) = 0"
proof -
  obtain r1 d1 where c1: "check id (Some ''a'') 0 86399 True (new_limiter 2 1 5 0) = (r1, d1)" by fastforce
  obtain r2 d2 where c2: "check id (Some ''b'') 60 86459 True r1 = (r2, d2)" by fastforce
  have r1: "dc_allowed d1" "length (rl_buckets r1) < MAX_BUCKETS"
      "rl_buckets r1 = [(''a'', \<lparr>bk_tokens = 1, bk_last_refill = 0, bk_last_seen = 0\<rparr>)]"
      "rl_capacity r1 = 2" "rl_refill_per_min r1 = 1" "rl_daily_ceiling r1 = 5" "rl_day r1 = 0"
    using c1 by (auto simp: limiter_eval)
  have "dc_allowed d2" using c2 r1 by (auto simp: limiter_eval)
  then show ?thesis
    using refund_crosses_midnight [OF c1 r1(1) c2] r1(2) by (auto simp: utc_date_def client_digest_def)
qed

end
