(* ===== verification/Metrics.thy ===== *)
theory Metrics
  imports Prelude "HOL-Library.AList"
begin

text \<open>
  backend/metrics.py: the privacy-safe counters. A Counter is a map whose missing names read as
  zero; the set of session digests is a list without repeats (only its size is published). The keyed
  hash is the parameter \<open>digest\<close>, the clock an argument.
\<close>

record 'd metrics =
  m_counters :: "(string \<times> int) list"
  m_day :: int
  m_sessions_today :: "'d list"
  m_started_at :: real

definition new_metrics :: "real \<Rightarrow> 'd metrics" where
  "new_metrics utc = \<lparr>m_counters = [], m_day = utc_date utc, m_sessions_today = [], m_started_at = utc\<rparr>"

definition metrics_roll_day :: "real \<Rightarrow> 'd metrics \<Rightarrow> 'd metrics" where
  "metrics_roll_day utc m =
     (if utc_date utc \<noteq> m_day m then m\<lparr>m_day := utc_date utc, m_sessions_today := []\<rparr> else m)"

definition counter :: "(string \<times> int) list \<Rightarrow> string \<Rightarrow> int" where
  "counter cs k = (case map_of cs k of None \<Rightarrow> 0 | Some n \<Rightarrow> n)"

definition incr :: "real \<Rightarrow> string \<Rightarrow> int \<Rightarrow> 'd metrics \<Rightarrow> 'd metrics" where
  "incr utc k amount m0 =
     (let m = metrics_roll_day utc m0
      in m\<lparr>m_counters := AList.update k (counter (m_counters m) k + amount) (m_counters m)\<rparr>)"

definition session_material :: "string option \<Rightarrow> string option \<Rightarrow> string" where
  "session_material ip user_agent =
     (case ip of None \<Rightarrow> '''' | Some s \<Rightarrow> s) @ ''|'' @ (case user_agent of None \<Rightarrow> '''' | Some s \<Rightarrow> s)"

definition note_session :: "(string \<Rightarrow> 'd) \<Rightarrow> real \<Rightarrow> string option \<Rightarrow> string option \<Rightarrow> 'd metrics
    \<Rightarrow> 'd metrics" where
  "note_session digest utc ip user_agent m0 =
     (let m = metrics_roll_day utc m0
      in m\<lparr>m_sessions_today := List.insert (digest (session_material ip user_agent)) (m_sessions_today m)\<rparr>)"

definition KNOWN_COUNTERS :: "string list" where
  "KNOWN_COUNTERS =
     [''route_requests_total'', ''routes_blocked_total'', ''cache_hits_total'', ''cache_misses_total'',
      ''segments_scored_total'', ''rate_limited_total'', ''upstream_failures_total'',
      ''narration_failures_total'', ''enrichment_failures_total'', ''unhandled_errors_total'',
      ''stream_failures_total'', ''request_deadline_exceeded_total'', ''overpass_truncated_total'',
      ''client_disconnects_total'']"

definition snapshot :: "real \<Rightarrow> 'd metrics \<Rightarrow> 'd metrics \<times> (string \<times> int) list" where
  "snapshot utc m0 =
     (let m = metrics_roll_day utc m0;
          known = map (\<lambda>k. (k, counter (m_counters m) k)) KNOWN_COUNTERS;
          counters = known @ filter (\<lambda>(k, v). k \<notin> set KNOWN_COUNTERS) (m_counters m)
      in (m, AList.update ''uptime_s'' (py_int (utc - m_started_at m))
               (AList.update ''unique_sessions_today'' (int (length (m_sessions_today m))) counters)))"

definition metrics_reset :: "'d metrics \<Rightarrow> 'd metrics" where
  "metrics_reset m = m\<lparr>m_counters := [], m_sessions_today := []\<rparr>"

section \<open>What a snapshot shows\<close>

fun run_incr :: "(real \<times> string \<times> int) list \<Rightarrow> 'd metrics \<Rightarrow> 'd metrics" where
  "run_incr [] m = m"
| "run_incr ((utc, k, n) # es) m = run_incr es (incr utc k n m)"

lemma counter_incr: "counter (m_counters (incr utc k n m)) j = counter (m_counters m) j + (if j = k then n else 0)"
  by (simp add: incr_def Let_def metrics_roll_day_def counter_def update_conv)

lemma counter_run: "counter (m_counters (run_incr es m)) j
    = counter (m_counters m) j + sum_list (map (\<lambda>(u, k, n). if k = j then n else 0) es)"
  by (induction es m rule: run_incr.induct) (auto simp: counter_incr)

lemma incr_dom: "j \<in> fst ` set (m_counters (incr utc k n m)) \<longleftrightarrow> j = k \<or> j \<in> fst ` set (m_counters m)"
  by (simp add: incr_def Let_def metrics_roll_day_def dom_update)

lemma run_dom: "j \<in> fst ` set (m_counters (run_incr es m)) \<longleftrightarrow>
    j \<in> (\<lambda>(u, k, n). k) ` set es \<or> j \<in> fst ` set (m_counters m)"
  by (induction es m rule: run_incr.induct) (auto simp: incr_dom)

lemma map_of_known:
  "map_of (map (\<lambda>k. (k, f k)) ks @ filter (\<lambda>(k, v). k \<notin> set ks) cs) j
     = (if j \<in> set ks then Some (f j) else map_of cs j)"
proof -
  have "map_of (filter (\<lambda>(k, v). k \<notin> set ks) cs) j = (if j \<in> set ks then None else map_of cs j)"
    by (induction cs) auto
  moreover have "map_of (map (\<lambda>k. (k, f k)) ks) j = (if j \<in> set ks then Some (f j) else None)"
    by (induction ks) auto
  ultimately show ?thesis by (simp add: map_add_def)
qed

lemma roll_counters [simp]: "m_counters (metrics_roll_day utc m) = m_counters m"
  by (simp add: metrics_roll_day_def)

lemma snapshot_value:
  assumes "j \<noteq> ''uptime_s''" "j \<noteq> ''unique_sessions_today''"
  shows "map_of (snd (snapshot utc m)) j
    = (if j \<in> set KNOWN_COUNTERS then Some (counter (m_counters m) j) else map_of (m_counters m) j)"
  using assms unfolding snapshot_def Let_def snd_conv update_conv roll_counters
  by (simp only: fun_upd_apply if_False map_of_known)

text \<open>
  No counter is maintained and published nowhere: after any run of increments from a fresh
  process, the snapshot shows, under every name that was ever incremented and under every known
  name, exactly the sum of the amounts given for it (the two names the snapshot itself fills in
  apart), and no other name.
\<close>

theorem snapshot_publishes_every_counter:
  assumes "j \<noteq> ''uptime_s''" and "j \<noteq> ''unique_sessions_today''"
  shows "map_of (snd (snapshot utc (run_incr es (new_metrics t0)))) j
    = (if j \<in> set KNOWN_COUNTERS \<or> j \<in> (\<lambda>(u, k, n). k) ` set es
       then Some (sum_list (map (\<lambda>(u, k, n). if k = j then n else 0) es)) else None)"
    (is "map_of (snd (snapshot utc ?m)) j = _")
proof -
  have c: "counter (m_counters ?m) j = sum_list (map (\<lambda>(u, k, n). if k = j then n else 0) es)"
    using counter_run [of es "new_metrics t0" j] by (simp add: new_metrics_def counter_def)
  have d: "map_of (m_counters ?m) j \<noteq> None \<longleftrightarrow> j \<in> (\<lambda>(u, k, n). k) ` set es"
    using run_dom [of j es "new_metrics t0"] by (simp add: new_metrics_def map_of_eq_None_iff)
  have "map_of (m_counters ?m) j = (if j \<in> (\<lambda>(u, k, n). k) ` set es then Some (counter (m_counters ?m) j) else None)"
    unfolding d [symmetric] counter_def by (cases "map_of (m_counters ?m) j") simp_all
  then show ?thesis unfolding snapshot_value [OF assms] c by simp
qed

lemma snapshot_publishes_every_counter_witness:
  "map_of (snd (snapshot 5 (run_incr [(0, ''novel_total'', 2), (1, ''novel_total'', 3)]
      (new_metrics 0 :: string metrics)))) ''novel_total'' = Some 5"
  using snapshot_publishes_every_counter [of "''novel_total''" 5
      "[(0, ''novel_total'', 2), (1, ''novel_total'', 3)]" 0]
  by (simp add: KNOWN_COUNTERS_def)

end
