(* ===== verification/Json.thy ===== *)
theory Json
  imports Prelude "HOL-Library.AList"
begin

text \<open>
  Decoded JSON, as Python sees it after \<open>json.loads\<close>: the shape every upstream body, fixture and
  cached payload has. An object is an association list in key order. Numbers are reals; an integer
  is a number whose fractional part is zero.
\<close>

datatype json = JNull | JBool bool | JNum real | JStr string | JList "json list"
  | JObj "(string \<times> json) list"

text \<open>\<open>bool(x)\<close>.\<close>

fun truthy :: "json \<Rightarrow> bool" where
  "truthy JNull = False"
| "truthy (JBool b) = b"
| "truthy (JNum x) = (x \<noteq> 0)"
| "truthy (JStr s) = (s \<noteq> '''')"
| "truthy (JList xs) = (xs \<noteq> [])"
| "truthy (JObj kvs) = (kvs \<noteq> [])"

fun is_list :: "json \<Rightarrow> bool" where
  "is_list (JList _) = True"
| "is_list _ = False"

fun is_dict :: "json \<Rightarrow> bool" where
  "is_dict (JObj _) = True"
| "is_dict _ = False"

fun is_str :: "json \<Rightarrow> bool" where
  "is_str (JStr _) = True"
| "is_str _ = False"

text \<open>\<open>x.get(k)\<close> on a dict; \<open>None\<close> on a missing key (and on what is not a dict).\<close>

fun jget :: "string \<Rightarrow> json \<Rightarrow> json" where
  "jget k (JObj kvs) = (case map_of kvs k of None \<Rightarrow> JNull | Some v \<Rightarrow> v)"
| "jget k _ = JNull"

fun jhas :: "string \<Rightarrow> json \<Rightarrow> bool" where
  "jhas k (JObj kvs) = (map_of kvs k \<noteq> None)"
| "jhas k _ = False"

fun jlist :: "json \<Rightarrow> json list" where
  "jlist (JList xs) = xs"
| "jlist _ = []"

fun jnum :: "json \<Rightarrow> real option" where
  "jnum (JNum x) = Some x"
| "jnum _ = None"

fun jstr :: "json \<Rightarrow> string option" where
  "jstr (JStr s) = Some s"
| "jstr _ = None"

text \<open>\<open>x[k] = v\<close> on a dict.\<close>

fun jput :: "string \<Rightarrow> json \<Rightarrow> json \<Rightarrow> json" where
  "jput k v (JObj kvs) = JObj (AList.update k v kvs)"
| "jput k v j = j"

lemma jget_jput: "jget j (jput k v (JObj kvs)) = (if j = k then v else jget j (JObj kvs))"
  by (simp add: update_conv)

datatype py_error = AttributeError | ValueError | PyTypeError | PyRuntimeError | PyKeyError

text \<open>\<open>float(v)\<close>.\<close>

fun json_float :: "json \<Rightarrow> (py_error, real) result" where
  "json_float (JNum x) = Inr x"
| "json_float (JBool b) = Inr (if b then 1 else 0)"
| "json_float (JStr s) = (case parse_float s of None \<Rightarrow> Inl ValueError | Some x \<Rightarrow> Inr x)"
| "json_float _ = Inl PyTypeError"

text \<open>\<open>int(v)\<close>; \<open>None\<close> for the TypeError and the ValueError, which callers treat alike.\<close>

fun json_int :: "json \<Rightarrow> int option" where
  "json_int (JNum x) = Some (py_int x)"
| "json_int (JBool b) = Some (if b then 1 else 0)"
| "json_int (JStr s) = parse_int s"
| "json_int _ = None"

text \<open>\<open>str(v)\<close>, given how Python prints what is not a string.\<close>

fun json_str :: "(json \<Rightarrow> string) \<Rightarrow> json \<Rightarrow> string" where
  "json_str pystr (JStr s) = s"
| "json_str pystr j = pystr j"

fun floats :: "json list \<Rightarrow> (py_error, real list) result" where
  "floats [] = Inr []"
| "floats (v # vs) =
     (case json_float v of
        Inl e \<Rightarrow> Inl e
      | Inr x \<Rightarrow> (case floats vs of Inl e \<Rightarrow> Inl e | Inr xs \<Rightarrow> Inr (x # xs)))"

end
