(* ===== verification/Cache.thy ===== *)
theory Cache
  imports Json
begin

text \<open>
  backend/cache.py: the SQLite file as the rows of its tables. A table is an association list in
  rowid order, keyed by its PRIMARY KEY; an upsert keeps the row's place, as ON CONFLICT does. A
  stored payload is the JSON value its text decodes to, or text that does not decode. Instants are
  integers of microseconds and each operation reads the clock once (\<open>now\<close>).

  An expiry is the text \<open>_iso\<close> writes for an instant (\<open>Iso\<close>, with its \<open>+00:00\<close>: those texts sort
  as the instants do), an ISO text without an offset (\<open>Naive\<close>), or a text
  \<open>datetime.fromisoformat\<close> refuses and that has no offset (\<open>Unreadable\<close>).
\<close>

section \<open>Rows and tables\<close>

datatype expiry = Iso int | Naive int | Unreadable string

datatype payload = Doc json | Corrupt

record row =
  rw_payload :: payload
  rw_created :: int
  rw_expires :: expiry

type_synonym table = "(string \<times> row) list"

record segment_score =
  ss_lat :: real
  ss_lon :: real
  ss_clip_score :: "real option"
  ss_image_count :: int
  ss_scoring_method :: string
  ss_prompt_variant :: "string option"
  ss_updated_at :: int

datatype cache_error = CacheClosed | SchemaVersionMismatch string

record cache =
  c_closed :: bool
  c_meta :: "string option"
  c_access_segments :: bool
  c_segments :: "(string \<times> segment_score) list"
  c_routes :: table
  c_geocodes :: table
  c_writes_since_sweep :: nat
  c_removed_since_reclaim :: nat
  c_reclaims :: nat

definition SCHEMA_VERSION :: int where "SCHEMA_VERSION = 4"
definition SEGMENT_GRID_DECIMALS :: nat where "SEGMENT_GRID_DECIMALS = 4"
definition ROUTE_CACHE_MAX_ROWS :: nat where "ROUTE_CACHE_MAX_ROWS = 500"
definition GEOCODE_CACHE_MAX_ROWS :: nat where "GEOCODE_CACHE_MAX_ROWS = 5000"
definition SWEEP_EVERY_N_WRITES :: nat where "SWEEP_EVERY_N_WRITES = 50"
definition VACUUM_AFTER_ROWS_REMOVED :: nat where "VACUUM_AFTER_ROWS_REMOVED = 100"

lemmas cache_limits =
  ROUTE_CACHE_MAX_ROWS_def GEOCODE_CACHE_MAX_ROWS_def SWEEP_EVERY_N_WRITES_def
  VACUUM_AFTER_ROWS_REMOVED_def

text \<open>Every operation goes through the \<open>conn\<close> property, which refuses a closed cache.\<close>

definition with_conn :: "cache \<Rightarrow> (cache \<Rightarrow> 'a) \<Rightarrow> (cache_error, 'a) result" where
  "with_conn c f = (if c_closed c then Inl CacheClosed else Inr (f c))"

section \<open>Schema versions\<close>

text \<open>\<open>_MIGRATIONS\<close>: the one step there is, from 3, drops \<open>access_segments\<close>.\<close>

definition migration :: "int \<Rightarrow> (cache \<Rightarrow> cache) option" where
  "migration found = (if found = 3 then Some (\<lambda>c. c\<lparr>c_access_segments := False\<rparr>) else None)"

function migrate :: "string \<Rightarrow> int \<Rightarrow> cache \<Rightarrow> (cache_error, cache) result" where
  "migrate written found c =
     (if found = SCHEMA_VERSION then Inr c
      else case migration found of
          None \<Rightarrow> Inl (SchemaVersionMismatch written)
        | Some step \<Rightarrow> migrate written (found + 1) ((step c)\<lparr>c_meta := Some (int_text (found + 1))\<rparr>))"
  by pat_completeness auto
termination
  by (relation "measure (\<lambda>(w, found, c). nat (SCHEMA_VERSION - found))")
    (auto simp: migration_def SCHEMA_VERSION_def split: if_splits)

declare migrate.simps [simp del]

definition init_schema :: "cache \<Rightarrow> (cache_error, cache) result" where
  "init_schema c =
     (case c_meta c of
        None \<Rightarrow> Inr (c\<lparr>c_meta := Some (int_text SCHEMA_VERSION)\<rparr>)
      | Some v \<Rightarrow> migrate v (case parse_int v of None \<Rightarrow> -1 | Some n \<Rightarrow> n) c)"

definition schema_version :: "cache \<Rightarrow> (cache_error, int option) result" where
  "schema_version c = with_conn c (\<lambda>c. case c_meta c of None \<Rightarrow> None | Some v \<Rightarrow> parse_int v)"

section \<open>Segment scores\<close>

text \<open>
  \<open>f"{round(x, 4):.4f}"\<close>: the sign is that of the rounded float, and a negative coordinate that
  rounds to zero rounds to minus zero, which keeps its sign in the text.
\<close>

definition coord_text :: "real \<Rightarrow> string" where
  "coord_text x =
     (if x < 0 then ''-'' else '''') @ fixed_text 4 (round_dec SEGMENT_GRID_DECIMALS \<bar>x\<bar>)"

definition segment_key :: "real \<Rightarrow> real \<Rightarrow> string" where
  "segment_key la lo = coord_text la @ '','' @ coord_text lo"

definition put_segment_score :: "int \<Rightarrow> real \<Rightarrow> real \<Rightarrow> real option \<Rightarrow> int \<Rightarrow> string \<Rightarrow> string option
    \<Rightarrow> cache \<Rightarrow> (cache_error, cache \<times> string) result" where
  "put_segment_score now la lo clip images scoring variant c =
     with_conn c (\<lambda>c.
       let key = segment_key la lo;
           new = (case map_of (c_segments c) key of
               None \<Rightarrow> \<lparr>ss_lat = round_dec SEGMENT_GRID_DECIMALS la, ss_lon = round_dec SEGMENT_GRID_DECIMALS lo,
                 ss_clip_score = clip, ss_image_count = images, ss_scoring_method = scoring,
                 ss_prompt_variant = variant, ss_updated_at = now\<rparr>
             | Some old \<Rightarrow> old\<lparr>ss_clip_score := clip, ss_image_count := images,
                 ss_scoring_method := scoring, ss_prompt_variant := variant, ss_updated_at := now\<rparr>)
       in (c\<lparr>c_segments := AList.update key new (c_segments c)\<rparr>, key))"

text \<open>The rows of one \<open>IN (...)\<close> query: at most 400 keys, and one variant when one is asked for.\<close>

definition segment_rows :: "string option \<Rightarrow> string list \<Rightarrow> cache \<Rightarrow> (string \<times> segment_score) list" where
  "segment_rows variant chunk c =
     filter (\<lambda>(k, s). k \<in> set chunk \<and> (case variant of None \<Rightarrow> True | Some v \<Rightarrow> ss_prompt_variant s = Some v))
       (c_segments c)"

function segment_chunks :: "string option \<Rightarrow> string list \<Rightarrow> cache \<Rightarrow> (string \<times> segment_score) list" where
  "segment_chunks variant keys c =
     (if keys = [] then []
      else segment_rows variant (take 400 keys) c @ segment_chunks variant (drop 400 keys) c)"
  by pat_completeness auto
termination
  by (relation "measure (\<lambda>(v, keys, c). length keys)") auto

declare segment_chunks.simps [simp del]

definition get_segment_scores :: "string list \<Rightarrow> string option \<Rightarrow> cache
    \<Rightarrow> (cache_error, string \<rightharpoonup> segment_score) result" where
  "get_segment_scores keys variant c =
     (if keys = [] then Inr Map.empty
      else with_conn c (\<lambda>c. map_of (rev (segment_chunks variant keys c))))"

definition segment_count :: "cache \<Rightarrow> (cache_error, nat) result" where
  "segment_count c = with_conn c (\<lambda>c. length (c_segments c))"

definition clip_segment_count :: "cache \<Rightarrow> (cache_error, nat) result" where
  "clip_segment_count c =
     with_conn c (\<lambda>c. length (filter (\<lambda>(k, s). ss_scoring_method s = ''clip'') (c_segments c)))"

section \<open>The two answer tables\<close>

text \<open>\<open>datetime.fromisoformat(expires_at) <= now\<close>, an unreadable or naive expiry counting as gone.\<close>

fun lapsed :: "int \<Rightarrow> expiry \<Rightarrow> bool" where
  "lapsed now (Iso e) = (e \<le> now)"
| "lapsed now (Naive e) = True"
| "lapsed now (Unreadable s) = True"

fun loads :: "payload \<Rightarrow> json option" where
  "loads (Doc v) = Some v"
| "loads Corrupt = None"

definition micros :: "int \<Rightarrow> int" where
  "micros s = s * 1000000"

definition get_route :: "string \<Rightarrow> int \<Rightarrow> cache \<Rightarrow> (cache_error, cache \<times> json option) result" where
  "get_route key now c =
     with_conn c (\<lambda>c. case map_of (c_routes c) key of
         None \<Rightarrow> (c, None)
       | Some r \<Rightarrow> if lapsed now (rw_expires r)
           then (c\<lparr>c_routes := AList.delete key (c_routes c)\<rparr>, None)
           else (c, loads (rw_payload r)))"

definition get_geocode :: "string \<Rightarrow> int \<Rightarrow> cache \<Rightarrow> (cache_error, cache \<times> json option) result" where
  "get_geocode key now c =
     with_conn c (\<lambda>c. case map_of (c_geocodes c) key of
         None \<Rightarrow> (c, None)
       | Some r \<Rightarrow> if lapsed now (rw_expires r)
           then (c\<lparr>c_geocodes := AList.delete key (c_geocodes c)\<rparr>, None)
           else (c, case loads (rw_payload r) of
                      None \<Rightarrow> None
                    | Some v \<Rightarrow> if is_list v then Some v else None))"

definition purge_expired :: "int \<Rightarrow> table \<Rightarrow> table" where
  "purge_expired now t = filter (\<lambda>(k, r). \<not> lapsed now (rw_expires r)) t"

definition purge_expired_routes :: "int \<Rightarrow> cache \<Rightarrow> cache \<times> nat" where
  "purge_expired_routes now c =
     (let t = purge_expired now (c_routes c)
      in (c\<lparr>c_routes := t\<rparr>, length (c_routes c) - length t))"

definition purge_expired_geocodes :: "int \<Rightarrow> cache \<Rightarrow> cache \<times> nat" where
  "purge_expired_geocodes now c =
     (let t = purge_expired now (c_geocodes c)
      in (c\<lparr>c_geocodes := t\<rparr>, length (c_geocodes c) - length t))"

text \<open>\<open>DELETE ... WHERE key IN (SELECT key ... ORDER BY created_at ASC LIMIT over)\<close>.\<close>

definition drop_oldest :: "nat \<Rightarrow> table \<Rightarrow> table" where
  "drop_oldest over t =
     filter (\<lambda>(k, r). k \<notin> set (map fst (take over (sort_key (\<lambda>(k, r). rw_created r) t)))) t"

definition evict_over_ceiling :: "cache \<Rightarrow> cache \<times> nat" where
  "evict_over_ceiling c =
     (let over = length (c_routes c) - ROUTE_CACHE_MAX_ROWS
      in if over = 0 then (c, 0)
         else let t = drop_oldest over (c_routes c)
              in (c\<lparr>c_routes := t\<rparr>, length (c_routes c) - length t))"

definition evict_geocodes_over_ceiling :: "cache \<Rightarrow> cache \<times> nat" where
  "evict_geocodes_over_ceiling c =
     (let over = length (c_geocodes c) - GEOCODE_CACHE_MAX_ROWS
      in if over = 0 then (c, 0)
         else let t = drop_oldest over (c_geocodes c)
              in (c\<lparr>c_geocodes := t\<rparr>, length (c_geocodes c) - length t))"

definition sweep :: "int \<Rightarrow> cache \<Rightarrow> cache \<times> nat" where
  "sweep now c =
     (let (c1, n1) = purge_expired_routes now c;
          (c2, n2) = evict_over_ceiling c1;
          (c3, n3) = purge_expired_geocodes now c2;
          (c4, n4) = evict_geocodes_over_ceiling c3;
          removed = n1 + n2 + n3 + n4
      in if removed = 0 then (c4, 0)
         else let total_removed = c_removed_since_reclaim c4 + removed;
                  due = (VACUUM_AFTER_ROWS_REMOVED \<le> total_removed)
              in (c4\<lparr>c_removed_since_reclaim := (if due then 0 else total_removed),
                     c_reclaims := c_reclaims c4 + (if due then 1 else 0)\<rparr>, removed))"

definition maybe_sweep :: "int \<Rightarrow> cache \<Rightarrow> cache" where
  "maybe_sweep now c =
     (let w = c_writes_since_sweep c + 1
      in if w < SWEEP_EVERY_N_WRITES then c\<lparr>c_writes_since_sweep := w\<rparr>
         else fst (sweep now (c\<lparr>c_writes_since_sweep := 0\<rparr>)))"

definition new_row :: "json \<Rightarrow> int \<Rightarrow> int \<Rightarrow> row" where
  "new_row v ttl_s now = \<lparr>rw_payload = Doc v, rw_created = now, rw_expires = Iso (now + micros ttl_s)\<rparr>"

definition put_route :: "string \<Rightarrow> json \<Rightarrow> int \<Rightarrow> int \<Rightarrow> cache \<Rightarrow> (cache_error, cache) result" where
  "put_route key v ttl_s now c =
     with_conn c (\<lambda>c. maybe_sweep now
       (c\<lparr>c_routes := AList.update key (new_row v ttl_s now) (c_routes c)\<rparr>))"

definition put_geocode :: "string \<Rightarrow> json \<Rightarrow> int \<Rightarrow> int \<Rightarrow> cache \<Rightarrow> (cache_error, cache) result" where
  "put_geocode key v ttl_s now c =
     with_conn c (\<lambda>c. maybe_sweep now
       (c\<lparr>c_geocodes := AList.update key (new_row v ttl_s now) (c_geocodes c)\<rparr>))"

text \<open>\<open>SELECT COUNT(*) ... WHERE expires_at > now\<close>: texts that are no instant of ours sort by their
  characters; \<open>after\<close> is that order against the text of \<open>now\<close>.\<close>

definition live_rows :: "(int \<Rightarrow> expiry \<Rightarrow> bool) \<Rightarrow> int \<Rightarrow> table \<Rightarrow> nat" where
  "live_rows after now t =
     length (filter (\<lambda>(k, r). case rw_expires r of Iso e \<Rightarrow> now < e | x \<Rightarrow> after now x) t)"

definition route_cache_size :: "(int \<Rightarrow> expiry \<Rightarrow> bool) \<Rightarrow> int \<Rightarrow> cache \<Rightarrow> (cache_error, nat) result" where
  "route_cache_size after now c = with_conn c (\<lambda>c. live_rows after now (c_routes c))"

definition geocode_cache_size :: "(int \<Rightarrow> expiry \<Rightarrow> bool) \<Rightarrow> int \<Rightarrow> cache \<Rightarrow> (cache_error, nat) result" where
  "geocode_cache_size after now c = with_conn c (\<lambda>c. live_rows after now (c_geocodes c))"

definition close :: "cache \<Rightarrow> cache" where
  "close c = c\<lparr>c_closed := True\<rparr>"

section \<open>Sweeping\<close>

definition keyed :: "('k \<times> 'v) list \<Rightarrow> bool" where
  "keyed t \<longleftrightarrow> distinct (map fst t)"

lemma keyed_filter [intro]: "keyed t \<Longrightarrow> keyed (filter P t)"
  by (simp add: keyed_def distinct_map_filter)

lemma keyed_update [intro]: "keyed t \<Longrightarrow> keyed (AList.update k v t)"
  by (simp add: keyed_def distinct_update)

lemma keyed_delete [intro]: "keyed t \<Longrightarrow> keyed (AList.delete k t)"
  by (simp add: keyed_def AList.distinct_delete)

lemma keyed_purge [intro]: "keyed t \<Longrightarrow> keyed (purge_expired now t)"
  by (auto simp: purge_expired_def)

lemma keyed_drop_oldest [intro]: "keyed t \<Longrightarrow> keyed (drop_oldest n t)"
  by (auto simp: drop_oldest_def)

lemma length_drop_oldest: "keyed t \<Longrightarrow> n \<le> length t \<Longrightarrow> length (drop_oldest n t) = length t - n"
  unfolding drop_oldest_def keyed_def by (rule filter_length_drop) simp_all

definition capped :: "nat \<Rightarrow> table \<Rightarrow> table" where
  "capped n t = (if length t \<le> n then t else drop_oldest (length t - n) t)"

lemma capped_length: "keyed t \<Longrightarrow> length (capped n t) \<le> n"
  by (auto simp: capped_def length_drop_oldest)

lemma keyed_capped [intro]: "keyed t \<Longrightarrow> keyed (capped n t)"
  by (auto simp: capped_def)

lemma sweep_tables:
  "c_routes (fst (sweep now c)) = capped ROUTE_CACHE_MAX_ROWS (purge_expired now (c_routes c))"
  "c_geocodes (fst (sweep now c)) = capped GEOCODE_CACHE_MAX_ROWS (purge_expired now (c_geocodes c))"
  "c_writes_since_sweep (fst (sweep now c)) = c_writes_since_sweep c"
  "c_closed (fst (sweep now c)) = c_closed c" "c_segments (fst (sweep now c)) = c_segments c"
  by (simp_all add: sweep_def purge_expired_routes_def evict_over_ceiling_def capped_def
      purge_expired_geocodes_def evict_geocodes_over_ceiling_def Let_def)

lemma capped_keeps_newest:
  assumes "keyed t" and "(k, r) \<in> set t" and "\<And>j x. (j, x) \<in> set t \<Longrightarrow> j \<noteq> k \<Longrightarrow> rw_created x < rw_created r"
    and "0 < n"
  shows "(k, r) \<in> set (capped n t)"
proof (cases "length t \<le> n")
  case False
  define f where "f = (\<lambda>(k :: string, r :: row). rw_created r)"
  define s where "s = sort_key f t"
  define over where "over = length t - n"
  have over: "over < length s" using False assms(2,4) by (auto simp: over_def s_def dest: length_pos_if_in_set)
  have ks: "distinct (map fst s)"
    using assms(1) unfolding keyed_def s_def by (metis mset_eq_imp_distinct_iff mset_map mset_sort)
  have srt: "sorted (map f (take over s) @ map f (drop over s))"
    unfolding map_append [symmetric] by (simp add: s_def)
  obtain x xs where x: "drop over s = x # xs" using over by (cases "drop over s") auto
  have "k \<notin> set (map fst (take over s))"
  proof
    assume "k \<in> set (map fst (take over s))"
    then obtain r' where r': "(k, r') \<in> set (take over s)" by auto
    have xs: "x \<in> set s" using x by (metis in_set_dropD list.set_intros(1))
    have "(k, r') \<in> set t" using r' by (metis in_set_takeD s_def set_sort)
    then have "r' = r" using assms(1,2) by (auto simp: keyed_def dest: eq_key_imp_eq_value)
    moreover have "f (k, r') \<le> f x" using srt r' x by (auto simp: sorted_append)
    moreover have "fst x \<noteq> k"
    proof
      assume "fst x = k"
      then have "k \<in> set (map fst (drop over s))" using x by simp
      moreover have "k \<in> set (map fst (take over s))" using r' by force
      moreover have "distinct (map fst (take over s) @ map fst (drop over s))"
        using ks by (metis append_take_drop_id map_append)
      ultimately show False by auto
    qed
    moreover have "x \<in> set t" using xs by (simp add: s_def)
    ultimately show False using assms(3) [of "fst x" "snd x"] by (auto simp: f_def split_def)
  qed
  then show ?thesis
    using assms(2) False by (auto simp: capped_def drop_oldest_def f_def s_def over_def)
qed (use assms(2) in \<open>simp add: capped_def\<close>)

lemma capped_subset: "set (capped n t) \<subseteq> set t"
  by (auto simp: capped_def drop_oldest_def)

lemma purge_subset: "set (purge_expired now t) \<subseteq> set t"
  by (auto simp: purge_expired_def)

section \<open>Bounds over every run\<close>

inductive cache_step :: "cache \<Rightarrow> cache \<Rightarrow> bool" where
  step_get_route: "get_route k now c = Inr (c', v) \<Longrightarrow> cache_step c c'"
| step_get_geocode: "get_geocode k now c = Inr (c', v) \<Longrightarrow> cache_step c c'"
| step_put_route: "put_route k v ttl now c = Inr c' \<Longrightarrow> cache_step c c'"
| step_put_geocode: "put_geocode k v ttl now c = Inr c' \<Longrightarrow> cache_step c c'"
| step_put_segment: "put_segment_score now la lo clip n m var c = Inr (c', k) \<Longrightarrow> cache_step c c'"
| step_sweep: "\<not> c_closed c \<Longrightarrow> sweep now c = (c', n) \<Longrightarrow> cache_step c c'"
| step_close: "cache_step c (close c)"

inductive_cases cache_stepE: "cache_step c c'"

inductive cache_reach :: "cache \<Rightarrow> cache \<Rightarrow> bool" where
  cr_refl: "cache_reach c c"
| cr_step: "cache_reach c c' \<Longrightarrow> cache_step c' c'' \<Longrightarrow> cache_reach c c''"

definition cache_ok :: "nat \<Rightarrow> nat \<Rightarrow> cache \<Rightarrow> bool" where
  "cache_ok n m c \<longleftrightarrow> keyed (c_routes c) \<and> keyed (c_geocodes c) \<and> keyed (c_segments c)
     \<and> length (c_routes c) \<le> max ROUTE_CACHE_MAX_ROWS n + c_writes_since_sweep c
     \<and> length (c_geocodes c) \<le> max GEOCODE_CACHE_MAX_ROWS m + c_writes_since_sweep c
     \<and> c_writes_since_sweep c < SWEEP_EVERY_N_WRITES"

lemma length_update_Suc: "length (AList.update k v t) \<le> Suc (length t)"
  by (induction t) auto

lemma length_delete_le: "length (AList.delete k t) \<le> length t"
  by (simp add: AList.delete_eq)

lemma sweep_keyed:
  "keyed (c_routes c) \<Longrightarrow> keyed (c_geocodes c) \<Longrightarrow>
     keyed (c_routes (fst (sweep now c))) \<and> keyed (c_geocodes (fst (sweep now c)))
   \<and> length (c_routes (fst (sweep now c))) \<le> ROUTE_CACHE_MAX_ROWS
   \<and> length (c_geocodes (fst (sweep now c))) \<le> GEOCODE_CACHE_MAX_ROWS"
  unfolding sweep_tables by (intro conjI keyed_capped keyed_purge capped_length)

lemma maybe_sweep_ok:
  assumes "keyed (c_routes c)" "keyed (c_geocodes c)" "keyed (c_segments c)"
    "length (c_routes c) \<le> max ROUTE_CACHE_MAX_ROWS n + Suc (c_writes_since_sweep c)"
    "length (c_geocodes c) \<le> max GEOCODE_CACHE_MAX_ROWS m + Suc (c_writes_since_sweep c)"
  shows "cache_ok n m (maybe_sweep now c)"
proof (cases "c_writes_since_sweep c + 1 < SWEEP_EVERY_N_WRITES")
  case True
  then show ?thesis using assms by (simp add: maybe_sweep_def cache_ok_def Let_def)
next
  case False
  then show ?thesis using assms sweep_keyed [of "c\<lparr>c_writes_since_sweep := 0\<rparr>" now]
    by (auto simp: maybe_sweep_def cache_ok_def Let_def sweep_tables SWEEP_EVERY_N_WRITES_def)
qed

lemma put_route_ok: "cache_ok n m c \<Longrightarrow> put_route k v ttl now c = Inr c' \<Longrightarrow> cache_ok n m c'"
  using length_update_Suc [of k "new_row v ttl now" "c_routes c"]
  by (auto simp: put_route_def with_conn_def cache_ok_def [of n m c] split: if_splits
      intro!: maybe_sweep_ok)

lemma put_geocode_ok: "cache_ok n m c \<Longrightarrow> put_geocode k v ttl now c = Inr c' \<Longrightarrow> cache_ok n m c'"
  using length_update_Suc [of k "new_row v ttl now" "c_geocodes c"]
  by (auto simp: put_geocode_def with_conn_def cache_ok_def [of n m c] split: if_splits
      intro!: maybe_sweep_ok)

lemma get_route_ok: "cache_ok n m c \<Longrightarrow> get_route k now c = Inr (c', v) \<Longrightarrow> cache_ok n m c'"
  using length_delete_le [of k "c_routes c"]
  by (auto simp: get_route_def with_conn_def cache_ok_def split: if_splits option.splits)

lemma get_geocode_ok: "cache_ok n m c \<Longrightarrow> get_geocode k now c = Inr (c', v) \<Longrightarrow> cache_ok n m c'"
  using length_delete_le [of k "c_geocodes c"]
  by (auto simp: get_geocode_def with_conn_def cache_ok_def split: if_splits option.splits)

lemma cache_step_ok: "cache_step c c' \<Longrightarrow> cache_ok n m c \<Longrightarrow> cache_ok n m c'"
proof (erule cache_stepE)
  fix now k assume ok: "cache_ok n m c" and s: "\<not> c_closed c" "sweep now c = (c', k)"
  have "c' = fst (sweep now c)" using s by simp
  then show "cache_ok n m c'"
    using ok sweep_keyed [of c now] by (auto simp: cache_ok_def sweep_tables)
next
  fix now la lo clip k s var key
  assume "cache_ok n m c" "put_segment_score now la lo clip k s var c = Inr (c', key)"
  then show "cache_ok n m c'"
    by (auto simp: put_segment_score_def with_conn_def cache_ok_def Let_def split: if_splits)
next
  assume "cache_ok n m c" "c' = close c"
  then show "cache_ok n m c'" by (simp add: close_def cache_ok_def)
qed (blast intro: put_route_ok put_geocode_ok get_route_ok get_geocode_ok)+

lemma cache_reach_ok: "cache_reach c c' \<Longrightarrow> cache_ok n m c \<Longrightarrow> cache_ok n m c'"
  by (induction rule: cache_reach.induct) (auto dest: cache_step_ok)

section \<open>The contract both tables give their clients\<close>

text \<open>
  What the request handlers rely on: an answer put is the answer got until its time to live is
  over, and not after; a hit leaves the store as it was.
\<close>

locale ttl_store =
  fixes put :: "string \<Rightarrow> json \<Rightarrow> int \<Rightarrow> int \<Rightarrow> 's \<Rightarrow> 's"
    and get :: "string \<Rightarrow> int \<Rightarrow> 's \<Rightarrow> 's \<times> json option"
    and ready :: "int \<Rightarrow> 's \<Rightarrow> bool" and storable :: "json \<Rightarrow> bool"
  assumes live: "ready now s \<Longrightarrow> storable v \<Longrightarrow> 0 < ttl \<Longrightarrow> t < now + micros ttl \<Longrightarrow>
      snd (get k t (put k v ttl now s)) = Some v"
    and gone: "ready now s \<Longrightarrow> now + micros ttl \<le> t \<Longrightarrow> snd (get k t (put k v ttl now s)) = None"
    and hit_pure: "snd (get k t s) = Some v \<Longrightarrow> fst (get k t s) = s"
    and miss_ready: "ready now s \<Longrightarrow> ready now (fst (get k now s))"

text \<open>The handlers' use of it: answer from the store, or compute and put.\<close>

definition read_through ::
    "(string \<Rightarrow> json \<Rightarrow> int \<Rightarrow> int \<Rightarrow> 's \<Rightarrow> 's) \<Rightarrow> (string \<Rightarrow> int \<Rightarrow> 's \<Rightarrow> 's \<times> json option)
     \<Rightarrow> string \<Rightarrow> json \<Rightarrow> int \<Rightarrow> int \<Rightarrow> 's \<Rightarrow> 's \<times> json \<times> bool" where
  "read_through put get k computed ttl now s =
     (case get k now s of
        (s', Some v) \<Rightarrow> (s', v, False)
      | (s', None) \<Rightarrow> (put k computed ttl now s', computed, True))"

text \<open>How many of a run of reads had to compute.\<close>

fun reads :: "(string \<Rightarrow> json \<Rightarrow> int \<Rightarrow> int \<Rightarrow> 's \<Rightarrow> 's) \<Rightarrow> (string \<Rightarrow> int \<Rightarrow> 's \<Rightarrow> 's \<times> json option)
    \<Rightarrow> string \<Rightarrow> json \<Rightarrow> int \<Rightarrow> int list \<Rightarrow> 's \<Rightarrow> nat" where
  "reads put get k v ttl [] s = 0"
| "reads put get k v ttl (t # ts) s =
     (let (s', answer, miss) = read_through put get k v ttl t s
      in (if miss then 1 else 0) + reads put get k v ttl ts s')"

context ttl_store
begin

lemma hits_after_put:
  assumes "ready now s" "storable v" "0 < ttl" "\<forall>t \<in> set ts. t < now + micros ttl"
  shows "reads put get k v ttl ts (put k v ttl now s) = 0"
  using assms(4)
proof (induction ts)
  case (Cons t ts)
  have hit: "snd (get k t (put k v ttl now s)) = Some v"
    using live [OF assms(1-3)] Cons.prems by simp
  obtain s' where g: "get k t (put k v ttl now s) = (s', Some v)" using hit by (metis prod.collapse)
  then have "s' = put k v ttl now s" using hit_pure [OF hit] by simp
  then show ?case using Cons g by (simp add: read_through_def Let_def)
qed simp

lemma one_computation_per_ttl:
  assumes "ready now s" "storable v" "0 < ttl" "\<forall>t \<in> set ts. t < now + micros ttl"
    and miss: "snd (get k now s) = None"
  shows "reads put get k v ttl (now # ts) s = 1"
proof -
  obtain s' where g: "get k now s = (s', None)" using miss by (metis prod.collapse)
  have "ready now s'" using miss_ready [OF assms(1), of k] g by simp
  then show ?thesis
    using hits_after_put [OF _ assms(2,3,4)] g by (simp add: read_through_def Let_def)
qed

end

text \<open>The two tables, for a cache that is open and whose rows were all written before now.\<close>

definition written_before :: "int \<Rightarrow> table \<Rightarrow> bool" where
  "written_before now t \<longleftrightarrow> (\<forall>(k, r) \<in> set t. rw_created r < now)"

definition on_open :: "'c \<Rightarrow> ('e, 'c) result \<Rightarrow> 'c" where
  "on_open c r = (case r of Inl e \<Rightarrow> c | Inr c' \<Rightarrow> c')"

definition route_put :: "string \<Rightarrow> json \<Rightarrow> int \<Rightarrow> int \<Rightarrow> cache \<Rightarrow> cache" where
  "route_put k v ttl now c = on_open c (put_route k v ttl now c)"

definition route_get :: "string \<Rightarrow> int \<Rightarrow> cache \<Rightarrow> cache \<times> json option" where
  "route_get k now c = on_open (c, None) (get_route k now c)"

definition route_ready :: "int \<Rightarrow> cache \<Rightarrow> bool" where
  "route_ready now c \<longleftrightarrow> \<not> c_closed c \<and> keyed (c_routes c) \<and> written_before now (c_routes c)"

definition geocode_put :: "string \<Rightarrow> json \<Rightarrow> int \<Rightarrow> int \<Rightarrow> cache \<Rightarrow> cache" where
  "geocode_put k v ttl now c = on_open c (put_geocode k v ttl now c)"

definition geocode_get :: "string \<Rightarrow> int \<Rightarrow> cache \<Rightarrow> cache \<times> json option" where
  "geocode_get k now c = on_open (c, None) (get_geocode k now c)"

definition geocode_ready :: "int \<Rightarrow> cache \<Rightarrow> bool" where
  "geocode_ready now c \<longleftrightarrow> \<not> c_closed c \<and> keyed (c_geocodes c) \<and> written_before now (c_geocodes c)"

lemmas store_defs = on_open_def route_put_def route_get_def geocode_put_def geocode_get_def
  put_route_def get_route_def put_geocode_def get_geocode_def with_conn_def

text \<open>A row just put survives the sweep its own write may set off; an expired one is never served.\<close>

lemma newest_survives:
  assumes "keyed t" "written_before now t" "0 < ttl" "0 < n"
  shows "map_of (capped n (purge_expired now (AList.update k (new_row v ttl now) t))) k = Some (new_row v ttl now)"
proof -
  let ?r = "new_row v ttl now" and ?t = "AList.update k (new_row v ttl now) t"
  have kt: "keyed (purge_expired now ?t)" using assms(1) by blast
  have "(k, ?r) \<in> set ?t" by (metis map_of_SomeD update_conv fun_upd_same)
  then have "(k, ?r) \<in> set (purge_expired now ?t)"
    using assms(3) by (simp add: purge_expired_def new_row_def micros_def)
  moreover have "rw_created x < rw_created ?r" if "(j, x) \<in> set (purge_expired now ?t)" "j \<noteq> k" for j x
  proof -
    have "map_of ?t j = Some x"
      using that(1) assms(1) purge_subset [of now ?t] keyed_update [of t k ?r] by (auto simp: keyed_def)
    then have "(j, x) \<in> set t" using that(2) by (auto simp: update_conv dest: map_of_SomeD)
    then show ?thesis using assms(2) by (auto simp: written_before_def new_row_def)
  qed
  ultimately have "(k, ?r) \<in> set (capped n (purge_expired now ?t))"
    by (intro capped_keeps_newest [OF kt] assms(4))
  then show ?thesis using keyed_capped [OF kt] by (simp add: keyed_def)
qed

lemma old_answer_gone:
  assumes "keyed t" "set u \<subseteq> set (AList.update k (new_row v ttl now) t)" "keyed u" "now + micros ttl \<le> e"
    and "map_of u k = Some r"
  shows "lapsed e (rw_expires r)"
proof -
  have "(k, r) \<in> set (AList.update k (new_row v ttl now) t)" using assms(2,5) map_of_SomeD by fastforce
  then have "map_of (AList.update k (new_row v ttl now) t) k = Some r"
    using keyed_update [OF assms(1), of k "new_row v ttl now"] by (simp add: keyed_def)
  then show ?thesis using assms(4) by (auto simp: update_conv new_row_def)
qed

lemma swept_table:
  assumes "t = u \<or> t = capped n (purge_expired now u)"
  shows "set t \<subseteq> set u" and "keyed u \<Longrightarrow> keyed t"
  using assms capped_subset [of n "purge_expired now u"] purge_subset [of now u]
  by (auto intro: keyed_capped keyed_purge)

lemma maybe_sweep_routes:
  "c_routes (maybe_sweep now c) = c_routes c
   \<or> c_routes (maybe_sweep now c) = capped ROUTE_CACHE_MAX_ROWS (purge_expired now (c_routes c))"
  by (simp add: maybe_sweep_def Let_def sweep_tables)

lemma maybe_sweep_geocodes:
  "c_geocodes (maybe_sweep now c) = c_geocodes c
   \<or> c_geocodes (maybe_sweep now c) = capped GEOCODE_CACHE_MAX_ROWS (purge_expired now (c_geocodes c))"
  by (simp add: maybe_sweep_def Let_def sweep_tables)

lemma maybe_sweep_closed [simp]: "c_closed (maybe_sweep now c) = c_closed c"
  by (simp add: maybe_sweep_def Let_def sweep_tables)

interpretation route_store: ttl_store route_put route_get route_ready "\<lambda>v. True"
proof
  fix now t ttl :: int and s :: cache and v k
  let ?u = "AList.update k (new_row v ttl now) (c_routes s)"
  let ?s = "maybe_sweep now (s\<lparr>c_routes := ?u\<rparr>)"
  assume r: "route_ready now s"
  then have put: "route_put k v ttl now s = ?s" and op: "\<not> c_closed s"
    and kt: "keyed (c_routes s)" and wb: "written_before now (c_routes s)"
    by (auto simp: store_defs route_ready_def)
  have tb: "c_routes ?s = ?u \<or> c_routes ?s = capped ROUTE_CACHE_MAX_ROWS (purge_expired now ?u)"
    using maybe_sweep_routes [of now "s\<lparr>c_routes := ?u\<rparr>"] by simp
  show "snd (route_get k t (route_put k v ttl now s)) = Some v" if "0 < ttl" "t < now + micros ttl"
  proof -
    have "map_of (c_routes ?s) k = Some (new_row v ttl now)"
      using tb newest_survives [OF kt wb that(1), of ROUTE_CACHE_MAX_ROWS k v]
      by (auto simp: update_conv ROUTE_CACHE_MAX_ROWS_def)
    then show ?thesis unfolding put using op that(2) by (simp add: store_defs new_row_def)
  qed
  show "snd (route_get k t (route_put k v ttl now s)) = None" if "now + micros ttl \<le> t"
  proof -
    have "set (c_routes ?s) \<subseteq> set ?u" "keyed (c_routes ?s)"
      using swept_table(1) [OF tb] swept_table(2) [OF tb keyed_update [OF kt]] by simp_all
    then have "map_of (c_routes ?s) k = Some x \<Longrightarrow> lapsed t (rw_expires x)" for x
      using old_answer_gone [OF kt _ _ that] by blast
    then show ?thesis unfolding put using op by (auto simp: store_defs split: option.splits)
  qed
next
  fix k t s v assume "snd (route_get k t s) = Some v"
  then show "fst (route_get k t s) = s" by (auto simp: store_defs split: if_splits option.splits)
next
  fix now s k assume "route_ready now s"
  then show "route_ready now (fst (route_get k now s))"
    by (auto simp: store_defs route_ready_def written_before_def AList.delete_eq
        split: if_splits option.splits)
qed

interpretation geocode_store: ttl_store geocode_put geocode_get geocode_ready is_list
proof
  fix now t ttl :: int and s :: cache and v k
  let ?u = "AList.update k (new_row v ttl now) (c_geocodes s)"
  let ?s = "maybe_sweep now (s\<lparr>c_geocodes := ?u\<rparr>)"
  assume r: "geocode_ready now s"
  then have put: "geocode_put k v ttl now s = ?s" and op: "\<not> c_closed s"
    and kt: "keyed (c_geocodes s)" and wb: "written_before now (c_geocodes s)"
    by (auto simp: store_defs geocode_ready_def)
  have tb: "c_geocodes ?s = ?u \<or> c_geocodes ?s = capped GEOCODE_CACHE_MAX_ROWS (purge_expired now ?u)"
    using maybe_sweep_geocodes [of now "s\<lparr>c_geocodes := ?u\<rparr>"] by simp
  show "snd (geocode_get k t (geocode_put k v ttl now s)) = Some v"
    if "is_list v" "0 < ttl" "t < now + micros ttl"
  proof -
    have "map_of (c_geocodes ?s) k = Some (new_row v ttl now)"
      using tb newest_survives [OF kt wb that(2), of GEOCODE_CACHE_MAX_ROWS k v]
      by (auto simp: update_conv GEOCODE_CACHE_MAX_ROWS_def)
    then show ?thesis unfolding put using op that by (simp add: store_defs new_row_def)
  qed
  show "snd (geocode_get k t (geocode_put k v ttl now s)) = None" if "now + micros ttl \<le> t"
  proof -
    have "set (c_geocodes ?s) \<subseteq> set ?u" "keyed (c_geocodes ?s)"
      using swept_table(1) [OF tb] swept_table(2) [OF tb keyed_update [OF kt]] by simp_all
    then have "map_of (c_geocodes ?s) k = Some x \<Longrightarrow> lapsed t (rw_expires x)" for x
      using old_answer_gone [OF kt _ _ that] by blast
    then show ?thesis unfolding put using op by (auto simp: store_defs split: option.splits)
  qed
next
  fix k t s v assume "snd (geocode_get k t s) = Some v"
  then show "fst (geocode_get k t s) = s" by (auto simp: store_defs split: if_splits option.splits)
next
  fix now s k assume "geocode_ready now s"
  then show "geocode_ready now (fst (geocode_get k now s))"
    by (auto simp: store_defs geocode_ready_def written_before_def AList.delete_eq
        split: if_splits option.splits)
qed

section \<open>Connections\<close>

text \<open>
  The per-thread connections of a file cache. \<open>conn\<close> tests \<open>_closed\<close>, and only then opens a
  connection and registers it; \<open>close\<close> sets \<open>_closed\<close>, takes the registered connections and closes
  them. The lock covers the registration and the taking, not the test, so the steps of different
  threads interleave between them. A connection is named by its serial number.
\<close>

record pool =
  pl_closed :: bool
  pl_local :: "nat \<rightharpoonup> nat"
  pl_passed :: "nat set"
  pl_all :: "nat list"
  pl_open :: "nat set"
  pl_next :: nat

definition new_pool :: pool where
  "new_pool = \<lparr>pl_closed = False, pl_local = Map.empty, pl_passed = {}, pl_all = [], pl_open = {}, pl_next = 0\<rparr>"

text \<open>A thread that holds a connection gets it back; one that does not has passed the test.\<close>

definition conn_test :: "nat \<Rightarrow> pool \<Rightarrow> (cache_error, pool \<times> nat option) result" where
  "conn_test thread p =
     (if pl_closed p then Inl CacheClosed
      else case pl_local p thread of
          Some k \<Rightarrow> Inr (p, Some k)
        | None \<Rightarrow> Inr (p\<lparr>pl_passed := insert thread (pl_passed p)\<rparr>, None))"

definition conn_open :: "nat \<Rightarrow> pool \<Rightarrow> pool" where
  "conn_open thread p =
     p\<lparr>pl_local := (pl_local p)(thread \<mapsto> pl_next p), pl_passed := pl_passed p - {thread},
       pl_all := pl_all p @ [pl_next p], pl_open := insert (pl_next p) (pl_open p),
       pl_next := Suc (pl_next p)\<rparr>"

definition pool_close :: "pool \<Rightarrow> pool" where
  "pool_close p =
     p\<lparr>pl_closed := True, pl_all := [], pl_open := pl_open p - set (pl_all p), pl_local := Map.empty\<rparr>"

inductive pool_step :: "pool \<Rightarrow> pool \<Rightarrow> bool" where
  pool_test: "conn_test thread p = Inr (p', k) \<Longrightarrow> pool_step p p'"
| pool_open: "thread \<in> pl_passed p \<Longrightarrow> pool_step p (conn_open thread p)"
| pool_closes: "pool_step p (pool_close p)"

inductive pool_reach :: "pool \<Rightarrow> bool" where
  pool_new: "pool_reach new_pool"
| pool_next: "pool_reach p \<Longrightarrow> pool_step p p' \<Longrightarrow> pool_reach p'"

inductive_cases pool_stepE: "pool_step p p'"

text \<open>Every open connection is registered, whatever the interleaving.\<close>

lemma pool_registered: "pool_reach p \<Longrightarrow> pl_open p \<subseteq> set (pl_all p)"
proof (induction rule: pool_reach.induct)
  case (pool_next p p')
  have sub: "\<And>x. x \<in> pl_open p \<Longrightarrow> x \<in> set (pl_all p)" using pool_next.IH by blast
  from pool_next.hyps(2) show ?case
    by (cases rule: pool_stepE)
      (use sub in \<open>auto simp: conn_test_def conn_open_def pool_close_def split: if_splits option.splits\<close>)
qed (simp add: new_pool_def)

section \<open>Properties\<close>


definition empty_cache :: cache where
  "empty_cache = \<lparr>c_closed = False, c_meta = Some ''4'', c_access_segments = False, c_segments = [],
     c_routes = [], c_geocodes = [], c_writes_since_sweep = 0, c_removed_since_reclaim = 0, c_reclaims = 0\<rparr>"




text \<open>
  A file this build cannot read is refused, and one it can migrate is migrated: opening a file
  leaves it stamped with version 4 exactly when its meta row was missing or read as 3 or 4, with
  the dropped table gone when it came from 3; every other version, unreadable texts included, is
  refused with the text the file holds.
\<close>

theorem open_migrates_or_refuses:
  "init_schema c =
     (case c_meta c of
        None \<Rightarrow> Inr (c\<lparr>c_meta := Some ''4''\<rparr>)
      | Some v \<Rightarrow>
          if parse_int v = Some 4 then Inr c
          else if parse_int v = Some 3 then Inr (c\<lparr>c_access_segments := False, c_meta := Some ''4''\<rparr>)
          else Inl (SchemaVersionMismatch v))"
proof -
  have four: "int_text 4 = ''4''" by (simp add: int_text_def nat_text.simps digit_char_def)
  have m: "migrate v n d = (if n = 4 then Inr d
      else if n = 3 then Inr (d\<lparr>c_access_segments := False, c_meta := Some ''4''\<rparr>)
      else Inl (SchemaVersionMismatch v))" for v n d
    by (simp add: migrate.simps [of v n d] migrate.simps [of v 4] migration_def SCHEMA_VERSION_def four)
  show ?thesis
    by (auto simp: init_schema_def m SCHEMA_VERSION_def four split: option.splits)
qed

lemma segment_chunks_set:
  "set (segment_chunks variant keys c) = set (segment_rows variant keys c)"
proof (induction variant keys c rule: segment_chunks.induct)
  case (1 variant keys c)
  show ?case
  proof (cases "keys = []")
    case True
    then show ?thesis by (simp add: segment_chunks.simps segment_rows_def)
  next
    case False
    have k: "set keys = set (take 400 keys) \<union> set (drop 400 keys)"
      by (metis append_take_drop_id set_append)
    show ?thesis using "1" [OF False] False k
      by (subst segment_chunks.simps) (auto simp: segment_rows_def)
  qed
qed

lemma segment_scores_read:
  assumes "\<not> c_closed c" and "keyed (c_segments c)"
  shows "get_segment_scores keys variant c =
    Inr (\<lambda>k. if k \<in> set keys
            then (case map_of (c_segments c) k of
                    None \<Rightarrow> None
                  | Some s \<Rightarrow> if variant = None \<or> ss_prompt_variant s = variant then Some s else None)
            else None)"
    (is "_ = Inr ?f")
proof (cases "keys = []")
  case False
  have "map_of (rev (segment_chunks variant keys c)) k = ?f k" for k
  proof (cases "map_of (rev (segment_chunks variant keys c)) k")
    case None
    have "(k, s) \<notin> set (segment_rows variant keys c)" for s
    proof
      assume "(k, s) \<in> set (segment_rows variant keys c)"
      then have "k \<in> fst ` set (rev (segment_chunks variant keys c))"
        using segment_chunks_set [of variant keys c] by force
      then show False using None by (simp add: map_of_eq_None_iff)
    qed
    then have "?f k = None"
      by (fastforce simp: segment_rows_def split: option.splits if_splits dest: map_of_SomeD)
    then show ?thesis using None by simp
  next
    case (Some s)
    then have "(k, s) \<in> set (segment_rows variant keys c)"
      using segment_chunks_set [of variant keys c] map_of_SomeD by fastforce
    moreover from this have "map_of (c_segments c) k = Some s"
      using assms(2) by (simp add: segment_rows_def keyed_def)
    ultimately have "?f k = Some s" by (auto simp: segment_rows_def split: option.splits)
    then show ?thesis using Some by simp
  qed
  then show ?thesis using False assms(1) by (simp add: get_segment_scores_def with_conn_def fun_eq_iff)
qed (simp add: get_segment_scores_def)

text \<open>
  A prompt variant is never blended with another: the scores read for a set of grid cells, in
  queries of at most 400 keys, are exactly the stored rows of those cells when no variant is asked
  for, and exactly those scored by that variant when one is.
\<close>

theorem variants_never_blend:
  assumes "\<not> c_closed c" and "keyed (c_segments c)"
  shows "get_segment_scores keys variant c =
    Inr (\<lambda>k. if k \<in> set keys
            then (case map_of (c_segments c) k of
                    None \<Rightarrow> None
                  | Some s \<Rightarrow> if variant = None \<or> ss_prompt_variant s = variant then Some s else None)
            else None)"
  by (rule segment_scores_read [OF assms])

definition scored :: "string \<Rightarrow> segment_score" where
  "scored variant = \<lparr>ss_lat = 0, ss_lon = 0, ss_clip_score = Some 1, ss_image_count = 1,
     ss_scoring_method = ''clip'', ss_prompt_variant = Some variant, ss_updated_at = 0\<rparr>"

lemma variants_never_blend_witness:
  "\<exists>f. get_segment_scores [''a'', ''b''] (Some ''v1'')
         (empty_cache\<lparr>c_segments := [(''a'', scored ''v1''), (''b'', scored ''v2'')]\<rparr>) = Inr f
     \<and> f ''a'' = Some (scored ''v1'') \<and> f ''b'' = None"
  using variants_never_blend [of "empty_cache\<lparr>c_segments := [(''a'', scored ''v1''), (''b'', scored ''v2'')]\<rparr>"
      "[''a'', ''b'']" "Some ''v1''"]
  by (simp add: empty_cache_def keyed_def scored_def)

text \<open>
  Shutting down is not airtight. When no thread is between the test and the opening, close
  leaves nothing open and every later use is refused; but a thread that passed the test before
  close and opens after it leaves a connection open on a closed cache, which the comment on close
  says cannot happen.
\<close>

theorem close_race_leaks_a_connection:
  "(\<forall>p. pool_reach p \<longrightarrow> pl_open (pool_close p) = {}
       \<and> (\<forall>thread. conn_test thread (pool_close p) = Inl CacheClosed))
 \<and> (\<exists>p. pool_reach p \<and> pl_closed p \<and> pl_open p \<noteq> {})"
proof (intro conjI allI impI)
  fix p assume "pool_reach p"
  then show "pl_open (pool_close p) = {}" using pool_registered by (auto simp: pool_close_def)
next
  fix p thread
  show "conn_test thread (pool_close p) = Inl CacheClosed" by (simp add: conn_test_def pool_close_def)
next
  let ?p1 = "new_pool\<lparr>pl_passed := {0}\<rparr>"
  have "conn_test 0 new_pool = Inr (?p1, None)" by (simp add: conn_test_def new_pool_def)
  then have "pool_reach ?p1" by (rule pool_next [OF pool_new pool_test])
  then have "pool_reach (pool_close ?p1)" by (rule pool_next [OF _ pool_closes])
  then have "pool_reach (conn_open 0 (pool_close ?p1))"
    by (rule pool_next [OF _ pool_open]) (simp add: pool_close_def)
  moreover have "pl_closed (conn_open 0 (pool_close ?p1)) \<and> pl_open (conn_open 0 (pool_close ?p1)) \<noteq> {}"
    by (simp add: conn_open_def pool_close_def)
  ultimately show "\<exists>p. pool_reach p \<and> pl_closed p \<and> pl_open p \<noteq> {}" by blast
qed

lemma close_race_leaks_a_connection_witness:
  "pl_open (pool_close (conn_open 0 (new_pool\<lparr>pl_passed := {0}\<rparr>))) = {}"
proof -
  let ?p1 = "new_pool\<lparr>pl_passed := {0}\<rparr>"
  have "conn_test 0 new_pool = Inr (?p1, None)" by (simp add: conn_test_def new_pool_def)
  then have "pool_reach ?p1" by (rule pool_next [OF pool_new pool_test])
  then have "pool_reach (conn_open 0 ?p1)" by (rule pool_next [OF _ pool_open]) simp
  then show ?thesis using close_race_leaks_a_connection by blast
qed

text \<open>
  The grid cell astride the zero meridian has two keys. Apart from the sign of zero a segment key
  is a function of the rounded coordinates, as its comment says; but a negative coordinate that
  rounds to zero is written "-0.0000", so a point just west of Greenwich and one just east of it
  share a cell and not a cache entry.
\<close>

theorem segment_key_splits_the_zero_cell:
  "(\<forall>la lo la' lo'. 0 \<le> la \<and> 0 \<le> la' \<and> 0 \<le> lo \<and> 0 \<le> lo'
       \<and> round_dec 4 la = round_dec 4 la' \<and> round_dec 4 lo = round_dec 4 lo' \<longrightarrow>
       segment_key la lo = segment_key la' lo')
 \<and> round_dec 4 (-1 / 100000) = round_dec 4 (1 / 100000)
 \<and> segment_key 51 (-1 / 100000) \<noteq> segment_key 51 (1 / 100000)"
proof (intro conjI allI impI)
  have "\<lfloor>- (1 / 10) :: real\<rfloor> = -1" "\<lfloor>1 / 10 :: real\<rfloor> = 0" by linarith+
  then show "round_dec 4 (-1 / 100000) = round_dec 4 (1 / 100000)"
    by (simp add: round_dec_def round_half_even_def Let_def)
  have "coord_text (-1 / 100000) = CHR ''-'' # coord_text (1 / 100000)"
    by (simp add: coord_text_def)
  then show "segment_key 51 (-1 / 100000) \<noteq> segment_key 51 (1 / 100000)"
    by (simp add: segment_key_def)
qed (simp add: segment_key_def coord_text_def SEGMENT_GRID_DECIMALS_def)

lemma segment_key_splits_the_zero_cell_witness:
  "segment_key 51 0 = segment_key 51 (1 / 100000)"
proof -
  have "\<lfloor>1 / 10 :: real\<rfloor> = 0" by linarith
  then have "round_dec 4 (0 :: real) = round_dec 4 (1 / 100000)"
    by (simp add: round_dec_def round_half_even_def Let_def)
  then show ?thesis using segment_key_splits_the_zero_cell by (metis order_refl zero_le_divide_1_iff zero_le_numeral)
qed

end
