(* ===== verification/Config.thy ===== *)
theory Config
  imports Prelude
begin

text \<open>
  backend/config.py: the environment, read. An environment is a map from names to texts; every
  module-level constant the file computes from it is a definition over it.
\<close>

type_synonym environ = "string \<rightharpoonup> string"

definition get_or :: "environ \<Rightarrow> string \<Rightarrow> string \<Rightarrow> string" where
  "get_or env name dflt = (case env name of None \<Rightarrow> dflt | Some v \<Rightarrow> v)"

section \<open>The routing server\<close>

definition GRAPHHOPPER_URL :: "environ \<Rightarrow> string" where
  "GRAPHHOPPER_URL env = get_or env ''MEANDER_GRAPHHOPPER_URL'' ''https://graphhopper.com/api/1/route''"

definition LOOPBACK_HOSTS :: "string set" where
  "LOOPBACK_HOSTS = {''localhost'', ''127.0.0.1'', ''0.0.0.0'', ''::1''}"

definition endpoint_host :: "environ \<Rightarrow> string" where
  "endpoint_host env = split1_first (CHR ''/'') (split1_last ''//'' (GRAPHHOPPER_URL env))"

definition sniffed_host :: "environ \<Rightarrow> string" where
  "sniffed_host env = str_lower (split1_first (CHR '':'') (endpoint_host env))"

definition hostname_looks_self_hosted :: "environ \<Rightarrow> bool" where
  "hostname_looks_self_hosted env \<longleftrightarrow>
     (let host = sniffed_host env in host \<in> LOOPBACK_HOSTS \<or> ends_with ''.local'' host)"

text \<open>A blank value is an unset one.\<close>

definition stripped :: "environ \<Rightarrow> string \<Rightarrow> string option" where
  "stripped env name =
     (case env name of None \<Rightarrow> None | Some raw \<Rightarrow> if strip raw = [] then None else Some (strip raw))"

definition says_yes :: "string \<Rightarrow> bool" where
  "says_yes s \<longleftrightarrow> str_lower s \<in> {''1'', ''true'', ''yes'', ''on''}"

definition SELF_HOSTED_ENV :: string where
  "SELF_HOSTED_ENV = ''MEANDER_GRAPHHOPPER_SELF_HOSTED''"

definition graphhopper_is_self_hosted :: "environ \<Rightarrow> bool" where
  "graphhopper_is_self_hosted env =
     (case stripped env SELF_HOSTED_ENV of
        Some v \<Rightarrow> says_yes v
      | None \<Rightarrow> hostname_looks_self_hosted env)"

record resolution =
  rs_self_hosted :: bool
  rs_source :: string
  rs_endpoint_host :: string

definition self_hosted_resolution :: "environ \<Rightarrow> resolution" where
  "self_hosted_resolution env =
     \<lparr>rs_self_hosted = graphhopper_is_self_hosted env,
      rs_source = (if stripped env SELF_HOSTED_ENV \<noteq> None then ''env'' else ''hostname''),
      rs_endpoint_host = endpoint_host env\<rparr>"

definition SERVICE_HOSTS :: "(string \<times> string) list" where
  "SERVICE_HOSTS =
     [(''graphhopper.com'', ''graphhopper''), (''graph.mapillary.com'', ''mapillary''),
      (''overpass-api.de'', ''overpass''), (''api.open-meteo.com'', ''open_meteo''),
      (''air-quality-api.open-meteo.com'', ''open_meteo''),
      (''nominatim.openstreetmap.org'', ''nominatim''), (''api.anthropic.com'', ''anthropic''),
      (''api06.dev.openstreetmap.org'', ''osm_dev''),
      (''commons.wikimedia.org'', ''wikimedia_commons''), (''upload.wikimedia.org'', ''wikimedia_images'')]"

section \<open>Reading one variable\<close>

definition env_flag :: "environ \<Rightarrow> string \<Rightarrow> bool \<Rightarrow> bool" where
  "env_flag env name dflt =
     (case stripped env name of None \<Rightarrow> dflt | Some v \<Rightarrow> says_yes v)"

definition env_int :: "environ \<Rightarrow> string \<Rightarrow> int \<Rightarrow> int" where
  "env_int env name dflt =
     (case env name of
        None \<Rightarrow> dflt
      | Some raw \<Rightarrow> if strip raw = [] then dflt
                    else (case parse_int raw of None \<Rightarrow> dflt | Some n \<Rightarrow> n))"

definition env_float :: "environ \<Rightarrow> string \<Rightarrow> real \<Rightarrow> real" where
  "env_float env name dflt =
     (case env name of
        None \<Rightarrow> dflt
      | Some raw \<Rightarrow> if strip raw = [] then dflt
                    else (case parse_float raw of None \<Rightarrow> dflt | Some x \<Rightarrow> x))"

section \<open>Budgets, path details, limits\<close>

definition DEV_LIVE_CALL_BUDGET :: "(string \<times> int) list" where
  "DEV_LIVE_CALL_BUDGET =
     [(''graphhopper'', 80), (''mapillary'', 200), (''overpass'', 50), (''anthropic'', 20),
      (''open_meteo'', 100), (''nominatim'', 40), (''osm_dev'', 20), (''wikimedia_commons'', 150),
      (''wikimedia_images'', 600), (''mapillary_images'', 600)]"

definition resolve_live_call_budget :: "environ \<Rightarrow> (string \<times> int) list" where
  "resolve_live_call_budget env =
     map (\<lambda>(service, n). (service, env_int env (''MEANDER_BUDGET_'' @ str_upper service) n))
       DEV_LIVE_CALL_BUDGET"

definition SECRET_QUERY_PARAMS :: "string set" where
  "SECRET_QUERY_PARAMS = {''key'', ''access_token'', ''api_key''}"

definition SECRET_HEADERS :: "string set" where
  "SECRET_HEADERS = {''authorization'', ''x-api-key'', ''anthropic-api-key''}"

definition DEFAULT_PATH_DETAILS :: "string list" where
  "DEFAULT_PATH_DETAILS = [''road_class'', ''surface'', ''road_environment'']"

definition SELF_HOSTED_PATH_DETAILS :: "string list" where
  "SELF_HOSTED_PATH_DETAILS = DEFAULT_PATH_DETAILS @ [''smoothness'']"

text \<open>\<open>[d.strip() for d in raw.split(",") if d.strip()]\<close>.\<close>

definition comma_list :: "string \<Rightarrow> string list" where
  "comma_list raw = filter (\<lambda>d. d \<noteq> []) (map strip (split_on (CHR '','') raw))"

definition path_details :: "environ \<Rightarrow> string list" where
  "path_details env =
     (case env ''MEANDER_PATH_DETAILS'' of
        Some raw \<Rightarrow> if raw \<noteq> [] then comma_list raw
                    else if graphhopper_is_self_hosted env then SELF_HOSTED_PATH_DETAILS
                    else DEFAULT_PATH_DETAILS
      | None \<Rightarrow> if graphhopper_is_self_hosted env then SELF_HOSTED_PATH_DETAILS
                else DEFAULT_PATH_DETAILS)"

definition HTTP_TIMEOUT_S :: "environ \<Rightarrow> real" where
  "HTTP_TIMEOUT_S env = env_float env ''MEANDER_HTTP_TIMEOUT_S'' 20"
definition HTTP_CONNECT_TIMEOUT_S :: "environ \<Rightarrow> real" where
  "HTTP_CONNECT_TIMEOUT_S env = env_float env ''MEANDER_HTTP_CONNECT_TIMEOUT_S'' 5"
definition REQUEST_DEADLINE_S :: "environ \<Rightarrow> real" where
  "REQUEST_DEADLINE_S env = env_float env ''MEANDER_REQUEST_DEADLINE_S'' 45"
definition PHOTO_MAX_ANCHORS :: "environ \<Rightarrow> int" where
  "PHOTO_MAX_ANCHORS env = env_int env ''MEANDER_PHOTO_MAX_ANCHORS'' 5"
definition PHOTO_SEARCH_RADIUS_M :: "environ \<Rightarrow> int" where
  "PHOTO_SEARCH_RADIUS_M env = env_int env ''MEANDER_PHOTO_SEARCH_RADIUS_M'' 400"
definition PHOTO_MAX_IMAGE_BYTES :: "environ \<Rightarrow> int" where
  "PHOTO_MAX_IMAGE_BYTES env = env_int env ''MEANDER_PHOTO_MAX_IMAGE_BYTES'' (5 * 1024 * 1024)"
definition PHOTO_CACHE_MAX_AGE_S :: "environ \<Rightarrow> int" where
  "PHOTO_CACHE_MAX_AGE_S env = env_int env ''MEANDER_PHOTO_CACHE_MAX_AGE_S'' (24 * 60 * 60)"
definition PHOTO_BUCKET_CAPACITY :: "environ \<Rightarrow> int" where
  "PHOTO_BUCKET_CAPACITY env = env_int env ''MEANDER_PHOTO_RATE_CAPACITY'' 60"
definition PHOTO_REFILL_PER_MIN :: "environ \<Rightarrow> real" where
  "PHOTO_REFILL_PER_MIN env = env_float env ''MEANDER_PHOTO_RATE_REFILL_PER_MIN'' 60"
definition TRUSTED_PROXY_HOPS :: "environ \<Rightarrow> int" where
  "TRUSTED_PROXY_HOPS env = env_int env ''MEANDER_TRUSTED_PROXY_HOPS'' 0"
definition DRAIN_TIMEOUT_S :: "environ \<Rightarrow> real" where
  "DRAIN_TIMEOUT_S env = env_float env ''MEANDER_DRAIN_TIMEOUT_S'' 20"

text \<open>Unset, the signing key is the process's own random bytes (\<open>fresh\<close>).\<close>

definition photo_signing_key :: "environ \<Rightarrow> string \<Rightarrow> string" where
  "photo_signing_key env fresh =
     (let configured = strip (get_or env ''MEANDER_PHOTO_SIGNING_KEY'' '''')
      in if configured \<noteq> [] then configured else fresh)"

section \<open>Settings\<close>

datatype fixture_mode = Replay | Record | Live

record settings =
  st_fixture_mode :: fixture_mode
  st_graphhopper_key :: "string option"
  st_mapillary_token :: "string option"
  st_anthropic_api_key :: "string option"
  st_osm_dev_token :: "string option"
  st_allowed_origins :: "string list"
  st_per_ip_bucket_capacity :: int
  st_per_ip_refill_per_min :: real
  st_global_daily_route_ceiling :: int
  st_route_cache_ttl_s :: int
  st_geocode_bucket_capacity :: int
  st_geocode_refill_per_min :: real
  st_geocode_cache_ttl_s :: int
  st_geocode_empty_cache_ttl_s :: int
  st_log_level :: string

definition no_key :: "string option \<Rightarrow> bool" where
  "no_key k \<longleftrightarrow> k = None \<or> k = Some []"

definition missing_keys :: "environ \<Rightarrow> settings \<Rightarrow> string list" where
  "missing_keys env s =
     (if no_key (st_graphhopper_key s) \<and> \<not> graphhopper_is_self_hosted env then [''GRAPHHOPPER_KEY''] else [])
     @ (if no_key (st_mapillary_token s) then [''MAPILLARY_TOKEN''] else [])
     @ (if no_key (st_anthropic_api_key s) then [''ANTHROPIC_API_KEY''] else [])"

definition missing_required_keys :: "environ \<Rightarrow> settings \<Rightarrow> string list" where
  "missing_required_keys env s =
     (if st_fixture_mode s = Replay then []
      else if no_key (st_graphhopper_key s) \<and> \<not> graphhopper_is_self_hosted env then [''GRAPHHOPPER_KEY'']
      else [])"

definition resolve_fixture_mode :: "environ \<Rightarrow> fixture_mode" where
  "resolve_fixture_mode env =
     (let v = get_or env ''MEANDER_FIXTURES'' ''replay'';
          raw = str_lower (strip (if v = [] then ''replay'' else v))
      in if raw = ''record'' then Record else if raw = ''live'' then Live else Replay)"

definition LOCAL_ORIGINS :: "string list" where
  "LOCAL_ORIGINS = [''http://localhost:5173'', ''http://127.0.0.1:5173'']"

definition resolve_origins :: "environ \<Rightarrow> string list" where
  "resolve_origins env =
     (let origins = comma_list (get_or env ''MEANDER_ALLOWED_ORIGINS'' '''');
          is_development = (resolve_fixture_mode env \<noteq> Live)
      in if env_flag env ''MEANDER_ALLOW_LOCAL_ORIGINS'' (is_development \<and> origins = [])
         then foldl (\<lambda>os d. if d \<in> set os then os else os @ [d]) origins LOCAL_ORIGINS
         else origins)"

definition load_settings :: "environ \<Rightarrow> settings" where
  "load_settings env =
     \<lparr>st_fixture_mode = resolve_fixture_mode env,
      st_graphhopper_key = stripped env ''GRAPHHOPPER_KEY'',
      st_mapillary_token = stripped env ''MAPILLARY_TOKEN'',
      st_anthropic_api_key = stripped env ''ANTHROPIC_API_KEY'',
      st_osm_dev_token = stripped env ''OSM_DEV_TOKEN'',
      st_allowed_origins = resolve_origins env,
      st_per_ip_bucket_capacity = env_int env ''MEANDER_RATE_CAPACITY'' 12,
      st_per_ip_refill_per_min = env_float env ''MEANDER_RATE_REFILL_PER_MIN'' 1,
      st_global_daily_route_ceiling = env_int env ''MEANDER_DAILY_ROUTE_CEILING'' 2000,
      st_route_cache_ttl_s = env_int env ''MEANDER_ROUTE_CACHE_TTL_S'' (6 * 60 * 60),
      st_geocode_bucket_capacity = env_int env ''MEANDER_GEOCODE_RATE_CAPACITY'' 40,
      st_geocode_refill_per_min = env_float env ''MEANDER_GEOCODE_RATE_REFILL_PER_MIN'' 20,
      st_geocode_cache_ttl_s = env_int env ''MEANDER_GEOCODE_CACHE_TTL_S'' (24 * 60 * 60),
      st_geocode_empty_cache_ttl_s = env_int env ''MEANDER_GEOCODE_EMPTY_CACHE_TTL_S'' (10 * 60),
      st_log_level = str_upper (get_or env ''MEANDER_LOG_LEVEL'' ''INFO'')\<rparr>"

definition STRICT_STARTUP :: "environ \<Rightarrow> bool" where
  "STRICT_STARTUP env = env_flag env ''MEANDER_STRICT_STARTUP'' False"

section \<open>Properties\<close>

lemma split_on_no_sep: "w \<in> set (split_on c s) \<Longrightarrow> c \<notin> set w"
  by (induction s arbitrary: w) (auto split: if_splits list.splits)

lemma set_str_lower: "CHR '':'' \<notin> set s \<Longrightarrow> CHR '':'' \<notin> set (str_lower s)"
proof -
  have "char_lower c = CHR '':'' \<Longrightarrow> c = CHR '':''" for c
    by (auto simp: char_lower_def upper_letters_def lower_letters_def split: option.splits if_splits)
  then show "CHR '':'' \<notin> set s \<Longrightarrow> CHR '':'' \<notin> set (str_lower s)"
    unfolding str_lower_def set_map by (metis imageE)
qed

text \<open>
  A deployment that forgot to configure its origins gets a closed door: in live mode, with
  MEANDER_ALLOW_LOCAL_ORIGINS unset or blank, the allowlist is exactly the configured origins; the
  dev server is never added by omission. In development with nothing configured it is added.
\<close>

theorem live_origins_are_the_configured_ones:
  assumes "stripped env ''MEANDER_ALLOW_LOCAL_ORIGINS'' = None"
  shows "(resolve_fixture_mode env = Live \<longrightarrow>
            resolve_origins env = comma_list (get_or env ''MEANDER_ALLOWED_ORIGINS'' ''''))
       \<and> (resolve_fixture_mode env \<noteq> Live \<and> comma_list (get_or env ''MEANDER_ALLOWED_ORIGINS'' '''') = [] \<longrightarrow>
            resolve_origins env = LOCAL_ORIGINS)"
  using assms by (simp add: resolve_origins_def env_flag_def LOCAL_ORIGINS_def Let_def)

lemma live_origins_are_the_configured_ones_witness:
  "resolve_origins [''MEANDER_FIXTURES'' \<mapsto> ''live''] = []"
  using live_origins_are_the_configured_ones [of "[''MEANDER_FIXTURES'' \<mapsto> ''live'']"]
  by (simp add: stripped_def resolve_fixture_mode_def get_or_def comma_list_def py_defs)

text \<open>
  One of the loopback names can never match. The sniffed host is what stands before the first
  colon, so it never contains one, and the IPv6 loopback "::1" in the table is dead: a router at
  http://[::1]:8989/route is taken for the hosted API unless the flag says otherwise.
\<close>

theorem ipv6_loopback_is_never_recognised:
  "sniffed_host env \<noteq> ''::1''
 \<and> \<not> graphhopper_is_self_hosted [''MEANDER_GRAPHHOPPER_URL'' \<mapsto> ''http://[::1]:8989/route'']
 \<and> graphhopper_is_self_hosted [''MEANDER_GRAPHHOPPER_URL'' \<mapsto> ''http://localhost:8989/route'']"
proof (intro conjI)
  have "CHR '':'' \<notin> set (sniffed_host env)"
    unfolding sniffed_host_def split1_first_def
    by (intro set_str_lower) (auto dest: set_takeWhileD)
  then show "sniffed_host env \<noteq> ''::1''" by auto
qed (simp_all add: graphhopper_is_self_hosted_def hostname_looks_self_hosted_def stripped_def
    SELF_HOSTED_ENV_def sniffed_host_def endpoint_host_def GRAPHHOPPER_URL_def get_or_def
    split1_first_def split1_last_def LOOPBACK_HOSTS_def ends_with_def py_defs Let_def)

text \<open>
  Readiness demands a subset of what completeness lists, and only what routing needs: the
  required keys are a sublist of the missing ones, none at all in replay mode or for a self-hosted
  router, and never the optional ones.
\<close>

theorem required_keys_are_missing_keys:
  "set (missing_required_keys env s) \<subseteq> set (missing_keys env s) \<inter> {''GRAPHHOPPER_KEY''}
 \<and> (missing_required_keys env s \<noteq> [] \<longleftrightarrow>
      st_fixture_mode s \<noteq> Replay \<and> no_key (st_graphhopper_key s) \<and> \<not> graphhopper_is_self_hosted env)"
  by (auto simp: missing_required_keys_def missing_keys_def)

text \<open>A deployment that says it runs its own router.\<close>

definition local_env :: environ where
  "local_env = [''MEANDER_GRAPHHOPPER_SELF_HOSTED'' \<mapsto> ''1'']"

lemma local_self_hosted: "graphhopper_is_self_hosted local_env"
  by (simp add: graphhopper_is_self_hosted_def stripped_def local_env_def SELF_HOSTED_ENV_def
      says_yes_def py_defs)

end
