(* ===== verification/Extent.thy ===== *)
theory Extent
  imports Json Config
begin

text \<open>
  backend/coverage.py and backend/health.py: what the routing server covers, whether it answers,
  and the two caches of its answers. What a request to the server comes back with is an argument
  (\<open>fetched\<close>), as is the clock; the module globals \<open>_cached\<close> and \<open>_last\<close> are the state.
\<close>

section \<open>Bounding boxes\<close>

record box =
  min_lon :: real
  min_lat :: real
  max_lon :: real
  max_lat :: real

definition box_contains :: "box \<Rightarrow> real \<Rightarrow> real \<Rightarrow> bool" where
  "box_contains b la lo \<longleftrightarrow> min_lat b \<le> la \<and> la \<le> max_lat b \<and> min_lon b \<le> lo \<and> lo \<le> max_lon b"

definition degree_sign :: string where
  "degree_sign = [CHR 0xB0]"

definition describe_lat :: "real \<Rightarrow> string" where
  "describe_lat x = fixed_text 0 \<bar>x\<bar> @ degree_sign @ (if 0 \<le> x then ''N'' else ''S'')"

definition describe_lon :: "real \<Rightarrow> string" where
  "describe_lon x = fixed_text 0 \<bar>x\<bar> @ degree_sign @ (if 0 \<le> x then ''E'' else ''W'')"

definition describe :: "box \<Rightarrow> string" where
  "describe b =
     ''roughly '' @ describe_lat (min_lat b) @ '' to '' @ describe_lat (max_lat b) @ '', ''
     @ describe_lon (min_lon b) @ '' to '' @ describe_lon (max_lon b)"

section \<open>Reading a bounding box out of JSON\<close>

definition box_of :: "real list \<Rightarrow> box" where
  "box_of xs = \<lparr>min_lon = xs ! 0, min_lat = xs ! 1, max_lon = xs ! 2, max_lat = xs ! 3\<rparr>"

text \<open>\<open>isinstance(bbox, list | tuple) and len(bbox) >= 4\<close>, then \<open>Coverage(*map(float, bbox[:4]))\<close>.\<close>

definition parse_bbox :: "json \<Rightarrow> (py_error, box option) result" where
  "parse_bbox bbox =
     (if is_list bbox \<and> 4 \<le> length (jlist bbox)
      then (case floats (take 4 (jlist bbox)) of Inl e \<Rightarrow> Inl e | Inr xs \<Rightarrow> Inr (Some (box_of xs)))
      else Inr None)"

section \<open>The extent, asked once an hour\<close>

definition INFO_TTL_S :: real where "INFO_TTL_S = 3600"

text \<open>A transport failure, or a status with a body that decodes or does not.\<close>

datatype fetched = Unreachable string | Response int "json option"

definition url_scheme_host :: "(string \<Rightarrow> string \<times> string) \<Rightarrow> environ \<Rightarrow> string" where
  "url_scheme_host urlsplit env =
     (let (scheme, netloc) = urlsplit (GRAPHHOPPER_URL env) in scheme @ ''://'' @ netloc)"

definition info_url :: "(string \<Rightarrow> string \<times> string) \<Rightarrow> environ \<Rightarrow> string" where
  "info_url urlsplit env = url_scheme_host urlsplit env @ ''/info''"

type_synonym extent_cache = "(box option \<times> real) option"

definition extent_of :: "fetched \<Rightarrow> (py_error, box option) result" where
  "extent_of f =
     (case f of
        Unreachable e \<Rightarrow> Inr None
      | Response status body \<Rightarrow>
          if 400 \<le> status then Inr None
          else (case body of
              None \<Rightarrow> Inr None
            | Some v \<Rightarrow>
                let d = (if truthy v then v else JObj [])
                in if \<not> is_dict d then Inl AttributeError
                   else (case parse_bbox (jget ''bbox'' d) of Inl e \<Rightarrow> Inr None | Inr b \<Rightarrow> Inr b)))"

definition routable_extent :: "environ \<Rightarrow> real \<Rightarrow> fetched \<Rightarrow> extent_cache
    \<Rightarrow> extent_cache \<times> (py_error, box option) result" where
  "routable_extent env now f c =
     (if \<not> graphhopper_is_self_hosted env then (c, Inr None)
      else case c of
          Some (b, checked) \<Rightarrow>
            if now - checked < INFO_TTL_S then (c, Inr b)
            else (case extent_of f of Inl e \<Rightarrow> (c, Inl e) | Inr b' \<Rightarrow> (Some (b', now), Inr b'))
        | None \<Rightarrow> (case extent_of f of Inl e \<Rightarrow> (c, Inl e) | Inr b' \<Rightarrow> (Some (b', now), Inr b')))"

definition outside_coverage :: "environ \<Rightarrow> real \<Rightarrow> fetched \<Rightarrow> extent_cache \<Rightarrow> real \<Rightarrow> real
    \<Rightarrow> extent_cache \<times> (py_error, box option) result" where
  "outside_coverage env now f c la lo =
     (case routable_extent env now f c of
        (c', Inl e) \<Rightarrow> (c', Inl e)
      | (c', Inr None) \<Rightarrow> (c', Inr None)
      | (c', Inr (Some b)) \<Rightarrow> (c', Inr (if box_contains b la lo then None else Some b)))"

definition coverage_message :: "box \<Rightarrow> string" where
  "coverage_message b =
     ''Meander does not cover that area yet. This server has only part of the '' @
     ''world's map loaded ('' @ describe b @ ''), and your starting point is '' @
     ''outside it. Nothing you did caused this, and moving a little will not help.''"

section \<open>The imported regions\<close>

text \<open>
  The manifest files in the order they are tried: \<open>None\<close> for one that cannot be read or decoded.
  The first readable one decides.
\<close>

definition region_of :: "json \<Rightarrow> box list" where
  "region_of entry = (case parse_bbox (jget ''bbox'' entry) of Inr (Some b) \<Rightarrow> [b] | _ \<Rightarrow> [])"

fun region_boxes :: "json option list \<Rightarrow> box list option" where
  "region_boxes [] = None"
| "region_boxes (None # rest) = region_boxes rest"
| "region_boxes (Some raw # rest) =
     (let boxes = concat (map region_of (jlist (jget ''regions'' raw)))
      in if boxes = [] then None else Some boxes)"

definition inside_an_imported_region :: "box list option \<Rightarrow> real \<Rightarrow> real \<Rightarrow> bool option" where
  "inside_an_imported_region boxes la lo =
     (case boxes of None \<Rightarrow> None | Some bs \<Rightarrow> Some (list_ex (\<lambda>b. box_contains b la lo) bs))"

definition unroutable_point_message :: "box list option \<Rightarrow> box \<Rightarrow> (real \<times> real) option \<Rightarrow> string" where
  "unroutable_point_message boxes extent pos =
     (case (case pos of None \<Rightarrow> None | Some (la, lo) \<Rightarrow> inside_an_imported_region boxes la lo) of
        Some False \<Rightarrow>
          ''Meander does not cover that area yet. This server has only part of the '' @
          ''world's map loaded ('' @ describe extent @ ''), and not all of it even inside '' @
          ''that, and this area is not one of the parts. Nothing you did caused '' @
          ''this, and moving a little will not help.''
      | Some True \<Rightarrow>
          ''This area is on the map, but no path was found close enough to that '' @
          ''exact spot. Try moving the start a little.''
      | None \<Rightarrow>
          ''No routable path was found near that point. This server has only part of '' @
          ''the world's map loaded ('' @ describe extent @ ''), and not all of it even '' @
          ''inside that, so either this area is not included yet, or there is no '' @
          ''path close enough to that exact spot. Nothing you did caused this.'')"

section \<open>The readiness probe\<close>

definition PROBE_TTL_S :: real where "PROBE_TTL_S = 8"

record probe =
  pb_ok :: bool
  pb_detail :: string
  pb_checked_at :: real

definition routing_probe_url :: "(string \<Rightarrow> string \<times> string) \<Rightarrow> environ \<Rightarrow> string" where
  "routing_probe_url urlsplit env = url_scheme_host urlsplit env @ ''/health''"

definition probe_outcome :: "fetched \<Rightarrow> bool \<times> string" where
  "probe_outcome f =
     (case f of
        Unreachable e \<Rightarrow> (False, e)
      | Response status body \<Rightarrow> if status < 400 then (True, ''ok'') else (False, ''http_'' @ int_text status))"

definition check_routing :: "environ \<Rightarrow> real \<Rightarrow> fetched \<Rightarrow> probe option
    \<Rightarrow> probe option \<times> (py_error, bool \<times> string) result" where
  "check_routing env now f prev =
     (if \<not> graphhopper_is_self_hosted env then (prev, Inr (True, ''hosted_api_not_probed''))
      else let asked = (let (ok, detail) = probe_outcome f
                        in (Some \<lparr>pb_ok = ok, pb_detail = detail, pb_checked_at = now\<rparr>, Inr (ok, detail)))
        in case prev of
             Some p \<Rightarrow> if now - pb_checked_at p < PROBE_TTL_S then (prev, Inr (pb_ok p, pb_detail p))
                       else asked
           | None \<Rightarrow> asked)"

section \<open>One request per time to live\<close>

text \<open>
  The law both caches keep: an answer the server was asked for is the answer, and the state, until
  its time to live is over, whatever the server would have said in between.
\<close>

locale asked_once =
  fixes ask :: "real \<Rightarrow> fetched \<Rightarrow> 's \<Rightarrow> 's \<times> (py_error, 'a) result"
    and asks :: "real \<Rightarrow> 's \<Rightarrow> bool" and ttl :: real
  assumes remembered: "asks now s \<Longrightarrow> ask now f s = (s', Inr a) \<Longrightarrow> now \<le> t \<Longrightarrow> t < now + ttl \<Longrightarrow>
      ask t f' s' = (s', Inr a) \<and> \<not> asks t s'"
begin

fun requests :: "(real \<times> fetched) list \<Rightarrow> 's \<Rightarrow> nat" where
  "requests [] s = 0"
| "requests ((t, f) # ps) s = (if asks t s then 1 else 0) + requests ps (fst (ask t f s))"

lemma no_more_requests:
  assumes "asks now s" "ask now f s = (s', Inr a)" "\<forall>(t, f) \<in> set ps. now \<le> t \<and> t < now + ttl"
  shows "requests ps s' = 0 \<and> (\<forall>(t, g) \<in> set ps. snd (ask t g s') = Inr a)"
  using assms(3)
proof (induction ps)
  case (Cons p ps)
  obtain t g where p: "p = (t, g)" by fastforce
  have "ask t g s' = (s', Inr a) \<and> \<not> asks t s'"
    using remembered [OF assms(1,2)] Cons.prems p by auto
  then show ?case using Cons p by simp
qed simp

end

definition extent_asks :: "environ \<Rightarrow> real \<Rightarrow> extent_cache \<Rightarrow> bool" where
  "extent_asks env now c \<longleftrightarrow> graphhopper_is_self_hosted env
     \<and> (case c of None \<Rightarrow> True | Some (b, checked) \<Rightarrow> \<not> now - checked < INFO_TTL_S)"

definition probe_asks :: "environ \<Rightarrow> real \<Rightarrow> probe option \<Rightarrow> bool" where
  "probe_asks env now prev \<longleftrightarrow> graphhopper_is_self_hosted env
     \<and> (case prev of None \<Rightarrow> True | Some p \<Rightarrow> \<not> now - pb_checked_at p < PROBE_TTL_S)"

interpretation extent_once: asked_once "routable_extent env" "extent_asks env" INFO_TTL_S for env
  by unfold_locales
    (auto simp: routable_extent_def extent_asks_def split: option.splits sum.splits if_splits)

interpretation probe_once: asked_once "check_routing env" "probe_asks env" PROBE_TTL_S for env
  by unfold_locales
    (auto simp: check_routing_def probe_asks_def Let_def split: option.splits if_splits prod.splits)

section \<open>Properties\<close>

text \<open>
  A readiness poll is not an upstream poll: after a probe of a self-hosted router, every further
  poll within eight seconds answers the same without asking the router, whatever it would have
  said; and the extent is remembered the same way for an hour.
\<close>

theorem probes_are_remembered:
  assumes "probe_asks env now prev" and "check_routing env now f prev = (prev', Inr a)"
    and "now \<le> t" and "t < now + 8"
    and "extent_asks env now c" and "routable_extent env now g c = (c', Inr b)"
    and "now \<le> u" and "u < now + 3600"
  shows "check_routing env t f' prev' = (prev', Inr a) \<and> \<not> probe_asks env t prev'
       \<and> routable_extent env u g' c' = (c', Inr b) \<and> \<not> extent_asks env u c'"
  using probe_once.remembered [OF assms(1-3)] extent_once.remembered [OF assms(5-7)] assms(4,8)
  by (simp add: PROBE_TTL_S_def INFO_TTL_S_def)

lemma probes_are_remembered_witness:
  "snd (check_routing local_env 5 (Unreachable ''ConnectError'')
     (Some \<lparr>pb_ok = True, pb_detail = ''ok'', pb_checked_at = 0\<rparr>)) = Inr (True, ''ok'')"
proof -
  let ?f = "Response 200 None"
  have p: "check_routing local_env 0 ?f None
      = (Some \<lparr>pb_ok = True, pb_detail = ''ok'', pb_checked_at = 0\<rparr>, Inr (True, ''ok''))"
    by (simp add: check_routing_def local_self_hosted probe_outcome_def)
  have e: "routable_extent local_env 0 ?f None = (Some (None, 0), Inr None)"
    by (simp add: routable_extent_def local_self_hosted extent_of_def)
  show ?thesis
    using probes_are_remembered [OF _ p _ _ _ e, of 5 5 "Unreachable ''ConnectError''" ?f]
    by (simp add: probe_asks_def extent_asks_def local_self_hosted)
qed

text \<open>
  A refusal for lack of coverage is always a certain one: the answer names an extent only for a
  self-hosted router whose bounding box is known and does not contain the point; a hosted router,
  one that cannot be reached and one that reports no box make no claim.
\<close>

theorem outside_is_certain:
  "snd (outside_coverage env now f c la lo) = Inr (Some b) \<longleftrightarrow>
     graphhopper_is_self_hosted env \<and> \<not> box_contains b la lo
   \<and> snd (routable_extent env now f c) = Inr (Some b)"
  by (auto simp: outside_coverage_def routable_extent_def split: prod.splits sum.splits option.splits if_splits)

text \<open>
  The explanation for a point the router cannot snap is definite exactly when the manifest makes
  it so: with imported regions recorded, "does not cover" is said of points in none of their boxes
  and of no other, "is on the map" of points in one; without them, or without a position, the
  hedged sentence is said.
\<close>

theorem explanation_follows_the_manifest:
  "(starts_with ''Meander does not cover'' (unroutable_point_message boxes extent pos) \<longleftrightarrow>
      (\<exists>bs la lo. boxes = Some bs \<and> pos = Some (la, lo) \<and> (\<forall>b \<in> set bs. \<not> box_contains b la lo)))
 \<and> (starts_with ''This area is on the map'' (unroutable_point_message boxes extent pos) \<longleftrightarrow>
      (\<exists>bs la lo. boxes = Some bs \<and> pos = Some (la, lo) \<and> (\<exists>b \<in> set bs. box_contains b la lo)))
 \<and> (starts_with ''No routable path was found'' (unroutable_point_message boxes extent pos) \<longleftrightarrow>
      boxes = None \<or> pos = None)"
  by (cases boxes; cases pos)
    (auto simp: unroutable_point_message_def inside_an_imported_region_def starts_with_def list_ex_iff
      split: bool.splits prod.splits)

lemma explanation_follows_the_manifest_witness:
  "starts_with ''Meander does not cover'' (unroutable_point_message (Some []) (box_of [0, 0, 1, 1]) (Some (0, 0)))"
  using explanation_follows_the_manifest [of "Some []" "box_of [0, 0, 1, 1]" "Some (0, 0)"] by simp

end
