(* ===== verification/Models.thy ===== *)
theory Models
  imports Json Geometry
begin

text \<open>
  backend/models.py: the wire contract. What pydantic checks from the field declarations is the
  predicate \<open>valid_request\<close>; the validators the code writes itself are functions with their errors.
\<close>

section \<open>Modes\<close>

datatype mode = Auto | Foot | Bike | Car

definition derive_mode :: "int \<Rightarrow> mode" where
  "derive_mode minutes = (if minutes \<le> 45 then Foot else if minutes \<le> 120 then Bike else Car)"

definition STRAIGHT_LINE_CIRCUITY :: real where "STRAIGHT_LINE_CIRCUITY = 1.3"
definition FOOT_MAX_STRAIGHT_M :: real where "FOOT_MAX_STRAIGHT_M = 75 * 45 / STRAIGHT_LINE_CIRCUITY"
definition BIKE_MAX_STRAIGHT_M :: real where "BIKE_MAX_STRAIGHT_M = 220 * 120 / STRAIGHT_LINE_CIRCUITY"

lemmas ladder_defs = FOOT_MAX_STRAIGHT_M_def BIKE_MAX_STRAIGHT_M_def STRAIGHT_LINE_CIRCUITY_def

definition derive_mode_for_distance :: "real \<Rightarrow> mode" where
  "derive_mode_for_distance d =
     (if d \<le> FOOT_MAX_STRAIGHT_M then Foot else if d \<le> BIKE_MAX_STRAIGHT_M then Bike else Car)"

definition effective_mode :: "mode \<Rightarrow> int \<Rightarrow> real option \<Rightarrow> mode" where
  "effective_mode m minutes straight_line_m =
     (if m \<noteq> Auto then m
      else case straight_line_m of
          Some d \<Rightarrow> derive_mode_for_distance d
        | None \<Rightarrow> derive_mode minutes)"

section \<open>Objectives\<close>

definition ROUTE_IDS :: "string list" where
  "ROUTE_IDS = [''fastest'', ''scenic'', ''accessible'', ''quiet'', ''shade'', ''air'']"

definition DEPRECATED_OBJECTIVE_ALIASES :: "(string \<times> string) list" where
  "DEPRECATED_OBJECTIVE_ALIASES = [(''nature'', ''scenic'')]"

definition DEFAULT_OBJECTIVES :: "string list" where
  "DEFAULT_OBJECTIVES = [''fastest'', ''scenic'', ''accessible'']"

definition ROUTE_LABELS :: "(string \<times> string) list" where
  "ROUTE_LABELS = [(''fastest'', ''Fastest''), (''scenic'', ''Scenic''), (''accessible'', ''Accessible''),
     (''quiet'', ''Quiet''), (''shade'', ''Shade''), (''air'', ''Clean air'')]"

fun current_name :: "json \<Rightarrow> json" where
  "current_name (JStr s) =
     JStr (case map_of DEPRECATED_OBJECTIVE_ALIASES s of Some t \<Rightarrow> t | None \<Rightarrow> s)"
| "current_name j = j"

text \<open>The validator that runs before pydantic's own check of the type.\<close>

fun accept_deprecated_names :: "json \<Rightarrow> json" where
  "accept_deprecated_names (JList xs) = JList (map current_name xs)"
| "accept_deprecated_names j = j"

text \<open>\<open>list[RouteId] | None\<close>: the check pydantic makes in between.\<close>

fun route_id :: "json \<Rightarrow> string option" where
  "route_id (JStr s) = (if s \<in> set ROUTE_IDS then Some s else None)"
| "route_id _ = None"

fun route_ids :: "json \<Rightarrow> (string, string list option) result" where
  "route_ids JNull = Inr None"
| "route_ids (JList xs) =
     (if None \<in> set (map route_id xs) then Inl ''literal_error'' else Inr (Some (map (\<lambda>x. the (route_id x)) xs)))"
| "route_ids _ = Inl ''list_type''"

fun first_seen :: "'a list \<Rightarrow> 'a list \<Rightarrow> 'a list" where
  "first_seen seen [] = seen"
| "first_seen seen (x # xs) = first_seen (if x \<in> set seen then seen else seen @ [x]) xs"

definition at_most_three_unique :: "string list option \<Rightarrow> (string, string list option) result" where
  "at_most_three_unique v =
     (case v of
        None \<Rightarrow> Inr None
      | Some items \<Rightarrow>
          let seen = first_seen [] items
          in if seen = [] then Inl ''objectives must not be empty; omit the field to use the default three''
             else if 3 < length seen then Inl ''at most three objectives''
             else Inr (Some seen))"

definition parse_objectives :: "json \<Rightarrow> (string, string list option) result" where
  "parse_objectives j =
     (case route_ids (accept_deprecated_names j) of Inl e \<Rightarrow> Inl e | Inr v \<Rightarrow> at_most_three_unique v)"

section \<open>The route request\<close>

record route_request =
  rq_origin :: latlon
  rq_destination :: "latlon option"
  rq_minutes :: int
  rq_mode :: mode
  rq_depart_at :: "int option"
  rq_objectives :: "string list option"

definition MIN_MINUTES :: int where "MIN_MINUTES = 20"
definition MAX_MINUTES :: int where "MAX_MINUTES = 360"

definition valid_request :: "route_request \<Rightarrow> bool" where
  "valid_request r \<longleftrightarrow> on_globe (rq_origin r) \<and> pred_option on_globe (rq_destination r)
     \<and> MIN_MINUTES \<le> rq_minutes r \<and> rq_minutes r \<le> MAX_MINUTES"

definition resolved_objectives :: "route_request \<Rightarrow> string list" where
  "resolved_objectives r =
     (case rq_objectives r of
        None \<Rightarrow> DEFAULT_OBJECTIVES
      | Some os \<Rightarrow> if os = [] then DEFAULT_OBJECTIVES else os)"

definition is_loop :: "route_request \<Rightarrow> bool" where
  "is_loop r \<longleftrightarrow> rq_destination r = None"

definition budget_minutes :: "route_request \<Rightarrow> int option" where
  "budget_minutes r = (if rq_destination r \<noteq> None then None else Some (rq_minutes r))"

definition straight_line_m :: "route_request \<Rightarrow> real option" where
  "straight_line_m r =
     (case rq_destination r of None \<Rightarrow> None | Some d \<Rightarrow> Some (haversine_m (rq_origin r) d))"

section \<open>What a route carries\<close>

record rest_stop =
  st_lat :: real
  st_lon :: real
  st_type :: string
  st_at_m :: real

record blocker =
  bl_type :: string
  bl_lat :: real
  bl_lon :: real
  bl_description :: string

record scores =
  sc_scenic :: "real option"
  sc_air :: "real option"
  sc_shade :: "real option"
  sc_quiet :: "real option"

section \<open>The photo request's line\<close>

definition MAX_PHOTO_GEOMETRY_POINTS :: nat where "MAX_PHOTO_GEOMETRY_POINTS = 800"

fun usable_pairs :: "real list list \<Rightarrow> (string, unit) result" where
  "usable_pairs [] = Inr ()"
| "usable_pairs (pair # rest) =
     (case pair of
        [lo, la] \<Rightarrow>
          if \<not> (-180 \<le> lo \<and> lo \<le> 180) \<or> \<not> (-90 \<le> la \<and> la \<le> 90)
          then Inl ''each geometry entry must be [lon, lat] in degrees''
          else usable_pairs rest
      | _ \<Rightarrow> Inl ''each geometry entry must be [lon, lat]'')"

definition usable_line :: "real list list \<Rightarrow> (string, real list list) result" where
  "usable_line v =
     (if length v < 2 then Inl ''geometry needs at least two points''
      else if MAX_PHOTO_GEOMETRY_POINTS < length v
        then Inl (''geometry has more than '' @ nat_text MAX_PHOTO_GEOMETRY_POINTS
                  @ '' points; thin the line before sending it'')
      else case usable_pairs v of Inl e \<Rightarrow> Inl e | Inr u \<Rightarrow> Inr v)"

section \<open>Lemmas\<close>

lemma first_seen_set: "set (first_seen seen xs) = set seen \<union> set xs"
  by (induction seen xs rule: first_seen.induct) auto

lemma first_seen_distinct: "distinct seen \<Longrightarrow> distinct (first_seen seen xs)"
  by (induction seen xs rule: first_seen.induct) auto

text \<open>The rungs of the ladder, from the slowest; "auto", which is not one of them, is below them all.\<close>

fun mode_rank :: "mode \<Rightarrow> nat" where
  "mode_rank Auto = 0" | "mode_rank Foot = 1" | "mode_rank Bike = 2" | "mode_rank Car = 3"

lemma mode_rank_inj: "mode_rank m = mode_rank m' \<longleftrightarrow> m = m'"
  by (cases m; cases m') auto

instantiation mode :: linorder
begin

definition less_eq_mode :: "mode \<Rightarrow> mode \<Rightarrow> bool" where
  "less_eq_mode m m' = (mode_rank m \<le> mode_rank m')"

definition less_mode :: "mode \<Rightarrow> mode \<Rightarrow> bool" where
  "less_mode m m' = (mode_rank m < mode_rank m')"

instance
  by standard (auto simp: less_eq_mode_def less_mode_def mode_rank_inj)

end

lemma derive_mode_mono: "mono derive_mode"
  by (auto simp: mono_def derive_mode_def less_eq_mode_def)

lemma derive_mode_for_distance_mono: "mono derive_mode_for_distance"
  by (auto simp: mono_def derive_mode_for_distance_def less_eq_mode_def ladder_defs)

lemma usable_pairs_iff:
  "usable_pairs v = Inr () \<longleftrightarrow> (\<forall>p \<in> set v. \<exists>lo la. p = [lo, la] \<and> on_globe (LatLon la lo))"
  by (induction v rule: usable_pairs.induct)
    (auto simp: on_globe_def split: list.splits if_splits)

section \<open>Properties\<close>

text \<open>
  Objectives that get past validation are usable: whatever JSON the client sends, an accepted
  list resolves to one, two or three distinct known route ids, in the order the client first named
  them; the retired name never survives, and it is accepted wherever its successor is.
\<close>

theorem accepted_objectives_are_usable:
  assumes "parse_objectives j = Inr objs" and "rq_objectives r = objs"
  shows "distinct (resolved_objectives r) \<and> length (resolved_objectives r) \<in> {1, 2, 3}
       \<and> set (resolved_objectives r) \<subseteq> set ROUTE_IDS \<and> ''nature'' \<notin> set (resolved_objectives r)"
proof (cases objs)
  case None
  then show ?thesis using assms(2) by (simp add: resolved_objectives_def DEFAULT_OBJECTIVES_def ROUTE_IDS_def)
next
  case (Some os)
  obtain items where items: "route_ids (accept_deprecated_names j) = Inr (Some items)"
    and os: "os = first_seen [] items" "os \<noteq> []" "length os \<le> 3"
    using assms(1) Some
    by (auto simp: parse_objectives_def at_most_three_unique_def Let_def split: sum.splits option.splits if_splits)
  have ids: "set items \<subseteq> set ROUTE_IDS"
  proof -
    obtain xs where xs: "accept_deprecated_names j = JList xs"
      using items by (cases "accept_deprecated_names j") auto
    have "route_id x \<noteq> None" if "x \<in> set xs" for x using items xs that by (force split: if_splits)
    moreover have "route_id x = Some s \<Longrightarrow> s \<in> set ROUTE_IDS" for x s by (cases x) (auto split: if_splits)
    ultimately have "the (route_id x) \<in> set ROUTE_IDS" if "x \<in> set xs" for x using that by force
    moreover have "items = map (\<lambda>x. the (route_id x)) xs" using items xs by (auto split: if_splits)
    ultimately show ?thesis by auto
  qed
  have res: "resolved_objectives r = os" using assms(2) Some os(2) by (simp add: resolved_objectives_def)
  have "set os = set items" using os(1) first_seen_set [of "[]" items] by simp
  moreover have "distinct os" using os(1) first_seen_distinct [of "[]" items] by simp
  moreover have "length os \<noteq> 0" using os(2) by simp
  then have "length os = 1 \<or> length os = 2 \<or> length os = 3" using os(3) by linarith
  ultimately show ?thesis unfolding res using ids by (auto simp: ROUTE_IDS_def)
qed

definition colombo :: latlon where "colombo = LatLon 6.9 79.8"

lemma accepted_objectives_are_usable_witness:
  "resolved_objectives \<lparr>rq_origin = colombo, rq_destination = None, rq_minutes = 35, rq_mode = Auto,
     rq_depart_at = None, rq_objectives = Some [''scenic'', ''air'']\<rparr> = [''scenic'', ''air'']
   \<and> ''nature'' \<notin> set (resolved_objectives \<lparr>rq_origin = colombo, rq_destination = None, rq_minutes = 35,
     rq_mode = Auto, rq_depart_at = None, rq_objectives = Some [''scenic'', ''air'']\<rparr>)"
proof -
  have p: "parse_objectives (JList [JStr ''nature'', JStr ''scenic'', JStr ''air''])
      = Inr (Some [''scenic'', ''air''])"
    by (simp add: parse_objectives_def at_most_three_unique_def DEPRECATED_OBJECTIVE_ALIASES_def ROUTE_IDS_def)
  show ?thesis
    using accepted_objectives_are_usable [OF p, of "\<lparr>rq_origin = colombo, rq_destination = None,
        rq_minutes = 35, rq_mode = Auto, rq_depart_at = None, rq_objectives = Some [''scenic'', ''air'']\<rparr>"]
    by (simp add: resolved_objectives_def)
qed

text \<open>
  The mode of a trip is read from what describes it: an explicit mode is kept; with a
  destination the time budget changes nothing, and without one a larger budget never picks a slower
  rung; the two ladders agree at their rungs, and the answer is never "auto".
\<close>

theorem mode_ladders:
  "effective_mode m minutes (Some d) = effective_mode m minutes' (Some d)
 \<and> effective_mode m minutes straight \<noteq> Auto
 \<and> (m \<noteq> Auto \<longrightarrow> effective_mode m minutes straight = m)
 \<and> (minutes \<le> minutes' \<longrightarrow> effective_mode m minutes None \<le> effective_mode m minutes' None)
 \<and> (d \<le> d' \<longrightarrow> effective_mode m minutes (Some d) \<le> effective_mode m minutes (Some d'))
 \<and> derive_mode_for_distance (75 * 45 / 1.3) = derive_mode 45
 \<and> derive_mode_for_distance (220 * 120 / 1.3) = derive_mode 120"
proof (intro conjI impI)
  show "effective_mode m minutes straight \<noteq> Auto"
    by (auto simp: effective_mode_def derive_mode_def derive_mode_for_distance_def split: option.splits)
  show "effective_mode m minutes None \<le> effective_mode m minutes' None" if "minutes \<le> minutes'"
    using monoD [OF derive_mode_mono that] by (simp add: effective_mode_def)
  show "effective_mode m minutes (Some d) \<le> effective_mode m minutes (Some d')" if "d \<le> d'"
    using monoD [OF derive_mode_for_distance_mono that] by (simp add: effective_mode_def)
qed (simp_all add: effective_mode_def derive_mode_def derive_mode_for_distance_def ladder_defs)

lemma mode_ladders_witness:
  "effective_mode Auto 20 (Some 40000) = effective_mode Auto 360 (Some 40000)
   \<and> effective_mode Auto 40 None \<le> effective_mode Auto 130 None"
  using mode_ladders [of Auto 20 40000 360 None 40000] mode_ladders [of Auto 40 40000 130 None 40000] by simp

text \<open>
  A photo request's line is usable exactly when it has between 2 and 800 entries, each of them a
  pair on the globe in GeoJSON order; and then it is passed on unchanged.
\<close>

theorem usable_line_characterised:
  "usable_line v = Inr w \<longleftrightarrow>
     w = v \<and> 2 \<le> length v \<and> length v \<le> 800
   \<and> (\<forall>p \<in> set v. \<exists>lo la. p = [lo, la] \<and> on_globe (LatLon la lo))"
  using usable_pairs_iff [of v]
  by (auto simp: usable_line_def MAX_PHOTO_GEOMETRY_POINTS_def split: sum.splits)

lemma usable_line_characterised_witness:
  "usable_line [[79, 6], [80, 7]] = Inr [[79, 6], [80, 7]]"
  using usable_line_characterised [of "[[79, 6], [80, 7]]" "[[79, 6], [80, 7]]"] by (simp add: on_globe_def)

end
