(* ===== verification/Fixtures.thy ===== *)
theory Fixtures
  imports Json Config "HOL-Library.List_Lexorder" "HOL-Library.Char_ord"
begin

text \<open>
  backend/fixtures.py: the record-and-replay layer every upstream call goes through, and the daily
  live-call budget. A URL is what \<open>urlsplit\<close> makes of it. The hash of the signature payload
  (\<open>json.dumps\<close> with sorted keys, then sha256) is a parameter, and so is the text of a fixture file
  that the secret check searches. The directory of fixtures is a map; \<open>None\<close> inside it is a file that
  cannot be decoded.
\<close>

section \<open>Requests and responses\<close>

record url =
  u_scheme :: string
  u_netloc :: string
  u_hostname :: "string option"
  u_path :: string

datatype body = BJson json | BText string

record http_response =
  hr_status :: int
  hr_headers :: "(string \<times> string) list"
  hr_body :: body

record http_request =
  fq_method :: string
  fq_url :: url
  fq_params :: "(string \<times> json) list option"
  fq_json :: json
  fq_data :: "(string \<times> json) list option"
  fq_content :: "string option"
  fq_headers :: "(string \<times> string) list option"
  fq_cost :: int
  fq_service :: "string option"
  fq_persist :: "bool option"

definition PROVENANCE_HEADER :: string where "PROVENANCE_HEADER = ''x-meander-provenance''"
definition PROVENANCE_LIVE :: string where "PROVENANCE_LIVE = ''live''"
definition PROVENANCE_RECORDED :: string where "PROVENANCE_RECORDED = ''recorded''"
definition PROVENANCE_SYNTHETIC :: string where "PROVENANCE_SYNTHETIC = ''synthetic''"
definition REDACTED :: string where "REDACTED = ''<redacted>''"
definition MAX_RESPONSE_BYTES :: nat where "MAX_RESPONSE_BYTES = 32 * 1024 * 1024"

lemmas provenance_names = PROVENANCE_HEADER_def PROVENANCE_LIVE_def PROVENANCE_RECORDED_def
  PROVENANCE_SYNTHETIC_def

definition service_for_url :: "url \<Rightarrow> string" where
  "service_for_url u =
     (let host = str_lower (case u_hostname u of None \<Rightarrow> '''' | Some h \<Rightarrow> h)
      in case map_of SERVICE_HOSTS host of
           Some s \<Rightarrow> s
         | None \<Rightarrow> let d = replace_char (CHR ''.'') (CHR ''_'') host
                   in if d = [] then ''unknown'' else d)"

section \<open>The signature\<close>

text \<open>\<open>_canonical\<close>: keys sorted at every level; a number is its value, so 6.0 and 6 are one.\<close>

fun canonical :: "json \<Rightarrow> json"
  and canonical_all :: "json list \<Rightarrow> json list"
  and canonical_pairs :: "(string \<times> json) list \<Rightarrow> (string \<times> json) list" where
  "canonical (JObj kvs) = JObj (sort_key fst (canonical_pairs kvs))"
| "canonical (JList xs) = JList (canonical_all xs)"
| "canonical JNull = JNull"
| "canonical (JBool b) = JBool b"
| "canonical (JNum x) = JNum x"
| "canonical (JStr s) = JStr s"
| "canonical_all [] = []"
| "canonical_all (x # xs) = canonical x # canonical_all xs"
| "canonical_pairs [] = []"
| "canonical_pairs ((k, v) # kvs) = (k, canonical v) # canonical_pairs kvs"

definition strip_secret_params :: "(string \<times> json) list option \<Rightarrow> (string \<times> json) list" where
  "strip_secret_params ps =
     (case ps of None \<Rightarrow> []
      | Some kvs \<Rightarrow> filter (\<lambda>(k, v). str_lower k \<notin> SECRET_QUERY_PARAMS) kvs)"

definition dict_of :: "('k \<times> 'v) list \<Rightarrow> ('k \<times> 'v) list" where
  "dict_of kvs = foldl (\<lambda>d (k, v). AList.update k v d) [] kvs"

definition strip_secret_headers :: "(string \<times> string) list option \<Rightarrow> (string \<times> json) list" where
  "strip_secret_headers hs =
     (case hs of None \<Rightarrow> []
      | Some kvs \<Rightarrow> dict_of (map (\<lambda>(k, v). (str_lower k, JStr v))
          (filter (\<lambda>(k, v). str_lower k \<notin> SECRET_HEADERS
             \<and> str_lower k \<in> {''content-type'', ''accept''}) kvs)))"

definition signature_payload :: "http_request \<Rightarrow> json" where
  "signature_payload q =
     JObj [(''method'', JStr (str_upper (fq_method q))),
           (''host'', JStr (str_lower (case u_hostname (fq_url q) of None \<Rightarrow> '''' | Some h \<Rightarrow> h))),
           (''path'', JStr (u_path (fq_url q))),
           (''params'', canonical (JObj (strip_secret_params (fq_params q)))),
           (''json'', canonical (fq_json q)),
           (''data'', canonical (JObj (strip_secret_params (fq_data q)))),
           (''content'', case fq_content q of None \<Rightarrow> JNull | Some s \<Rightarrow> JStr s),
           (''headers'', canonical (JObj (strip_secret_headers (fq_headers q))))]"

definition signature :: "(json \<Rightarrow> string) \<Rightarrow> http_request \<Rightarrow> string" where
  "signature hash q = hash (signature_payload q)"

section \<open>The live-call budget\<close>

text \<open>The counters file: a day and the counts as JSON, or something that cannot be read.\<close>

datatype budget_file = BudgetFile int "(string \<times> json) list" | BudgetUnreadable

record budget =
  bg_caps :: "(string \<times> int) list"
  bg_day :: int
  bg_state :: "(string \<times> int) list"
  bg_warned :: "string list"
  bg_file :: "budget_file option"

fun json_count :: "json \<Rightarrow> int option" where
  "json_count (JNum x) = Some (py_int x)"
| "json_count (JBool b) = Some (if b then 1 else 0)"
| "json_count _ = None"

fun load_counts :: "(string \<times> json) list \<Rightarrow> (string \<times> int) list" where
  "load_counts [] = []"
| "load_counts ((k, v) # kvs) =
     (case json_count v of None \<Rightarrow> load_counts kvs | Some n \<Rightarrow> (k, n) # load_counts kvs)"

definition budget_load :: "int \<Rightarrow> budget_file option \<Rightarrow> (string \<times> int) list" where
  "budget_load day f =
     (case f of
        Some (BudgetFile d counts) \<Rightarrow> if d \<noteq> day then [] else load_counts counts
      | _ \<Rightarrow> [])"

definition new_budget :: "budget_file option \<Rightarrow> (string \<times> int) list \<Rightarrow> real \<Rightarrow> budget" where
  "new_budget f caps utc =
     \<lparr>bg_caps = caps, bg_day = utc_date utc, bg_state = budget_load (utc_date utc) f,
      bg_warned = [], bg_file = f\<rparr>"

definition roll_if_new_day :: "real \<Rightarrow> budget \<Rightarrow> budget" where
  "roll_if_new_day utc b =
     (if utc_date utc \<noteq> bg_day b then b\<lparr>bg_day := utc_date utc, bg_state := [], bg_warned := []\<rparr> else b)"

definition budget_save :: "budget \<Rightarrow> budget" where
  "budget_save b =
     b\<lparr>bg_file := Some (BudgetFile (bg_day b) (map (\<lambda>(k, n). (k, JNum (of_int n))) (bg_state b)))\<rparr>"

definition count_of :: "(string \<times> int) list \<Rightarrow> string \<Rightarrow> int" where
  "count_of cs k = (case map_of cs k of None \<Rightarrow> 0 | Some n \<Rightarrow> n)"

definition cap_for :: "budget \<Rightarrow> string \<Rightarrow> int" where
  "cap_for b service = count_of (bg_caps b) service"

definition spent :: "string \<Rightarrow> real \<Rightarrow> budget \<Rightarrow> budget \<times> int" where
  "spent service utc b = (let b' = roll_if_new_day utc b in (b', count_of (bg_state b') service))"

definition remaining :: "string \<Rightarrow> real \<Rightarrow> budget \<Rightarrow> budget \<times> int" where
  "remaining service utc b =
     (let (b', n) = spent service utc b in (b', max 0 (cap_for b service - n)))"

definition try_spend :: "string \<Rightarrow> int \<Rightarrow> real \<Rightarrow> budget \<Rightarrow> budget \<times> bool" where
  "try_spend service cost utc b0 =
     (let b = roll_if_new_day utc b0; used = count_of (bg_state b) service
      in if cap_for b service < used + cost
         then (if service \<in> set (bg_warned b) then b else b\<lparr>bg_warned := service # bg_warned b\<rparr>, False)
         else (budget_save (b\<lparr>bg_state := AList.update service (used + cost) (bg_state b)\<rparr>), True))"

record budget_line =
  bgl_service :: string
  bgl_cap :: int
  bgl_spent :: int
  bgl_remaining :: int

definition budget_snapshot :: "real \<Rightarrow> budget \<Rightarrow> budget \<times> int \<times> budget_line list" where
  "budget_snapshot utc b0 =
     (let b = roll_if_new_day utc b0
      in (b, bg_day b, map (\<lambda>(s, cap). \<lparr>bgl_service = s, bgl_cap = cap,
             bgl_spent = count_of (bg_state b) s, bgl_remaining = max 0 (cap - count_of (bg_state b) s)\<rparr>)
           (sort_key fst (bg_caps b))))"

definition budget_reset :: "real \<Rightarrow> budget \<Rightarrow> budget" where
  "budget_reset utc b = budget_save (b\<lparr>bg_day := utc_date utc, bg_state := [], bg_warned := []\<rparr>)"

definition budget_applies :: "fixture_mode \<Rightarrow> bool \<Rightarrow> string \<Rightarrow> bool \<times> string" where
  "budget_applies m self_hosted service =
     (if m = Live then (False, ''live_mode'')
      else if service = ''graphhopper'' \<and> self_hosted then (False, ''self_hosted_router'')
      else (True, ''enforced''))"

section \<open>Fixtures on disk\<close>

record envelope =
  en_provenance :: json
  en_method :: string
  en_url :: string
  en_params :: "(string \<times> json) list"
  en_json :: json
  en_data :: "(string \<times> json) list"
  en_content :: "string option"
  en_headers :: "(string \<times> json) list"
  en_status :: int
  en_resp_headers :: "(string \<times> string) list"
  en_body :: body

type_synonym fixtures = "string \<times> string \<rightharpoonup> envelope option"

definition envelope_provenance :: "(json \<Rightarrow> string) \<Rightarrow> envelope \<Rightarrow> string" where
  "envelope_provenance pystr en =
     (let v = en_provenance en
      in if truthy v then (case v of JStr s \<Rightarrow> s | _ \<Rightarrow> pystr v) else PROVENANCE_SYNTHETIC)"

definition redact :: "(string \<times> json) list option \<Rightarrow> string set \<Rightarrow> (string \<times> json) list" where
  "redact m banned =
     (case m of None \<Rightarrow> []
      | Some kvs \<Rightarrow> map (\<lambda>(k, v). (k, if str_lower k \<in> banned then JStr REDACTED else v)) kvs)"

definition set_header :: "string \<Rightarrow> string \<Rightarrow> (string \<times> string) list \<Rightarrow> (string \<times> string) list" where
  "set_header k v hs = AList.update k v hs"

definition read_fixture :: "(json \<Rightarrow> string) \<Rightarrow> fixtures \<Rightarrow> string \<Rightarrow> string \<Rightarrow> http_response option" where
  "read_fixture pystr fx service sig =
     (case fx (service, sig) of
        Some (Some en) \<Rightarrow>
          let hs = set_header PROVENANCE_HEADER (envelope_provenance pystr en) (en_resp_headers en);
              hs1 = (case en_body en of
                  BJson _ \<Rightarrow> if map_of hs ''content-type'' = None then set_header ''content-type'' ''application/json'' hs else hs
                | BText _ \<Rightarrow> hs);
              hs2 = filter (\<lambda>(k, v). k \<notin> {''content-length'', ''Content-Length'', ''content-encoding'',
                ''Content-Encoding''}) hs1
          in Some \<lparr>hr_status = en_status en, hr_headers = hs2, hr_body = en_body en\<rparr>
      | _ \<Rightarrow> None)"

definition json_headers :: "(string \<times> string) list option \<Rightarrow> (string \<times> json) list option" where
  "json_headers hs = map_option (map (\<lambda>(k, v). (k, JStr v))) hs"

definition fixture_envelope :: "http_request \<Rightarrow> http_response \<Rightarrow> string \<Rightarrow> envelope" where
  "fixture_envelope q r provenance =
     \<lparr>en_provenance = JStr provenance, en_method = str_upper (fq_method q),
      en_url = u_scheme (fq_url q) @ ''://'' @ u_netloc (fq_url q) @ u_path (fq_url q),
      en_params = redact (fq_params q) SECRET_QUERY_PARAMS, en_json = fq_json q,
      en_data = redact (fq_data q) SECRET_QUERY_PARAMS, en_content = fq_content q,
      en_headers = redact (json_headers (fq_headers q)) SECRET_HEADERS,
      en_status = hr_status r,
      en_resp_headers = filter (\<lambda>(k, v). str_lower k \<in> {''content-type'', ''date'', ''x-ratelimit-remaining''})
        (hr_headers r),
      en_body = hr_body r\<rparr>"

section \<open>Fetching\<close>

datatype fetch_error = FixtureMissing string string | BudgetExhausted string | ResponseTooLarge
  | SecretLeaked | TransportError string

text \<open>What the network does when it is asked: the response and the sizes of its decoded chunks.\<close>

datatype upstream = Fails string | Answers http_response "nat list"

record fetch_env =
  fe_mode :: fixture_mode
  fe_self_hosted :: bool
  fe_secrets :: "string option list"
  fe_record_provenance :: string
  fe_hash :: "json \<Rightarrow> string"
  fe_text :: "envelope \<Rightarrow> string"
  fe_pystr :: "json \<Rightarrow> string"

definition service_of :: "http_request \<Rightarrow> string" where
  "service_of q = (case fq_service q of Some s \<Rightarrow> if s = [] then service_for_url (fq_url q) else s
                   | None \<Rightarrow> service_for_url (fq_url q))"

definition passthrough :: "http_response \<Rightarrow> http_response" where
  "passthrough r = r\<lparr>hr_headers := filter (\<lambda>(k, v). str_lower k \<notin>
     {''content-encoding'', ''content-length'', ''transfer-encoding''}) (hr_headers r)\<rparr>"

definition leaks_secret :: "fetch_env \<Rightarrow> envelope \<Rightarrow> bool" where
  "leaks_secret e en \<longleftrightarrow> list_ex (\<lambda>s. case s of None \<Rightarrow> False | Some v \<Rightarrow> v \<noteq> [] \<and> contains v (fe_text e en))
     (fe_secrets e)"

record fetch_state =
  fs_fixtures :: fixtures
  fs_budget :: budget

record fetch_result =
  fr_state :: fetch_state
  fr_result :: "(fetch_error, http_response) result"
  fr_live :: bool

definition stamped :: "fetch_env \<Rightarrow> http_response \<Rightarrow> http_response" where
  "stamped e r = r\<lparr>hr_headers := set_header PROVENANCE_HEADER
     (if fe_record_provenance e = PROVENANCE_SYNTHETIC then PROVENANCE_SYNTHETIC else PROVENANCE_LIVE)
     (hr_headers r)\<rparr>"

definition after_answer :: "fetch_env \<Rightarrow> http_request \<Rightarrow> string \<Rightarrow> string \<Rightarrow> fetch_state \<Rightarrow> http_response
    \<Rightarrow> nat list \<Rightarrow> fetch_result" where
  "after_answer e q service sig s r0 chunks =
     (if MAX_RESPONSE_BYTES < sum_list chunks
      then \<lparr>fr_state = s, fr_result = Inl ResponseTooLarge, fr_live = True\<rparr>
      else
        let r = passthrough r0;
            persist = (case fq_persist q of None \<Rightarrow> fe_mode e = Record | Some p \<Rightarrow> p);
            en = fixture_envelope q r (fe_record_provenance e)
        in if 400 \<le> hr_status r \<or> \<not> persist
           then \<lparr>fr_state = s, fr_result = Inr (stamped e r), fr_live = True\<rparr>
           else if leaks_secret e en
           then \<lparr>fr_state = s\<lparr>fs_fixtures := (fs_fixtures s)((service, sig) := None)\<rparr>,
                 fr_result = Inl SecretLeaked, fr_live = True\<rparr>
           else \<lparr>fr_state = s\<lparr>fs_fixtures := (fs_fixtures s)((service, sig) \<mapsto> Some en)\<rparr>,
                 fr_result = Inr (stamped e r), fr_live = True\<rparr>)"

definition fetch :: "fetch_env \<Rightarrow> http_request \<Rightarrow> real \<Rightarrow> upstream \<Rightarrow> fetch_state \<Rightarrow> fetch_result" where
  "fetch e q utc up s =
     (let service = service_of q; sig = signature (fe_hash e) q;
          cached = (if fe_mode e \<noteq> Live then read_fixture (fe_pystr e) (fs_fixtures s) service sig else None)
      in case cached of
           Some r \<Rightarrow> \<lparr>fr_state = s, fr_result = Inr r, fr_live = False\<rparr>
         | None \<Rightarrow>
             if fe_mode e = Replay
             then \<lparr>fr_state = s, fr_result = Inl (FixtureMissing service sig), fr_live = False\<rparr>
             else
               let metered = fst (budget_applies (fe_mode e) (fe_self_hosted e) service);
                   (b, granted) = (if metered then try_spend service (fq_cost q) utc (fs_budget s)
                                   else (fs_budget s, True));
                   s1 = s\<lparr>fs_budget := b\<rparr>
               in if \<not> granted
                  then \<lparr>fr_state = s1, fr_result = Inl (BudgetExhausted service), fr_live = False\<rparr>
                  else case up of
                      Fails err \<Rightarrow> \<lparr>fr_state = s1, fr_result = Inl (TransportError err), fr_live = True\<rparr>
                    | Answers r chunks \<Rightarrow> after_answer e q service sig s1 r chunks)"

definition provenance_of :: "http_response \<Rightarrow> string" where
  "provenance_of r = (case map_of (hr_headers r) PROVENANCE_HEADER of None \<Rightarrow> PROVENANCE_LIVE | Some p \<Rightarrow> p)"

definition is_synthetic :: "http_response \<Rightarrow> bool" where
  "is_synthetic r \<longleftrightarrow> provenance_of r = PROVENANCE_SYNTHETIC"

text \<open>Counts per provenance of the readable fixtures of one service.\<close>

definition inventory_counts :: "(json \<Rightarrow> string) \<Rightarrow> envelope option list \<Rightarrow> (string \<times> nat) list" where
  "inventory_counts pystr files =
     foldl (\<lambda>cs f. case f of None \<Rightarrow> cs
         | Some en \<Rightarrow> let p = envelope_provenance pystr en
                      in AList.update p (Suc (case map_of cs p of None \<Rightarrow> 0 | Some n \<Rightarrow> n)) cs)
       [(''recorded'', 0), (''synthetic'', 0)] files"

section \<open>Order and secrets\<close>

lemma canonical_pairs_map: "canonical_pairs kvs = map (\<lambda>(k, v). (k, canonical v)) kvs"
  by (induction kvs) auto

text \<open>Two key-distinct lists with the same pairs sort to the same list.\<close>

lemma sort_pairs_unique:
  assumes "distinct (map fst xs)" and "mset xs = mset ys"
  shows "sort_key fst xs = sort_key (fst :: 'a::linorder \<times> 'b \<Rightarrow> 'a) ys"
proof (rule properties_for_sort_key)
  show "mset (sort_key fst ys) = mset xs" using assms(2) by simp
  show "sorted (map fst (sort_key fst ys))" by simp
  fix k assume ky: "k \<in> set (sort_key fst ys)"
  then have kx: "k \<in> set xs" using assms(2) by (metis set_mset_mset set_sort)
  have d: "distinct (map fst ys)" using assms by (metis mset_eq_imp_distinct_iff mset_map)
  have one: "filter (\<lambda>x. fst k = fst x) zs = [z]"
    if "distinct (map fst zs)" "z \<in> set zs" "fst z = fst k" for zs :: "('a \<times> 'b) list" and z
    using that
  proof (induction zs)
    case (Cons w zs)
    show ?case
    proof (cases "fst w = fst k")
      case True
      then have "z = w" using Cons.prems by (force simp: image_iff)
      moreover have "filter (\<lambda>x. fst k = fst x) zs = []"
        using Cons.prems(1) True by (force simp: filter_empty_conv)
      ultimately show ?thesis using True by simp
    next
      case False
      then have "z \<noteq> w" using Cons.prems(3) by auto
      then show ?thesis using Cons False by auto
    qed
  qed simp
  have s: "distinct (map fst (sort_key fst ys))"
    using d by (metis mset_eq_imp_distinct_iff mset_map mset_sort)
  show "filter (\<lambda>x. fst k = fst x) (sort_key fst ys) = filter (\<lambda>x. fst k = fst x) xs"
    using one [OF s ky] one [OF assms(1) kx] by simp
qed

lemma canonical_obj_unique:
  assumes "distinct (map fst xs)" and "mset xs = mset ys"
  shows "canonical (JObj xs) = canonical (JObj ys)"
proof -
  have "map fst (canonical_pairs xs) = map fst xs"
    unfolding canonical_pairs_map by (induction xs) auto
  then have "distinct (map fst (canonical_pairs xs))" using assms(1) by simp
  moreover have "mset (canonical_pairs xs) = mset (canonical_pairs ys)"
    using assms(2) by (simp add: canonical_pairs_map mset_map [symmetric] del: mset_map) (metis mset_map)
  ultimately show ?thesis by (simp add: sort_pairs_unique)
qed

text \<open>The public part of a request's parameters.\<close>

definition public :: "(string \<times> json) list option \<Rightarrow> (string \<times> json) list" where
  "public ps = strip_secret_params ps"

lemma map_of_dropped: "map_of (filter (\<lambda>(k, v). k \<notin> X) hs) k = (if k \<in> X then None else map_of hs k)"
  by (induction hs) auto

lemma read_written:
  assumes "fx (service, sig) = Some (Some en)"
  shows "\<exists>r. read_fixture pystr fx service sig = Some r \<and> hr_status r = en_status en \<and> hr_body r = en_body en
     \<and> provenance_of r = envelope_provenance pystr en"
proof -
  let ?dropped = "{''content-length'', ''Content-Length'', ''content-encoding'', ''Content-Encoding''}"
  define hs where "hs = set_header PROVENANCE_HEADER (envelope_provenance pystr en) (en_resp_headers en)"
  define hs1 where "hs1 = (case en_body en of
      BJson j \<Rightarrow> if map_of hs ''content-type'' = None then set_header ''content-type'' ''application/json'' hs else hs
    | BText t \<Rightarrow> hs)"
  have "map_of hs PROVENANCE_HEADER = Some (envelope_provenance pystr en)"
    by (simp add: hs_def set_header_def update_conv)
  then have h1: "map_of hs1 PROVENANCE_HEADER = Some (envelope_provenance pystr en)"
    by (auto simp: hs1_def set_header_def update_conv PROVENANCE_HEADER_def split: body.splits)
  have "PROVENANCE_HEADER \<notin> ?dropped" by (simp add: PROVENANCE_HEADER_def)
  then have h2: "map_of (filter (\<lambda>(k, v). k \<notin> ?dropped) hs1) PROVENANCE_HEADER
      = Some (envelope_provenance pystr en)"
    unfolding map_of_dropped using h1 by simp
  have "read_fixture pystr fx service sig
      = Some \<lparr>hr_status = en_status en, hr_headers = filter (\<lambda>(k, v). k \<notin> ?dropped) hs1, hr_body = en_body en\<rparr>"
    unfolding read_fixture_def assms option.case Let_def hs_def [symmetric] hs1_def [symmetric] by (rule refl)
  then show ?thesis using h2 by (simp add: provenance_of_def)
qed

section \<open>The budget over a day\<close>

text \<open>
  The backends that share one checkout: each holds its counters in memory and reads the file only
  when it starts; every grant replaces the whole file by the counters of the backend that granted it.
  Within a backend a lock makes each spend one step. A backend that restarts loads the file as it is.
\<close>

datatype budget_op = Spend nat string int real | Restart nat real

fun op_instant :: "budget_op \<Rightarrow> real" where
  "op_instant (Spend i s c utc) = utc" | "op_instant (Restart i utc) = utc"

fun op_cost :: "budget_op \<Rightarrow> int" where
  "op_cost (Spend i s c utc) = c" | "op_cost (Restart i utc) = 0"

fun is_restart :: "budget_op \<Rightarrow> bool" where
  "is_restart (Restart i utc) = True" | "is_restart (Spend i s c utc) = False"

fun backends_run :: "budget_op list \<Rightarrow> budget_file option \<Rightarrow> budget list \<Rightarrow> (nat \<times> string \<times> int) list" where
  "backends_run [] f bs = []"
| "backends_run (Spend i s c utc # ops) f bs =
     (if length bs \<le> i then backends_run ops f bs
      else let (b, ok) = try_spend s c utc ((bs ! i)\<lparr>bg_file := f\<rparr>)
           in (if ok then [(i, s, c)] else []) @ backends_run ops (bg_file b) (bs[i := b]))"
| "backends_run (Restart i utc # ops) f bs =
     (if length bs \<le> i then backends_run ops f bs
      else backends_run ops f (bs[i := new_budget f (bg_caps (bs ! i)) utc]))"

definition granted :: "string \<Rightarrow> (nat \<times> string \<times> int) list \<Rightarrow> int" where
  "granted s gs = sum_list (map (\<lambda>(i, k, c). c) (filter (\<lambda>(i, k, c). k = s) gs))"

definition granted_by :: "nat \<Rightarrow> string \<Rightarrow> (nat \<times> string \<times> int) list \<Rightarrow> int" where
  "granted_by j s gs = sum_list (map (\<lambda>(i, k, c). c) (filter (\<lambda>(i, k, c). i = j \<and> k = s) gs))"

definition synced :: "int \<Rightarrow> budget \<Rightarrow> bool" where
  "synced day b \<longleftrightarrow> bg_day b = day
     \<and> (\<forall>s. count_of (budget_load day (bg_file b)) s = count_of (bg_state b) s)"

lemma load_saved: "load_counts (map (\<lambda>(k, n). (k, JNum (of_int n))) cs) = cs"
  by (induction cs) (auto simp: py_int_def)

lemma count_of_update: "count_of (AList.update k n cs) s = (if s = k then n else count_of cs s)"
  by (simp add: count_of_def update_conv)

lemma synced_new: "synced (utc_date utc) (new_budget f caps utc)"
  by (simp add: synced_def new_budget_def)

lemma spend_same_day:
  assumes "bg_day b = utc_date utc" and "try_spend s c utc b = (b', ok)"
  shows "synced (utc_date utc) b \<Longrightarrow> synced (utc_date utc) b'" and "bg_day b' = bg_day b" and "bg_caps b' = bg_caps b"
    and "ok \<Longrightarrow> count_of (bg_state b) s + c \<le> cap_for b s"
    and "count_of (bg_state b') k = count_of (bg_state b) k + (if ok \<and> k = s then c else 0)"
proof -
  have r: "roll_if_new_day utc b = b" using assms(1) by (simp add: roll_if_new_day_def)
  show "synced (utc_date utc) b'" if "synced (utc_date utc) b" using assms r that
    by (auto simp: try_spend_def Let_def synced_def budget_save_def budget_load_def load_saved count_of_update
        split: if_splits)
  show "bg_day b' = bg_day b" "bg_caps b' = bg_caps b" using assms(2) r
    by (auto simp: try_spend_def Let_def budget_save_def split: if_splits)
  show "ok \<Longrightarrow> count_of (bg_state b) s + c \<le> cap_for b s" using assms(2) r
    by (auto simp: try_spend_def Let_def split: if_splits)
  show "count_of (bg_state b') k = count_of (bg_state b) k + (if ok \<and> k = s then c else 0)"
    using assms(2) r by (auto simp: try_spend_def Let_def budget_save_def count_of_update split: if_splits)
qed

lemma one_backend_bound:
  assumes "synced day (b\<lparr>bg_file := f\<rparr>)" and "\<forall>op \<in> set ops. utc_date (op_instant op) = day \<and> 0 \<le> op_cost op"
  shows "count_of (bg_state b) s + granted s (backends_run ops f [b]) \<le> max (count_of (bg_state b) s) (cap_for b s)"
  using assms
proof (induction ops arbitrary: f b)
  case Nil
  then show ?case by (simp add: granted_def)
next
  case (Cons op ops)
  have rest: "\<forall>op \<in> set ops. utc_date (op_instant op) = day \<and> 0 \<le> op_cost op" using Cons.prems(2) by simp
  show ?case
  proof (cases op)
    case (Spend i k c utc)
    show ?thesis
    proof (cases i)
      case 0
      obtain b' ok where t: "try_spend k c utc (b\<lparr>bg_file := f\<rparr>) = (b', ok)" by fastforce
      have day: "utc_date utc = day" using Cons.prems(2) Spend by simp
      have d: "bg_day (b\<lparr>bg_file := f\<rparr>) = utc_date utc" using Cons.prems(1) day by (simp add: synced_def)
      note sp = spend_same_day [OF d t]
      have "synced day (b'\<lparr>bg_file := bg_file b'\<rparr>)" using sp(1) Cons.prems(1) day by simp
      then have IH: "count_of (bg_state b') s + granted s (backends_run ops (bg_file b') [b'])
          \<le> max (count_of (bg_state b') s) (cap_for b' s)" using Cons.IH rest by blast
      have g: "granted s (backends_run (op # ops) f [b])
          = (if ok \<and> k = s then c else 0) + granted s (backends_run ops (bg_file b') [b'])"
        using t by (auto simp: granted_def Spend 0)
      have "cap_for b' s = cap_for b s" using sp(3) by (simp add: cap_for_def)
      moreover have "ok \<Longrightarrow> k = s \<Longrightarrow> count_of (bg_state b) s + c \<le> cap_for b s" using sp(4) by (auto simp: cap_for_def)
      ultimately show ?thesis unfolding g using IH sp(5) [of s] by (auto split: if_splits)
    next
      case (Suc j)
      then show ?thesis using Cons.IH [OF Cons.prems(1) rest] Spend by simp
    qed
  next
    case (Restart i utc)
    show ?thesis
    proof (cases i)
      case 0
      let ?b = "new_budget f (bg_caps b) utc"
      have day: "utc_date utc = day" using Cons.prems(2) Restart by simp
      then have "count_of (bg_state ?b) s = count_of (bg_state b) s" "cap_for ?b s = cap_for b s"
        using Cons.prems(1) by (simp_all add: new_budget_def synced_def cap_for_def)
      moreover have "synced day (?b\<lparr>bg_file := f\<rparr>)" using day by (simp add: synced_def new_budget_def)
      ultimately show ?thesis using Cons.IH [OF _ rest, of f ?b] Restart 0 by simp
    next
      case (Suc j)
      then show ?thesis using Cons.IH [OF Cons.prems(1) rest] Restart by simp
    qed
  qed
qed

lemma each_backend_bound:
  assumes "j < length bs" and "bg_day (bs ! j) = day"
    and "\<forall>op \<in> set ops. utc_date (op_instant op) = day \<and> 0 \<le> op_cost op \<and> \<not> is_restart op"
  shows "count_of (bg_state (bs ! j)) s + granted_by j s (backends_run ops f bs)
    \<le> max (count_of (bg_state (bs ! j)) s) (cap_for (bs ! j) s)"
  using assms
proof (induction ops arbitrary: f bs)
  case Nil
  then show ?case by (simp add: granted_by_def)
next
  case (Cons op ops)
  have rest: "\<forall>op \<in> set ops. utc_date (op_instant op) = day \<and> 0 \<le> op_cost op \<and> \<not> is_restart op" using Cons.prems(3) by simp
  obtain i k c utc where op: "op = Spend i k c utc" using Cons.prems(3) by (cases op) auto
  show ?case
  proof (cases "i < length bs")
    case False
    then show ?thesis using Cons.IH [OF Cons.prems(1,2) rest] op by simp
  next
    case True
    obtain b' ok where t: "try_spend k c utc ((bs ! i)\<lparr>bg_file := f\<rparr>) = (b', ok)" by fastforce
    have g: "granted_by j s (backends_run (op # ops) f bs)
        = (if ok \<and> i = j \<and> k = s then c else 0) + granted_by j s (backends_run ops (bg_file b') (bs[i := b']))"
      using t True by (auto simp: granted_by_def op)
    show ?thesis
    proof (cases "i = j")
      case False
      then show ?thesis unfolding g using Cons.IH [of "bs[i := b']" "bg_file b'"] Cons.prems(1,2) rest by simp
    next
      case eq: True
      have day: "utc_date utc = day" using Cons.prems(3) op by simp
      have d: "bg_day ((bs ! i)\<lparr>bg_file := f\<rparr>) = utc_date utc" using Cons.prems(2) day eq by simp
      note sp = spend_same_day [OF d t]
      have IH: "count_of (bg_state b') s + granted_by j s (backends_run ops (bg_file b') (bs[i := b']))
          \<le> max (count_of (bg_state b') s) (cap_for b' s)"
        using Cons.IH [of "bs[i := b']" "bg_file b'"] Cons.prems(1,2) rest sp(2) eq by simp
      have "cap_for b' s = cap_for (bs ! j) s" using sp(3) eq by (simp add: cap_for_def)
      moreover have "ok \<Longrightarrow> k = s \<Longrightarrow> count_of (bg_state (bs ! j)) s + c \<le> cap_for (bs ! j) s"
        using sp(4) eq by (auto simp: cap_for_def)
      ultimately show ?thesis unfolding g using IH sp(5) [of s] eq by (auto split: if_splits)
    qed
  qed
qed

lemma granted_parts:
  assumes "\<forall>(i, k, c) \<in> set gs. i < n"
  shows "granted s gs = (\<Sum>j<n. granted_by j s gs)"
  using assms
proof (induction gs)
  case Nil
  then show ?case by (simp add: granted_def granted_by_def)
next
  case (Cons g gs)
  obtain i k c where g: "g = (i, k, c)" using prod_cases3 by blast
  have one: "granted_by j s (g # gs) = (if j = i then if k = s then c else 0 else 0) + granted_by j s gs" for j
    by (auto simp: granted_by_def g)
  have "(\<Sum>j<n. if j = i then if k = s then c else 0 else 0) = (if k = s then c else 0)" using Cons.prems g by simp
  moreover have "granted s (g # gs) = (if k = s then c else 0) + granted s gs" by (simp add: granted_def g)
  moreover have "granted s gs = (\<Sum>j<n. granted_by j s gs)" using Cons by auto
  ultimately show ?case unfolding one sum.distrib by simp
qed

lemma grants_of_backends:
  "(i, k, c) \<in> set (backends_run ops f bs) \<Longrightarrow> i < length bs"
proof (induction ops arbitrary: f bs)
  case (Cons op ops)
  then show ?case by (cases op) (fastforce simp: Let_def split: if_splits prod.splits)+
qed simp

section \<open>Properties\<close>

text \<open>
  The signature is a function of what changes the response and of nothing else: requests that
  differ in the order their parameters were written, in the values or the presence of keys and
  tokens, in headers other than content type and accept, or in what they cost, have the same
  signature, so a fixture recorded by one contributor answers another.
\<close>

theorem signature_ignores_order_and_secrets:
  assumes "fq_method q = fq_method q'" "fq_url q = fq_url q'" "fq_json q = fq_json q'"
    "fq_content q = fq_content q'"
    and "mset (strip_secret_params (fq_params q)) = mset (strip_secret_params (fq_params q'))"
    and "distinct (map fst (strip_secret_params (fq_params q)))"
    and "mset (strip_secret_params (fq_data q)) = mset (strip_secret_params (fq_data q'))"
    and "distinct (map fst (strip_secret_params (fq_data q)))"
    and "strip_secret_headers (fq_headers q) = strip_secret_headers (fq_headers q')"
  shows "signature hash q = signature hash q'"
  using canonical_obj_unique [OF assms(6,5)] canonical_obj_unique [OF assms(8,7)] assms
  by (simp add: signature_def signature_payload_def)

definition sample_request :: "(string \<times> json) list \<Rightarrow> http_request" where
  "sample_request ps = \<lparr>fq_method = ''GET'', fq_url = \<lparr>u_scheme = ''https'', u_netloc = ''graphhopper.com'',
       u_hostname = Some ''graphhopper.com'', u_path = ''/api/1/route''\<rparr>,
     fq_params = Some ps, fq_json = JNull, fq_data = None, fq_content = None, fq_headers = None,
     fq_cost = 3, fq_service = None, fq_persist = None\<rparr>"

lemma signature_ignores_order_and_secrets_witness:
  "\<forall>hash. signature hash (sample_request [(''a'', JNum 1), (''key'', JStr ''mine''), (''b'', JNum 2)])
     = signature hash (sample_request [(''b'', JNum 2), (''a'', JNum 1), (''KEY'', JStr ''yours'')])"
  by (intro allI signature_ignores_order_and_secrets)
    (simp_all add: sample_request_def strip_secret_params_def SECRET_QUERY_PARAMS_def py_defs)



text \<open>
  The docstring of the budget says that two backends sharing a checkout could overshoot slightly. Each
  reads the file only when it starts, so each has the whole cap to itself: together they grant twice
  the cap, and a restart in between gives the restarted one what the other's last save left.
\<close>

lemma two_backends_spend_two_budgets:
  "granted ''graphhopper'' (backends_run [Spend 0 ''graphhopper'' 80 0, Spend 1 ''graphhopper'' 80 0]
     None (replicate 2 (new_budget None [(''graphhopper'', 80)] 0))) = 160"
  "granted ''graphhopper'' (backends_run [Spend 0 ''graphhopper'' 80 0, Spend 1 ''graphhopper'' 1 0, Restart 0 0,
       Spend 0 ''graphhopper'' 79 0, Spend 1 ''graphhopper'' 1 0, Restart 0 0, Spend 0 ''graphhopper'' 78 0]
     None (replicate 2 (new_budget None [(''graphhopper'', 80)] 0))) = 239"
  by (simp_all add: granted_def new_budget_def try_spend_def roll_if_new_day_def budget_load_def cap_for_def count_of_def
    budget_save_def Let_def py_int_def numeral_2_eq_2)

text \<open>
  The three modes keep their promises: replay never reaches the network and changes nothing;
  live never consults or touches the budget and, unless told to persist, writes nothing; in every
  mode a call that reached the network was either free of the budget or was granted by it.
\<close>

theorem modes_keep_their_promises:
  "(fe_mode e = Replay \<longrightarrow> \<not> fr_live (fetch e q utc up s) \<and> fr_state (fetch e q utc up s) = s)
 \<and> (fe_mode e = Live \<longrightarrow> fs_budget (fr_state (fetch e q utc up s)) = fs_budget s
      \<and> fr_live (fetch e q utc up s)
      \<and> (fq_persist q \<noteq> Some True \<longrightarrow> fr_state (fetch e q utc up s) = s))
 \<and> (fr_live (fetch e q utc up s) \<longrightarrow>
      \<not> fst (budget_applies (fe_mode e) (fe_self_hosted e) (service_of q))
      \<or> snd (try_spend (service_of q) (fq_cost q) utc (fs_budget s)))"
proof (intro conjI impI)
  assume "fe_mode e = Replay"
  then show "\<not> fr_live (fetch e q utc up s)" "fr_state (fetch e q utc up s) = s"
    by (auto simp: fetch_def Let_def split: option.splits)
next
  assume "fe_mode e = Live"
  then show "fs_budget (fr_state (fetch e q utc up s)) = fs_budget s" "fr_live (fetch e q utc up s)"
    by (auto simp: fetch_def after_answer_def budget_applies_def Let_def split: upstream.splits)
next
  assume "fe_mode e = Live" "fq_persist q \<noteq> Some True"
  then show "fr_state (fetch e q utc up s) = s"
    by (auto simp: fetch_def after_answer_def budget_applies_def Let_def split: upstream.splits option.splits)
next
  assume "fr_live (fetch e q utc up s)"
  then show "\<not> fst (budget_applies (fe_mode e) (fe_self_hosted e) (service_of q))
      \<or> snd (try_spend (service_of q) (fq_cost q) utc (fs_budget s))"
    by (auto simp: fetch_def Let_def split: option.splits if_splits prod.splits)
qed

definition recorder :: "fixture_mode \<Rightarrow> fetch_env" where
  "recorder m = \<lparr>fe_mode = m, fe_self_hosted = False, fe_secrets = [Some ''sekrit''],
     fe_record_provenance = ''recorded'', fe_hash = (\<lambda>j. ''sig''), fe_text = (\<lambda>en. ''text''),
     fe_pystr = (\<lambda>j. '''')\<rparr>"

definition blank_state :: fetch_state where
  "blank_state = \<lparr>fs_fixtures = Map.empty, fs_budget = new_budget None DEV_LIVE_CALL_BUDGET 0\<rparr>"

lemma modes_keep_their_promises_witness:
  "\<not> fr_live (fetch (recorder Replay) (sample_request []) 0 (Fails ''down'') blank_state)"
  using modes_keep_their_promises [of "recorder Replay" "sample_request []" 0 "Fails ''down''" blank_state]
  by (simp add: recorder_def)

text \<open>
  A recorded answer is asked for once: when a fetch in record mode reaches the network and
  returns a good answer that it may persist, fetching the same request again, in record or replay
  mode, is answered from disk with the same status and body, without the network, and says it was
  recorded; and a failing answer is never recorded.
\<close>

theorem recorded_once_replayed_after:
  assumes "fe_mode e = Record" and "fq_persist q = None" and "fe_record_provenance e = PROVENANCE_RECORDED"
    and "fetch e q utc up s = \<lparr>fr_state = s', fr_result = Inr r, fr_live = True\<rparr>"
    and "e' = e\<lparr>fe_mode := m\<rparr>" and "m \<noteq> Live"
  shows "(hr_status r < 400 \<longrightarrow>
            (\<exists>r'. fetch e' q utc' up' s' = \<lparr>fr_state = s', fr_result = Inr r', fr_live = False\<rparr>
               \<and> hr_status r' = hr_status r \<and> hr_body r' = hr_body r \<and> provenance_of r' = PROVENANCE_RECORDED))
       \<and> (400 \<le> hr_status r \<longrightarrow> fs_fixtures s' = fs_fixtures s)"
proof -
  let ?k = "(service_of q, signature (fe_hash e) q)"
  obtain b granted where b: "(if fst (budget_applies (fe_mode e) (fe_self_hosted e) (service_of q))
      then try_spend (service_of q) (fq_cost q) utc (fs_budget s) else (fs_budget s, True)) = (b, granted)"
    by fastforce
  have after: "\<exists>r0 chunks. after_answer e q (service_of q) (signature (fe_hash e) q) (s\<lparr>fs_budget := b\<rparr>) r0 chunks
      = \<lparr>fr_state = s', fr_result = Inr r, fr_live = True\<rparr>"
    using assms(4) assms(1) b by (auto simp: fetch_def Let_def split: option.splits if_splits upstream.splits)
  then obtain r0 chunks where a: "after_answer e q (service_of q) (signature (fe_hash e) q) (s\<lparr>fs_budget := b\<rparr>) r0 chunks
      = \<lparr>fr_state = s', fr_result = Inr r, fr_live = True\<rparr>" by blast
  define r1 where "r1 = passthrough r0"
  define en where "en = fixture_envelope q r1 (fe_record_provenance e)"
  have r: "r = stamped e r1"
    using a by (auto simp: after_answer_def Let_def r1_def split: if_splits)
  show ?thesis
  proof (cases "400 \<le> hr_status r1")
    case True
    then have "s' = s\<lparr>fs_budget := b\<rparr>"
      using a by (auto simp: after_answer_def Let_def r1_def split: if_splits)
    then show ?thesis using True by (simp add: r stamped_def)
  next
    case False
    then have s': "s' = s\<lparr>fs_budget := b, fs_fixtures := (fs_fixtures s)(?k \<mapsto> Some en)\<rparr>"
      using a assms(1,2) by (auto simp: after_answer_def Let_def r1_def [symmetric] en_def split: if_splits)
    have p: "envelope_provenance (fe_pystr e) en = PROVENANCE_RECORDED"
      by (simp add: en_def envelope_provenance_def fixture_envelope_def assms(3) provenance_names)
    have k: "fs_fixtures s' ?k = Some (Some en)" by (simp add: s')
    obtain r' where r': "read_fixture (fe_pystr e) (fs_fixtures s') (service_of q) (signature (fe_hash e) q) = Some r'"
      and same: "hr_status r' = hr_status r1" "hr_body r' = hr_body r1"
      and prov: "provenance_of r' = PROVENANCE_RECORDED"
      using read_written [of "fs_fixtures s'" "service_of q" "signature (fe_hash e) q" en "fe_pystr e"] k p
      by (auto simp: en_def fixture_envelope_def)
    have "fetch e' q utc' up' s' = \<lparr>fr_state = s', fr_result = Inr r', fr_live = False\<rparr>"
      using r' assms(5,6) by (simp add: fetch_def)
    then show ?thesis using False same prov by (simp add: r stamped_def)
  qed
qed

definition good_answer :: http_response where
  "good_answer = \<lparr>hr_status = 200, hr_headers = [(''content-type'', ''application/json'')], hr_body = BJson (JNum 1)\<rparr>"

lemma recorded_once_replayed_after_witness:
  "\<not> fr_live (fetch (recorder Replay) (sample_request []) 0 (Fails ''down'')
      (fr_state (fetch (recorder Record) (sample_request []) 0 (Answers good_answer [10]) blank_state)))"
proof -
  obtain s' r where f: "fetch (recorder Record) (sample_request []) 0 (Answers good_answer [10]) blank_state
      = \<lparr>fr_state = s', fr_result = Inr r, fr_live = True\<rparr>" and st: "hr_status r = 200"
    by (simp add: fetch_def recorder_def sample_request_def blank_state_def read_fixture_def Let_def budget_applies_def
        service_of_def service_for_url_def SERVICE_HOSTS_def try_spend_def roll_if_new_day_def new_budget_def
        budget_load_def cap_for_def count_of_def DEV_LIVE_CALL_BUDGET_def after_answer_def passthrough_def
        good_answer_def MAX_RESPONSE_BYTES_def leaks_secret_def stamped_def py_defs)
  have m: "recorder Replay = (recorder Record)\<lparr>fe_mode := Replay\<rparr>" by (simp add: recorder_def)
  show ?thesis
    using recorded_once_replayed_after [OF _ _ _ f m, of 0 "Fails ''down''"] f st
    by (auto simp: recorder_def sample_request_def PROVENANCE_RECORDED_def)
qed

end
