(* ===== verification/Presets.thy ===== *)
theory Presets
  imports Json Config Models Accessibility
begin

text \<open>
  backend/routing.py, first half: the constants, the custom models of the presets and the exact body
  sent to GraphHopper. A rule of a custom model is the values it names and its multiplier, as
  written; \<open>model_json\<close> renders it as the body carries it.
\<close>

section \<open>Constants\<close>

definition GRAPHHOPPER_CREDIT_COST :: int where "GRAPHHOPPER_CREDIT_COST = 3"
definition SCENIC_DURATION_CAP :: real where "SCENIC_DURATION_CAP = 1.6"

definition LOOP_SPEED_M_PER_MIN :: "mode \<Rightarrow> real" where
  "LOOP_SPEED_M_PER_MIN m = (case m of Bike \<Rightarrow> 220 | Car \<Rightarrow> 550 | _ \<Rightarrow> 75)"

definition PROFILE_FOR_MODE :: "mode \<Rightarrow> string" where
  "PROFILE_FOR_MODE m = (case m of Bike \<Rightarrow> ''bike'' | Car \<Rightarrow> ''car'' | _ \<Rightarrow> ''foot'')"

definition GH_SURFACE_VALUES :: "string list" where
  "GH_SURFACE_VALUES = [''PAVED'', ''ASPHALT'', ''CONCRETE'', ''PAVING_STONES'', ''COMPACTED'',
     ''GRAVEL'', ''FINE_GRAVEL'', ''GROUND'', ''DIRT'', ''GRASS'', ''SAND'', ''WOOD'', ''COBBLESTONE'',
     ''UNPAVED'', ''MISSING'', ''OTHER'']"

definition GH_ROAD_CLASS_VALUES :: "string list" where
  "GH_ROAD_CLASS_VALUES = [''STEPS'', ''PATH'', ''FOOTWAY'', ''TRACK'', ''BRIDLEWAY'', ''CYCLEWAY'',
     ''PEDESTRIAN'', ''LIVING_STREET'', ''MOTORWAY'', ''TRUNK'', ''PRIMARY'', ''SECONDARY'', ''TERTIARY'',
     ''RESIDENTIAL'', ''SERVICE'', ''UNCLASSIFIED'', ''ROAD'', ''OTHER'']"

definition GH_ROAD_ENVIRONMENT_VALUES :: "string list" where
  "GH_ROAD_ENVIRONMENT_VALUES = [''ROAD'', ''FERRY'', ''BRIDGE'', ''TUNNEL'', ''FORD'', ''OTHER'']"

definition GH_SMOOTHNESS_VALUES :: "string list" where
  "GH_SMOOTHNESS_VALUES = [''EXCELLENT'', ''GOOD'', ''INTERMEDIATE'', ''BAD'', ''VERY_BAD'', ''HORRIBLE'',
     ''VERY_HORRIBLE'', ''IMPASSABLE'', ''MISSING'', ''OTHER'']"

section \<open>Coordinates\<close>

definition to_post_point :: "latlon \<Rightarrow> json" where
  "to_post_point p = JList [JNum (lon p), JNum (lat p)]"

text \<open>\<open>f"{p.lat},{p.lon}"\<close>, given how a float prints.\<close>

definition to_get_point :: "(real \<Rightarrow> string) \<Rightarrow> latlon \<Rightarrow> string" where
  "to_get_point float_text p = float_text (lat p) @ '','' @ float_text (lon p)"

text \<open>\<open>LatLon(float(pair[1]), float(pair[0]))\<close>; what is not indexable, too short or not a number raises.\<close>

definition from_post_point :: "json \<Rightarrow> (py_error, latlon) result" where
  "from_post_point pair =
     (if \<not> is_list pair \<or> length (jlist pair) < 2 then Inl PyTypeError
      else case json_float (jlist pair ! 1) of
          Inl e \<Rightarrow> Inl e
        | Inr la \<Rightarrow> (case json_float (jlist pair ! 0) of Inl e \<Rightarrow> Inl e | Inr lo \<Rightarrow> Inr (LatLon la lo)))"

section \<open>Custom models\<close>

datatype rule = Rule (rl_any: "(string \<times> string) list") (rl_multiply: string)

record custom_model =
  cm_priority :: "rule list"
  cm_distance_influence :: int

definition any_of :: "string \<Rightarrow> string list \<Rightarrow> string \<Rightarrow> rule" where
  "any_of key vs weight = Rule (map (\<lambda>v. (key, v)) vs) weight"

abbreviation "classes \<equiv> any_of ''road_class''"
abbreviation "surfaces \<equiv> any_of ''surface''"
abbreviation "environments \<equiv> any_of ''road_environment''"
abbreviation "smoothnesses \<equiv> any_of ''smoothness''"

definition rule_json :: "rule \<Rightarrow> json" where
  "rule_json r =
     JObj [(''if'', JStr (join '' || '' (map (\<lambda>(k, v). k @ '' == '' @ v) (rl_any r)))),
           (''multiply_by'', JStr (rl_multiply r))]"

definition model_json :: "custom_model \<Rightarrow> json" where
  "model_json m =
     JObj [(''priority'', JList (map rule_json (cm_priority m))),
           (''distance_influence'', JNum (of_int (cm_distance_influence m)))]"

definition scenic_custom_model :: "int \<Rightarrow> custom_model" where
  "scenic_custom_model distance_influence =
     \<lparr>cm_priority =
        [environments [''FERRY''] ''0'',
         classes [''MOTORWAY'', ''TRUNK'', ''PRIMARY''] ''0.05'',
         classes [''SECONDARY''] ''0.25'',
         classes [''TERTIARY''] ''0.5'',
         classes [''PATH'', ''FOOTWAY'', ''TRACK'', ''BRIDLEWAY'', ''CYCLEWAY''] ''1.0'',
         classes [''PEDESTRIAN'', ''LIVING_STREET''] ''0.9'',
         environments [''TUNNEL''] ''0.2'',
         surfaces [''GROUND'', ''DIRT'', ''GRASS'', ''COMPACTED'', ''FINE_GRAVEL''] ''1.0''],
      cm_distance_influence = distance_influence\<rparr>"

definition SCENIC_DISTANCE_INFLUENCE_LADDER :: "int list" where
  "SCENIC_DISTANCE_INFLUENCE_LADDER = [20, 45, 90]"

definition SCENIC_LOOP_CANDIDATES :: "(int \<times> real) list" where
  "SCENIC_LOOP_CANDIDATES = [(20, 1), (20, 0.8), (20, 0.6), (20, 0.45), (45, 0.7), (90, 0.35)]"

definition SCENIC_GREENNESS_WEIGHT :: real where "SCENIC_GREENNESS_WEIGHT = 0.6"
definition SCENIC_BUDGET_FIT_WEIGHT :: real where "SCENIC_BUDGET_FIT_WEIGHT = 0.4"
definition SCENIC_BUDGET_UNDERSHOOT :: real where "SCENIC_BUDGET_UNDERSHOOT = 0.7"

definition UNCOMPARED_NOTE :: string where
  "UNCOMPARED_NOTE = ''This route could not be compared against the fastest one, so we cannot ''
     @ ''promise it is more scenic than the direct way or inside your time budget.''"

definition budget_fit :: "real \<Rightarrow> int \<Rightarrow> real" where
  "budget_fit duration_min requested =
     (if requested \<le> 0 then 0 else max 0 (1 - \<bar>duration_min - of_int requested\<bar> / of_int requested))"

definition accessible_custom_model :: "bool \<Rightarrow> custom_model" where
  "accessible_custom_model with_smoothness =
     \<lparr>cm_priority =
        [classes [''STEPS''] ''0'',
         environments [''FERRY''] ''0'',
         surfaces [''GRAVEL'', ''GROUND'', ''DIRT'', ''SAND'', ''GRASS'', ''COBBLESTONE'', ''UNPAVED'', ''WOOD''] ''0'',
         surfaces [''PAVED'', ''ASPHALT'', ''CONCRETE'', ''PAVING_STONES'', ''COMPACTED''] ''1.0'']
        @ (if with_smoothness
           then [smoothnesses [''BAD'', ''VERY_BAD'', ''HORRIBLE'', ''VERY_HORRIBLE'', ''IMPASSABLE''] ''0'']
           else []),
      cm_distance_influence = 60\<rparr>"

definition quiet_custom_model :: custom_model where
  "quiet_custom_model =
     \<lparr>cm_priority =
        [environments [''FERRY''] ''0'',
         classes [''MOTORWAY'', ''TRUNK''] ''0.02'',
         classes [''PRIMARY''] ''0.1'',
         classes [''SECONDARY''] ''0.25'',
         classes [''TERTIARY''] ''0.45'',
         classes [''RESIDENTIAL'', ''UNCLASSIFIED'', ''SERVICE'', ''ROAD''] ''0.7'',
         environments [''TUNNEL''] ''0.15'',
         surfaces [''COBBLESTONE''] ''0.4''],
      cm_distance_influence = 45\<rparr>"

definition air_custom_model :: custom_model where
  "air_custom_model =
     \<lparr>cm_priority =
        [environments [''FERRY''] ''0'',
         classes [''MOTORWAY'', ''TRUNK''] ''0.02'',
         classes [''PRIMARY''] ''0.08'',
         classes [''SECONDARY''] ''0.22'',
         classes [''TERTIARY''] ''0.45'',
         classes [''RESIDENTIAL'', ''UNCLASSIFIED'', ''SERVICE'', ''ROAD''] ''0.75'',
         environments [''TUNNEL''] ''0.03''],
      cm_distance_influence = 55\<rparr>"

definition shade_custom_model :: custom_model where
  "shade_custom_model =
     \<lparr>cm_priority =
        [environments [''FERRY''] ''0'',
         environments [''BRIDGE''] ''0.15'',
         classes [''MOTORWAY'', ''TRUNK''] ''0.05'',
         classes [''PRIMARY''] ''0.15'',
         classes [''SECONDARY'', ''PEDESTRIAN''] ''0.3'',
         classes [''TERTIARY'', ''ROAD''] ''0.4'',
         classes [''SERVICE'', ''UNCLASSIFIED'', ''CYCLEWAY'', ''LIVING_STREET'', ''STEPS''] ''0.55'',
         classes [''RESIDENTIAL''] ''0.65'',
         classes [''FOOTWAY''] ''0.75'',
         surfaces [''ASPHALT'', ''CONCRETE'', ''PAVED'', ''PAVING_STONES'', ''SAND''] ''0.6''],
      cm_distance_influence = 35\<rparr>"

lemmas custom_model_defs = scenic_custom_model_def accessible_custom_model_def quiet_custom_model_def
  air_custom_model_def shade_custom_model_def any_of_def

definition PREFERENCE_LOOP_SCALES :: "real list" where
  "PREFERENCE_LOOP_SCALES = [1, 0.7, 0.45]"

definition PREFERENCE_BUDGET_OVERSHOOT :: real where "PREFERENCE_BUDGET_OVERSHOOT = 1.35"

definition PRESET_NOTES :: "(string \<times> string) list" where
  "PRESET_NOTES =
     [(''quiet'',
       ''Quiet is inferred from the kind of way this route follows, mostly how ''
       @ ''much motor traffic its streets carry. Nobody has measured the noise on ''
       @ ''it.''),
      (''air'',
       ''Clean air here means keeping away from motor traffic and out of ''
       @ ''tunnels. The air quality reading on the card is real but covers the ''
       @ ''whole area, not this pavement.''),
      (''shade'',
       ''Tree cover is not something a route can be planned from: OpenStreetMap ''
       @ ''maps trees as points and woods as areas, and neither reaches the ''
       @ ''streets you walk on. This route prefers the kinds of way that tend to ''
       @ ''be shaded, and avoids bridges, which never are.'')]"

section \<open>The request body\<close>

definition base_body :: "environ \<Rightarrow> string \<Rightarrow> bool \<Rightarrow> (string \<times> json) list" where
  "base_body env profile elevation =
     [(''profile'', JStr profile), (''points_encoded'', JBool False), (''instructions'', JBool True),
      (''calc_points'', JBool True), (''elevation'', JBool elevation),
      (''details'', JList (map JStr (path_details env)))]"

definition FIXED_CUSTOM_MODELS :: "(string \<times> custom_model) list" where
  "FIXED_CUSTOM_MODELS =
     [(''quiet'', quiet_custom_model), (''air'', air_custom_model), (''shade'', shade_custom_model)]"

definition preset_model :: "environ \<Rightarrow> string \<Rightarrow> int option \<Rightarrow> custom_model option" where
  "preset_model env preset distance_influence =
     (if preset = ''scenic''
      then Some (scenic_custom_model (case distance_influence of
                  Some d \<Rightarrow> d | None \<Rightarrow> SCENIC_DISTANCE_INFLUENCE_LADDER ! 0))
      else if preset = ''accessible''
      then Some (accessible_custom_model (''smoothness'' \<in> set (path_details env)))
      else map_of FIXED_CUSTOM_MODELS preset)"

definition body_points :: "latlon \<Rightarrow> latlon option \<Rightarrow> int \<Rightarrow> mode \<Rightarrow> real \<Rightarrow> (string \<times> json) list" where
  "body_points origin destination minutes m loop_distance_scale =
     (case destination of
        None \<Rightarrow>
          [(''points'', JList [to_post_point origin]), (''algorithm'', JStr ''round_trip''),
           (''round_trip.distance'', JNum (of_int (round_half_even
              (LOOP_SPEED_M_PER_MIN m * of_int minutes * loop_distance_scale)))),
           (''round_trip.seed'', JNum 42)]
      | Some d \<Rightarrow> [(''points'', JList [to_post_point origin, to_post_point d])])"

definition build_request_body :: "environ \<Rightarrow> latlon \<Rightarrow> latlon option \<Rightarrow> int \<Rightarrow> mode \<Rightarrow> string
    \<Rightarrow> int option \<Rightarrow> real \<Rightarrow> json" where
  "build_request_body env origin destination minutes m preset distance_influence loop_distance_scale =
     (let body = base_body env (PROFILE_FOR_MODE m) True
                 @ body_points origin destination minutes m loop_distance_scale;
          body1 = (case preset_model env preset distance_influence of
                     None \<Rightarrow> body
                   | Some cm \<Rightarrow> body @ [(''custom_model'', model_json cm)]);
          needs_flexible = (map_of body1 ''custom_model'' \<noteq> None
             \<or> (map_of body1 ''algorithm'' = Some (JStr ''round_trip'') \<and> graphhopper_is_self_hosted env))
      in JObj (if needs_flexible then body1 @ [(''ch.disable'', JBool True)] else body1))"

section \<open>Lemmas\<close>

definition known_values :: "string \<Rightarrow> string list" where
  "known_values key =
     (if key = ''surface'' then GH_SURFACE_VALUES
      else if key = ''road_class'' then GH_ROAD_CLASS_VALUES
      else if key = ''road_environment'' then GH_ROAD_ENVIRONMENT_VALUES
      else if key = ''smoothness'' then GH_SMOOTHNESS_VALUES else [])"

text \<open>
  What the router makes sure of when it compiles a rule: the rule has a condition, every value in it
  is one its key can have, every key is one the graph has, which is the three every graph has or one
  its details are asked for by, and the multiplier is a number that lowers a priority or keeps it.
\<close>

definition compiles :: "string list \<Rightarrow> custom_model \<Rightarrow> bool" where
  "compiles encoded m \<longleftrightarrow>
     list_all (\<lambda>r. rl_any r \<noteq> []
        \<and> list_all (\<lambda>(k, v). v \<in> set (known_values k) \<and> (k \<in> set DEFAULT_PATH_DETAILS \<or> k \<in> set encoded)) (rl_any r)
        \<and> (case parse_float (rl_multiply r) of None \<Rightarrow> False | Some x \<Rightarrow> 0 \<le> x \<and> x \<le> 1)) (cm_priority m)"

text \<open>The values a model gives a multiplier of zero: what the router may never use.\<close>

definition excluded :: "custom_model \<Rightarrow> (string \<times> string) list" where
  "excluded m = concat (map rl_any (filter (\<lambda>r. rl_multiply r = ''0'') (cm_priority m)))"

lemma loop_distance: "jget ''round_trip.distance'' (build_request_body env p None n m preset i x)
    = JNum (of_int (round_half_even (LOOP_SPEED_M_PER_MIN m * of_int n * x)))"
  by (simp add: build_request_body_def base_body_def body_points_def Let_def split: option.splits)

lemma base_body_keys:
  "map_of (base_body env p e) k = None \<longleftrightarrow>
     k \<notin> {''profile'', ''points_encoded'', ''instructions'', ''calc_points'', ''elevation'', ''details''}"
  by (simp add: base_body_def)

lemma body_points_keys:
  "map_of (body_points a d n m x) k \<noteq> None \<Longrightarrow>
     k \<in> {''points'', ''algorithm'', ''round_trip.distance'', ''round_trip.seed''}"
  by (auto simp: body_points_def split: option.splits if_splits)

text \<open>What a model does to a road class: the multipliers of the rules that name it, one if none does.\<close>

definition class_multiplier :: "custom_model \<Rightarrow> string \<Rightarrow> real" where
  "class_multiplier m c =
     (case find (\<lambda>r. (''road_class'', c) \<in> set (rl_any r)) (cm_priority m) of
        None \<Rightarrow> 1
      | Some r \<Rightarrow> (case parse_float (rl_multiply r) of None \<Rightarrow> 1 | Some x \<Rightarrow> x))"

definition steers_with :: "custom_model \<Rightarrow> (string \<times> real) list \<Rightarrow> bool" where
  "steers_with m table \<longleftrightarrow>
     (\<forall>(c, v) \<in> set (map (\<lambda>(c, v). (class_multiplier m c, v)) table).
        \<forall>(d, w) \<in> set (map (\<lambda>(c, v). (class_multiplier m c, v)) table). c < d \<longrightarrow> v < w)"

lemma parse_multipliers:
  "parse_float ''0'' = Some 0" "parse_float ''1.0'' = Some 1"
  "parse_float ''0.02'' = Some (2/100)" "parse_float ''0.03'' = Some (3/100)"
  "parse_float ''0.05'' = Some (5/100)" "parse_float ''0.08'' = Some (8/100)"
  "parse_float ''0.1'' = Some (1/10)" "parse_float ''0.15'' = Some (15/100)"
  "parse_float ''0.2'' = Some (2/10)" "parse_float ''0.22'' = Some (22/100)"
  "parse_float ''0.25'' = Some (25/100)" "parse_float ''0.3'' = Some (3/10)"
  "parse_float ''0.4'' = Some (4/10)" "parse_float ''0.45'' = Some (45/100)"
  "parse_float ''0.6'' = Some (6/10)" "parse_float ''0.5'' = Some (5/10)" "parse_float ''0.55'' = Some (55/100)"
  "parse_float ''0.65'' = Some (65/100)" "parse_float ''0.7'' = Some (7/10)"
  "parse_float ''0.75'' = Some (75/100)" "parse_float ''0.9'' = Some (9/10)"
  by (simp_all add: parse_float_def parse_decimal_def split_sign_def digits_value_def py_defs Let_def)

lemmas class_multiplier_eval = class_multiplier_def custom_model_defs parse_multipliers

text \<open>What the accessible model excludes, key by key.\<close>

lemma accessible_excluded:
  "(''surface'', v) \<in> set (excluded (accessible_custom_model b)) \<longleftrightarrow>
     v \<in> {''GRAVEL'', ''GROUND'', ''DIRT'', ''SAND'', ''GRASS'', ''COBBLESTONE'', ''UNPAVED'', ''WOOD''}"
  "(''smoothness'', v) \<in> set (excluded (accessible_custom_model True)) \<longleftrightarrow>
     v \<in> {''BAD'', ''VERY_BAD'', ''HORRIBLE'', ''VERY_HORRIBLE'', ''IMPASSABLE''}"
  "(''road_class'', v) \<in> set (excluded (accessible_custom_model b)) \<longleftrightarrow> v \<in> {''STEPS''}"
  by (auto simp: excluded_def accessible_custom_model_def any_of_def)

section \<open>Properties\<close>

lemma compiles_smooth:
  "compiles encoded (accessible_custom_model b) \<longleftrightarrow> \<not> b \<or> ''smoothness'' \<in> set encoded"
  by (simp add: compiles_def known_values_def custom_model_defs GH_SURFACE_VALUES_def GH_ROAD_CLASS_VALUES_def
    GH_ROAD_ENVIRONMENT_VALUES_def GH_SMOOTHNESS_VALUES_def DEFAULT_PATH_DETAILS_def parse_multipliers)

lemma compiles_plain:
  "compiles encoded (scenic_custom_model i)" "compiles encoded quiet_custom_model"
  "compiles encoded air_custom_model" "compiles encoded shade_custom_model"
  by (simp_all add: compiles_def known_values_def custom_model_defs GH_SURFACE_VALUES_def GH_ROAD_CLASS_VALUES_def
    GH_ROAD_ENVIRONMENT_VALUES_def GH_SMOOTHNESS_VALUES_def DEFAULT_PATH_DETAILS_def parse_multipliers)

lemma body_model:
  "jget ''custom_model'' (build_request_body env origin destination minutes m preset i x)
     = (case preset_model env preset i of None \<Rightarrow> JNull | Some cm \<Rightarrow> model_json cm)"
  "jhas ''custom_model'' (build_request_body env origin destination minutes m preset i x) = (preset_model env preset i \<noteq> None)"
  "jget ''details'' (build_request_body env origin destination minutes m preset i x) = JList (map JStr (path_details env))"
  by (cases "preset_model env preset i"; cases destination; simp add: build_request_body_def base_body_def body_points_def Let_def)+

lemma texts_back: "List.map_filter jstr (map JStr xs) = xs"
  by (induction xs) (simp_all add: List.map_filter_simps)

lemma smoothness_excluded:
  "(\<exists>v. (''smoothness'', v) \<in> set (excluded (accessible_custom_model b))) = b"
  by (auto simp: excluded_def accessible_custom_model_def any_of_def)

text \<open>
  C40 No request fails because its custom model does not compile on the router it is sent to. The model
  in the body of a request is the preset's own, for the five presets that have one, and every rule of
  it, under any settings, compiles against the graph whose path details the same body asks for: it
  names only values the router has for their key, a key outside the three every graph has only when
  the details name it too, and multiplies by a number between 0 and 1. The accessible model of a body
  excludes rough ways, then, exactly when smoothness is among the details: never on a graph that would
  refuse the whole request for it, and always on one that could tell.
\<close>

theorem custom_models_compile:
  "let body = build_request_body env origin destination minutes m preset influence x;
       details = List.map_filter jstr (jlist (jget ''details'' body))
   in (jhas ''custom_model'' body \<longleftrightarrow> preset \<in> {''scenic'', ''accessible'', ''quiet'', ''air'', ''shade''})
    \<and> (\<forall>cm. preset_model env preset influence = Some cm \<longrightarrow>
         jget ''custom_model'' body = model_json cm \<and> compiles details cm)
    \<and> (preset = ''accessible'' \<longrightarrow> (\<exists>cm. jget ''custom_model'' body = model_json cm
         \<and> ((\<exists>v. (''smoothness'', v) \<in> set (excluded cm)) \<longleftrightarrow> ''smoothness'' \<in> set details)))"
proof -
  let ?body = "build_request_body env origin destination minutes m preset influence x"
  have details: "List.map_filter jstr (jlist (jget ''details'' ?body)) = path_details env" by (simp add: body_model texts_back)
  have known: "preset_model env preset influence \<noteq> None \<longleftrightarrow> preset \<in> {''scenic'', ''accessible'', ''quiet'', ''air'', ''shade''}"
    by (auto simp: preset_model_def FIXED_CUSTOM_MODELS_def)
  have ok: "compiles (path_details env) cm" if "preset_model env preset influence = Some cm" for cm
    using that by (auto simp: preset_model_def FIXED_CUSTOM_MODELS_def compiles_plain compiles_smooth split: if_splits)
  have "preset_model env ''accessible'' influence = Some (accessible_custom_model (''smoothness'' \<in> set (path_details env)))"
    by (simp add: preset_model_def)
  then have "preset = ''accessible'' \<longrightarrow> (\<exists>cm. jget ''custom_model'' ?body = model_json cm
         \<and> ((\<exists>v. (''smoothness'', v) \<in> set (excluded cm)) \<longleftrightarrow> ''smoothness'' \<in> set (path_details env)))"
    using smoothness_excluded by (intro impI exI conjI) (auto simp: body_model)
  then show ?thesis
    unfolding Let_def details using known ok by (auto simp: body_model)
qed

lemma custom_models_compile_witness:
  "\<exists>cm. jget ''custom_model'' (build_request_body Map.empty (LatLon 0 0) None 30 Foot ''accessible'' None 1) = model_json cm
     \<and> (\<forall>v. (''smoothness'', v) \<notin> set (excluded cm))"
proof -
  let ?body = "build_request_body Map.empty (LatLon 0 0) None 30 Foot ''accessible'' None 1"
  have "path_details Map.empty = DEFAULT_PATH_DETAILS"
    by (simp add: path_details_def graphhopper_is_self_hosted_def hostname_looks_self_hosted_def stripped_def sniffed_host_def
      endpoint_host_def GRAPHHOPPER_URL_def get_or_def split1_first_def split1_last_def LOOPBACK_HOSTS_def
      ends_with_def py_defs Let_def)
  then have "''smoothness'' \<notin> set (List.map_filter jstr (jlist (jget ''details'' ?body)))"
    by (simp add: body_model texts_back DEFAULT_PATH_DETAILS_def)
  then show ?thesis
    using custom_models_compile [of Map.empty "LatLon 0 0" None 30 Foot "''accessible''" None 1] unfolding Let_def by blast
qed

text \<open>
  The router's accessible model against the engine's own verdicts. Everything the model excludes
  the engine rejects, every surface it keeps at full priority the engine accepts, and with
  smoothness it excludes exactly what the engine rejects; but of the surfaces the router knows and
  the engine rejects one is not excluded: FINE_GRAVEL, so a route over it can be returned and then
  blocked.
\<close>

theorem accessible_model_against_the_engine:
  "(\<forall>v \<in> set GH_SURFACE_VALUES. (''surface'', v) \<in> set (excluded (accessible_custom_model b)) \<longleftrightarrow>
       assess_surface (Tag v) = FAIL \<and> v \<noteq> ''FINE_GRAVEL'')
 \<and> (\<forall>v \<in> set GH_SMOOTHNESS_VALUES. (''smoothness'', v) \<in> set (excluded (accessible_custom_model True)) \<longleftrightarrow>
       assess_smoothness (Tag v) = FAIL)
 \<and> (\<forall>v \<in> set GH_ROAD_CLASS_VALUES. (''road_class'', v) \<in> set (excluded (accessible_custom_model b)) \<longleftrightarrow>
       assess_road_class (Tag v) = FAIL)
 \<and> assess_surface (Tag ''FINE_GRAVEL'') = FAIL"
proof (intro conjI)
  show "\<forall>v \<in> set GH_SURFACE_VALUES. (''surface'', v) \<in> set (excluded (accessible_custom_model b)) \<longleftrightarrow>
      assess_surface (Tag v) = FAIL \<and> v \<noteq> ''FINE_GRAVEL''"
    unfolding accessible_excluded by code_simp
  show "\<forall>v \<in> set GH_SMOOTHNESS_VALUES. (''smoothness'', v) \<in> set (excluded (accessible_custom_model True)) \<longleftrightarrow>
      assess_smoothness (Tag v) = FAIL"
    unfolding accessible_excluded by code_simp
  show "\<forall>v \<in> set GH_ROAD_CLASS_VALUES. (''road_class'', v) \<in> set (excluded (accessible_custom_model b)) \<longleftrightarrow>
      assess_road_class (Tag v) = FAIL"
    unfolding accessible_excluded by code_simp
  show "assess_surface (Tag ''FINE_GRAVEL'') = FAIL" by code_simp
qed

lemma accessible_model_against_the_engine_witness:
  "(''surface'', ''GRAVEL'') \<in> set (excluded (accessible_custom_model True))"
proof -
  have "''GRAVEL'' \<in> set GH_SURFACE_VALUES" "assess_surface (Tag ''GRAVEL'') = FAIL" by code_simp+
  then show ?thesis using accessible_model_against_the_engine [of True] by blast
qed

text \<open>
  What steers a route and what scores it agree for the three preference presets: wherever the
  quiet, air or shade model ranks one road class strictly below another, the table that scores the
  result for that objective ranks it strictly below too. The scenic model and its table do not: it
  steers away from pedestrian streets, which its table rates above residential ones.
\<close>

theorem steering_agrees_with_scoring:
  "steers_with quiet_custom_model ROAD_CLASS_QUIET_PROXY
 \<and> steers_with air_custom_model ROAD_CLASS_AIR_PROXY
 \<and> steers_with shade_custom_model ROAD_CLASS_CANOPY_PROXY
 \<and> \<not> steers_with (scenic_custom_model i) ROAD_CLASS_NATURALNESS"
proof (intro conjI)
  show "steers_with quiet_custom_model ROAD_CLASS_QUIET_PROXY"
    unfolding steers_with_def ROAD_CLASS_QUIET_PROXY_def by (simp add: class_multiplier_eval)
  show "steers_with air_custom_model ROAD_CLASS_AIR_PROXY"
    unfolding steers_with_def ROAD_CLASS_AIR_PROXY_def by (simp add: class_multiplier_eval)
  show "steers_with shade_custom_model ROAD_CLASS_CANOPY_PROXY"
    unfolding steers_with_def ROAD_CLASS_CANOPY_PROXY_def by (simp add: class_multiplier_eval)
  show "\<not> steers_with (scenic_custom_model i) ROAD_CLASS_NATURALNESS"
    unfolding steers_with_def ROAD_CLASS_NATURALNESS_def by (simp add: class_multiplier_eval)
qed

text \<open>
  Flexible mode, a paid feature, is asked for exactly when it is needed: the body carries
  ch.disable if and only if the preset has a custom model or the request is a round trip on a
  self-hosted router; the body of a trip with a destination does not depend on the time dial; and
  points are sent as [lon, lat].
\<close>

theorem flexible_mode_only_when_needed:
  "(jhas ''ch.disable'' (build_request_body env origin dest minutes m preset infl scale) \<longleftrightarrow>
      preset_model env preset infl \<noteq> None \<or> (dest = None \<and> graphhopper_is_self_hosted env))
 \<and> (dest = Some d \<longrightarrow> build_request_body env origin dest minutes m preset infl scale
      = build_request_body env origin dest minutes' m preset infl scale')
 \<and> (preset = ''fastest'' \<and> \<not> graphhopper_is_self_hosted env \<longrightarrow>
      \<not> jhas ''ch.disable'' (build_request_body env origin dest minutes m preset infl scale))
 \<and> jget ''points'' (build_request_body env origin dest minutes m preset infl scale)
      = JList (map (\<lambda>p. JList [JNum (lon p), JNum (lat p)])
          (origin # (case dest of None \<Rightarrow> [] | Some p \<Rightarrow> [p])))"
  by (cases dest; cases "preset_model env preset infl")
    (auto simp: build_request_body_def body_points_def base_body_def to_post_point_def Let_def
      preset_model_def FIXED_CUSTOM_MODELS_def map_add_def split: if_splits)

lemma flexible_mode_only_when_needed_witness:
  "\<not> jhas ''ch.disable'' (build_request_body Map.empty colombo None 30 Foot ''fastest'' None 1)"
proof -
  have "\<not> graphhopper_is_self_hosted Map.empty"
    by (simp add: graphhopper_is_self_hosted_def hostname_looks_self_hosted_def stripped_def sniffed_host_def
      endpoint_host_def GRAPHHOPPER_URL_def get_or_def split1_first_def split1_last_def LOOPBACK_HOSTS_def
      ends_with_def py_defs Let_def)
  then show ?thesis
    using flexible_mode_only_when_needed [of Map.empty colombo None 30 Foot "''fastest''" None 1 colombo 30 1]
    by blast
qed

end
