(* ===== verification/Routing.thy ===== *)
theory Routing
  imports Presets Fixtures Scenery
begin

text \<open>
  backend/routing.py, second half: reading what GraphHopper answers, shaping its errors, choosing
  among the candidates of the scenic and preference presets, and place search. What the router
  answers to a body is an argument, and so is how Python prints a JSON value that is no string
  (\<open>pystr\<close>).
\<close>

section \<open>Errors\<close>

text \<open>
  \<open>RoutingError\<close> and its three subclasses; \<open>Crash\<close> is a Python exception this module lets out.
\<close>

datatype routing_error =
    RoutingError (re_kind: string) (re_message: string) (re_status: int)
  | NoRouteFound (re_message: string) (re_not_snappable: bool)
  | OutsideCoverage (re_message: string)
  | PresetUnavailable (re_message: string)
  | Crash py_error

fun error_kind :: "routing_error \<Rightarrow> string" where
  "error_kind (RoutingError k m s) = k"
| "error_kind (NoRouteFound m p) = ''no_route''"
| "error_kind (OutsideCoverage m) = ''outside_coverage''"
| "error_kind (PresetUnavailable m) = ''plan_limitation''"
| "error_kind (Crash e) = ''internal''"

fun error_status :: "routing_error \<Rightarrow> int" where
  "error_status (RoutingError k m s) = s"
| "error_status (NoRouteFound m p) = 422"
| "error_status (OutsideCoverage m) = 422"
| "error_status (PresetUnavailable m) = 422"
| "error_status (Crash e) = 500"

section \<open>The sentences an error can carry\<close>

definition flexible_message :: string where
  "flexible_message =
     ''This objective needs GraphHopper's flexible routing mode, which free ''
     @ ''API packages do not include. The fastest route still works, and ''
     @ ''everything else (accessibility checks, rest stops, air quality) is ''
     @ ''unaffected. A paid GraphHopper plan enables it.''"

definition mode_unavailable_message :: string where
  "mode_unavailable_message =
     ''This travel mode is not available on the current GraphHopper plan. ''
     @ ''Free packages allow car, bike and foot only.''"

definition refused_message :: string where
  "refused_message =
     ''The routing service refused this request. That server is one this ''
     @ ''deployment runs itself, so this is something in front of it (a ''
     @ ''proxy or an access rule) rather than an API key. Nothing you did ''
     @ ''caused this.''"

definition key_rejected_message :: string where
  "key_rejected_message =
     ''Routing is not configured on this server: its GraphHopper key is missing or ''
     @ ''rejected. Nothing you did caused this.''"

definition over_quota_message :: string where
  "over_quota_message =
     ''The routing service is over its quota for today. Please try again tomorrow.''"

definition not_snappable_message :: string where
  "not_snappable_message =
     ''No routable road or path was found near that point. Try moving the start a little.''"

definition no_connection_message :: string where
  "no_connection_message =
     ''There is no route between those two points for this mode of travel.''"

definition upstream_failed_message :: string where
  "upstream_failed_message =
     ''The routing service could not answer that request. Please try again.''"

definition no_fixture_message :: string where
  "no_fixture_message =
     ''This server is running from recorded fixtures and has none for that request. ''
     @ ''Try one of the demo locations, or set GRAPHHOPPER_KEY and ''
     @ ''MEANDER_FIXTURES=record to go live.''"

definition routing_budget_message :: string where
  "routing_budget_message =
     ''This server has reached its routing budget for now. Please try again later.''"

definition unreachable_message :: string where
  "unreachable_message =
     ''Could not reach the routing service. Please try again.''"

definition unreadable_message :: string where
  "unreadable_message =
     ''The routing service returned something unreadable.''"

definition no_paths_message :: string where
  "no_paths_message =
     ''No route was found for that request.''"

definition no_shape_message :: string where
  "no_shape_message =
     ''The router returned a path with no shape. Try a different start point.''"

definition too_large_message :: "string \<Rightarrow> string" where
  "too_large_message service = service @ '' sent more than 32 MB and was cut off.''"

section \<open>Reading a path\<close>

record route_step =
  stp_text :: string
  stp_distance_m :: real
  stp_duration_min :: real
  stp_street_name :: "string option"
  stp_sign :: int
  stp_interval :: "int \<times> int"

record raw_route =
  rr_points :: "latlon list"
  rr_distance_m :: real
  rr_duration_min :: real
  rr_mode :: mode
  rr_elevations :: "real list"
  rr_details :: details
  rr_steps :: "route_step list"
  rr_synthetic_upstream :: bool
  rr_preset :: string
  rr_preset_note :: "string option"

definition has_elevation :: "raw_route \<Rightarrow> bool" where
  "has_elevation r \<longleftrightarrow> length (rr_elevations r) = length (rr_points r) \<and> 1 < length (rr_elevations r)"

fun tag_of :: "(json \<Rightarrow> string) \<Rightarrow> json \<Rightarrow> tagval" where
  "tag_of pystr JNull = TagNone"
| "tag_of pystr j = Tag (json_str pystr j)"

definition parse_span :: "(json \<Rightarrow> string) \<Rightarrow> json \<Rightarrow> span list" where
  "parse_span pystr j =
     (if is_list j \<and> 3 \<le> length (jlist j)
      then (case (json_int (jlist j ! 0), json_int (jlist j ! 1)) of
              (Some a, Some b) \<Rightarrow> [detail_span a b (tag_of pystr (jlist j ! 2))]
            | _ \<Rightarrow> [])
      else [])"

definition parse_spans :: "(json \<Rightarrow> string) \<Rightarrow> json \<Rightarrow> span list option" where
  "parse_spans pystr j =
     (if \<not> is_list j then None
      else let parsed = concat (map (parse_span pystr) (jlist j))
           in if parsed = [] then None else Some parsed)"

definition parse_details :: "(json \<Rightarrow> string) \<Rightarrow> json \<Rightarrow> details" where
  "parse_details pystr raw =
     (\<lambda>k. if is_dict raw \<and> jhas k raw then parse_spans pystr (jget k raw) else None)"

definition number :: "json \<Rightarrow> real" where
  "number v = (case json_float v of Inl e \<Rightarrow> 0 | Inr x \<Rightarrow> x)"

definition parse_interval :: "json \<Rightarrow> int \<times> int" where
  "parse_interval j =
     (if is_list j \<and> 2 \<le> length (jlist j)
      then (case (json_int (jlist j ! 0), json_int (jlist j ! 1)) of
              (Some a, Some b) \<Rightarrow> (a, b) | _ \<Rightarrow> (0, 0))
      else (0, 0))"

definition parse_instruction :: "json \<Rightarrow> route_step list" where
  "parse_instruction item =
     (if \<not> is_dict item then []
      else case jget ''text'' item of
          JStr text \<Rightarrow>
            if strip text = [] then []
            else [\<lparr>stp_text = strip text, stp_distance_m = number (jget ''distance'' item),
                   stp_duration_min = number (jget ''time'' item) / 60000,
                   stp_street_name = (case jget ''street_name'' item of
                       JStr s \<Rightarrow> if strip s = [] then None else Some (strip s) | _ \<Rightarrow> None),
                   stp_sign = py_int (number (jget ''sign'' item)),
                   stp_interval = parse_interval (jget ''interval'' item)\<rparr>]
        | _ \<Rightarrow> [])"

definition parse_instructions :: "json \<Rightarrow> route_step list" where
  "parse_instructions raw = (if \<not> is_list raw then [] else concat (map parse_instruction (jlist raw)))"

fun parse_points :: "json list \<Rightarrow> (py_error, latlon list) result" where
  "parse_points [] = Inr []"
| "parse_points (c # cs) =
     (case from_post_point c of
        Inl e \<Rightarrow> Inl e
      | Inr p \<Rightarrow> (case parse_points cs of Inl e \<Rightarrow> Inl e | Inr ps \<Rightarrow> Inr (p # ps)))"

definition parse_elevations :: "json list \<Rightarrow> (py_error, real list) result" where
  "parse_elevations coords = floats (map (\<lambda>c. jlist c ! 2) (filter (\<lambda>c. 3 \<le> length (jlist c)) coords))"

text \<open>\<open>x or y\<close>.\<close>

definition jor :: "json \<Rightarrow> json \<Rightarrow> json" where
  "jor x y = (if truthy x then x else y)"

definition parse_path :: "(json \<Rightarrow> string) \<Rightarrow> json \<Rightarrow> mode \<Rightarrow> bool \<Rightarrow> string \<Rightarrow> (routing_error, raw_route) result" where
  "parse_path pystr path m synthetic preset =
     (let points_json = jor (jget ''points'' path) (JObj []);
          coords_json = jor (jget ''coordinates'' points_json) (JList [])
      in if \<not> is_dict path \<or> \<not> is_dict points_json then Inl (Crash AttributeError)
         else if \<not> is_list coords_json then Inl (Crash PyTypeError)
         else if length (jlist coords_json) < 2
         then Inl (NoRouteFound no_shape_message False)
         else case (parse_points (jlist coords_json), parse_elevations (jlist coords_json)) of
             (Inl e, _) \<Rightarrow> Inl (Crash e)
           | (_, Inl e) \<Rightarrow> Inl (Crash e)
           | (Inr ps, Inr es) \<Rightarrow>
               (case (json_float (jor (jget ''time'' path) (JNum 0)),
                      json_float (jor (jget ''distance'' path) (JNum 0))) of
                  (Inl e, _) \<Rightarrow> Inl (Crash e)
                | (_, Inl e) \<Rightarrow> Inl (Crash e)
                | (Inr time_ms, Inr distance) \<Rightarrow>
                    Inr \<lparr>rr_points = ps,
                         rr_distance_m = (if distance \<le> 0 then path_length_m ps else distance),
                         rr_duration_min = time_ms / 60000, rr_mode = m,
                         rr_elevations = (if length es \<noteq> length ps then [] else es),
                         rr_details = parse_details pystr (jget ''details'' path),
                         rr_steps = parse_instructions (jget ''instructions'' path),
                         rr_synthetic_upstream = synthetic, rr_preset = preset, rr_preset_note = None\<rparr>))"

section \<open>Shaping upstream errors\<close>

definition UPSTREAM_CLASSIFICATIONS :: "(string \<times> string) list" where
  "UPSTREAM_CLASSIFICATIONS =
     [(''cannot find point'', ''point_not_snappable''),
      (''connection between locations not found'', ''no_connection''),
      (''flexible mode'', ''plan_lacks_flexible_mode''), (''profile'', ''bad_profile''),
      (''custom_model'', ''bad_custom_model''), (''query param'', ''bad_parameter'')]"

definition classify_upstream_message :: "string \<Rightarrow> string" where
  "classify_upstream_message message =
     (case find (\<lambda>(needle, label). contains needle (str_lower message)) UPSTREAM_CLASSIFICATIONS of
        Some (needle, label) \<Rightarrow> label | None \<Rightarrow> ''unclassified'')"

definition resp_json :: "http_response \<Rightarrow> json option" where
  "resp_json r = (case hr_body r of BJson j \<Rightarrow> Some j | BText t \<Rightarrow> None)"

definition upstream_message :: "(json \<Rightarrow> string) \<Rightarrow> http_response \<Rightarrow> (py_error, string) result" where
  "upstream_message pystr r =
     (case resp_json r of
        None \<Rightarrow> Inr ''''
      | Some j \<Rightarrow>
          let d = jor j (JObj [])
          in if \<not> is_dict d then Inl AttributeError
             else if jhas ''message'' d then Inr (json_str pystr (jget ''message'' d)) else Inr '''')"

definition shape_message :: "bool \<Rightarrow> int \<Rightarrow> string \<Rightarrow> routing_error" where
  "shape_message self_hosted status message =
     (let lowered = str_lower message
      in if contains ''flexible mode'' lowered
            \<or> (contains ''custom_model'' lowered \<and> contains ''speed mode'' lowered)
         then PresetUnavailable flexible_message
         else if contains ''profile parameter can only be one of'' lowered
         then PresetUnavailable mode_unavailable_message
         else if status = 401 \<or> status = 403
         then (if self_hosted
               then RoutingError ''auth''
                 refused_message 503
               else RoutingError ''auth''
                 key_rejected_message 503)
         else if status = 429
         then RoutingError ''upstream_rate_limit''
                over_quota_message 503
         else if contains ''cannot find point'' lowered \<or> contains ''point 0'' lowered
         then NoRouteFound
                not_snappable_message True
         else if contains ''connection between locations not found'' lowered
         then NoRouteFound no_connection_message False
         else RoutingError ''upstream''
                upstream_failed_message 502)"

definition shape_upstream_error :: "(json \<Rightarrow> string) \<Rightarrow> bool \<Rightarrow> http_response \<Rightarrow> routing_error" where
  "shape_upstream_error pystr self_hosted r =
     (case upstream_message pystr r of
        Inl e \<Rightarrow> Crash e
      | Inr message \<Rightarrow> shape_message self_hosted (hr_status r) message)"

section \<open>One routing request\<close>

text \<open>The query parameters: the key, and only to the hosted API.\<close>

definition route_params :: "environ \<Rightarrow> settings \<Rightarrow> (string \<times> json) list option" where
  "route_params env st =
     (case st_graphhopper_key st of
        Some k \<Rightarrow> if k \<noteq> [] \<and> \<not> graphhopper_is_self_hosted env then Some [(''key'', JStr k)] else None
      | None \<Rightarrow> None)"

text \<open>\<open>url_service\<close> is \<open>service_for_url\<close> of the configured router URL.\<close>

definition post_route :: "(json \<Rightarrow> string) \<Rightarrow> bool \<Rightarrow> mode \<Rightarrow> string \<Rightarrow> string
    \<Rightarrow> (fetch_error, http_response) result \<Rightarrow> (routing_error, raw_route) result" where
  "post_route pystr self_hosted m url_service preset fetched =
     (case fetched of
        Inl (FixtureMissing s sig) \<Rightarrow> Inl (RoutingError ''no_fixture''
          no_fixture_message 503)
      | Inl (BudgetExhausted s) \<Rightarrow> Inl (RoutingError ''budget''
          routing_budget_message 503)
      | Inl ResponseTooLarge \<Rightarrow> Inl (RoutingError ''upstream'' (too_large_message url_service) 502)
      | Inl (TransportError e) \<Rightarrow> Inl (RoutingError ''network''
          unreachable_message 502)
      | Inl SecretLeaked \<Rightarrow> Inl (Crash PyRuntimeError)
      | Inr r \<Rightarrow>
          if 400 \<le> hr_status r then Inl (shape_upstream_error pystr self_hosted r)
          else case resp_json r of
              None \<Rightarrow> Inl (RoutingError ''upstream'' unreadable_message 502)
            | Some payload \<Rightarrow>
                if \<not> is_dict payload then Inl (Crash AttributeError)
                else let paths = jor (jget ''paths'' payload) (JList [])
                  in if \<not> is_list paths then Inl (Crash PyTypeError)
                     else if jlist paths = [] then Inl (NoRouteFound no_paths_message False)
                     else parse_path pystr (hd (jlist paths)) m (is_synthetic r) preset)"

section \<open>The scenic preset\<close>

text \<open>The number the card will show; the CLIP term of a line is an argument (\<open>clip\<close>).\<close>

definition greenness :: "(latlon list \<Rightarrow> real option) \<Rightarrow> raw_route \<Rightarrow> real" where
  "greenness clip r =
     g_scenic (score_geometry (rr_points r)
       (if rr_elevations r = [] then None else Some (rr_elevations r)) (Some (rr_details r))
       (clip (rr_points r)))"

definition scenic_candidates :: "bool \<Rightarrow> bool \<Rightarrow> (int \<times> real) list" where
  "scenic_candidates unmetered loop =
     (if loop then (if unmetered then SCENIC_LOOP_CANDIDATES else take 2 SCENIC_LOOP_CANDIDATES)
      else map (\<lambda>i. (i, 1)) SCENIC_DISTANCE_INFLUENCE_LADDER)"

definition within_cap :: "raw_route option \<Rightarrow> raw_route \<Rightarrow> bool" where
  "within_cap fastest r =
     (case fastest of None \<Rightarrow> True | Some f \<Rightarrow> rr_duration_min r \<le> rr_duration_min f * SCENIC_DURATION_CAP)"

definition beats_floor :: "(raw_route \<Rightarrow> real) \<Rightarrow> raw_route option \<Rightarrow> raw_route \<Rightarrow> bool" where
  "beats_floor green fastest r = (case fastest of None \<Rightarrow> True | Some f \<Rightarrow> green f < green r)"

definition merit :: "(raw_route \<Rightarrow> real) \<Rightarrow> bool \<Rightarrow> int \<Rightarrow> raw_route \<Rightarrow> real" where
  "merit green loop minutes r =
     (if loop then SCENIC_GREENNESS_WEIGHT * green r + SCENIC_BUDGET_FIT_WEIGHT * budget_fit (rr_duration_min r) minutes
      else green r)"

type_synonym scan = "(real \<times> raw_route) list \<times> (real \<times> raw_route) option"

definition judge :: "(raw_route \<Rightarrow> real) \<Rightarrow> bool \<Rightarrow> int \<Rightarrow> raw_route option \<Rightarrow> raw_route \<Rightarrow> scan \<Rightarrow> scan" where
  "judge green loop minutes fastest r s =
     (let m = merit green loop minutes r; inside = within_cap fastest r
      in if inside \<and> beats_floor green fastest r then (fst s @ [(m, r)], snd s)
         else (fst s, case snd s of
             None \<Rightarrow> Some (m, r)
           | Some (m0, r0) \<Rightarrow> if inside \<and> m0 < m then Some (m, r) else Some (m0, r0)))"

text \<open>Unmetered: all candidates are asked for, the failed ones are set aside.\<close>

fun successes :: "(routing_error, raw_route) result list \<Rightarrow> raw_route list" where
  "successes [] = []"
| "successes (Inl e # rs) = successes rs"
| "successes (Inr r # rs) = r # successes rs"

definition scan_all :: "(raw_route \<Rightarrow> real) \<Rightarrow> bool \<Rightarrow> int \<Rightarrow> raw_route option
    \<Rightarrow> (routing_error, raw_route) result list \<Rightarrow> (routing_error, scan) result" where
  "scan_all green loop minutes fastest settled =
     (case successes settled of
        [] \<Rightarrow> (case settled of Inl e # _ \<Rightarrow> Inl e | _ \<Rightarrow> Inr ([], None))
      | rs \<Rightarrow> Inr (foldl (\<lambda>s r. judge green loop minutes fastest r s) ([], None) rs))"

text \<open>Metered: one after the other, up to the first acceptable one; a failure is the answer.\<close>

fun scan_metered :: "(raw_route \<Rightarrow> real) \<Rightarrow> bool \<Rightarrow> int \<Rightarrow> raw_route option
    \<Rightarrow> (routing_error, raw_route) result list \<Rightarrow> scan \<Rightarrow> (routing_error, scan) result" where
  "scan_metered green loop minutes fastest [] s = Inr s"
| "scan_metered green loop minutes fastest (Inl e # rs) s = Inl e"
| "scan_metered green loop minutes fastest (Inr r # rs) s =
     (let s' = judge green loop minutes fastest r s
      in if fst s' \<noteq> [] then Inr s' else scan_metered green loop minutes fastest rs s')"

definition undershoot_note :: string where
  "undershoot_note = ''This is the most scenic route available near you, but it is ''
     @ ''noticeably shorter than the time you asked for. Nothing ''
     @ ''better was reachable within your budget.''"

definition over_cap_note :: string where
  "over_cap_note = ''No more scenic route was found inside your time budget. This is the ''
     @ ''shortest one that is meaningfully better, and it is longer than you ''
     @ ''asked for.''"

definition no_better_note :: string where
  "no_better_note = ''No route near you was more scenic than the fastest one, so this ''
     @ ''is much the same way.''"

definition with_note :: "string \<Rightarrow> raw_route \<Rightarrow> raw_route" where
  "with_note n r = r\<lparr>rr_preset_note := Some n\<rparr>"

definition pick_scenic :: "bool \<Rightarrow> int \<Rightarrow> raw_route option \<Rightarrow> scan \<Rightarrow> raw_route option" where
  "pick_scenic loop minutes fastest s =
     (if fst s \<noteq> []
      then let chosen = snd (hd (sort_desc fst (fst s)))
        in Some (if loop \<and> 0 < minutes \<and> rr_duration_min chosen < of_int minutes * SCENIC_BUDGET_UNDERSHOOT
                 then with_note undershoot_note chosen
                 else if fastest = None then with_note UNCOMPARED_NOTE chosen
                 else chosen)
      else case snd s of
          None \<Rightarrow> None
        | Some (m, chosen) \<Rightarrow>
            Some (with_note (if within_cap fastest chosen then no_better_note else over_cap_note) chosen))"

definition route_scenic :: "environ \<Rightarrow> (latlon list \<Rightarrow> real option) \<Rightarrow> (json \<Rightarrow> (routing_error, raw_route) result)
    \<Rightarrow> latlon \<Rightarrow> latlon option \<Rightarrow> int \<Rightarrow> mode \<Rightarrow> raw_route option \<Rightarrow> (routing_error, raw_route option) result" where
  "route_scenic env clip post origin destination minutes m fastest =
     (let loop = (destination = None); unmetered = graphhopper_is_self_hosted env;
          green = greenness clip;
          outcomes = map (\<lambda>(i, x). post (build_request_body env origin destination minutes m ''scenic'' (Some i) x))
                       (scenic_candidates unmetered loop)
      in case (if unmetered then scan_all green loop minutes fastest outcomes
               else scan_metered green loop minutes fastest outcomes ([], None)) of
           Inl e \<Rightarrow> Inl e
         | Inr s \<Rightarrow> Inr (pick_scenic loop minutes fastest s))"

section \<open>The preference presets\<close>

fun preference_metered :: "int \<Rightarrow> (routing_error, raw_route) result list \<Rightarrow> (real \<times> raw_route) list
    \<Rightarrow> (routing_error, (real \<times> raw_route) list) result" where
  "preference_metered minutes [] scored = Inr scored"
| "preference_metered minutes (Inl e # rs) scored = Inl e"
| "preference_metered minutes (Inr r # rs) scored =
     (let scored' = scored @ [(budget_fit (rr_duration_min r) minutes, r)]
      in if rr_duration_min r \<le> of_int minutes * PREFERENCE_BUDGET_OVERSHOOT then Inr scored'
         else preference_metered minutes rs scored')"

definition preference_unmetered :: "int \<Rightarrow> (routing_error, raw_route) result list
    \<Rightarrow> (routing_error, (real \<times> raw_route) list) result" where
  "preference_unmetered minutes settled =
     (case successes settled of
        [] \<Rightarrow> (case settled of Inl e # _ \<Rightarrow> Inl e | _ \<Rightarrow> Inr [])
      | rs \<Rightarrow> Inr (map (\<lambda>r. (budget_fit (rr_duration_min r) minutes, r)) rs))"

definition preset_note :: "string \<Rightarrow> string" where
  "preset_note preset = (case map_of PRESET_NOTES preset of None \<Rightarrow> '''' | Some n \<Rightarrow> n)"

definition preference_note :: "string \<Rightarrow> int \<Rightarrow> raw_route \<Rightarrow> string" where
  "preference_note preset minutes chosen =
     (if 0 < minutes \<and> of_int minutes * PREFERENCE_BUDGET_OVERSHOOT < rr_duration_min chosen
      then preset_note preset @ '' This is the closest fit to your time budget that could be ''
           @ ''found near you, and it is still longer than you asked for.''
      else if 0 < minutes \<and> rr_duration_min chosen < of_int minutes * SCENIC_BUDGET_UNDERSHOOT
      then preset_note preset @ '' It is also noticeably shorter than the time you asked for. ''
           @ ''Nothing closer to your budget was reachable.''
      else preset_note preset)"

definition route_preference :: "environ \<Rightarrow> (json \<Rightarrow> (routing_error, raw_route) result) \<Rightarrow> string
    \<Rightarrow> latlon \<Rightarrow> latlon option \<Rightarrow> int \<Rightarrow> mode \<Rightarrow> (routing_error, raw_route) result" where
  "route_preference env post preset origin destination minutes m =
     (case destination of
        Some d \<Rightarrow>
          (case post (build_request_body env origin destination minutes m preset None 1) of
             Inl e \<Rightarrow> Inl e
           | Inr r \<Rightarrow> Inr (with_note (preset_note preset) r))
      | None \<Rightarrow>
          let unmetered = graphhopper_is_self_hosted env;
              scales = (if unmetered then PREFERENCE_LOOP_SCALES else take 2 PREFERENCE_LOOP_SCALES);
              outcomes = map (\<lambda>x. post (build_request_body env origin None minutes m preset None x)) scales
          in case (if unmetered then preference_unmetered minutes outcomes
                   else preference_metered minutes outcomes []) of
               Inl e \<Rightarrow> Inl e
             | Inr scored \<Rightarrow>
                 let chosen = snd (hd (sort_desc fst scored))
                 in Inr (with_note (preference_note preset minutes chosen) chosen))"

definition route_fastest :: "environ \<Rightarrow> (json \<Rightarrow> (routing_error, raw_route) result)
    \<Rightarrow> latlon \<Rightarrow> latlon option \<Rightarrow> int \<Rightarrow> mode \<Rightarrow> (routing_error, raw_route) result" where
  "route_fastest env post origin destination minutes m =
     post (build_request_body env origin destination minutes m ''fastest'' None 1)"

definition route_accessible :: "environ \<Rightarrow> (json \<Rightarrow> (routing_error, raw_route) result)
    \<Rightarrow> latlon \<Rightarrow> latlon option \<Rightarrow> int \<Rightarrow> mode \<Rightarrow> (routing_error, raw_route) result" where
  "route_accessible env post origin destination minutes m =
     post (build_request_body env origin destination minutes m ''accessible'' None 1)"

definition loop_returned_to_origin :: "raw_route \<Rightarrow> latlon \<Rightarrow> real \<Rightarrow> bool" where
  "loop_returned_to_origin r origin tolerance_m \<longleftrightarrow>
     closes_loop (origin # rr_points r @ [origin]) tolerance_m \<and> closes_loop (rr_points r) tolerance_m"

definition geometry_for_wire :: "raw_route \<Rightarrow> (real \<times> real) list" where
  "geometry_for_wire r = to_lonlat_pairs (rr_points r)"

section \<open>Place search\<close>

datatype geocode_error =
    GeocodeError (ge_message: string) (ge_status: int) (ge_retry_after: "int option")
  | GeocodeCrash py_error

record geocode_result =
  gr_name :: string
  gr_lat :: real
  gr_lon :: real

definition GEOCODE_RESULT_LIMIT :: nat where "GEOCODE_RESULT_LIMIT = 6"
definition GEOCODE_COORD_DECIMALS :: nat where "GEOCODE_COORD_DECIMALS = 6"

definition geocode_item :: "(json \<Rightarrow> string) \<Rightarrow> json \<Rightarrow> geocode_result list" where
  "geocode_item pystr item =
     (if \<not> (jhas ''display_name'' item \<and> jhas ''lat'' item \<and> jhas ''lon'' item) then []
      else case (json_float (jget ''lat'' item), json_float (jget ''lon'' item)) of
          (Inr la, Inr lo) \<Rightarrow>
            [\<lparr>gr_name = json_str pystr (jget ''display_name'' item),
              gr_lat = round_dec GEOCODE_COORD_DECIMALS la, gr_lon = round_dec GEOCODE_COORD_DECIMALS lo\<rparr>]
        | _ \<Rightarrow> [])"

definition retry_after_of :: "http_response \<Rightarrow> int" where
  "retry_after_of r =
     (let v = strip (case map_of (map (\<lambda>(k, v). (str_lower k, v)) (hr_headers r)) ''retry-after'' of
                       None \<Rightarrow> '''' | Some s \<Rightarrow> s)
      in if v \<noteq> [] \<and> list_all is_digit v then digits_value v else 60)"

definition geocode_search :: "(json \<Rightarrow> string) \<Rightarrow> (fetch_error, http_response) result
    \<Rightarrow> (geocode_error, geocode_result list) result" where
  "geocode_search pystr fetched =
     (case fetched of
        Inl (FixtureMissing s sig) \<Rightarrow> Inl (GeocodeError
          (''Place search is running from recorded fixtures and has none for that query. ''
           @ ''Type a coordinate, or use the locate button.'') 503 None)
      | Inl (BudgetExhausted s) \<Rightarrow> Inl (GeocodeError
          ''Place search has reached its budget for now. Please try again later.'' 503 None)
      | Inl ResponseTooLarge \<Rightarrow> Inl (GeocodeError (too_large_message ''nominatim'') 502 None)
      | Inl SecretLeaked \<Rightarrow> Inl (GeocodeCrash PyRuntimeError)
      | Inl (TransportError e) \<Rightarrow> Inl (GeocodeError ''Could not reach the place-search service.'' 502 None)
      | Inr r \<Rightarrow>
          if hr_status r = 429
          then Inl (GeocodeError ''Place search is busy. Please wait a moment and try again.'' 503
                 (Some (retry_after_of r)))
          else if 400 \<le> hr_status r
          then Inl (GeocodeError ''Place search failed. Please try again.'' 502 None)
          else case resp_json r of
              None \<Rightarrow> Inl (GeocodeError ''Place search returned something unreadable.'' 502 None)
            | Some payload \<Rightarrow>
                Inr (take GEOCODE_RESULT_LIMIT
                  (concat (map (geocode_item pystr) (if is_list payload then jlist payload else [])))))"

section \<open>What a parsed route guarantees\<close>

lemma greenness_note [simp]: "greenness clip (with_note n r) = greenness clip r"
  by (simp add: greenness_def with_note_def)

lemma within_cap_note [simp]: "within_cap fastest (with_note n r) = within_cap fastest r"
  by (simp add: within_cap_def with_note_def split: option.splits)

lemma beats_floor_note [simp]: "beats_floor (greenness clip) fastest (with_note n r) = beats_floor (greenness clip) fastest r"
  by (simp add: beats_floor_def split: option.splits)

lemma note_with_note [simp]: "rr_preset_note (with_note n r) = Some n"
  by (simp add: with_note_def)

lemma parse_points_length: "parse_points cs = Inr ps \<Longrightarrow> length ps = length cs"
  by (induction cs arbitrary: ps) (auto split: sum.splits)

lemma parse_spans_ne: "parse_spans pystr j = Some ss \<Longrightarrow> ss \<noteq> []"
  by (auto simp: parse_spans_def Let_def split: if_splits)

lemma parse_instruction_text: "s \<in> set (parse_instruction item) \<Longrightarrow> stp_text s \<noteq> []"
  unfolding parse_instruction_def by (cases "jget ''text'' item") (simp_all split: if_splits)

lemma parse_instructions_text: "s \<in> set (parse_instructions j) \<Longrightarrow> stp_text s \<noteq> []"
  by (auto simp: parse_instructions_def dest: parse_instruction_text split: if_splits)

definition well_formed_route :: "raw_route \<Rightarrow> bool" where
  "well_formed_route r \<longleftrightarrow>
     2 \<le> length (rr_points r)
     \<and> ((\<forall>p \<in> set (rr_points r). on_globe p) \<longrightarrow> 0 \<le> rr_distance_m r)
     \<and> (rr_elevations r = [] \<or> has_elevation r)
     \<and> (\<forall>k ss. rr_details r k = Some ss \<longrightarrow> ss \<noteq> [])
     \<and> (\<forall>s \<in> set (rr_steps r). stp_text s \<noteq> [])"

lemma parse_path_ok:
  assumes "parse_path pystr path m synthetic preset = Inr r"
  shows "well_formed_route r \<and> rr_preset_note r = None \<and> rr_mode r = m \<and> rr_preset r = preset
    \<and> rr_synthetic_upstream r = synthetic"
proof -
  have details: "ss \<noteq> []" if "parse_details pystr j k = Some ss" for j k ss
    using that parse_spans_ne by (auto simp: parse_details_def split: if_splits)
  show ?thesis
    using assms unfolding parse_path_def Let_def well_formed_route_def has_elevation_def
    by (auto dest: parse_points_length details parse_instructions_text
        simp: path_length_nonneg split: if_splits sum.splits)
qed

lemma post_route_parsed:
  assumes "post_route pystr sh m svc preset fetched = Inr r"
  obtains path synthetic where "parse_path pystr path m synthetic preset = Inr r"
  using assms
  by (auto simp: post_route_def Let_def split: sum.splits fetch_error.splits option.splits if_splits)

section \<open>What the scenic search guarantees\<close>

lemma judge_cases:
  "judge green loop minutes fastest r s =
     (if within_cap fastest r \<and> beats_floor green fastest r
      then (fst s @ [(merit green loop minutes r, r)], snd s)
      else (fst s, snd (judge green loop minutes fastest r s)))"
  by (simp add: judge_def Let_def)

text \<open>What a scan has seen: every entry is a candidate with its merit, on the side it belongs to.\<close>

definition scan_ok :: "(raw_route \<Rightarrow> real) \<Rightarrow> bool \<Rightarrow> int \<Rightarrow> raw_route option \<Rightarrow> raw_route set \<Rightarrow> scan \<Rightarrow> bool" where
  "scan_ok green loop minutes fastest C s \<longleftrightarrow>
     (\<forall>(v, r) \<in> set (fst s). r \<in> C \<and> v = merit green loop minutes r
        \<and> within_cap fastest r \<and> beats_floor green fastest r)
   \<and> (\<forall>v r. snd s = Some (v, r) \<longrightarrow> r \<in> C \<and> v = merit green loop minutes r
        \<and> \<not> (within_cap fastest r \<and> beats_floor green fastest r))"

lemma scan_ok_start [simp]: "scan_ok green loop minutes fastest C ([], None)"
  by (simp add: scan_ok_def)

lemma judge_ok:
  "\<lbrakk> scan_ok green loop minutes fastest C s; r \<in> C \<rbrakk>
   \<Longrightarrow> scan_ok green loop minutes fastest C (judge green loop minutes fastest r s)"
  unfolding judge_def Let_def scan_ok_def by (auto split: option.splits)

lemma judge_all_ok:
  "\<lbrakk> scan_ok green loop minutes fastest C s; set rs \<subseteq> C \<rbrakk>
   \<Longrightarrow> scan_ok green loop minutes fastest C (foldl (\<lambda>s r. judge green loop minutes fastest r s) s rs)"
  by (induction rs arbitrary: s) (auto simp: judge_ok)

lemma judge_all_accepts:
  "fst (foldl (\<lambda>s r. judge green loop minutes fastest r s) s rs)
   = fst s @ map (\<lambda>r. (merit green loop minutes r, r))
       (filter (\<lambda>r. within_cap fastest r \<and> beats_floor green fastest r) rs)"
proof (induction rs arbitrary: s)
  case (Cons r rs)
  show ?case unfolding foldl_Cons Cons.IH by (subst judge_cases) auto
qed simp

lemma set_successes: "set (successes os) = {r. Inr r \<in> set os}"
  by (induction os rule: successes.induct) auto

lemma scan_all_result:
  assumes "scan_all green loop minutes fastest os = Inr s"
  shows "s = foldl (\<lambda>s r. judge green loop minutes fastest r s) ([], None) (successes os)"
  using assms by (auto simp: scan_all_def split: list.splits sum.splits)

lemma scan_all_ok:
  "scan_all green loop minutes fastest os = Inr s \<Longrightarrow> scan_ok green loop minutes fastest {r. Inr r \<in> set os} s"
  by (auto dest!: scan_all_result intro!: judge_all_ok simp: set_successes)

lemma scan_metered_ok:
  "\<lbrakk> scan_metered green loop minutes fastest os s = Inr s'; scan_ok green loop minutes fastest C s;
     {r. Inr r \<in> set os} \<subseteq> C \<rbrakk> \<Longrightarrow> scan_ok green loop minutes fastest C s'"
proof (induction green loop minutes fastest os s rule: scan_metered.induct)
  case (3 green loop minutes fastest r rs s)
  let ?s = "judge green loop minutes fastest r s"
  have ok: "scan_ok green loop minutes fastest C ?s" using 3 by (auto intro: judge_ok)
  show ?case
  proof (cases "fst ?s = []")
    case True
    with 3 ok show ?thesis by (auto simp: Let_def)
  next
    case False
    with 3 ok show ?thesis by (simp add: Let_def)
  qed
qed auto

lemma pick_scenic_cases:
  assumes ok: "scan_ok (greenness clip) loop minutes fastest C s" and r: "pick_scenic loop minutes fastest s = Some r"
    and fresh: "\<forall>c \<in> C. rr_preset_note c = None"
  obtains c where "c \<in> C" "r = c \<or> (\<exists>n. r = with_note n c)"
    "if rr_preset_note r = Some no_better_note
     then within_cap fastest c \<and> \<not> beats_floor (greenness clip) fastest c
     else if rr_preset_note r = Some over_cap_note then \<not> within_cap fastest c
     else within_cap fastest c \<and> beats_floor (greenness clip) fastest c"
proof (cases "fst s = []")
  case True
  obtain v c where f: "snd s = Some (v, c)" using r True by (auto simp: pick_scenic_def split: option.splits)
  have "r = with_note (if within_cap fastest c then no_better_note else over_cap_note) c"
    using r True f by (simp add: pick_scenic_def)
  moreover have "c \<in> C" "\<not> (within_cap fastest c \<and> beats_floor (greenness clip) fastest c)"
    using ok f by (auto simp: scan_ok_def)
  moreover have "no_better_note \<noteq> over_cap_note" by (simp add: no_better_note_def over_cap_note_def)
  ultimately show ?thesis by (intro that [of c]) auto
next
  case False
  let ?c = "snd (hd (sort_desc fst (fst s)))"
  have "hd (sort_desc fst (fst s)) \<in> set (fst s)" by (rule sort_desc_hd_in [OF False])
  then have c: "?c \<in> C" "within_cap fastest ?c \<and> beats_floor (greenness clip) fastest ?c"
    using ok by (auto simp: scan_ok_def)
  have differ: "undershoot_note \<noteq> no_better_note" "undershoot_note \<noteq> over_cap_note"
    "UNCOMPARED_NOTE \<noteq> no_better_note" "UNCOMPARED_NOTE \<noteq> over_cap_note"
    by (simp_all add: undershoot_note_def no_better_note_def over_cap_note_def UNCOMPARED_NOTE_def)
  have "r = with_note undershoot_note ?c \<or> r = with_note UNCOMPARED_NOTE ?c \<or> r = ?c"
    using r False by (auto simp: pick_scenic_def Let_def split: if_splits)
  then show ?thesis using c fresh differ by (intro that [of ?c]) auto
qed

lemma merit_note [simp]:
  "merit (greenness clip) loop minutes (with_note n r) = merit (greenness clip) loop minutes r"
  by (simp add: merit_def) (simp add: with_note_def)

lemma scan_metered_nonempty:
  "\<lbrakk> scan_metered green loop minutes fastest os s = Inr s'; os \<noteq> [] \<or> fst s \<noteq> [] \<or> snd s \<noteq> None \<rbrakk>
   \<Longrightarrow> fst s' \<noteq> [] \<or> snd s' \<noteq> None"
proof (induction green loop minutes fastest os s rule: scan_metered.induct)
  case (3 green loop minutes fastest r rs s)
  have "fst (judge green loop minutes fastest r s) \<noteq> [] \<or> snd (judge green loop minutes fastest r s) \<noteq> None"
    by (auto simp: judge_def Let_def split: option.splits)
  with 3 show ?case by (auto simp: Let_def split: if_splits)
qed auto

lemma judge_all_nonempty:
  "rs \<noteq> [] \<or> fst s \<noteq> [] \<or> snd s \<noteq> None \<Longrightarrow>
   fst (foldl (\<lambda>s r. judge green loop minutes fastest r s) s rs) \<noteq> []
   \<or> snd (foldl (\<lambda>s r. judge green loop minutes fastest r s) s rs) \<noteq> None"
proof (induction rs arbitrary: s)
  case (Cons r rs)
  have "fst (judge green loop minutes fastest r s) \<noteq> [] \<or> snd (judge green loop minutes fastest r s) \<noteq> None"
    by (auto simp: judge_def Let_def split: option.splits)
  then show ?case unfolding foldl_Cons by (intro Cons.IH) blast
qed auto

lemma scan_all_nonempty:
  assumes "scan_all green loop minutes fastest os = Inr s" and "os \<noteq> []"
  shows "fst s \<noteq> [] \<or> snd s \<noteq> None"
proof (cases "successes os")
  case Nil
  with assms obtain o' os' where "os = o' # os'" "scan_all green loop minutes fastest os = Inr s"
    by (cases os) auto
  with Nil show ?thesis by (cases o') (auto simp: scan_all_def)
next
  case (Cons r rs)
  then show ?thesis using scan_all_result [OF assms(1)] judge_all_nonempty [of "r # rs" "([], None)"] by simp
qed

lemma pick_scenic_some: "fst s \<noteq> [] \<or> snd s \<noteq> None \<Longrightarrow> pick_scenic loop minutes fastest s \<noteq> None"
  by (auto simp: pick_scenic_def Let_def split: option.splits)

lemma scenic_candidates_ne [simp]: "scenic_candidates unmetered loop \<noteq> []"
  by (simp add: scenic_candidates_def SCENIC_LOOP_CANDIDATES_def SCENIC_DISTANCE_INFLUENCE_LADDER_def)

text \<open>The outcomes of the candidate requests.\<close>

definition scenic_outcomes :: "environ \<Rightarrow> (json \<Rightarrow> (routing_error, raw_route) result)
    \<Rightarrow> latlon \<Rightarrow> latlon option \<Rightarrow> int \<Rightarrow> mode \<Rightarrow> (routing_error, raw_route) result list" where
  "scenic_outcomes env post origin destination minutes m =
     map (\<lambda>(i, x). post (build_request_body env origin destination minutes m ''scenic'' (Some i) x))
       (scenic_candidates (graphhopper_is_self_hosted env) (destination = None))"

lemma scenic_outcomes_ne [simp]: "scenic_outcomes env post origin destination minutes m \<noteq> []"
  by (simp add: scenic_outcomes_def)

lemma route_scenic_outcomes:
  "route_scenic env clip post origin destination minutes m fastest =
     (case (if graphhopper_is_self_hosted env
            then scan_all (greenness clip) (destination = None) minutes fastest
                   (scenic_outcomes env post origin destination minutes m)
            else scan_metered (greenness clip) (destination = None) minutes fastest
                   (scenic_outcomes env post origin destination minutes m) ([], None)) of
        Inl e \<Rightarrow> Inl e
      | Inr s \<Rightarrow> Inr (pick_scenic (destination = None) minutes fastest s))"
  unfolding route_scenic_def scenic_outcomes_def Let_def by (rule refl)

text \<open>
  The assertion at the end of route_scenic, that at least one candidate always runs, never fires:
  the scenic search either raises a routing error or returns a route.
\<close>

theorem scenic_always_has_a_candidate:
  "route_scenic env clip post origin destination minutes m fastest \<noteq> Inr None"
  unfolding route_scenic_outcomes
  by (auto split: sum.splits if_splits dest!: scan_all_nonempty scan_metered_nonempty pick_scenic_some)

lemma scenic_promise:
  assumes "route_scenic env clip post origin destination minutes m fastest = Inr (Some r)"
    and "\<And>body c. post body = Inr c \<Longrightarrow> rr_preset_note c = None"
  shows "(if rr_preset_note r = Some no_better_note
      then within_cap fastest r \<and> \<not> beats_floor (greenness clip) fastest r
      else if rr_preset_note r = Some over_cap_note then \<not> within_cap fastest r
      else within_cap fastest r \<and> beats_floor (greenness clip) fastest r)
   \<and> (\<exists>body c n. post body = Inr c \<and> (r = c \<or> r = with_note n c))"
proof -
  define C where "C = {r. Inr r \<in> set (scenic_outcomes env post origin destination minutes m)}"
  obtain s where ok: "scan_ok (greenness clip) (destination = None) minutes fastest C s"
      and r: "pick_scenic (destination = None) minutes fastest s = Some r"
    using assms(1) unfolding route_scenic_outcomes C_def
    by (auto split: sum.splits if_splits dest: scan_all_ok scan_metered_ok [OF _ _ order.refl])
  have C: "\<exists>body. post body = Inr c" "rr_preset_note c = None" if c: "c \<in> C" for c
    using c assms(2) by (auto simp: C_def scenic_outcomes_def)
  obtain c where c: "c \<in> C" "r = c \<or> (\<exists>n. r = with_note n c)"
    "if rr_preset_note r = Some no_better_note
     then within_cap fastest c \<and> \<not> beats_floor (greenness clip) fastest c
     else if rr_preset_note r = Some over_cap_note then \<not> within_cap fastest c
     else within_cap fastest c \<and> beats_floor (greenness clip) fastest c"
    by (rule pick_scenic_cases [OF ok r]) (use C(2) in auto)
  have "within_cap fastest r = within_cap fastest c" "beats_floor (greenness clip) fastest r = beats_floor (greenness clip) fastest c"
    using c(2) by auto
  moreover have "\<exists>body c n. post body = Inr c \<and> (r = c \<or> r = with_note n c)" using C(1) [OF c(1)] c(2) by blast
  ultimately show ?thesis using c(3) by simp
qed

text \<open>The note of a scenic route, from the candidate it was made of.\<close>

definition scenic_note :: "(raw_route \<Rightarrow> real) \<Rightarrow> bool \<Rightarrow> int \<Rightarrow> raw_route option \<Rightarrow> raw_route \<Rightarrow> string option" where
  "scenic_note green loop minutes fastest c =
     (if \<not> within_cap fastest c then Some over_cap_note
      else if \<not> beats_floor green fastest c then Some no_better_note
      else if loop \<and> 0 < minutes \<and> rr_duration_min c < of_int minutes * SCENIC_BUDGET_UNDERSHOOT then Some undershoot_note
      else if fastest = None then Some UNCOMPARED_NOTE else None)"

lemma pick_scenic_note:
  assumes ok: "scan_ok (greenness clip) loop minutes fastest C s" and r: "pick_scenic loop minutes fastest s = Some r"
    and fresh: "\<forall>c \<in> C. rr_preset_note c = None"
  obtains c where "c \<in> C" "r = c \<or> (\<exists>n. r = with_note n c)"
    "rr_preset_note r = scenic_note (greenness clip) loop minutes fastest c"
proof (cases "fst s = []")
  case True
  obtain v c where f: "snd s = Some (v, c)" using r True by (auto simp: pick_scenic_def split: option.splits)
  have "r = with_note (if within_cap fastest c then no_better_note else over_cap_note) c"
    using r True f by (simp add: pick_scenic_def)
  moreover have "c \<in> C" "\<not> (within_cap fastest c \<and> beats_floor (greenness clip) fastest c)"
    using ok f by (auto simp: scan_ok_def)
  ultimately show ?thesis by (intro that [of c]) (auto simp: scenic_note_def)
next
  case False
  let ?c = "snd (hd (sort_desc fst (fst s)))"
  have "hd (sort_desc fst (fst s)) \<in> set (fst s)" by (rule sort_desc_hd_in [OF False])
  then have c: "?c \<in> C" "within_cap fastest ?c" "beats_floor (greenness clip) fastest ?c"
    using ok by (auto simp: scan_ok_def)
  then show ?thesis using r False fresh
    by (intro that [of ?c]) (auto simp: pick_scenic_def scenic_note_def Let_def split: if_splits)
qed

lemma scenic_comes_from_a_candidate:
  assumes "route_scenic env clip post origin destination minutes m fastest = Inr (Some r)"
    and "\<And>body c. post body = Inr c \<Longrightarrow> rr_preset_note c = None"
  obtains i x c where "(i, x) \<in> set (scenic_candidates (graphhopper_is_self_hosted env) (destination = None))"
    "post (build_request_body env origin destination minutes m ''scenic'' (Some i) x) = Inr c"
    "r = c \<or> (\<exists>n. r = with_note n c)"
    "rr_preset_note r = scenic_note (greenness clip) (destination = None) minutes fastest c"
proof -
  define C where "C = {r. Inr r \<in> set (scenic_outcomes env post origin destination minutes m)}"
  obtain s where ok: "scan_ok (greenness clip) (destination = None) minutes fastest C s"
      and r: "pick_scenic (destination = None) minutes fastest s = Some r"
    using assms(1) unfolding route_scenic_outcomes C_def
    by (auto split: sum.splits if_splits dest: scan_all_ok scan_metered_ok [OF _ _ order.refl])
  have fresh: "\<forall>c \<in> C. rr_preset_note c = None" using assms(2) by (auto simp: C_def scenic_outcomes_def)
  obtain c where c: "c \<in> C" "r = c \<or> (\<exists>n. r = with_note n c)"
    "rr_preset_note r = scenic_note (greenness clip) (destination = None) minutes fastest c"
    by (rule pick_scenic_note [OF ok r fresh])
  then have "Inr c \<in> set (scenic_outcomes env post origin destination minutes m)" by (simp add: C_def)
  then obtain i x where "(i, x) \<in> set (scenic_candidates (graphhopper_is_self_hosted env) (destination = None))"
    "post (build_request_body env origin destination minutes m ''scenic'' (Some i) x) = Inr c"
    unfolding scenic_outcomes_def by (auto split: prod.splits)
  then show ?thesis using c(2,3) by (rule that)
qed

lemma duration_note [simp]: "rr_duration_min (with_note n r) = rr_duration_min r"
  by (simp add: with_note_def)

lemma scenic_notes_differ:
  "distinct [undershoot_note, no_better_note, over_cap_note, UNCOMPARED_NOTE]"
  by (simp add: undershoot_note_def no_better_note_def over_cap_note_def UNCOMPARED_NOTE_def)

text \<open>
  C8 The scenic preset keeps the promise its label makes. Whatever it returns is a route the router
  gave for one of the candidates it asks for, well formed and unchanged but for the note. When there
  is a fastest route to compare with, one of three things holds, each exactly when the note says so:
  the route takes more than 1.6 times the fastest route's time and apologises for being longer; it is
  inside that time but no greener, greenness being the score the card shows, CLIP term included, and
  apologises for being much the same way; or it is inside that time and strictly greener and carries
  no apology, at most the remark that it is much shorter than asked for. When there is none to compare
  with, neither apology is made and the note says that no comparison was possible, unless the remark
  takes its place. That remark is made only of a round trip that falls short of the undershoot.
\<close>

theorem scenic_keeps_its_promise:
  assumes "route_scenic env clip (\<lambda>body. post_route pystr hosted m svc ''scenic'' (answer body))
      origin destination minutes m fastest = Inr (Some r)"
  shows "(\<exists>(i, x) \<in> set (scenic_candidates (graphhopper_is_self_hosted env) (destination = None)). \<exists>c.
        post_route pystr hosted m svc ''scenic'' (answer (build_request_body env origin destination minutes m ''scenic'' (Some i) x)) = Inr c
        \<and> (r = c \<or> (\<exists>n. r = with_note n c)))
   \<and> well_formed_route r
   \<and> (case fastest of
        Some f \<Rightarrow>
          (rr_preset_note r = Some over_cap_note \<longleftrightarrow> rr_duration_min f * 1.6 < rr_duration_min r)
        \<and> (rr_preset_note r = Some no_better_note \<longleftrightarrow>
             rr_duration_min r \<le> rr_duration_min f * 1.6 \<and> greenness clip r \<le> greenness clip f)
        \<and> (rr_preset_note r \<in> {None, Some undershoot_note} \<longleftrightarrow>
             rr_duration_min r \<le> rr_duration_min f * 1.6 \<and> greenness clip f < greenness clip r)
      | None \<Rightarrow> rr_preset_note r \<in> {Some UNCOMPARED_NOTE, Some undershoot_note})
   \<and> (rr_preset_note r = Some undershoot_note \<longrightarrow>
        destination = None \<and> rr_duration_min r < of_int minutes * SCENIC_BUDGET_UNDERSHOOT)"
proof -
  let ?post = "\<lambda>body. post_route pystr hosted m svc ''scenic'' (answer body)"
  have parsed: "well_formed_route c \<and> rr_preset_note c = None" if "?post body = Inr c" for body c
    using that by (auto elim!: post_route_parsed dest: parse_path_ok)
  obtain i x c where c: "(i, x) \<in> set (scenic_candidates (graphhopper_is_self_hosted env) (destination = None))"
    "?post (build_request_body env origin destination minutes m ''scenic'' (Some i) x) = Inr c"
    "r = c \<or> (\<exists>n. r = with_note n c)"
    "rr_preset_note r = scenic_note (greenness clip) (destination = None) minutes fastest c"
    by (rule scenic_comes_from_a_candidate [OF assms]) (use parsed in auto)
  have same: "rr_duration_min c = rr_duration_min r" "greenness clip c = greenness clip r" using c(3) by auto
  have "well_formed_route (with_note n c) = well_formed_route c" for n
    by (simp add: well_formed_route_def has_elevation_def with_note_def)
  then have wf: "well_formed_route r" using parsed [OF c(2)] c(3) by auto
  have promise: "case fastest of
        Some f \<Rightarrow>
          (rr_preset_note r = Some over_cap_note \<longleftrightarrow> rr_duration_min f * 1.6 < rr_duration_min r)
        \<and> (rr_preset_note r = Some no_better_note \<longleftrightarrow>
             rr_duration_min r \<le> rr_duration_min f * 1.6 \<and> greenness clip r \<le> greenness clip f)
        \<and> (rr_preset_note r \<in> {None, Some undershoot_note} \<longleftrightarrow>
             rr_duration_min r \<le> rr_duration_min f * 1.6 \<and> greenness clip f < greenness clip r)
      | None \<Rightarrow> rr_preset_note r \<in> {Some UNCOMPARED_NOTE, Some undershoot_note}"
    using c(4) scenic_notes_differ same
    by (cases fastest) (auto simp: scenic_note_def within_cap_def beats_floor_def SCENIC_DURATION_CAP_def)
  have "rr_preset_note r = Some undershoot_note \<longrightarrow>
        destination = None \<and> rr_duration_min r < of_int minutes * SCENIC_BUDGET_UNDERSHOOT"
    using c(4) scenic_notes_differ same by (auto simp: scenic_note_def split: if_splits)
  then show ?thesis using c(1,2,3) wf promise by (intro conjI) (auto intro!: bexI [of _ "(i, x)"])
qed

text \<open>An answer with one path of two points, and a baseline of the given duration.\<close>

definition two_points :: "real \<Rightarrow> http_response" where
  "two_points minutes = \<lparr>hr_status = 200, hr_headers = [], hr_body = BJson (JObj [(''paths'', JList [JObj
     [(''points'', JObj [(''coordinates'', JList [JList [JNum 0, JNum 0], JList [JNum 0, JNum 1]])]),
      (''distance'', JNum 1000), (''time'', JNum (60000 * minutes))]])])\<rparr>"

definition walk :: "real \<Rightarrow> string \<Rightarrow> raw_route" where
  "walk minutes preset = \<lparr>rr_points = [LatLon 0 0, LatLon 1 0], rr_distance_m = 1000, rr_duration_min = minutes,
     rr_mode = Foot, rr_elevations = [], rr_details = (\<lambda>k. None), rr_steps = [],
     rr_synthetic_upstream = False, rr_preset = preset, rr_preset_note = None\<rparr>"

lemma two_points_walk:
  "minutes \<noteq> 0 \<Longrightarrow> post_route pystr hosted Foot svc preset (Inr (two_points minutes)) = Inr (walk minutes preset)"
  by (simp add: post_route_def two_points_def resp_json_def jor_def parse_path_def from_post_point_def
    parse_elevations_def parse_details_def parse_instructions_def is_synthetic_def provenance_of_def
    PROVENANCE_LIVE_def PROVENANCE_SYNTHETIC_def walk_def Let_def fun_eq_iff)

lemma duration_walk [simp]: "rr_duration_min (walk minutes preset) = minutes"
  "rr_preset_note (walk minutes preset) = None"
  by (simp_all add: walk_def)

lemma empty_env_not_self_hosted: "\<not> graphhopper_is_self_hosted Map.empty"
  by (simp add: graphhopper_is_self_hosted_def hostname_looks_self_hosted_def stripped_def sniffed_host_def
      endpoint_host_def GRAPHHOPPER_URL_def get_or_def split1_first_def split1_last_def LOOPBACK_HOSTS_def
      ends_with_def py_defs Let_def)

lemma over_cap_run:
  "route_scenic Map.empty clip (\<lambda>body. post_route pystr hosted Foot svc ''scenic'' (Inr (two_points 60)))
     origin (Some d) 30 Foot (Some (walk 20 ''fastest'')) = Inr (Some (with_note over_cap_note (walk 60 ''scenic'')))"
  by (simp add: route_scenic_def empty_env_not_self_hosted two_points_walk scenic_candidates_def Let_def
    SCENIC_DISTANCE_INFLUENCE_LADDER_def judge_def within_cap_def SCENIC_DURATION_CAP_def pick_scenic_def)

lemma scenic_keeps_its_promise_witness:
  "rr_duration_min (walk 20 ''fastest'') * 1.6 < rr_duration_min (with_note over_cap_note (walk 60 ''scenic''))
   \<and> (\<exists>c. post_route (\<lambda>_. '''') False Foot ''graphhopper'' ''scenic'' (Inr (two_points 60)) = Inr c
        \<and> (with_note over_cap_note (walk 60 ''scenic'') = c \<or> (\<exists>n. with_note over_cap_note (walk 60 ''scenic'') = with_note n c)))"
proof -
  have "rr_preset_note (with_note over_cap_note (walk 60 ''scenic'')) = Some over_cap_note" by simp
  then show ?thesis using scenic_keeps_its_promise
      [where answer = "\<lambda>_. Inr (two_points 60)" and clip = "\<lambda>_. None" and pystr = "\<lambda>_. ''''" and hosted = False
        and svc = "''graphhopper''" and m = Foot, OF over_cap_run]
    by auto
qed

lemma pick_scenic_accepted:
  "fst s \<noteq> [] \<Longrightarrow> \<exists>r. pick_scenic loop minutes fastest s = Some r
     \<and> (r = snd (hd (sort_desc fst (fst s))) \<or> (\<exists>n. r = with_note n (snd (hd (sort_desc fst (fst s))))))"
  by (simp add: pick_scenic_def Let_def) blast

text \<open>
  C18 Against a router that charges nothing, the scenic search misses nothing it asked for: when any
  candidate clears both bars, the route returned clears both bars too and its merit, 60% greenness
  and 40% budget fit on a round trip and greenness alone on a trip with a destination, is at least
  that candidate's. A candidate that fails does not lose the others.
\<close>

theorem scenic_picks_the_best_candidate:
  assumes "graphhopper_is_self_hosted env"
    and "(i, x) \<in> set (scenic_candidates True (destination = None))"
    and "post (build_request_body env origin destination minutes m ''scenic'' (Some i) x) = Inr c"
    and "within_cap fastest c" and "beats_floor (greenness clip) fastest c"
  shows "\<exists>r. route_scenic env clip post origin destination minutes m fastest = Inr (Some r)
    \<and> within_cap fastest r \<and> beats_floor (greenness clip) fastest r
    \<and> merit (greenness clip) (destination = None) minutes c \<le> merit (greenness clip) (destination = None) minutes r"
proof -
  let ?os = "scenic_outcomes env post origin destination minutes m"
  let ?mer = "merit (greenness clip) (destination = None) minutes"
  have cin: "Inr c \<in> set ?os" using assms(1-3) by (force simp: scenic_outcomes_def)
  then have ne: "successes ?os \<noteq> []" using set_successes [of ?os] by auto
  define s where "s = foldl (\<lambda>s r. judge (greenness clip) (destination = None) minutes fastest r s) ([], None) (successes ?os)"
  have scan: "scan_all (greenness clip) (destination = None) minutes fastest ?os = Inr s"
    using ne by (auto simp: scan_all_def s_def split: list.splits)
  have fst_s: "fst s = map (\<lambda>r. (?mer r, r))
      (filter (\<lambda>r. within_cap fastest r \<and> beats_floor (greenness clip) fastest r) (successes ?os))"
    by (simp add: s_def judge_all_accepts)
  have mem: "(?mer c, c) \<in> set (fst s)" using cin assms(4,5) by (auto simp: fst_s set_successes)
  let ?b = "hd (sort_desc fst (fst s))"
  have "?b \<in> set (fst s)" using mem by (intro sort_desc_hd_in) auto
  then have b: "within_cap fastest (snd ?b)" "beats_floor (greenness clip) fastest (snd ?b)" "fst ?b = ?mer (snd ?b)"
    by (auto simp: fst_s)
  have "?mer c \<le> ?mer (snd ?b)" using sort_desc_hd_max [OF mem, of fst] b(3) by simp
  moreover obtain r where "pick_scenic (destination = None) minutes fastest s = Some r"
      "r = snd ?b \<or> (\<exists>n. r = with_note n (snd ?b))"
    using mem pick_scenic_accepted [of s] by (metis empty_iff empty_set)
  ultimately show ?thesis using b scan assms(1) by (auto simp: route_scenic_outcomes)
qed

lemma scenic_picks_the_best_candidate_witness:
  "\<exists>r. route_scenic local_env (\<lambda>_. None) (\<lambda>body. Inr (walk 30 ''scenic'')) (LatLon 0 0) None 30 Foot None
     = Inr (Some r)"
  using scenic_picks_the_best_candidate [of local_env 20 1 None
      "\<lambda>body. Inr (walk 30 ''scenic'')" "LatLon 0 0" 30 Foot
      "walk 30 ''scenic''" None "\<lambda>_. None"] local_self_hosted
  by (auto simp: scenic_candidates_def SCENIC_LOOP_CANDIDATES_def within_cap_def beats_floor_def)

text \<open>
  When nothing clears both bars, the code means to prefer a route that fits the cap and to show
  the shortest one, and says so. It does not: the first candidate is kept unless a later one inside
  the cap has strictly more merit, so a route over the cap is returned, called "the shortest one
  that is meaningfully better", although a shorter route inside the cap was in hand.
\<close>

theorem fallback_can_be_the_longer_route:
  assumes "\<not> within_cap (Some f) a" and "within_cap (Some f) b" and "\<not> beats_floor green (Some f) b"
    and "merit green loop minutes b \<le> merit green loop minutes a"
  shows "\<exists>s. scan_all green loop minutes (Some f) [Inr a, Inr b] = Inr s
    \<and> pick_scenic loop minutes (Some f) s = Some (with_note over_cap_note a)
    \<and> rr_duration_min b < rr_duration_min a"
  using assms by (auto simp: scan_all_def judge_def pick_scenic_def Let_def within_cap_def)

lemma greenness_walk: "greenness clip (walk minutes preset) = greenness clip (walk 0 '''')"
  by (simp add: greenness_def walk_def)

lemma fallback_can_be_the_longer_route_witness:
  "\<exists>s. scan_all (greenness (\<lambda>_. None)) False 30 (Some (walk 20 ''fastest''))
      [Inr (walk 60 ''scenic''), Inr (walk 20 ''scenic'')] = Inr s
    \<and> pick_scenic False 30 (Some (walk 20 ''fastest'')) s = Some (with_note over_cap_note (walk 60 ''scenic''))"
  using fallback_can_be_the_longer_route [of "walk 20 ''fastest''" "walk 60 ''scenic''" "walk 20 ''scenic''"
      "greenness (\<lambda>_. None)" False 30]
  by (auto simp: within_cap_def SCENIC_DURATION_CAP_def beats_floor_def merit_def
    greenness_walk [of _ 20] greenness_walk [of _ 60])

section \<open>The other presets, errors, place search\<close>

lemma preference_metered_ok:
  "\<lbrakk> preference_metered minutes os scored = Inr scored'; os \<noteq> [] \<or> scored \<noteq> [] \<rbrakk> \<Longrightarrow> scored' \<noteq> []
   \<and> set scored' \<subseteq> set scored \<union> {(budget_fit (rr_duration_min r) minutes, r) |r. Inr r \<in> set os}"
proof (induction minutes os scored rule: preference_metered.induct)
  case (3 minutes r rs scored)
  then show ?case by (fastforce simp: Let_def split: if_splits)
qed auto

lemma preference_unmetered_ok:
  assumes "preference_unmetered minutes os = Inr scored" and "os \<noteq> []"
  shows "scored \<noteq> [] \<and> set scored = {(budget_fit (rr_duration_min r) minutes, r) |r. Inr r \<in> set os}"
proof -
  have "successes os \<noteq> []"
    using assms by (cases os; cases "hd os") (auto simp: preference_unmetered_def split: list.splits)
  moreover from this have "scored = map (\<lambda>r. (budget_fit (rr_duration_min r) minutes, r)) (successes os)"
    using assms by (auto simp: preference_unmetered_def split: list.splits)
  ultimately show ?thesis by (auto simp: set_successes)
qed

lemma preference_note_prefix: "\<exists>more. preference_note preset minutes r = preset_note preset @ more"
  by (auto simp: preference_note_def)

text \<open>
  A round trip by preference is the closest fit to the time asked for: against a router that
  charges nothing, every loop scale is tried, a failing one loses only itself, and no candidate
  fits the budget better than the one returned. Its note opens with the preset's own caveat, and
  names the budget only when it was missed.
\<close>

theorem preference_is_the_closest_fit:
  assumes "graphhopper_is_self_hosted env"
    and "route_preference env post preset origin None minutes m = Inr r"
  shows "\<exists>x \<in> set PREFERENCE_LOOP_SCALES. \<exists>c.
      post (build_request_body env origin None minutes m preset None x) = Inr c
    \<and> r = with_note (preference_note preset minutes c) c
    \<and> (\<forall>y \<in> set PREFERENCE_LOOP_SCALES. \<forall>c'.
         post (build_request_body env origin None minutes m preset None y) = Inr c'
         \<longrightarrow> budget_fit (rr_duration_min c') minutes \<le> budget_fit (rr_duration_min c) minutes)
    \<and> (\<exists>more. rr_preset_note r = Some (preset_note preset @ more))"
proof -
  let ?os = "map (\<lambda>x. post (build_request_body env origin None minutes m preset None x)) PREFERENCE_LOOP_SCALES"
  have "?os \<noteq> []" by (simp add: PREFERENCE_LOOP_SCALES_def)
  moreover obtain scored where sc: "preference_unmetered minutes ?os = Inr scored"
      and r: "r = with_note (preference_note preset minutes (snd (hd (sort_desc fst scored)))) (snd (hd (sort_desc fst scored)))"
    using assms by (auto simp: route_preference_def Let_def split: sum.splits)
  ultimately have ne: "scored \<noteq> []"
      and set: "set scored = {(budget_fit (rr_duration_min r) minutes, r) |r. Inr r \<in> set ?os}"
    using preference_unmetered_ok by blast+
  let ?b = "hd (sort_desc fst scored)"
  have b: "?b \<in> set scored" by (rule sort_desc_hd_in [OF ne])
  then obtain x where x: "x \<in> set PREFERENCE_LOOP_SCALES"
      "post (build_request_body env origin None minutes m preset None x) = Inr (snd ?b)"
      "fst ?b = budget_fit (rr_duration_min (snd ?b)) minutes"
    by (auto simp: set)
  have "budget_fit (rr_duration_min c') minutes \<le> budget_fit (rr_duration_min (snd ?b)) minutes"
    if "y \<in> set PREFERENCE_LOOP_SCALES" "post (build_request_body env origin None minutes m preset None y) = Inr c'" for y c'
  proof -
    have "(budget_fit (rr_duration_min c') minutes, c') \<in> set scored" using that by (force simp: set)
    from sort_desc_hd_max [OF this, of fst] x(3) show ?thesis by simp
  qed
  with x r preference_note_prefix show ?thesis by (intro bexI [of _ x] exI [of _ "snd ?b"]) auto
qed

lemma preference_is_the_closest_fit_witness:
  "\<exists>x \<in> set PREFERENCE_LOOP_SCALES. \<exists>c. with_note (preset_note ''quiet'') (walk 30 ''quiet'')
     = with_note (preference_note ''quiet'' 30 c) c"
proof -
  have run: "route_preference local_env (\<lambda>body. Inr (walk 30 ''quiet'')) ''quiet'' (LatLon 0 0) None 30 Foot
      = Inr (with_note (preset_note ''quiet'') (walk 30 ''quiet''))"
    by (simp add: route_preference_def local_self_hosted preference_unmetered_def PREFERENCE_LOOP_SCALES_def
      sort_desc_def preference_note_def PREFERENCE_BUDGET_OVERSHOOT_def SCENIC_BUDGET_UNDERSHOOT_def Let_def)
  show ?thesis using preference_is_the_closest_fit [OF local_self_hosted run] by blast
qed

text \<open>Every sentence this module can put in front of a reader when routing fails.\<close>

definition routing_sentences :: "string \<Rightarrow> string list" where
  "routing_sentences service =
     [flexible_message, mode_unavailable_message, refused_message, key_rejected_message,
      over_quota_message, not_snappable_message, no_connection_message,
      upstream_failed_message, no_fixture_message, routing_budget_message,
      unreachable_message, unreadable_message, no_paths_message,
      no_shape_message,
      too_large_message service]"

definition is_crash :: "routing_error \<Rightarrow> bool" where
  "is_crash e = (case e of Crash _ \<Rightarrow> True | _ \<Rightarrow> False)"

definition written_error :: "string \<Rightarrow> routing_error \<Rightarrow> bool" where
  "written_error service e \<longleftrightarrow>
     is_crash e \<or> (re_message e \<in> set (routing_sentences service) \<and> error_status e \<in> {422, 502, 503})"

lemma shape_message_written: "written_error service (shape_message self_hosted status message)"
  unfolding shape_message_def Let_def
  by (simp only: written_error_def routing_sentences_def list.set insert_iff split: if_split) simp

lemma parse_path_written: "parse_path pystr path m synthetic preset = Inl e \<Longrightarrow> written_error service e"
  unfolding parse_path_def Let_def
  by (auto simp: written_error_def is_crash_def routing_sentences_def split: if_splits sum.splits)

lemma shape_upstream_written: "written_error service (shape_upstream_error pystr self_hosted r)"
proof (cases "upstream_message pystr r")
  case (Inl e)
  then show ?thesis by (simp add: shape_upstream_error_def written_error_def is_crash_def)
next
  case (Inr msg)
  then show ?thesis by (simp add: shape_upstream_error_def shape_message_written)
qed

text \<open>
  An answer of the shape the client reads: an error body that is no object can only be empty or
  false, and a good answer is an object with a list of paths, the first of which has numbers where
  numbers are read.
\<close>

definition readable_path :: "json \<Rightarrow> bool" where
  "readable_path path \<longleftrightarrow>
     (let points = jor (jget ''points'' path) (JObj []); coords = jor (jget ''coordinates'' points) (JList [])
      in is_dict path \<and> is_dict points \<and> is_list coords
       \<and> (2 \<le> length (jlist coords) \<longrightarrow>
            list_all (\<lambda>c. \<not> isl (from_post_point c)) (jlist coords)
          \<and> list_all (\<lambda>c. 3 \<le> length (jlist c) \<longrightarrow> \<not> isl (json_float (jlist c ! 2))) (jlist coords)
          \<and> \<not> isl (json_float (jor (jget ''time'' path) (JNum 0))) \<and> \<not> isl (json_float (jor (jget ''distance'' path) (JNum 0)))))"

definition readable_answer :: "http_response \<Rightarrow> bool" where
  "readable_answer r =
     (case resp_json r of
        None \<Rightarrow> True
      | Some j \<Rightarrow>
          if 400 \<le> hr_status r then is_dict (jor j (JObj []))
          else is_dict j \<and> (let paths = jor (jget ''paths'' j) (JList [])
                 in is_list paths \<and> (jlist paths = [] \<or> readable_path (hd (jlist paths)))))"

lemma parse_points_isr: "\<not> isl (parse_points cs) \<longleftrightarrow> list_all (\<lambda>c. \<not> isl (from_post_point c)) cs"
  by (induction cs) (auto split: sum.splits)

lemma floats_isr: "\<not> isl (floats xs) \<longleftrightarrow> list_all (\<lambda>x. \<not> isl (json_float x)) xs"
  by (induction xs) (auto split: sum.splits)

lemma parse_elevations_isr:
  "\<not> isl (parse_elevations cs) \<longleftrightarrow> list_all (\<lambda>c. 3 \<le> length (jlist c) \<longrightarrow> \<not> isl (json_float (jlist c ! 2))) cs"
  by (auto simp: parse_elevations_def floats_isr list_all_iff)

lemma parse_path_crash:
  "(\<exists>e. parse_path pystr path m synthetic preset = Inl (Crash e)) \<longleftrightarrow> \<not> readable_path path"
  unfolding readable_path_def parse_points_isr [symmetric] parse_elevations_isr [symmetric] Let_def parse_path_def
  by (auto split: sum.splits)

lemma shape_message_no_crash: "\<not> is_crash (shape_message self_hosted status message)"
  by (simp add: shape_message_def is_crash_def Let_def)

lemma shape_upstream_crash:
  "is_crash (shape_upstream_error pystr self_hosted r) \<longleftrightarrow> (\<exists>j. resp_json r = Some j \<and> \<not> is_dict (jor j (JObj [])))"
  using shape_message_no_crash
  by (auto simp: shape_upstream_error_def upstream_message_def Let_def split: option.splits sum.splits if_splits)
    (simp_all add: is_crash_def)



text \<open>
  Place search answers at most six places, each rounded to six decimals, so that two searches for
  one place send byte-identical route requests. Every failure is a 502 or a 503, and it carries a
  time to wait, never negative, exactly when the upstream answered 429.
\<close>

theorem place_search_outcomes:
  "(\<forall>rs. geocode_search pystr fetched = Inr rs \<longrightarrow> length rs \<le> 6
      \<and> (\<forall>r \<in> set rs. \<exists>k l. gr_lat r = of_int k / 10 ^ 6 \<and> gr_lon r = of_int l / 10 ^ 6))
 \<and> (\<forall>msg status wait. geocode_search pystr fetched = Inl (GeocodeError msg status wait) \<longrightarrow>
      status \<in> {502, 503} \<and> (wait \<noteq> None \<longleftrightarrow> (\<exists>a. fetched = Inr a \<and> hr_status a = 429))
      \<and> (\<forall>n. wait = Some n \<longrightarrow> 0 \<le> n))"
proof (intro conjI allI impI)
  fix rs
  assume r: "geocode_search pystr fetched = Inr rs"
  have item: "\<exists>k l. gr_lat r = of_int k / 10 ^ 6 \<and> gr_lon r = of_int l / 10 ^ 6"
    if "r \<in> set (geocode_item pystr j)" for r j
    using that unfolding geocode_item_def GEOCODE_COORD_DECIMALS_def
    by (auto simp: round_dec_def split: if_splits sum.splits)
  have items: "length rs \<le> 6 \<and> (\<forall>x \<in> set rs. \<exists>j. x \<in> set (geocode_item pystr j))"
    using r by (auto simp: geocode_search_def GEOCODE_RESULT_LIMIT_def
      split: sum.splits fetch_error.splits option.splits if_split_asm dest!: in_set_takeD)
  then show "length rs \<le> 6" by simp
  show "\<forall>r \<in> set rs. \<exists>k l. gr_lat r = of_int k / 10 ^ 6 \<and> gr_lon r = of_int l / 10 ^ 6"
    using items item by blast
next
  fix msg status wait
  assume e: "geocode_search pystr fetched = Inl (GeocodeError msg status wait)"
  have "0 \<le> retry_after_of a" for a
    by (auto simp: retry_after_of_def Let_def digits_value_nonneg)
  with e show "status \<in> {502, 503}" "wait \<noteq> None \<longleftrightarrow> (\<exists>a. fetched = Inr a \<and> hr_status a = 429)"
      "\<And>n. wait = Some n \<Longrightarrow> 0 \<le> n"
    by (auto simp: geocode_search_def split: sum.splits fetch_error.splits option.splits if_splits)
qed

lemma place_search_outcomes_witness:
  "\<exists>rs. geocode_search (\<lambda>_. '''') (Inr \<lparr>hr_status = 200, hr_headers = [], hr_body = BJson (JList [])\<rparr>) = Inr rs
     \<and> length rs \<le> 6"
proof -
  have g: "geocode_search (\<lambda>_. '''') (Inr \<lparr>hr_status = 200, hr_headers = [], hr_body = BJson (JList [])\<rparr>) = Inr []"
    by (simp add: geocode_search_def resp_json_def)
  show ?thesis using g place_search_outcomes by blast
qed

text \<open>
  Whatever the router sends, a route that comes out of a routing request has at least two points,
  an elevation for every point or none at all, no empty list of detail spans, no instruction without
  a text, a non-negative length when its points are on the globe, the preset it was asked for and no
  note yet.
\<close>

theorem parsed_routes_are_well_formed:
  assumes "post_route pystr self_hosted m service preset fetched = Inr r"
  shows "2 \<le> length (rr_points r)
    \<and> ((\<forall>p \<in> set (rr_points r). on_globe p) \<longrightarrow> 0 \<le> rr_distance_m r)
    \<and> (rr_elevations r = [] \<or> has_elevation r)
    \<and> (\<forall>k ss. rr_details r k = Some ss \<longrightarrow> ss \<noteq> [])
    \<and> (\<forall>s \<in> set (rr_steps r). stp_text s \<noteq> [])
    \<and> rr_mode r = m \<and> rr_preset r = preset \<and> rr_preset_note r = None"
  by (rule post_route_parsed [OF assms], drule parse_path_ok) (auto simp: well_formed_route_def)

lemma parsed_routes_are_well_formed_witness: "2 \<le> length (rr_points (walk 12 ''fastest''))"
  using parsed_routes_are_well_formed [OF two_points_walk [of 12 "\<lambda>_. ''''" False "''graphhopper''" "''fastest''"]]
  by simp

end
