(* ===== verification/Scoring.thy ===== *)
theory Scoring
  imports Cache Routing
begin

text \<open>
  backend/scoring.py: CLIP scenery scores. The model itself (torch, open_clip) and the decoding of
  JPEGs are arguments; what is modelled is the search for imagery with its narrowing box, the
  scoring of one place into the cache, and the one function the request path calls, a cache read.
\<close>

section \<open>Constants\<close>

definition MAPILLARY_BBOX_HALF_DEG :: real where "MAPILLARY_BBOX_HALF_DEG = 0.002"
definition MAPILLARY_BBOX_MIN_HALF_DEG :: real where "MAPILLARY_BBOX_MIN_HALF_DEG = 0.00025"
definition SAMPLE_SPACING_M :: real where "SAMPLE_SPACING_M = 150"
definition MAX_SAMPLE_POINTS :: nat where "MAX_SAMPLE_POINTS = 40"
definition MIN_IMAGES_FOR_A_SCORE :: nat where "MIN_IMAGES_FOR_A_SCORE = 2"

definition PROMPT_VARIANTS :: "(string \<times> string \<times> string) list" where
  "PROMPT_VARIANTS =
     [(''v1_extreme'', ''A photo of an area that is extremely scenic'', ''A photo of an area that is extremely ugly''),
      (''v2_plain'', ''A photo of a beautiful place'', ''A photo of an ugly place''),
      (''v3_nature'', ''A photo of a green natural place with trees and plants'',
         ''A photo of a bare place made of concrete and asphalt''),
      (''v4_walk'', ''A photo of a place that is pleasant to walk through'',
         ''A photo of a place that is unpleasant to walk through''),
      (''v5_street'', ''A street-level photo of a leafy, quiet, attractive street'',
         ''A street-level photo of a bleak, traffic-dominated street''),
      (''v6_restorative'', ''A photo of a calm restorative outdoor place someone would choose to spend time in'',
         ''A photo of a harsh outdoor place someone would hurry through''),
      (''v7_park'', ''A photo taken in a park or woodland'', ''A photo taken beside a busy road or car park'')]"

definition ACTIVE_PROMPT_VARIANT :: string where "ACTIVE_PROMPT_VARIANT = ''v2_plain''"

datatype scoring_error = ScoringUnavailable string | ScoringCrash py_error | ScoringCache cache_error

text \<open>What the model makes of decoded images and a prompt pair is \<open>clip\<close>.\<close>

definition score_images :: "('img list \<Rightarrow> string \<times> string \<Rightarrow> real list) \<Rightarrow> 'img list \<Rightarrow> string
    \<Rightarrow> (scoring_error, real list) result" where
  "score_images clip images variant =
     (if images = [] then Inr []
      else case map_of PROMPT_VARIANTS variant of
          None \<Rightarrow> Inl (ScoringCrash ValueError)
        | Some pair \<Rightarrow> Inr (clip images pair))"

section \<open>Mapillary\<close>

record mapillary_image =
  mi_id :: string
  mi_url :: json
  mi_lat :: real
  mi_lon :: real

definition bbox_for :: "latlon \<Rightarrow> real \<Rightarrow> string" where
  "bbox_for p half_deg =
     join '','' (map (fixed_text 6) [lon p - half_deg, lat p - half_deg, lon p + half_deg, lat p + half_deg])"

definition asked_for_too_much :: "(json \<Rightarrow> string) \<Rightarrow> http_response \<Rightarrow> (py_error, bool) result" where
  "asked_for_too_much pystr r =
     (if hr_status r \<noteq> 500 then Inr False
      else case resp_json r of
          None \<Rightarrow> Inr False
        | Some j \<Rightarrow>
            let err = jor (jget ''error'' j) (JObj [])
            in if \<not> is_dict j \<or> \<not> is_dict err then Inl AttributeError
               else Inr (contains ''reduce the amount of data''
                 (str_lower (if jhas ''message'' err then json_str pystr (jget ''message'' err) else ''''))))"

text \<open>Iterating a decoded value.\<close>

fun json_iter :: "json \<Rightarrow> (py_error, json list) result" where
  "json_iter (JList xs) = Inr xs"
| "json_iter (JStr s) = Inr (map (\<lambda>c. JStr [c]) s)"
| "json_iter (JObj kvs) = Inr (map (\<lambda>(k, v). JStr k) kvs)"
| "json_iter _ = Inl PyTypeError"

definition parse_image :: "(json \<Rightarrow> string) \<Rightarrow> latlon \<Rightarrow> json \<Rightarrow> (py_error, mapillary_image list) result" where
  "parse_image pystr p item =
     (if \<not> is_dict item then Inl AttributeError
      else if \<not> truthy (jget ''thumb_1024_url'' item) then Inr []
      else
        let geometry = jor (jget ''computed_geometry'' item) (JObj [])
        in if \<not> is_dict geometry then Inl AttributeError
           else case from_post_point (jor (jget ''coordinates'' geometry) (JList [JNum (lon p), JNum (lat p)])) of
               Inl e \<Rightarrow> Inl e
             | Inr q \<Rightarrow> Inr [\<lparr>mi_id = (if jhas ''id'' item then json_str pystr (jget ''id'' item) else ''''),
                 mi_url = jget ''thumb_1024_url'' item, mi_lat = lat q, mi_lon = lon q\<rparr>])"

fun parse_images :: "(json \<Rightarrow> string) \<Rightarrow> latlon \<Rightarrow> json list \<Rightarrow> (py_error, mapillary_image list) result" where
  "parse_images pystr p [] = Inr []"
| "parse_images pystr p (item # items) =
     (case parse_image pystr p item of
        Inl e \<Rightarrow> Inl e
      | Inr is \<Rightarrow> (case parse_images pystr p items of Inl e \<Rightarrow> Inl e | Inr rest \<Rightarrow> Inr (is @ rest)))"

definition images_of :: "(json \<Rightarrow> string) \<Rightarrow> latlon \<Rightarrow> http_response \<Rightarrow> (scoring_error, mapillary_image list) result" where
  "images_of pystr p r =
     (case resp_json r of
        None \<Rightarrow> Inl (ScoringUnavailable ''Mapillary returned something unreadable'')
      | Some payload \<Rightarrow>
          if \<not> is_dict payload then Inl (ScoringCrash AttributeError)
          else case json_iter (if jhas ''data'' payload then jget ''data'' payload else JList []) of
              Inl e \<Rightarrow> Inl (ScoringCrash e)
            | Inr items \<Rightarrow>
                (case parse_images pystr p items of Inl e \<Rightarrow> Inl (ScoringCrash e) | Inr is \<Rightarrow> Inr is))"

text \<open>What an exception of the fixture layer becomes; \<open>say\<close> prints the two that are re-raised.\<close>

definition fetch_failure :: "(fetch_error \<Rightarrow> string) \<Rightarrow> fetch_error \<Rightarrow> scoring_error" where
  "fetch_failure say e =
     (case e of
        FixtureMissing s sig \<Rightarrow> ScoringUnavailable (say e)
      | BudgetExhausted s \<Rightarrow> ScoringUnavailable (say e)
      | TransportError name \<Rightarrow> ScoringUnavailable (''Mapillary unreachable: '' @ name)
      | _ \<Rightarrow> ScoringCrash PyRuntimeError)"

text \<open>
  The narrowing loop: \<open>ask box n\<close> is the outcome of the \<open>n\<close>-th request, and the result carries how
  many were made.
\<close>

lemma narrow_measure:
  assumes "MAPILLARY_BBOX_MIN_HALF_DEG \<le> half_deg / 2"
  shows "nat \<lfloor>half_deg / 2 / MAPILLARY_BBOX_MIN_HALF_DEG\<rfloor> < nat \<lfloor>half_deg / MAPILLARY_BBOX_MIN_HALF_DEG\<rfloor>"
proof -
  let ?q = "half_deg / 2 / MAPILLARY_BBOX_MIN_HALF_DEG"
  have q: "1 \<le> ?q" "half_deg / MAPILLARY_BBOX_MIN_HALF_DEG = ?q + ?q"
    using assms by (simp_all add: MAPILLARY_BBOX_MIN_HALF_DEG_def)
  then have "\<lfloor>?q\<rfloor> < \<lfloor>half_deg / MAPILLARY_BBOX_MIN_HALF_DEG\<rfloor>" by linarith
  then show ?thesis using q(1) by simp
qed

function narrow :: "(json \<Rightarrow> string) \<Rightarrow> (fetch_error \<Rightarrow> string) \<Rightarrow> (string \<Rightarrow> nat \<Rightarrow> (fetch_error, http_response) result)
    \<Rightarrow> latlon \<Rightarrow> real \<Rightarrow> nat \<Rightarrow> nat \<times> (scoring_error, http_response) result" where
  "narrow pystr say ask p half_deg n =
     (case ask (bbox_for p half_deg) n of
        Inl e \<Rightarrow> (Suc n, Inl (fetch_failure say e))
      | Inr r \<Rightarrow>
          if hr_status r < 400 then (Suc n, Inr r)
          else case asked_for_too_much pystr r of
              Inl e \<Rightarrow> (Suc n, Inl (ScoringCrash e))
            | Inr too \<Rightarrow>
                if too \<and> MAPILLARY_BBOX_MIN_HALF_DEG \<le> half_deg / 2
                then narrow pystr say ask p (half_deg / 2) (Suc n)
                else (Suc n, Inl (ScoringUnavailable (''Mapillary returned '' @ int_text (hr_status r)))))"
  by pat_completeness auto
termination
  by (relation "measure (\<lambda>(pystr, say, ask, p, half_deg, n). nat \<lfloor>half_deg / MAPILLARY_BBOX_MIN_HALF_DEG\<rfloor>)")
    (simp, use narrow_measure in simp)

declare narrow.simps [simp del]

definition fetch_images_near :: "(json \<Rightarrow> string) \<Rightarrow> (fetch_error \<Rightarrow> string) \<Rightarrow> settings
    \<Rightarrow> (string \<Rightarrow> nat \<Rightarrow> (fetch_error, http_response) result) \<Rightarrow> latlon
    \<Rightarrow> nat \<times> (scoring_error, mapillary_image list) result" where
  "fetch_images_near pystr say st ask p =
     (if no_key (st_mapillary_token st)
      then (0, Inl (ScoringUnavailable ''MAPILLARY_TOKEN is not set; see BLOCKED.md #2.''))
      else case narrow pystr say ask p MAPILLARY_BBOX_HALF_DEG 0 of
          (n, Inl e) \<Rightarrow> (n, Inl e)
        | (n, Inr r) \<Rightarrow> (n, images_of pystr p r))"

text \<open>
  Scoring one place. \<open>download\<close> is what fetching and decoding an image gives, \<open>None\<close> for one that is
  skipped.
\<close>

definition put_score :: "latlon \<Rightarrow> string \<Rightarrow> int \<Rightarrow> cache \<Rightarrow> real option \<Rightarrow> nat
    \<Rightarrow> (scoring_error, cache \<times> real option \<times> nat) result" where
  "put_score p variant now c score n =
     (case put_segment_score now (lat p) (lon p) score (int n) ''clip'' (Some variant) c of
        Inl e \<Rightarrow> Inl (ScoringCache e)
      | Inr (c', key) \<Rightarrow> Inr (c', score, n))"

definition score_point :: "('img list \<Rightarrow> string \<times> string \<Rightarrow> real list) \<Rightarrow> (mapillary_image \<Rightarrow> 'img option)
    \<Rightarrow> (scoring_error, mapillary_image list) result \<Rightarrow> latlon \<Rightarrow> string \<Rightarrow> int \<Rightarrow> cache
    \<Rightarrow> (scoring_error, cache \<times> real option \<times> nat) result" where
  "score_point clip download images p variant now c =
     (case images of
        Inl e \<Rightarrow> Inl e
      | Inr is \<Rightarrow>
          let decoded = List.map_filter download is
          in if length decoded < MIN_IMAGES_FOR_A_SCORE then put_score p variant now c None (length decoded)
             else case score_images clip decoded variant of
                 Inl e \<Rightarrow> Inl e
               | Inr scores \<Rightarrow> put_score p variant now c (Some (sum_list scores / real (length scores))) (length decoded))"

section \<open>The request path\<close>

record clip_term =
  ct_score :: "real option"
  ct_coverage :: real
  ct_points_scored :: nat
  ct_points_sampled :: nat

fun weigh :: "(string \<rightharpoonup> segment_score) \<Rightarrow> real \<Rightarrow> string list \<Rightarrow> real \<times> real \<times> nat \<Rightarrow> real \<times> real \<times> nat" where
  "weigh rows share [] acc = acc"
| "weigh rows share (key # keys) (weighted, covered, n) =
     (case Option.bind (rows key) ss_clip_score of
        None \<Rightarrow> weigh rows share keys (weighted, covered, n)
      | Some v \<Rightarrow> weigh rows share keys (weighted + v * share, covered + share, n + 1))"

definition no_clip_term :: "nat \<Rightarrow> clip_term" where
  "no_clip_term sampled = \<lparr>ct_score = None, ct_coverage = 0, ct_points_scored = 0, ct_points_sampled = sampled\<rparr>"

definition clip_term_for_route :: "latlon list \<Rightarrow> cache \<Rightarrow> (cache_error, clip_term) result" where
  "clip_term_for_route ps c =
     (let samples = sample_every ps SAMPLE_SPACING_M MAX_SAMPLE_POINTS
      in if length ps < 2 \<or> samples = [] then Inr (no_clip_term 0)
         else
           let keys = map (\<lambda>s. segment_key (lat (s_point s)) (lon (s_point s))) samples;
               len = path_length_m ps;
               tot = (if len = 0 then 1 else len);
               share = tot / real (length samples)
           in case get_segment_scores keys (Some ACTIVE_PROMPT_VARIANT) c of
               Inl e \<Rightarrow> Inl e
             | Inr rows \<Rightarrow>
                 let (weighted, covered, n) = weigh rows share keys (0, 0, 0)
                 in Inr (if covered \<le> 0 then no_clip_term (length samples)
                         else \<lparr>ct_score = Some (round_dec 4 (weighted / covered)),
                               ct_coverage = round_dec 4 (min 1 (covered / tot)),
                               ct_points_scored = n, ct_points_sampled = length samples\<rparr>))"

section \<open>What the scorer guarantees\<close>

lemma narrow_step:
  "fst (narrow pystr say ask p half_deg n) = Suc n
   \<or> (MAPILLARY_BBOX_MIN_HALF_DEG \<le> half_deg / 2
      \<and> narrow pystr say ask p half_deg n = narrow pystr say ask p (half_deg / 2) (Suc n))"
  by (auto simp: narrow.simps [of pystr say ask p half_deg n] split: sum.splits if_splits)

lemma narrow_bound:
  "half_deg < 2 ^ k * MAPILLARY_BBOX_MIN_HALF_DEG \<Longrightarrow> fst (narrow pystr say ask p half_deg n) \<le> n + max 1 k"
proof (induction k arbitrary: half_deg n)
  case 0
  then show ?case using narrow_step [of pystr say ask p half_deg n]
    by (auto simp: MAPILLARY_BBOX_MIN_HALF_DEG_def)
next
  case (Suc k)
  show ?case
  proof (cases "MAPILLARY_BBOX_MIN_HALF_DEG \<le> half_deg / 2")
    case True
    have "half_deg / 2 < 2 ^ k * MAPILLARY_BBOX_MIN_HALF_DEG" using Suc.prems by simp
    from Suc.IH [OF this, of "Suc n"] have "fst (narrow pystr say ask p (half_deg / 2) (Suc n)) \<le> Suc n + max 1 k" .
    moreover have "k \<noteq> 0"
    proof
      assume "k = 0"
      with Suc.prems True show False by simp
    qed
    ultimately show ?thesis using narrow_step [of pystr say ask p half_deg n] by auto
  next
    case False
    then show ?thesis using narrow_step [of pystr say ask p half_deg n] by auto
  qed
qed

text \<open>
  Looking for imagery ends, and is cheap: whatever Mapillary answers, at most four requests are
  made for one place, each asking for a box of half-width between the floor of 0.00025 degrees and
  0.002 degrees; without a token none is made.
\<close>

theorem narrowing_ends_within_four_requests:
  "fst (fetch_images_near pystr say st ask p) \<le> 4
 \<and> (no_key (st_mapillary_token st) \<longrightarrow> fst (fetch_images_near pystr say st ask p) = 0)"
proof -
  have "fst (narrow pystr say ask p MAPILLARY_BBOX_HALF_DEG 0) \<le> 0 + max 1 4"
    by (rule narrow_bound) (simp add: MAPILLARY_BBOX_HALF_DEG_def MAPILLARY_BBOX_MIN_HALF_DEG_def)
  then show ?thesis
    by (auto simp: fetch_images_near_def split: prod.splits sum.splits)
qed

lemma narrowing_ends_within_four_requests_witness:
  "\<forall>say ask p. fst (fetch_images_near (\<lambda>_. '''') say (load_settings Map.empty) ask p) = 0"
  using narrowing_ends_within_four_requests [of "\<lambda>_. ''''" _ "load_settings Map.empty"]
  by (simp add: no_key_def load_settings_def stripped_def)

lemma weigh_sum:
  "weigh rows share keys (w, cov, n) =
     (let vs = List.map_filter (\<lambda>k. Option.bind (rows k) ss_clip_score) keys
      in (w + share * sum_list vs, cov + share * real (length vs), n + length vs))"
  by (induction keys arbitrary: w cov n)
    (auto simp: Let_def map_filter_simps algebra_simps split: option.splits)

lemma length_map_filter: "length (List.map_filter f xs) \<le> length xs"
  by (induction xs) (auto simp: map_filter_simps split: option.splits)

lemma set_map_filter: "y \<in> set (List.map_filter f xs) \<longleftrightarrow> (\<exists>x \<in> set xs. f x = Some y)"
  by (induction xs) (auto simp: map_filter_simps split: option.splits)

lemma map_filter_cong: "\<forall>x \<in> set xs. f x = g x \<Longrightarrow> List.map_filter f xs = List.map_filter g xs"
  by (induction xs) (auto simp: map_filter_simps split: option.splits)

lemma length_sample_every: "0 < max_points \<Longrightarrow> length (sample_every ps spacing max_points) \<le> max_points"
  by (auto simp: sample_every_def Let_def simp del: take_append)

lemma mean_in_unit:
  assumes "xs \<noteq> []" and "\<forall>x \<in> set xs. 0 \<le> x \<and> x \<le> (1::real)"
  shows "0 \<le> sum_list xs / real (length xs) \<and> sum_list xs / real (length xs) \<le> 1"
proof -
  have "0 \<le> sum_list xs" using assms(2) by (simp add: sum_list_nonneg)
  moreover have "sum_list xs \<le> real (length xs)"
    using assms(2) by (induction xs) force+
  ultimately show ?thesis using assms(1) by (simp add: divide_le_eq)
qed

text \<open>The scores the request path reads for a route, and how many places it samples.\<close>

definition sampled_keys :: "latlon list \<Rightarrow> string list" where
  "sampled_keys ps = map (\<lambda>s. segment_key (lat (s_point s)) (lon (s_point s)))
     (sample_every ps SAMPLE_SPACING_M MAX_SAMPLE_POINTS)"

definition active_scores :: "latlon list \<Rightarrow> cache \<Rightarrow> real list" where
  "active_scores ps c = List.map_filter (\<lambda>k. Option.bind (map_of (c_segments c) k)
     (\<lambda>s. if ss_prompt_variant s = Some ACTIVE_PROMPT_VARIANT then ss_clip_score s else None)) (sampled_keys ps)"

lemma clip_term_cases:
  assumes "\<not> c_closed c" and "keyed (c_segments c)" and "2 \<le> length ps" and "sampled_keys ps \<noteq> []"
    and "0 \<le> path_length_m ps"
  shows "clip_term_for_route ps c = Inr
     (if active_scores ps c = [] then no_clip_term (length (sampled_keys ps))
      else \<lparr>ct_score = Some (round_dec 4 (sum_list (active_scores ps c) / real (length (active_scores ps c)))),
            ct_coverage = round_dec 4 (real (length (active_scores ps c)) / real (length (sampled_keys ps))),
            ct_points_scored = length (active_scores ps c), ct_points_sampled = length (sampled_keys ps)\<rparr>)"
proof -
  let ?n = "real (length (sampled_keys ps))"
  define tot where "tot = (if path_length_m ps = 0 then 1 else path_length_m ps)"
  define share where "share = tot / ?n"
  let ?rows = "\<lambda>k. if k \<in> set (sampled_keys ps)
      then (case map_of (c_segments c) k of None \<Rightarrow> None
            | Some s \<Rightarrow> if Some ACTIVE_PROMPT_VARIANT = None \<or> ss_prompt_variant s = Some ACTIVE_PROMPT_VARIANT
                then Some s else None)
      else None"
  have tot: "0 < tot" using assms(5) by (simp add: tot_def)
  have n: "0 < ?n" using assms(4) by simp
  then have share: "0 < share" using tot by (simp add: share_def)
  have vs: "List.map_filter (\<lambda>k. Option.bind (?rows k) ss_clip_score) (sampled_keys ps) = active_scores ps c"
    unfolding active_scores_def by (rule map_filter_cong) (simp split: option.split)
  have w: "weigh ?rows share (sampled_keys ps) (0, 0, 0)
      = (share * sum_list (active_scores ps c), share * real (length (active_scores ps c)), length (active_scores ps c))"
    unfolding weigh_sum Let_def vs by simp
  have keys: "map (\<lambda>s. segment_key (lat (s_point s)) (lon (s_point s)))
      (sample_every ps SAMPLE_SPACING_M MAX_SAMPLE_POINTS) = sampled_keys ps" by (simp add: sampled_keys_def)
  have len: "length (sample_every ps SAMPLE_SPACING_M MAX_SAMPLE_POINTS) = length (sampled_keys ps)"
    by (simp add: sampled_keys_def)
  have ne: "sample_every ps SAMPLE_SPACING_M MAX_SAMPLE_POINTS \<noteq> []" using assms(4) by (auto simp: sampled_keys_def)
  have cov: "share * real (length (active_scores ps c)) / tot = real (length (active_scores ps c)) / ?n"
    using tot by (simp add: share_def)
  have le: "real (length (active_scores ps c)) / ?n \<le> 1"
    using n by (simp add: active_scores_def length_map_filter)
  show ?thesis
    unfolding clip_term_for_route_def Let_def keys len tot_def [symmetric] share_def [symmetric]
      segment_scores_read [OF assms(1,2)] sum.case w
    using share ne assms(3) cov le by (auto simp: not_le mult_le_0_iff)
qed

lemma sampled_keys_bounds:
  assumes "2 \<le> length ps"
  shows "sampled_keys ps \<noteq> []" and "length (sampled_keys ps) \<le> 40"
proof -
  have "ps \<noteq> []" "length ps \<noteq> 1" using assms by auto
  then show "sampled_keys ps \<noteq> []" by (auto simp: sampled_keys_def sample_every_def Let_def MAX_SAMPLE_POINTS_def)
  show "length (sampled_keys ps) \<le> 40"
    using length_sample_every [of 40 ps] by (simp add: sampled_keys_def MAX_SAMPLE_POINTS_def)
qed

lemma active_scores_unit:
  assumes "\<forall>(k, s) \<in> set (c_segments c). pred_option (\<lambda>x. 0 \<le> x \<and> x \<le> 1) (ss_clip_score s)"
  shows "\<forall>x \<in> set (active_scores ps c). 0 \<le> x \<and> x \<le> 1"
  using assms by (fastforce simp: active_scores_def set_map_filter bind_eq_Some_conv split: if_splits dest: map_of_SomeD)

text \<open>
  The CLIP term of a route is what the cache holds for it and nothing else: with the scores of
  the active prompt variant in the grid cells of its sampled places in hand, the score is their
  mean and the coverage the share of places that have one, both rounded to four decimals; no such
  score means no term. Scores of other variants are invisible, at most 40 places are sampled, and a
  cache of scores between 0 and 1 gives a term and a coverage between 0 and 1.
\<close>

theorem clip_term_is_the_mean_of_active_scores:
  assumes "\<not> c_closed c" and "keyed (c_segments c)" and "2 \<le> length ps" and "\<forall>p \<in> set ps. on_globe p"
  shows "\<exists>t. clip_term_for_route ps c = Inr t
    \<and> t = (if active_scores ps c = [] then no_clip_term (length (sampled_keys ps))
      else \<lparr>ct_score = Some (round_dec 4 (sum_list (active_scores ps c) / real (length (active_scores ps c)))),
            ct_coverage = round_dec 4 (real (length (active_scores ps c)) / real (length (sampled_keys ps))),
            ct_points_scored = length (active_scores ps c), ct_points_sampled = length (sampled_keys ps)\<rparr>)
    \<and> ct_points_scored t \<le> ct_points_sampled t \<and> ct_points_sampled t \<le> 40
    \<and> 0 \<le> ct_coverage t \<and> ct_coverage t \<le> 1
    \<and> ((\<forall>(k, s) \<in> set (c_segments c). pred_option (\<lambda>x. 0 \<le> x \<and> x \<le> 1) (ss_clip_score s)) \<longrightarrow>
        pred_option (\<lambda>x. 0 \<le> x \<and> x \<le> 1) (ct_score t))"
proof -
  have le: "length (active_scores ps c) \<le> length (sampled_keys ps)"
    by (simp add: active_scores_def length_map_filter)
  have cov: "0 \<le> round_dec 4 (real (length (active_scores ps c)) / real (length (sampled_keys ps)))
      \<and> round_dec 4 (real (length (active_scores ps c)) / real (length (sampled_keys ps))) \<le> 1"
    using le by (intro round_dec_unit) (simp_all add: divide_le_eq)
  have unit: "0 \<le> round_dec 4 (sum_list (active_scores ps c) / real (length (active_scores ps c)))
      \<and> round_dec 4 (sum_list (active_scores ps c) / real (length (active_scores ps c))) \<le> 1"
    if "active_scores ps c \<noteq> []"
      "\<forall>(k, s) \<in> set (c_segments c). pred_option (\<lambda>x. 0 \<le> x \<and> x \<le> 1) (ss_clip_score s)"
    using mean_in_unit [OF that(1) active_scores_unit [OF that(2)]] by (intro round_dec_unit) auto
  show ?thesis
    unfolding clip_term_cases [OF assms(1-3) sampled_keys_bounds(1) [OF assms(3)] path_length_nonneg [OF assms(4)]]
    using le cov unit sampled_keys_bounds(2) [OF assms(3)] by (simp add: no_clip_term_def)
qed

lemma clip_term_is_the_mean_of_active_scores_witness:
  "clip_term_for_route equator empty_cache = Inr (no_clip_term (length (sampled_keys equator)))"
proof -
  have "active_scores equator empty_cache = []"
    by (auto simp: active_scores_def empty_cache_def List.map_filter_def)
  then show ?thesis
    using clip_term_is_the_mean_of_active_scores [of empty_cache equator]
    by (simp add: empty_cache_def keyed_def equator_def on_globe_def)
qed

text \<open>
  A place without enough usable imagery is recorded, not rediscovered: whatever the downloads
  give, scoring a place in an open cache leaves in its grid cell the score and the number of images
  it reports, under the variant that was asked for, and the score is missing exactly when fewer
  than two images could be used.
\<close>

theorem scored_places_are_recorded:
  assumes "\<not> c_closed c" and "keyed (c_segments c)"
    and "score_point clip download images p variant now c = Inr (c', score, n)"
  shows "(score = None \<longleftrightarrow> n < 2) \<and> \<not> c_closed c' \<and> keyed (c_segments c')
    \<and> (\<exists>rows row. get_segment_scores [segment_key (lat p) (lon p)] (Some variant) c' = Inr rows
         \<and> rows (segment_key (lat p) (lon p)) = Some row
         \<and> ss_clip_score row = score \<and> ss_image_count row = int n \<and> ss_scoring_method row = ''clip'')"
proof -
  have put: "put_score p variant now c score n = Inr (c', score, n)" and n: "score = None \<longleftrightarrow> n < 2"
    using assms(3) by (auto simp: score_point_def put_score_def Let_def MIN_IMAGES_FOR_A_SCORE_def
        split: sum.splits if_splits)
  let ?k = "segment_key (lat p) (lon p)"
  obtain row where c': "c' = c\<lparr>c_segments := AList.update ?k row (c_segments c)\<rparr>"
      and row: "ss_clip_score row = score" "ss_image_count row = int n" "ss_scoring_method row = ''clip''"
        "ss_prompt_variant row = Some variant"
    using put assms(1) by (auto simp: put_score_def put_segment_score_def with_conn_def Let_def split: option.splits)
  have open': "\<not> c_closed c'" and keyed': "keyed (c_segments c')"
    using assms(1,2) by (simp_all add: c' keyed_def distinct_update)
  have "map_of (c_segments c') ?k = Some row" by (simp add: c' update_conv)
  then show ?thesis
    using n open' keyed' row segment_scores_read [OF open' keyed', of "[?k]" "Some variant"] by simp
qed

lemma scored_places_are_recorded_witness:
  "\<exists>rows row. get_segment_scores [segment_key 51 1] (Some ''v2_plain'')
      (fst (projr (score_point (\<lambda>imgs pair. [] :: real list) (\<lambda>i. None :: unit option) (Inr []) (LatLon 51 1)
        ''v2_plain'' 7 empty_cache))) = Inr rows
     \<and> rows (segment_key 51 1) = Some row \<and> ss_clip_score row = None \<and> ss_image_count row = 0"
proof -
  let ?run = "score_point (\<lambda>imgs pair. [] :: real list) (\<lambda>i. None :: unit option) (Inr []) (LatLon 51 1) ''v2_plain'' 7 empty_cache"
  obtain c' where run: "?run = Inr (c', None, 0)"
    by (auto simp: score_point_def put_score_def put_segment_score_def with_conn_def empty_cache_def
      MIN_IMAGES_FOR_A_SCORE_def List.map_filter_def Let_def)
  show ?thesis
    using scored_places_are_recorded [OF _ _ run] unfolding run by (auto simp: empty_cache_def keyed_def)
qed

end
