(* ===== verification/Sun.thy ===== *)
theory Sun
  imports Geometry
begin

text \<open>
  backend/enrich.py, sun position. A moment is a whole number of seconds since 1970-01-01 UTC (a
  naive datetime is UTC to the code, so both kinds are the same moment here); the calendar is the
  proleptic Gregorian one, written out.
\<close>

section \<open>Calendar\<close>

type_synonym moment = int

definition epoch_days :: "moment \<Rightarrow> int" where "epoch_days t = t div 86400"
definition hour_of :: "moment \<Rightarrow> int" where "hour_of t = t mod 86400 div 3600"
definition minute_of :: "moment \<Rightarrow> int" where "minute_of t = t mod 3600 div 60"
definition second_of :: "moment \<Rightarrow> int" where "second_of t = t mod 60"

definition leap :: "int \<Rightarrow> bool" where
  "leap y \<longleftrightarrow> y mod 4 = 0 \<and> (y mod 100 \<noteq> 0 \<or> y mod 400 = 0)"

text \<open>The civil date of a day number, through eras of 400 years that start on a first of March.\<close>

definition civil :: "int \<Rightarrow> int \<times> int \<times> int" where
  "civil days =
     (let z = days + 719468; era = z div 146097; doe = z mod 146097;
          yoe = (doe - doe div 1460 + doe div 36524 - doe div 146096) div 365;
          doy = doe - (365 * yoe + yoe div 4 - yoe div 100);
          mp = (5 * doy + 2) div 153;
          d = doy - (153 * mp + 2) div 5 + 1;
          m = (if mp < 10 then mp + 3 else mp - 9)
      in (yoe + era * 400 + (if m \<le> 2 then 1 else 0), m, d))"

definition days_before_month :: "int \<Rightarrow> int \<Rightarrow> int" where
  "days_before_month y m =
     [0, 31, 59, 90, 120, 151, 181, 212, 243, 273, 304, 334] ! nat (m - 1) + (if 2 < m \<and> leap y then 1 else 0)"

text \<open>\<open>timetuple().tm_yday\<close>.\<close>

definition day_of_year :: "moment \<Rightarrow> int" where
  "day_of_year t = (let (y, m, d) = civil (epoch_days t) in days_before_month y m + d)"

text \<open>\<open>%04d\<close>, \<open>%02d\<close>.\<close>

definition padded :: "nat \<Rightarrow> int \<Rightarrow> string" where
  "padded w i = (let s = int_text i in replicate (w - length s) (CHR ''0'') @ s)"

text \<open>\<open>strftime("%Y-%m-%dT%H:00")\<close> of a moment truncated to the hour (years of four digits).\<close>

definition hour_stamp :: "moment \<Rightarrow> string" where
  "hour_stamp t =
     (let (y, m, d) = civil (epoch_days t)
      in padded 4 y @ ''-'' @ padded 2 m @ ''-'' @ padded 2 d @ ''T'' @ padded 2 (hour_of t) @ '':00'')"

section \<open>The sun\<close>

record sun_position =
  sun_elevation_deg :: real
  sun_azimuth_deg :: real

definition is_up :: "sun_position \<Rightarrow> bool" where "is_up s \<longleftrightarrow> 0 < sun_elevation_deg s"

definition eq_time :: "real \<Rightarrow> real" where
  "eq_time gamma = 229.18 * (0.000075 + 0.001868 * cos gamma - 0.032077 * sin gamma
     - 0.014615 * cos (2 * gamma) - 0.040849 * sin (2 * gamma))"

definition declination :: "real \<Rightarrow> real" where
  "declination gamma = 0.006918 - 0.399912 * cos gamma + 0.070257 * sin gamma
     - 0.006758 * cos (2 * gamma) + 0.000907 * sin (2 * gamma)
     - 0.002697 * cos (3 * gamma) + 0.00148 * sin (3 * gamma)"

definition clip_unit :: "real \<Rightarrow> real" where "clip_unit x = max (-1) (min 1 x)"

definition solar_azimuth :: "real \<Rightarrow> real \<Rightarrow> real \<Rightarrow> real \<Rightarrow> real" where
  "solar_azimuth la decl hour_angle cos_zenith =
     (let sin_zenith = sin (arccos cos_zenith)
      in if \<bar>sin_zenith\<bar> < 1 / 1000000000 then 0
         else let core = degrees (arccos (clip_unit ((sin la * cos_zenith - sin decl) / (cos la * sin_zenith))))
              in if hour_angle \<le> 0 then 180 - core else 180 + core)"

definition solar_position :: "moment \<Rightarrow> latlon \<Rightarrow> sun_position" where
  "solar_position t p =
     (let hour = of_int (hour_of t) + of_int (minute_of t) / 60 + of_int (second_of t) / 3600;
          gamma = 2 * pi / 365 * (of_int (day_of_year t) - 1 + (hour - 12) / 24);
          time_offset = eq_time gamma + 4 * lon p;
          true_solar_time = hour * 60 + time_offset;
          hour_angle = radians (true_solar_time / 4 - 180);
          la = radians (lat p);
          cos_zenith = clip_unit (sin la * sin (declination gamma) + cos la * cos (declination gamma) * cos hour_angle);
          elevation = 90 - degrees (arccos cos_zenith)
      in \<lparr>sun_elevation_deg = round_dec 3 elevation,
          sun_azimuth_deg = round_dec 3 (fmod (solar_azimuth la (declination gamma) hour_angle cos_zenith) 360)\<rparr>)"

definition golden_hour :: "sun_position \<Rightarrow> real \<Rightarrow> real" where
  "golden_hour s heading_deg =
     (if \<not> (0 < sun_elevation_deg s \<and> sun_elevation_deg s < 15) then 0
      else max 0 (cos (radians (sun_azimuth_deg s - heading_deg))))"

definition shade_need :: "sun_position \<Rightarrow> real" where
  "shade_need s = max 0 (sin (radians (sun_elevation_deg s)))"

definition LOOP_TOLERANCE_M :: real where "LOOP_TOLERANCE_M = 120"

definition route_heading :: "latlon list \<Rightarrow> real option" where
  "route_heading ps =
     (if length ps < 2 then None
      else if closes_loop ps LOOP_TOLERANCE_M then None
      else Some (bearing_deg (hd ps) (last ps)))"

section \<open>Ranges\<close>

lemma clip_unit_range: "-1 \<le> clip_unit x \<and> clip_unit x \<le> 1"
  by (simp add: clip_unit_def)

lemma arccos_degrees: "-1 \<le> x \<Longrightarrow> x \<le> 1 \<Longrightarrow> 0 \<le> degrees (arccos x) \<and> degrees (arccos x) \<le> 180"
  using arccos_bounded [of x] by (simp add: degrees_def field_simps)

lemma round_dec_between:
  "of_int a \<le> x \<Longrightarrow> x \<le> of_int b \<Longrightarrow> of_int a \<le> round_dec n x \<and> round_dec n x \<le> (of_int b :: real)"
  using round_dec_mono [of "of_int a" x n] round_dec_mono [of x "of_int b" n] by (simp add: round_dec_of_int)

lemma solar_elevation_range:
  "-90 \<le> sun_elevation_deg (solar_position t p) \<and> sun_elevation_deg (solar_position t p) \<le> 90"
proof -
  have "of_int (-90) \<le> round_dec 3 (90 - degrees (arccos (clip_unit x)))
      \<and> round_dec 3 (90 - degrees (arccos (clip_unit x))) \<le> of_int 90" for x
    using arccos_degrees [of "clip_unit x"] clip_unit_range [of x] by (intro round_dec_between) auto
  then show ?thesis unfolding solar_position_def Let_def by simp
qed

lemma solar_azimuth_range:
  "0 \<le> sun_azimuth_deg (solar_position t p) \<and> sun_azimuth_deg (solar_position t p) \<le> 360"
proof -
  have "of_int 0 \<le> round_dec 3 (fmod x 360) \<and> round_dec 3 (fmod x 360) \<le> of_int 360" for x
    using fmod_bounds [of 360 x] by (intro round_dec_between) auto
  then show ?thesis unfolding solar_position_def Let_def by simp
qed

lemma shade_need_unit [bounds_intros]: "0 \<le> shade_need s \<and> shade_need s \<le> 1"
  by (simp add: shade_need_def)

lemma golden_hour_unit [bounds_intros]: "0 \<le> golden_hour s h \<and> golden_hour s h \<le> 1"
  by (simp add: golden_hour_def)

lemma shade_need_dark: "\<not> is_up s \<Longrightarrow> -180 \<le> sun_elevation_deg s \<Longrightarrow> shade_need s = 0"
proof -
  assume s: "\<not> is_up s" "-180 \<le> sun_elevation_deg s"
  have "pi * (- sun_elevation_deg s) \<le> pi * 180" using s by (intro mult_left_mono) auto
  then have "0 \<le> - radians (sun_elevation_deg s)" "- radians (sun_elevation_deg s) \<le> pi"
    using s by (auto simp: is_up_def radians_def mult_le_0_iff field_simps)
  then have "0 \<le> sin (- radians (sun_elevation_deg s))" by (rule sin_ge_zero)
  then show ?thesis by (simp add: shade_need_def)
qed

text \<open>Three days of the calendar: the day before a leap year's end, the epoch, a leap day.\<close>

lemma civil_samples: "civil 0 = (1970, 1, 1)" "civil 11016 = (2000, 2, 29)" "civil 20666 = (2026, 8, 1)"
  by code_simp+

end
