(* ===== verification/Survey.thy ===== *)
theory Survey
  imports Scoring Accessibility "HOL-Library.List_Lexorder" "HOL-Library.Char_ord" "HOL-Library.Product_Lexorder"
begin

text \<open>
  backend/enrich.py, the survey of what stands along a route: the Overpass queries, their answers,
  barrier nodes projected onto spans of the geometry, rest stops and how well they are spaced.
\<close>

definition REST_STOP_CORRIDOR_M :: real where "REST_STOP_CORRIDOR_M = 35"
definition BARRIER_CORRIDOR_M :: real where "BARRIER_CORRIDOR_M = 10"
definition REST_STOP_TARGET_SPACING_M :: real where "REST_STOP_TARGET_SPACING_M = 200"
definition OVERPASS_TIMEOUT_S :: int where "OVERPASS_TIMEOUT_S = 25"
definition OVERPASS_MAX_RESULTS :: nat where "OVERPASS_MAX_RESULTS = 6000"
definition REST_STOP_AMENITIES :: "string list" where
  "REST_STOP_AMENITIES = [''bench'', ''drinking_water'', ''toilets'', ''shelter'']"
definition REST_STOP_TOURISM :: "string list" where "REST_STOP_TOURISM = [''viewpoint'']"

section \<open>Queries\<close>

definition bbox :: "latlon list \<Rightarrow> real \<Rightarrow> real \<times> real \<times> real \<times> real" where
  "bbox ps pad = (Min (set (map lat ps)) - pad, Min (set (map lon ps)) - pad,
                  Max (set (map lat ps)) + pad, Max (set (map lon ps)) + pad)"

definition bbox_text :: "latlon list \<Rightarrow> string" where
  "bbox_text ps = (let (s, w, n, e) = bbox ps (1 / 1000) in join '','' (map (fixed_text 5) [s, w, n, e]))"

definition node_clause :: "string \<Rightarrow> string list \<Rightarrow> string \<Rightarrow> string" where
  "node_clause key values box =
     ''node['' @ [CHR 0x22] @ key @ [CHR 0x22] @ ''~'' @ [CHR 0x22] @ ''^('' @ join ''|'' values @ '')$''
     @ [CHR 0x22] @ '']('' @ box @ '');''"

definition query_head :: string where
  "query_head = ''[out:json][timeout:'' @ int_text OVERPASS_TIMEOUT_S @ ''];''"

definition query_tail :: string where
  "query_tail = ''out body '' @ nat_text OVERPASS_MAX_RESULTS @ '';''"

definition overpass_query :: "latlon list \<Rightarrow> string" where
  "overpass_query ps =
     query_head @ ''('' @ node_clause ''amenity'' REST_STOP_AMENITIES (bbox_text ps)
     @ node_clause ''tourism'' REST_STOP_TOURISM (bbox_text ps) @ '');'' @ query_tail"

definition barrier_values :: "string list" where
  "barrier_values = sorted_list_of_set (str_lower ` BARRIER_VALUES_WITH_A_VERDICT)"

definition overpass_barrier_query :: "latlon list \<Rightarrow> string" where
  "overpass_barrier_query ps = query_head @ node_clause ''barrier'' barrier_values (bbox_text ps) @ query_tail"

section \<open>Answers\<close>

text \<open>
  What an enrichment call does: how often it raised \<open>enrichment_failures_total\<close>, and its value or the
  exception it let out. \<open>None\<close> is the value of what could not be measured.
\<close>

type_synonym 'a attempt = "nat \<times> (py_error, 'a option) result"

record overpass_nodes =
  on_elements :: "json list"
  on_truncated :: bool

definition usable :: "overpass_nodes \<Rightarrow> json list option" where
  "usable n = (if on_truncated n then None else Some (on_elements n))"

definition fetch_overpass :: "latlon list \<Rightarrow> (fetch_error, http_response) result \<Rightarrow> overpass_nodes attempt" where
  "fetch_overpass ps fetched =
     (if length ps < 2 then (0, Inr (Some \<lparr>on_elements = [], on_truncated = False\<rparr>))
      else case fetched of
          Inl ResponseTooLarge \<Rightarrow> (0, Inl PyRuntimeError)
        | Inl SecretLeaked \<Rightarrow> (0, Inl PyRuntimeError)
        | Inl e \<Rightarrow> (1, Inr None)
        | Inr r \<Rightarrow>
            if 400 \<le> hr_status r then (1, Inr None)
            else case resp_json r of
                None \<Rightarrow> (1, Inr None)
              | Some j \<Rightarrow>
                  if \<not> is_dict j then (1, Inr None)
                  else case json_iter (if jhas ''elements'' j then jget ''elements'' j else JList []) of
                      Inl e \<Rightarrow> (0, Inl e)
                    | Inr es \<Rightarrow> (0, Inr (Some \<lparr>on_elements = es,
                        on_truncated = (OVERPASS_MAX_RESULTS \<le> length es)\<rparr>)))"

section \<open>Barriers\<close>

text \<open>\<open>float(element["lat"])\<close>, \<open>float(element["lon"])\<close>; a missing or unreadable one skips the element.\<close>

definition element_node :: "json \<Rightarrow> latlon option" where
  "element_node e =
     (if jhas ''lat'' e \<and> jhas ''lon'' e
      then (case (json_float (jget ''lat'' e), json_float (jget ''lon'' e)) of
              (Inr la, Inr lo) \<Rightarrow> Some (LatLon la lo) | _ \<Rightarrow> None)
      else None)"

definition element_tags :: "json \<Rightarrow> (py_error, json) result" where
  "element_tags e =
     (let tags = jor (jget ''tags'' e) (JObj [])
      in if \<not> is_dict e \<or> \<not> is_dict tags then Inl AttributeError else Inr tags)"

fun barrier_candidates :: "(json \<Rightarrow> string) \<Rightarrow> json list \<Rightarrow> (py_error, (latlon \<times> string) list) result" where
  "barrier_candidates pystr [] = Inr []"
| "barrier_candidates pystr (e # es) =
     (case element_tags e of
        Inl err \<Rightarrow> Inl err
      | Inr tags \<Rightarrow>
          (case barrier_candidates pystr es of
             Inl err \<Rightarrow> Inl err
           | Inr rest \<Rightarrow>
               Inr (if truthy (jget ''barrier'' tags)
                    then (case element_node e of
                            None \<Rightarrow> rest
                          | Some n \<Rightarrow> (n, json_str pystr (jget ''barrier'' tags)) # rest)
                    else rest)))"

text \<open>The local plane: metres east and north about the route's mean latitude.\<close>

definition plane :: "latlon list \<Rightarrow> latlon \<Rightarrow> real \<times> real" where
  "plane ps p =
     (let lat0 = sum_list (map lat ps) / real (length ps);
          kx = cos (radians lat0) * pi / 180 * EARTH_RADIUS_M; ky = pi / 180 * EARTH_RADIUS_M
      in (lon p * kx, lat p * ky))"

definition hypot :: "real \<Rightarrow> real \<Rightarrow> real" where "hypot x y = sqrt (x * x + y * y)"

text \<open>Where along a segment the foot of the perpendicular falls, and how far off the node is.\<close>

definition foot :: "real \<times> real \<Rightarrow> real \<times> real \<Rightarrow> real \<times> real \<Rightarrow> real" where
  "foot a b n =
     (let abx = fst b - fst a; aby = snd b - snd a; len_sq = abx * abx + aby * aby
      in if 0 < len_sq then max 0 (min 1 (((fst n - fst a) * abx + (snd n - snd a) * aby) / len_sq)) else 0)"

definition off_m :: "real \<times> real \<Rightarrow> real \<times> real \<Rightarrow> real \<times> real \<Rightarrow> real" where
  "off_m a b n =
     (let abx = fst b - fst a; aby = snd b - snd a; t = foot a b n
      in hypot (fst n - fst a - t * abx) (snd n - snd a - t * aby))"

definition segment_offsets :: "latlon list \<Rightarrow> latlon \<Rightarrow> real list" where
  "segment_offsets ps n =
     map (\<lambda>i. off_m (plane ps (ps ! i)) (plane ps (ps ! Suc i)) (plane ps n)) [0..<length ps - 1]"

text \<open>\<open>argmin\<close> of the reversed row, so that ties go to the later segment.\<close>

definition last_argmin :: "real list \<Rightarrow> nat" where
  "last_argmin xs = length xs - 1 - argmax (\<lambda>x. - x) (rev xs)"

definition planar_lengths :: "latlon list \<Rightarrow> real list" where
  "planar_lengths ps =
     map (\<lambda>i. hypot (fst (plane ps (ps ! Suc i)) - fst (plane ps (ps ! i)))
                    (snd (plane ps (ps ! Suc i)) - snd (plane ps (ps ! i)))) [0..<length ps - 1]"

definition along_m :: "latlon list \<Rightarrow> nat \<Rightarrow> latlon \<Rightarrow> real" where
  "along_m ps i n =
     cumsum_from 0 (planar_lengths ps) ! i
     + foot (plane ps (ps ! i)) (plane ps (ps ! Suc i)) (plane ps n) * (planar_lengths ps ! i)"

type_synonym barrier_span = "int \<times> int \<times> string \<times> real \<times> real \<times> real"

definition barrier_span :: "latlon list \<Rightarrow> latlon \<times> string \<Rightarrow> barrier_span list" where
  "barrier_span ps c =
     (let n = fst c; offs = segment_offsets ps n; i = last_argmin offs
      in if BARRIER_CORRIDOR_M < offs ! i then []
         else let start = min i (length ps - 2)
              in [(int start, int start + 1, snd c, round_dec 7 (lat n), round_dec 7 (lon n), round_dec 1 (along_m ps i n))])"

definition barrier_spans_on_route :: "(json \<Rightarrow> string) \<Rightarrow> latlon list \<Rightarrow> json list \<Rightarrow> (py_error, barrier_span list) result" where
  "barrier_spans_on_route pystr ps elements =
     (if length ps < 2 \<or> elements = [] then Inr []
      else case barrier_candidates pystr elements of
          Inl e \<Rightarrow> Inl e
        | Inr cs \<Rightarrow> Inr (sort (remdups (concat (map (barrier_span ps) cs)))))"

section \<open>Rest stops\<close>

text \<open>The dataclass of this module has the fields of the wire model.\<close>

fun rest_candidates :: "(json \<Rightarrow> string) \<Rightarrow> json list \<Rightarrow> (py_error, (latlon \<times> string) list) result" where
  "rest_candidates pystr [] = Inr []"
| "rest_candidates pystr (e # es) =
     (case element_node e of
        None \<Rightarrow> rest_candidates pystr es
      | Some n \<Rightarrow>
          (case element_tags e of
             Inl err \<Rightarrow> Inl err
           | Inr tags \<Rightarrow>
               (let kind = jor (jget ''amenity'' tags) (jget ''tourism'' tags)
                in case rest_candidates pystr es of
                     Inl err \<Rightarrow> Inl err
                   | Inr rest \<Rightarrow>
                       Inr (if truthy kind
                            then (n, replace_char (CHR ''_'') (CHR '' '') (json_str pystr kind)) # rest
                            else rest))))"

definition vertex_distances :: "latlon list \<Rightarrow> latlon \<Rightarrow> real list" where
  "vertex_distances ps n = map (\<lambda>p. haversine_m n p) ps"

definition rest_stop_at :: "latlon list \<Rightarrow> latlon \<times> string \<Rightarrow> rest_stop list" where
  "rest_stop_at ps c =
     (let ds = vertex_distances ps (fst c); i = argmax (\<lambda>x. - x) ds
      in if REST_STOP_CORRIDOR_M < ds ! i then []
         else [\<lparr>st_lat = round_dec 6 (lat (fst c)), st_lon = round_dec 6 (lon (fst c)), st_type = snd c,
                st_at_m = of_int (round_half_even (cumulative_distance_m ps ! i))\<rparr>])"

definition rest_stops_on_route :: "(json \<Rightarrow> string) \<Rightarrow> latlon list \<Rightarrow> json list \<Rightarrow> (py_error, rest_stop list) result" where
  "rest_stops_on_route pystr ps elements =
     (case rest_candidates pystr elements of
        Inl e \<Rightarrow> Inl e
      | Inr cs \<Rightarrow>
          if cs = [] \<or> ps = [] then Inr []
          else Inr (sort_key st_at_m (concat (map (rest_stop_at ps) cs))))"

fun worst_gap :: "real list \<Rightarrow> real" where
  "worst_gap (a # b # rest) = (if rest = [] then b - a else max (b - a) (worst_gap (b # rest)))"
| "worst_gap _ = 0"

definition rest_stop_gap_score :: "latlon list \<Rightarrow> rest_stop list option \<Rightarrow> real option" where
  "rest_stop_gap_score ps stops =
     (case stops of
        None \<Rightarrow> None
      | Some ss \<Rightarrow>
          let len = (if 1 < length ps then last (cumulative_distance_m ps) else 0)
          in if len \<le> 0 then None
             else if ss = [] then Some 0
             else let marks = 0 # map st_at_m ss @ [len]
                  in Some (round_dec 4 (max 0 (min 1 (REST_STOP_TARGET_SPACING_M / max (worst_gap marks) 1)))))"

section \<open>What the projection guarantees\<close>

lemma last_argmin_less: "xs \<noteq> [] \<Longrightarrow> last_argmin xs < length xs"
  by (simp add: last_argmin_def)

lemma last_argmin_le:
  assumes "j < length xs"
  shows "xs ! last_argmin xs \<le> xs ! j"
proof -
  have ne: "xs \<noteq> []" using assms by auto
  let ?m = "argmax (\<lambda>x. - x) (rev xs)"
  have m: "?m < length xs" using argmax_less [of "rev xs"] ne by simp
  have "- (rev xs ! (length xs - 1 - j)) \<le> - (rev xs ! ?m)"
    using assms by (intro argmax_ge) auto
  moreover have "rev xs ! (length xs - 1 - j) = xs ! j" using assms by (simp add: rev_nth)
  moreover have "rev xs ! ?m = xs ! last_argmin xs" using m by (simp add: rev_nth last_argmin_def)
  ultimately show ?thesis by simp
qed

lemma length_segment_offsets [simp]: "length (segment_offsets ps n) = length ps - 1"
  by (simp add: segment_offsets_def)

lemma segment_offsets_ne: "2 \<le> length ps \<Longrightarrow> segment_offsets ps n \<noteq> []"
  by (simp add: segment_offsets_def)

lemma barrier_span_found:
  assumes "i < length ps - 1" and "segment_offsets ps n ! i \<le> BARRIER_CORRIDOR_M"
  obtains j m where "j < length ps - 1" "segment_offsets ps n ! j \<le> segment_offsets ps n ! i"
    "barrier_span ps (n, v) = [(int j, int j + 1, v, round_dec 7 (lat n), round_dec 7 (lon n), m)]"
proof -
  let ?j = "last_argmin (segment_offsets ps n)"
  have le: "segment_offsets ps n ! ?j \<le> segment_offsets ps n ! i" using assms(1) by (intro last_argmin_le) simp
  have "segment_offsets ps n \<noteq> []" using assms(1) by (intro segment_offsets_ne) linarith
  then have j: "?j < length ps - 1" using last_argmin_less [of "segment_offsets ps n"] by simp
  then have "min ?j (length ps - 2) = ?j" by linarith
  with le j assms(2) show ?thesis by (intro that [of ?j]) (auto simp: barrier_span_def Let_def)
qed

lemma barrier_span_sound:
  assumes "2 \<le> length ps" and "(a, b, v, la, lo, m) \<in> set (barrier_span ps (n, w))"
  shows "v = w \<and> la = round_dec 7 (lat n) \<and> lo = round_dec 7 (lon n) \<and> 0 \<le> a \<and> b = a + 1 \<and> b \<le> int (length ps) - 1
    \<and> segment_offsets ps n ! nat a \<le> BARRIER_CORRIDOR_M"
proof -
  have j: "last_argmin (segment_offsets ps n) < length ps - 1"
    using last_argmin_less [OF segment_offsets_ne [OF assms(1), of n]] by simp
  then have "min (last_argmin (segment_offsets ps n)) (length ps - 2) = last_argmin (segment_offsets ps n)" by linarith
  then show ?thesis using assms(2) j by (auto simp: barrier_span_def Let_def split: if_splits)
qed

lemma off_m_on_segment:
  assumes "0 \<le> t" "t \<le> 1" and "n = (fst a + t * (fst b - fst a), snd a + t * (snd b - snd a))"
  shows "off_m a b n = 0"
proof (cases "0 < (fst b - fst a) * (fst b - fst a) + (snd b - snd a) * (snd b - snd a)")
  case True
  let ?x = "fst b - fst a" and ?y = "snd b - snd a"
  have num: "((fst n - fst a) * ?x + (snd n - snd a) * ?y) = t * (?x * ?x + ?y * ?y)"
    by (simp add: assms(3) algebra_simps)
  have "t * (?x * ?x + ?y * ?y) / (?x * ?x + ?y * ?y) = t"
    by (rule nonzero_mult_div_cancel_right) (use True in linarith)
  then have "foot a b n = t"
    unfolding foot_def Let_def num if_P [OF True] using assms(1,2) by (simp only: min_absorb2 max_absorb2)
  then show ?thesis by (simp add: off_m_def hypot_def assms(3))
next
  case False
  have "0 \<le> (fst b - fst a) * (fst b - fst a)" "0 \<le> (snd b - snd a) * (snd b - snd a)" by simp_all
  then have "(fst b - fst a) * (fst b - fst a) + (snd b - snd a) * (snd b - snd a) = 0"
    using False by linarith
  then have "fst b - fst a = 0" "snd b - snd a = 0" unfolding sum_squares_eq_zero_iff by auto
  then show ?thesis using False by (simp add: off_m_def foot_def hypot_def assms(3) Let_def)
qed

text \<open>
  C16 The projection of barrier nodes is sound and complete for the corridor: every span it gives is
  one segment of the line, carries the coordinates and the value of a node within ten metres of that
  segment, and no two spans are equal; and every candidate node within ten metres of any segment is
  given a span, on a segment at least as near.
\<close>

theorem barriers_in_the_corridor_are_found:
  assumes "barrier_candidates pystr elements = Inr cs" and "2 \<le> length ps"
    and "barrier_spans_on_route pystr ps elements = Inr spans"
  shows "distinct spans \<and> sorted spans
    \<and> (\<forall>(a, b, v, la, lo, m) \<in> set spans. 0 \<le> a \<and> b = a + 1 \<and> b \<le> int (length ps) - 1
         \<and> (\<exists>n. (n, v) \<in> set cs \<and> segment_offsets ps n ! nat a \<le> BARRIER_CORRIDOR_M
               \<and> la = round_dec 7 (lat n) \<and> lo = round_dec 7 (lon n)))
    \<and> (\<forall>(n, v) \<in> set cs. \<forall>i < length ps - 1. segment_offsets ps n ! i \<le> BARRIER_CORRIDOR_M \<longrightarrow>
         (\<exists>j m. (int j, int j + 1, v, round_dec 7 (lat n), round_dec 7 (lon n), m) \<in> set spans
               \<and> segment_offsets ps n ! j \<le> segment_offsets ps n ! i))"
proof -
  have "elements = [] \<Longrightarrow> cs = []" using assms(1) by simp
  then have sp: "spans = sort (remdups (concat (map (barrier_span ps) cs)))"
    using assms by (auto simp: barrier_spans_on_route_def split: if_splits)
  then have mem: "set spans = (\<Union>c \<in> set cs. set (barrier_span ps c))" by auto
  have sound: "0 \<le> a \<and> b = a + 1 \<and> b \<le> int (length ps) - 1
         \<and> (\<exists>n. (n, v) \<in> set cs \<and> segment_offsets ps n ! nat a \<le> BARRIER_CORRIDOR_M
               \<and> la = round_dec 7 (lat n) \<and> lo = round_dec 7 (lon n))"
    if s: "(a, b, v, la, lo, m) \<in> set spans" for a b v la lo m
  proof -
    obtain c where c: "c \<in> set cs" "(a, b, v, la, lo, m) \<in> set (barrier_span ps c)"
      using s unfolding mem by blast
    obtain n w where nw: "c = (n, w)" by fastforce
    show ?thesis using barrier_span_sound [OF assms(2) c(2) [unfolded nw]] c(1) nw by blast
  qed
  have complete: "\<exists>j m. (int j, int j + 1, v, round_dec 7 (lat n), round_dec 7 (lon n), m) \<in> set spans
               \<and> segment_offsets ps n ! j \<le> segment_offsets ps n ! i"
    if c: "(n, v) \<in> set cs" and i: "i < length ps - 1" "segment_offsets ps n ! i \<le> BARRIER_CORRIDOR_M" for n v i
  proof (rule barrier_span_found [OF i, of v])
    fix j m
    assume "segment_offsets ps n ! j \<le> segment_offsets ps n ! i"
      "barrier_span ps (n, v) = [(int j, int j + 1, v, round_dec 7 (lat n), round_dec 7 (lon n), m)]"
    with c show ?thesis unfolding mem by (intro exI [of _ j] exI [of _ m]) force
  qed
  have "distinct spans" "sorted spans" by (simp_all add: sp)
  then show ?thesis using sound complete by blast
qed

text \<open>A node on the line itself, anywhere between two vertices, is at offset zero.\<close>

lemma plane_affine:
  "plane ps (LatLon (lat a + t * (lat b - lat a)) (lon a + t * (lon b - lon a)))
   = (fst (plane ps a) + t * (fst (plane ps b) - fst (plane ps a)),
      snd (plane ps a) + t * (snd (plane ps b) - snd (plane ps a)))"
  by (simp add: plane_def Let_def algebra_simps)

lemma on_the_line_offset:
  assumes "i < length ps - 1" "0 \<le> t" "t \<le> 1"
    and "n = LatLon (lat (ps ! i) + t * (lat (ps ! Suc i) - lat (ps ! i)))
                    (lon (ps ! i) + t * (lon (ps ! Suc i) - lon (ps ! i)))"
  shows "segment_offsets ps n ! i = 0"
proof -
  have "off_m (plane ps (ps ! i)) (plane ps (ps ! Suc i)) (plane ps n) = 0"
    unfolding assms(4) plane_affine by (rule off_m_on_segment [OF assms(2,3) refl])
  then show ?thesis using assms(1) by (simp add: segment_offsets_def)
qed

definition gate_at :: "real \<Rightarrow> real \<Rightarrow> json" where
  "gate_at la lo = JObj [(''lat'', JNum la), (''lon'', JNum lo), (''tags'', JObj [(''barrier'', JStr ''gate'')])]"

lemma gate_candidates: "barrier_candidates pystr [gate_at la lo] = Inr [(LatLon la lo, ''gate'')]"
  by (simp add: gate_at_def element_tags_def element_node_def jor_def Let_def)

lemma barriers_in_the_corridor_are_found_witness:
  "\<exists>spans j m. barrier_spans_on_route (\<lambda>_. '''') [LatLon 0 0, LatLon 0 1] [gate_at 0 (1 / 2)] = Inr spans
     \<and> (int j, int j + 1, ''gate'', 0, round_dec 7 (1 / 2), m) \<in> set spans"
proof -
  let ?ps = "[LatLon 0 0, LatLon 0 1]"
  obtain spans where run: "barrier_spans_on_route (\<lambda>_. '''') ?ps [gate_at 0 (1 / 2)] = Inr spans"
    by (simp add: barrier_spans_on_route_def gate_candidates del: barrier_candidates.simps)
  have "segment_offsets ?ps (LatLon 0 (1 / 2)) ! 0 = 0"
    by (rule on_the_line_offset [where t = "1 / 2"]) simp_all
  then show ?thesis
    using run barriers_in_the_corridor_are_found [OF gate_candidates _ run]
    by (fastforce simp: BARRIER_CORRIDOR_M_def)
qed

section \<open>What the rest stops guarantee\<close>

lemma rest_stop_at_near:
  assumes "s \<in> set (rest_stop_at ps c)" and "ps \<noteq> []"
  shows "\<exists>p \<in> set ps. haversine_m (fst c) p \<le> REST_STOP_CORRIDOR_M
    \<and> st_lat s = round_dec 6 (lat (fst c)) \<and> st_lon s = round_dec 6 (lon (fst c)) \<and> st_type s = snd c"
proof -
  let ?i = "argmax (\<lambda>x. - x) (vertex_distances ps (fst c))"
  have i: "?i < length ps" using argmax_less [of "vertex_distances ps (fst c)"] assms(2)
    by (simp add: vertex_distances_def)
  then have "haversine_m (fst c) (ps ! ?i) = vertex_distances ps (fst c) ! ?i" by (simp add: vertex_distances_def)
  then show ?thesis using assms(1) i
    by (intro bexI [of _ "ps ! ?i"]) (auto simp: rest_stop_at_def Let_def split: if_splits)
qed

lemma worst_gap_ge_1: "0 < REST_STOP_TARGET_SPACING_M / max (worst_gap marks) 1"
  by (simp add: REST_STOP_TARGET_SPACING_M_def)

lemma worst_gap_ge:
  "Suc i < length marks \<Longrightarrow> marks ! Suc i - marks ! i \<le> worst_gap marks"
proof (induction marks arbitrary: i rule: worst_gap.induct)
  case (1 a b rest)
  then show ?case
  proof (cases i)
    case 0
    then show ?thesis by simp
  next
    case (Suc j)
    with "1.prems" have ne: "rest \<noteq> []" by auto
    have "(b # rest) ! Suc j - (b # rest) ! j \<le> worst_gap (b # rest)"
      using "1.IH" ne "1.prems" Suc by simp
    then show ?thesis using Suc ne by simp
  qed
qed auto

lemma worst_gap_attained:
  "2 \<le> length marks \<Longrightarrow> \<exists>i. Suc i < length marks \<and> worst_gap marks = marks ! Suc i - marks ! i"
proof (induction marks rule: worst_gap.induct)
  case (1 a b rest)
  show ?case
  proof (cases "rest = []")
    case True
    then show ?thesis by (intro exI [of _ 0]) simp
  next
    case False
    then have "2 \<le> length (b # rest)" by (cases rest) auto
    with "1.IH" [OF False] obtain i where i: "Suc i < length (b # rest)" "worst_gap (b # rest) = (b # rest) ! Suc i - (b # rest) ! i"
      by blast
    show ?thesis
    proof (cases "worst_gap (b # rest) \<le> b - a")
      case True
      then show ?thesis using False by (intro exI [of _ 0]) simp
    next
      case f: False
      then show ?thesis using False i by (intro exI [of _ "Suc i"]) simp
    qed
  qed
qed auto

text \<open>
  Rest stops mean what the card says of them: each one listed is within 35 metres of a vertex of
  the line and they are listed in the order the walker meets them. The spacing score is missing
  exactly when the survey or a length is, is 0 for a surveyed route without a stop, lies between 0
  and 1, and is 1 when no gap between stops, start and end exceeds 200 metres.
\<close>

theorem rest_stops_and_their_score:
  "(\<forall>ss. rest_stops_on_route pystr ps elements = Inr ss \<longrightarrow>
      sorted (map st_at_m ss)
      \<and> (\<forall>s \<in> set ss. \<exists>n. \<exists>p \<in> set ps. haversine_m n p \<le> REST_STOP_CORRIDOR_M
           \<and> st_lat s = round_dec 6 (lat n) \<and> st_lon s = round_dec 6 (lon n)))
 \<and> (rest_stop_gap_score ps stops = None \<longleftrightarrow>
      stops = None \<or> length ps \<le> 1 \<or> path_length_m ps \<le> 0)
 \<and> (\<forall>x. rest_stop_gap_score ps stops = Some x \<longrightarrow> 0 \<le> x \<and> x \<le> 1 \<and> (stops = Some [] \<longrightarrow> x = 0)
      \<and> (\<forall>ss. stops = Some ss \<and> ss \<noteq> []
           \<and> (\<forall>i \<le> length ss. (0 # map st_at_m ss @ [path_length_m ps]) ! Suc i
                 - (0 # map st_at_m ss @ [path_length_m ps]) ! i \<le> 200) \<longrightarrow> x = 1))"
proof (intro conjI allI impI)
  fix ss
  assume r: "rest_stops_on_route pystr ps elements = Inr ss"
  then show "sorted (map st_at_m ss)"
    by (auto simp: rest_stops_on_route_def split: sum.splits if_splits)
  show "\<forall>s \<in> set ss. \<exists>n. \<exists>p \<in> set ps. haversine_m n p \<le> REST_STOP_CORRIDOR_M
           \<and> st_lat s = round_dec 6 (lat n) \<and> st_lon s = round_dec 6 (lon n)"
    using r rest_stop_at_near
    by (auto simp: rest_stops_on_route_def split: sum.splits if_splits) blast
next
  have len: "(if 1 < length ps then last (cumulative_distance_m ps) else 0) = (if 1 < length ps then path_length_m ps else 0)"
    by (cases ps) (auto simp: last_cumulative)
  show "(rest_stop_gap_score ps stops = None) = (stops = None \<or> length ps \<le> 1 \<or> path_length_m ps \<le> 0)"
    unfolding rest_stop_gap_score_def len Let_def by (auto split: option.splits if_splits)
  fix x
  assume x: "rest_stop_gap_score ps stops = Some x"
  have u: "0 \<le> round_dec 4 (max 0 (min 1 (y::real))) \<and> round_dec 4 (max 0 (min 1 y)) \<le> 1" for y
    by (rule round_dec_unit) auto
  show "0 \<le> x" "x \<le> 1"
    using x u unfolding rest_stop_gap_score_def len Let_def by (auto split: option.splits if_splits)
  show "x = 0" if "stops = Some []"
    using x that unfolding rest_stop_gap_score_def len Let_def by (auto split: if_splits)
  fix ss
  assume s: "stops = Some ss \<and> ss \<noteq> []
     \<and> (\<forall>i \<le> length ss. (0 # map st_at_m ss @ [path_length_m ps]) ! Suc i
           - (0 # map st_at_m ss @ [path_length_m ps]) ! i \<le> 200)"
  let ?marks = "0 # map st_at_m ss @ [path_length_m ps]"
  have "2 \<le> length ?marks" by simp
  then obtain i where "Suc i < length ?marks" "worst_gap ?marks = ?marks ! Suc i - ?marks ! i"
    using worst_gap_attained by blast
  then have "worst_gap ?marks \<le> 200" using s by auto
  then have "1 \<le> REST_STOP_TARGET_SPACING_M / max (worst_gap ?marks) 1"
    by (simp add: REST_STOP_TARGET_SPACING_M_def)
  then have "max 0 (min 1 (REST_STOP_TARGET_SPACING_M / max (worst_gap ?marks) 1)) = 1" by simp
  moreover have "0 < path_length_m ps" "1 < length ps" "x = round_dec 4 (max 0 (min 1 (REST_STOP_TARGET_SPACING_M / max (worst_gap ?marks) 1)))"
    using x s unfolding rest_stop_gap_score_def len Let_def by (auto split: if_splits)
  ultimately show "x = 1" by simp
qed

lemma rest_stops_and_their_score_witness:
  "rest_stop_gap_score forty_metres (Some [\<lparr>st_lat = 0, st_lon = 0, st_type = ''bench'', st_at_m = 20\<rparr>]) = Some 1"
proof -
  let ?ss = "[\<lparr>st_lat = 0, st_lon = 0, st_type = ''bench'', st_at_m = 20\<rparr>]"
  have len: "path_length_m forty_metres = 40" by (simp add: path_length_m_def forty_metres_lengths)
  obtain x where x: "rest_stop_gap_score forty_metres (Some ?ss) = Some x"
    using len forty_metres_length rest_stops_and_their_score [where ps = forty_metres and stops = "Some ?ss"]
    by (cases "rest_stop_gap_score forty_metres (Some ?ss)") auto
  have gaps: "\<forall>i \<le> length ?ss. (0 # map st_at_m ?ss @ [path_length_m forty_metres]) ! Suc i
                 - (0 # map st_at_m ?ss @ [path_length_m forty_metres]) ! i \<le> 200"
    by (auto simp: len less_Suc_eq le_Suc_eq)
  have "x = 1"
    using rest_stops_and_their_score [where ps = forty_metres and stops = "Some ?ss"] x gaps by blast
  then show ?thesis using x by simp
qed

end
