(* ===== verification/Enrich.thy ===== *)
theory Enrich
  imports Survey Sun Metrics
begin

text \<open>
  backend/enrich.py, the rest: air quality and cloud cover read out of hourly series, the search for
  the best departure, and the one call main.py makes. What each upstream answers is an argument; the
  search asks again for what it was not given, so those second answers are arguments too.
\<close>

definition AQI_WORST :: real where "AQI_WORST = 100"
definition DEPARTURE_STEP_MIN :: int where "DEPARTURE_STEP_MIN = 15"
definition DEPARTURE_HORIZON_H :: int where "DEPARTURE_HORIZON_H = 6"

section \<open>Hourly series\<close>

text \<open>\<open>list.index\<close>, \<open>str.index\<close>; what has neither raises.\<close>

fun index_of :: "json \<Rightarrow> string \<Rightarrow> (py_error, nat option) result" where
  "index_of (JList xs) key = Inr (find (\<lambda>i. xs ! i = JStr key) [0..<length xs])"
| "index_of (JStr s) key = Inr (find (\<lambda>i. take (length key) (drop i s) = key) [0..<Suc (length s)])"
| "index_of _ key = Inl AttributeError"

definition hour_index :: "moment \<Rightarrow> json \<Rightarrow> (py_error, nat option) result" where
  "hour_index t hourly =
     (if \<not> truthy (jget ''time'' hourly) then Inr None else index_of (jget ''time'' hourly) (hour_stamp t))"

definition reading :: "json \<Rightarrow> real option" where
  "reading v = (if v = JNull then None else case json_float v of Inl e \<Rightarrow> None | Inr x \<Rightarrow> Some x)"

fun value_at :: "json \<Rightarrow> nat option \<Rightarrow> (py_error, real option) result" where
  "value_at series None = Inr None"
| "value_at (JList xs) (Some i) = Inr (if length xs \<le> i then None else reading (xs ! i))"
| "value_at (JStr s) (Some i) = Inr (if length s \<le> i then None else reading (JStr [s ! i]))"
| "value_at (JObj kvs) (Some i) = (if length kvs \<le> i then Inr None else Inl PyKeyError)"
| "value_at series (Some i) = (if truthy series then Inl PyTypeError else Inr None)"

text \<open>
  \<open>response.json().get("hourly", {})\<close>; \<open>None\<close> for the failures the callers catch. A missing key is an
  empty object; what is no object has no \<open>get\<close>.
\<close>

definition hourly_of :: "http_response \<Rightarrow> json option" where
  "hourly_of r =
     (case resp_json r of
        None \<Rightarrow> None
      | Some j \<Rightarrow>
          if \<not> is_dict j then None
          else let h = (if jhas ''hourly'' j then jget ''hourly'' j else JObj [])
               in if is_dict h then Some h else None)"

record air_quality =
  aq_score :: real
  aq_aqi :: "real option"
  aq_pm2_5 :: "real option"

definition air_quality_of :: "moment \<Rightarrow> json \<Rightarrow> air_quality attempt" where
  "air_quality_of t hourly =
     (case hour_index t hourly of
        Inl e \<Rightarrow> (0, Inl e)
      | Inr i \<Rightarrow>
          (case (value_at (jor (jget ''european_aqi'' hourly) (JList [])) i,
                 value_at (jor (jget ''pm2_5'' hourly) (JList [])) i) of
             (Inl e, _) \<Rightarrow> (0, Inl e)
           | (_, Inl e) \<Rightarrow> (0, Inl e)
           | (Inr None, Inr pm) \<Rightarrow> (0, Inr None)
           | (Inr (Some aqi), Inr pm) \<Rightarrow>
               (0, Inr (Some \<lparr>aq_score = round_dec 4 (max 0 (min 1 (1 - aqi / AQI_WORST))),
                              aq_aqi = Some aqi, aq_pm2_5 = pm\<rparr>))))"

definition fetch_air_quality :: "moment \<Rightarrow> (fetch_error, http_response) result \<Rightarrow> air_quality attempt" where
  "fetch_air_quality t fetched =
     (case fetched of
        Inl ResponseTooLarge \<Rightarrow> (0, Inl PyRuntimeError)
      | Inl SecretLeaked \<Rightarrow> (0, Inl PyRuntimeError)
      | Inl e \<Rightarrow> (1, Inr None)
      | Inr r \<Rightarrow>
          if 400 \<le> hr_status r then (1, Inr None)
          else case hourly_of r of
              None \<Rightarrow> (1, Inr None)
            | Some hourly \<Rightarrow> air_quality_of t hourly)"

definition fetch_cloud_cover :: "moment \<Rightarrow> (fetch_error, http_response) result \<Rightarrow> real attempt" where
  "fetch_cloud_cover t fetched =
     (case fetched of
        Inl ResponseTooLarge \<Rightarrow> (0, Inl PyRuntimeError)
      | Inl SecretLeaked \<Rightarrow> (0, Inl PyRuntimeError)
      | Inl e \<Rightarrow> (1, Inr None)
      | Inr r \<Rightarrow>
          if 400 \<le> hr_status r then (1, Inr None)
          else case hourly_of r of
              None \<Rightarrow> (0, Inr None)
            | Some hourly \<Rightarrow>
                (case hour_index t hourly of
                   Inl e \<Rightarrow> (0, Inl e)
                 | Inr i \<Rightarrow>
                     (case value_at (jor (jget ''cloud_cover'' hourly) (JList [])) i of
                        Inl e \<Rightarrow> (0, Inl e)
                      | Inr None \<Rightarrow> (0, Inr None)
                      | Inr (Some v) \<Rightarrow> (0, Inr (Some (round_dec 4 (max 0 (min 1 (v / 100)))))))))"

section \<open>The best departure\<close>

record departure =
  dp_when :: moment
  dp_reason :: string
  dp_score :: real

definition capitalised :: "string \<Rightarrow> string" where
  "capitalised s = str_upper (take 1 s) @ drop 1 s"

definition departure_parts :: "sun_position \<Rightarrow> real \<Rightarrow> real \<Rightarrow> air_quality option \<Rightarrow> string list" where
  "departure_parts sun light exposure air =
     (if 0.3 < light then [''the light will be low and along your way'']
      else if exposure < 0.25 \<and> is_up sun then [''the sun will be off your back'']
      else if \<not> is_up sun then [''it will be dark, so this is the quietest rather than the prettiest option'']
      else [])
     @ (case air of
          None \<Rightarrow> []
        | Some a \<Rightarrow>
            if 0.7 < aq_score a then [''air quality is good'']
            else if aq_score a < 0.4 then [''air quality is poor all afternoon, so this is the least bad slot'']
            else [])"

definition departure_reason :: "sun_position \<Rightarrow> real \<Rightarrow> real \<Rightarrow> air_quality option \<Rightarrow> string" where
  "departure_reason sun light exposure air =
     (case departure_parts sun light exposure air of
        [] \<Rightarrow> ''This is the most comfortable slot in the next few hours.''
      | [p] \<Rightarrow> capitalised p @ ''.''
      | p # q # _ \<Rightarrow> capitalised p @ '', and '' @ q @ ''.'')"

definition slot :: "latlon \<Rightarrow> real option \<Rightarrow> air_quality option \<Rightarrow> real option \<Rightarrow> moment \<Rightarrow> departure" where
  "slot midpoint heading air cloud t =
     (let sun = solar_position t midpoint;
          exposure = shade_need sun * (1 - (case cloud of None \<Rightarrow> 0.5 | Some c \<Rightarrow> c));
          air_score = (case air of None \<Rightarrow> 0.5 | Some a \<Rightarrow> aq_score a);
          light = (case heading of None \<Rightarrow> 0 | Some h \<Rightarrow> golden_hour sun h);
          base = (case heading of
              None \<Rightarrow> (0.45 * air_score + 0.35 * (1 - exposure)) / 0.80
            | Some h \<Rightarrow> 0.45 * air_score + 0.35 * (1 - exposure) + 0.20 * light)
      in \<lparr>dp_when = t, dp_reason = departure_reason sun light exposure air,
          dp_score = (if sun_elevation_deg sun < -6 then base * 0.35 else base)\<rparr>)"

definition slot_times :: "moment \<Rightarrow> moment list" where
  "slot_times start =
     map (\<lambda>k. start + int k * DEPARTURE_STEP_MIN * 60)
       [0..<nat (DEPARTURE_HORIZON_H * 60 div DEPARTURE_STEP_MIN) + 1]"

definition best_slot :: "departure list \<Rightarrow> departure option" where
  "best_slot ds = (case ds of [] \<Rightarrow> None | d # rest \<Rightarrow> Some (first_max dp_score d rest))"

text \<open>
  \<open>air_again\<close> and \<open>cloud_again\<close> are what the second request gives where the first found nothing.
\<close>

definition best_departure :: "latlon list \<Rightarrow> moment \<Rightarrow> air_quality option \<Rightarrow> real option
    \<Rightarrow> air_quality attempt \<Rightarrow> real attempt \<Rightarrow> departure attempt" where
  "best_departure ps start air cloud air_again cloud_again =
     (if length ps < 2 then (0, Inr None)
      else
        let (n1, air') = (if air = None then air_again else (0, Inr air));
            (n2, cloud') = (if cloud = None then cloud_again else (0, Inr cloud))
        in case air' of
             Inl e \<Rightarrow> (n1, Inl e)
           | Inr a \<Rightarrow>
               (case cloud' of
                  Inl e \<Rightarrow> (n1 + n2, Inl e)
                | Inr c \<Rightarrow>
                    if a = None \<and> c = None then (n1 + n2, Inr None)
                    else (n1 + n2, Inr (best_slot
                      (map (slot (ps ! (length ps div 2)) (route_heading ps) a c) (slot_times start))))))"

section \<open>One request's enrichment\<close>

text \<open>\<open>_degrade\<close>: an exception is a failure counted and a missing value.\<close>

definition degrade :: "'a attempt \<Rightarrow> nat \<times> 'a option" where
  "degrade a = (case snd a of Inl e \<Rightarrow> (fst a + 1, None) | Inr v \<Rightarrow> (fst a, v))"

record enrich_context =
  ec_rest_stop_nodes :: "json list option"
  ec_barrier_nodes :: "json list option"
  ec_air :: "air_quality option"
  ec_shade_need :: "real option"
  ec_sun :: "sun_position option"
  ec_departure :: "departure option"

definition empty_context :: enrich_context where
  "empty_context = \<lparr>ec_rest_stop_nodes = None, ec_barrier_nodes = None, ec_air = None, ec_shade_need = None,
     ec_sun = None, ec_departure = None\<rparr>"

definition sampled_for_overpass :: "latlon list \<Rightarrow> latlon list" where
  "sampled_for_overpass ps = (if length ps \<le> 120 then ps else map s_point (sample_every ps 25 120))"

definition longest_of :: "latlon list list \<Rightarrow> latlon list" where
  "longest_of routes = (case routes of [] \<Rightarrow> [] | r # rs \<Rightarrow> first_max length r rs)"

text \<open>The upstreams of one request, each a function of what it is asked.\<close>

record upstreams =
  up_overpass :: "string \<Rightarrow> (fetch_error, http_response) result"
  up_air :: "latlon \<Rightarrow> (fetch_error, http_response) result"
  up_cloud :: "latlon \<Rightarrow> (fetch_error, http_response) result"
  up_air_again :: "latlon \<Rightarrow> (fetch_error, http_response) result"
  up_cloud_again :: "latlon \<Rightarrow> (fetch_error, http_response) result"

definition needed_shade :: "sun_position \<Rightarrow> real option \<Rightarrow> real option" where
  "needed_shade sun cloud = map_option (\<lambda>c. round_dec 4 (max 0 (min 1 (shade_need sun * (1 - c))))) cloud"

definition enrich_context :: "upstreams \<Rightarrow> latlon list list \<Rightarrow> moment \<Rightarrow> nat \<times> enrich_context" where
  "enrich_context up routes_points t =
     (let all_points = concat routes_points
      in if length all_points < 2 then (0, empty_context)
         else
           let longest = longest_of routes_points;
               midpoint = longest ! (length longest div 2);
               sampled = sampled_for_overpass all_points;
               (n1, stops) = degrade (fetch_overpass sampled (up_overpass up (overpass_query sampled)));
               (n2, barriers) = degrade (fetch_overpass sampled (up_overpass up (overpass_barrier_query sampled)));
               (n3, air) = degrade (fetch_air_quality t (up_air up midpoint));
               (n4, cloud) = degrade (fetch_cloud_cover t (up_cloud up midpoint));
               sun = solar_position t midpoint;
               (n5, dep) = degrade (best_departure longest t air cloud
                 (fetch_air_quality t (up_air_again up midpoint))
                 (fetch_cloud_cover t (up_cloud_again up midpoint)))
           in (n1 + n2 + n3 + n4 + n5,
               \<lparr>ec_rest_stop_nodes = Option.bind stops usable, ec_barrier_nodes = Option.bind barriers usable,
                ec_air = air, ec_shade_need = needed_shade sun cloud, ec_sun = Some sun, ec_departure = dep\<rparr>))"

section \<open>What enrichment guarantees\<close>

lemma find_index:
  "find (\<lambda>i. xs ! i = v) [0..<length xs] = None \<longleftrightarrow> v \<notin> set xs"
  by (auto simp: find_None_iff in_set_conv_nth)

text \<open>An answer whose hours are a list, as Open-Meteo sends them.\<close>

definition hourly_answer :: "http_response \<Rightarrow> json \<Rightarrow> json list \<Rightarrow> bool" where
  "hourly_answer r hourly hours \<longleftrightarrow>
     hr_status r < 400 \<and> hourly_of r = Some hourly \<and> jget ''time'' hourly = JList hours"

lemma hour_missing:
  assumes "hourly_answer r hourly hours" and "JStr (hour_stamp t) \<notin> set hours"
  shows "hour_index t hourly = Inr None"
  using assms by (simp add: hour_index_def hourly_answer_def find_index)

lemma hour_found:
  assumes "hourly_answer r hourly hours" and "i < length hours" and "distinct hours"
    and "hours ! i = JStr (hour_stamp t)"
  shows "hour_index t hourly = Inr (Some i)"
proof -
  have "hours \<noteq> []" using assms(2) by auto
  moreover have "find (\<lambda>j. hours ! j = JStr (hour_stamp t)) [0..<length hours] = Some i"
  proof (rule iffD2 [OF List.find_Some_iff], intro exI [of _ i] conjI allI impI)
    fix j assume "j < i"
    then show "hours ! ([0..<length hours] ! j) \<noteq> JStr (hour_stamp t)"
      using assms(2,4) nth_eq_iff_index_eq [OF assms(3), of j i] by auto
  qed (use assms in auto)
  ultimately show ?thesis using assms(1) by (simp add: hour_index_def hourly_answer_def)
qed

text \<open>
  A reading is of the hour that was asked about. With an answer whose hours do not list that
  hour, such as a recorded forecast of another day, there is no air quality and no cloud cover and
  nothing is counted as a failure; with one that does, the air score is one minus the index of that
  position over 100, cut to between 0 and 1 and rounded, and the cloud cover likewise.
\<close>

theorem readings_are_of_the_hour_asked:
  assumes "hourly_answer r hourly hours"
  shows "(JStr (hour_stamp t) \<notin> set hours \<longrightarrow>
      fetch_air_quality t (Inr r) = (0, Inr None) \<and> fetch_cloud_cover t (Inr r) = (0, Inr None))
    \<and> (\<forall>i aqis clouds aqi cloud. distinct hours \<and> i < length hours \<and> hours ! i = JStr (hour_stamp t)
        \<and> jget ''european_aqi'' hourly = JList aqis \<and> jget ''pm2_5'' hourly = JList []
        \<and> jget ''cloud_cover'' hourly = JList clouds \<and> i < length aqis \<and> i < length clouds
        \<and> aqis ! i = JNum aqi \<and> clouds ! i = JNum cloud \<longrightarrow>
        fetch_air_quality t (Inr r) = (0, Inr (Some \<lparr>aq_score = round_dec 4 (max 0 (min 1 (1 - aqi / 100))),
            aq_aqi = Some aqi, aq_pm2_5 = None\<rparr>))
        \<and> fetch_cloud_cover t (Inr r) = (0, Inr (Some (round_dec 4 (max 0 (min 1 (cloud / 100)))))))"
proof (intro conjI allI impI)
  assume "JStr (hour_stamp t) \<notin> set hours"
  note none = hour_missing [OF assms this]
  show "fetch_air_quality t (Inr r) = (0, Inr None)" "fetch_cloud_cover t (Inr r) = (0, Inr None)"
    using assms by (simp_all add: fetch_air_quality_def fetch_cloud_cover_def hourly_answer_def air_quality_of_def none)
next
  fix i aqis clouds aqi cloud
  assume a: "distinct hours \<and> i < length hours \<and> hours ! i = JStr (hour_stamp t)
        \<and> jget ''european_aqi'' hourly = JList aqis \<and> jget ''pm2_5'' hourly = JList []
        \<and> jget ''cloud_cover'' hourly = JList clouds \<and> i < length aqis \<and> i < length clouds
        \<and> aqis ! i = JNum aqi \<and> clouds ! i = JNum cloud"
  then have idx: "hour_index t hourly = Inr (Some i)" by (intro hour_found [OF assms]) auto
  have "aqis \<noteq> []" "clouds \<noteq> []" using a by auto
  then show "fetch_air_quality t (Inr r) = (0, Inr (Some \<lparr>aq_score = round_dec 4 (max 0 (min 1 (1 - aqi / 100))),
            aq_aqi = Some aqi, aq_pm2_5 = None\<rparr>))"
      "fetch_cloud_cover t (Inr r) = (0, Inr (Some (round_dec 4 (max 0 (min 1 (cloud / 100))))))"
    using assms a by (auto simp: fetch_air_quality_def fetch_cloud_cover_def hourly_answer_def
      air_quality_of_def idx jor_def reading_def AQI_WORST_def)
qed

definition recorded_day :: http_response where
  "recorded_day = \<lparr>hr_status = 200, hr_headers = [], hr_body = BJson (JObj [(''hourly'',
     JObj [(''time'', JList [JStr ''1970-01-01T00:00'', JStr ''1970-01-01T01:00'']),
           (''european_aqi'', JList [JNum 20, JNum 40]), (''pm2_5'', JList []),
           (''cloud_cover'', JList [JNum 0, JNum 50])])])\<rparr>"

lemma stamp_samples: "hour_stamp 5000 = ''1970-01-01T01:00''" "hour_stamp 86400 = ''1970-01-02T00:00''"
  by code_simp+

lemma readings_are_of_the_hour_asked_witness:
  "fetch_cloud_cover 5000 (Inr recorded_day) = (0, Inr (Some (1 / 2)))
   \<and> fetch_air_quality 86400 (Inr recorded_day) = (0, Inr None)"
proof -
  let ?hourly = "JObj [(''time'', JList [JStr ''1970-01-01T00:00'', JStr ''1970-01-01T01:00'']),
           (''european_aqi'', JList [JNum 20, JNum 40]), (''pm2_5'', JList []),
           (''cloud_cover'', JList [JNum 0, JNum 50])]"
  have h: "hourly_answer recorded_day ?hourly [JStr ''1970-01-01T00:00'', JStr ''1970-01-01T01:00'']"
    by (simp add: hourly_answer_def recorded_day_def hourly_of_def resp_json_def)
  have r: "round_dec 4 (1 / 2) = 1 / 2"
  proof -
    have "round_half_even (5000 :: real) = 5000" using round_half_even_of_int [of 5000] by simp
    then show ?thesis by (simp add: round_dec_def)
  qed
  have "fetch_air_quality 86400 (Inr recorded_day) = (0, Inr None)"
    using readings_are_of_the_hour_asked [OF h, of 86400] by (simp add: stamp_samples)
  moreover have "fetch_cloud_cover 5000 (Inr recorded_day) = (0, Inr (Some (round_dec 4 (max 0 (min 1 (50 / 100))))))"
    using readings_are_of_the_hour_asked [OF h, of 5000, THEN conjunct2, rule_format,
        of 1 "[JNum 20, JNum 40]" "[JNum 0, JNum 50]" 40 50]
    by (simp add: stamp_samples)
  ultimately show ?thesis using r by simp
qed

lemma first_max_first:
  fixes k :: "'a \<Rightarrow> 'b::linorder"
  shows "\<exists>j < Suc (length xs). (b # xs) ! j = first_max k b xs \<and> (\<forall>i < j. k ((b # xs) ! i) < k (first_max k b xs))"
proof (induction xs arbitrary: b)
  case (Cons x xs)
  show ?case
  proof (cases "k b < k x")
    case True
    obtain j where j: "j < Suc (length xs)" "(x # xs) ! j = first_max k x xs"
        "\<forall>i < j. k ((x # xs) ! i) < k (first_max k x xs)"
      using Cons.IH [of x] by blast
    have "k b < k (first_max k x xs)"
    proof (cases j)
      case 0
      then show ?thesis using j(2) True by simp
    next
      case (Suc j')
      then have "k x < k (first_max k x xs)" using j(3) by force
      then show ?thesis using True by order
    qed
    have "k ((b # x # xs) ! i) < k (first_max k x xs)" if "i < Suc j" for i
      using that j(3) \<open>k b < k (first_max k x xs)\<close> by (cases i) auto
    then show ?thesis using True j(1,2) by (intro exI [of _ "Suc j"]) simp
  next
    case False
    obtain j where j: "j < Suc (length xs)" "(b # xs) ! j = first_max k b xs"
        "\<forall>i < j. k ((b # xs) ! i) < k (first_max k b xs)"
      using Cons.IH [of b] by blast
    show ?thesis
    proof (cases j)
      case 0
      then show ?thesis using j False by (intro exI [of _ 0]) auto
    next
      case (Suc j')
      have "k b < k (first_max k b xs)" using j(3) Suc by force
      then have x: "k x < k (first_max k b xs)" using False by order
      have "k ((b # x # xs) ! i) < k (first_max k b xs)" if i: "i < Suc j" for i
      proof (cases i)
        case 0
        then show ?thesis using \<open>k b < k (first_max k b xs)\<close> by simp
      next
        case s: (Suc i')
        then show ?thesis
        proof (cases i')
          case 0
          then show ?thesis using x s by simp
        next
          case (Suc i'')
          then show ?thesis using j(3) i s by force
        qed
      qed
      then show ?thesis using False j(1,2) Suc by (intro exI [of _ "Suc j"]) simp
    qed
  qed
qed simp

lemma slot_times_length: "length (slot_times start) = 25"
  by (simp add: slot_times_def DEPARTURE_HORIZON_H_def DEPARTURE_STEP_MIN_def)

lemma nth_slot_times: "i < 25 \<Longrightarrow> slot_times start ! i = start + int i * 900"
  by (simp add: slot_times_def DEPARTURE_HORIZON_H_def DEPARTURE_STEP_MIN_def)

lemma dp_when_slot [simp]: "dp_when (slot midpoint heading air cloud t) = t"
  by (simp add: slot_def Let_def)

text \<open>
  The best departure is the best of the slots searched. With nothing measurable there is none;
  otherwise it is one of the twenty-five quarter-hour slots from the start to six hours later, no
  slot scores more, and every earlier slot scores strictly less.
\<close>

theorem best_departure_is_the_earliest_best_slot:
  assumes "2 \<le> length ps" and "a = (if air = None then air_again else air)"
    and "c = (if cloud = None then cloud_again else cloud)"
    and "s = (\<lambda>i. slot (ps ! (length ps div 2)) (route_heading ps) a c (start + int i * 900))"
  shows "if a = None \<and> c = None
     then best_departure ps start air cloud (0, Inr air_again) (0, Inr cloud_again) = (0, Inr None)
     else \<exists>k < 25. best_departure ps start air cloud (0, Inr air_again) (0, Inr cloud_again) = (0, Inr (Some (s k)))
       \<and> dp_when (s k) = start + int k * 900
       \<and> (\<forall>i < 25. dp_score (s i) \<le> dp_score (s k)) \<and> (\<forall>i < k. dp_score (s i) < dp_score (s k))"
proof -
  let ?slots = "map (slot (ps ! (length ps div 2)) (route_heading ps) a c) (slot_times start)"
  have run: "best_departure ps start air cloud (0, Inr air_again) (0, Inr cloud_again) =
      (if a = None \<and> c = None then (0, Inr None) else (0, Inr (best_slot ?slots)))"
    using assms(1-3) by (auto simp: best_departure_def Let_def)
  have len: "length ?slots = 25" by (simp add: slot_times_length)
  have nth_slots: "?slots ! i = s i" if "i < 25" for i
    using that by (simp add: slot_times_length nth_slot_times assms(4))
  obtain d rest where ds: "?slots = d # rest" using len by (cases ?slots) auto
  have nth: "(d # rest) ! i = s i" if "i < 25" for i using nth_slots [OF that] unfolding ds .
  have len': "length rest = 24" using len unfolding ds by simp
  obtain k where k: "k < Suc (length rest)" "(d # rest) ! k = first_max dp_score d rest"
      "\<forall>i < k. dp_score ((d # rest) ! i) < dp_score (first_max dp_score d rest)"
    using first_max_first [of rest d dp_score] by blast
  have k25: "k < 25" using k(1) len' by simp
  have sk: "first_max dp_score d rest = s k" using k(2) nth [OF k25] by simp
  have best: "best_slot ?slots = Some (s k)" unfolding ds best_slot_def by (simp add: sk)
  have ge: "dp_score (s i) \<le> dp_score (s k)" if "i < 25" for i
  proof -
    have "(d # rest) ! i \<in> set (d # rest)" using that len' by (intro nth_mem) simp
    then have "s i \<in> insert d (set rest)" unfolding nth [OF that] by simp
    from first_max_ge [OF this, of dp_score] show ?thesis unfolding sk .
  qed
  have lt: "dp_score (s i) < dp_score (s k)" if "i < k" for i
    using k(3) that nth [of i] k25 unfolding sk by (metis less_trans)
  have "dp_when (s k) = start + int k * 900" by (simp add: assms(4))
  with best ge lt k25 show ?thesis unfolding run by auto
qed

lemma best_departure_is_the_earliest_best_slot_witness:
  "best_departure equator 0 None None (0, Inr None) (0, Inr None) = (0, Inr None)"
  using best_departure_is_the_earliest_best_slot [OF _ refl refl refl, of equator None None None None 0]
  by (simp add: equator_def)

lemma degrade_unreachable:
  "e \<noteq> ResponseTooLarge \<Longrightarrow> e \<noteq> SecretLeaked \<Longrightarrow> 2 \<le> length ps \<Longrightarrow> degrade (fetch_overpass ps (Inl e)) = (1, None)"
  by (cases e) (auto simp: fetch_overpass_def degrade_def)

lemma degrade_overpass_failure: "2 \<le> length ps \<Longrightarrow> degrade (fetch_overpass ps (Inl e)) = (1, None)"
  by (cases e) (auto simp: fetch_overpass_def degrade_def)

lemma usable_complete: "usable n = Some es \<Longrightarrow> on_elements n = es \<and> \<not> on_truncated n"
  by (auto simp: usable_def split: if_splits)

lemma overpass_usable:
  assumes "degrade (fetch_overpass ps fetched) = (n, Some nodes)" and "usable nodes = Some es"
  shows "length es < OVERPASS_MAX_RESULTS"
proof -
  have "es = [] \<or> \<not> OVERPASS_MAX_RESULTS \<le> length es"
    using assms by (auto simp: degrade_def fetch_overpass_def usable_def Let_def
      split: sum.splits fetch_error.splits option.splits if_splits)
  then show ?thesis by (auto simp: OVERPASS_MAX_RESULTS_def)
qed

lemma needed_shade_unit: "pred_option (\<lambda>x. 0 \<le> x \<and> x \<le> 1) (needed_shade sun cloud)"
proof -
  have "0 \<le> round_dec 4 (max 0 (min 1 x)) \<and> round_dec 4 (max 0 (min 1 x)) \<le> (1 :: real)" for x
    by (rule round_dec_unit) auto
  then show ?thesis by (cases cloud) (simp_all add: needed_shade_def)
qed

definition same_weather :: "upstreams \<Rightarrow> upstreams \<Rightarrow> bool" where
  "same_weather u v \<longleftrightarrow> up_air u = up_air v \<and> up_cloud u = up_cloud v
     \<and> up_air_again u = up_air_again v \<and> up_cloud_again u = up_cloud_again v"

lemma enrich_context_parts:
  assumes "2 \<le> length (concat routes)"
  shows "snd (enrich_context up routes t) =
    (let longest = longest_of routes; midpoint = longest ! (length longest div 2);
         sampled = sampled_for_overpass (concat routes);
         air = snd (degrade (fetch_air_quality t (up_air up midpoint)));
         cloud = snd (degrade (fetch_cloud_cover t (up_cloud up midpoint)))
     in \<lparr>ec_rest_stop_nodes = Option.bind (snd (degrade (fetch_overpass sampled (up_overpass up (overpass_query sampled))))) usable,
         ec_barrier_nodes = Option.bind (snd (degrade (fetch_overpass sampled (up_overpass up (overpass_barrier_query sampled))))) usable,
         ec_air = air, ec_shade_need = needed_shade (solar_position t midpoint) cloud,
         ec_sun = Some (solar_position t midpoint),
         ec_departure = snd (degrade (best_departure longest t air cloud
           (fetch_air_quality t (up_air_again up midpoint)) (fetch_cloud_cover t (up_cloud_again up midpoint))))\<rparr>)"
  using assms by (simp add: enrich_context_def Let_def case_prod_beta not_less)

text \<open>
  Enrichment degrades and never fails: whatever its upstreams do, a request gets a context. The
  weather parts of it do not depend on what Overpass answers; a survey that was truncated at 6000
  elements is no survey; when Overpass fails there is no survey and a failure is counted; and the
  shade the hour calls for lies between 0 and 1 when it is known at all.
\<close>

theorem enrichment_degrades:
  assumes "2 \<le> length (concat routes)"
  shows "(same_weather up up' \<longrightarrow>
      ec_air (snd (enrich_context up routes t)) = ec_air (snd (enrich_context up' routes t))
      \<and> ec_shade_need (snd (enrich_context up routes t)) = ec_shade_need (snd (enrich_context up' routes t))
      \<and> ec_departure (snd (enrich_context up routes t)) = ec_departure (snd (enrich_context up' routes t)))
    \<and> (\<forall>es. ec_barrier_nodes (snd (enrich_context up routes t)) = Some es \<longrightarrow> length es < 6000)
    \<and> (\<forall>es. ec_rest_stop_nodes (snd (enrich_context up routes t)) = Some es \<longrightarrow> length es < 6000)
    \<and> pred_option (\<lambda>x. 0 \<le> x \<and> x \<le> 1) (ec_shade_need (snd (enrich_context up routes t)))
    \<and> ((\<forall>q. \<exists>e. up_overpass up q = Inl e) \<and> 2 \<le> length (sampled_for_overpass (concat routes)) \<longrightarrow>
        ec_barrier_nodes (snd (enrich_context up routes t)) = None
        \<and> ec_rest_stop_nodes (snd (enrich_context up routes t)) = None
        \<and> 2 \<le> fst (enrich_context up routes t))"
proof (intro conjI impI allI)
  let ?s = "sampled_for_overpass (concat routes)"
  have small: "length es < 6000"
    if "Option.bind (snd (degrade (fetch_overpass ?s f))) usable = Some es" for f es
    using that overpass_usable [of ?s f "fst (degrade (fetch_overpass ?s f))" _ es]
    by (auto simp: bind_eq_Some_conv OVERPASS_MAX_RESULTS_def prod_eq_iff)
  show "length es < 6000" if "ec_barrier_nodes (snd (enrich_context up routes t)) = Some es" for es
    using that small unfolding enrich_context_parts [OF assms] Let_def by simp
  show "length es < 6000" if "ec_rest_stop_nodes (snd (enrich_context up routes t)) = Some es" for es
    using that small unfolding enrich_context_parts [OF assms] Let_def by simp
  show "pred_option (\<lambda>x. 0 \<le> x \<and> x \<le> 1) (ec_shade_need (snd (enrich_context up routes t)))"
    unfolding enrich_context_parts [OF assms] Let_def by (simp add: needed_shade_unit)
next
  assume "same_weather up up'"
  then show "ec_air (snd (enrich_context up routes t)) = ec_air (snd (enrich_context up' routes t))"
      "ec_shade_need (snd (enrich_context up routes t)) = ec_shade_need (snd (enrich_context up' routes t))"
      "ec_departure (snd (enrich_context up routes t)) = ec_departure (snd (enrich_context up' routes t))"
    unfolding enrich_context_parts [OF assms] Let_def by (simp_all add: same_weather_def)
next
  let ?s = "sampled_for_overpass (concat routes)"
  assume down: "(\<forall>q. \<exists>e. up_overpass up q = Inl e) \<and> 2 \<le> length ?s"
  then have d: "degrade (fetch_overpass ?s (up_overpass up q)) = (1, None)" for q
    using degrade_overpass_failure by metis
  show "ec_barrier_nodes (snd (enrich_context up routes t)) = None"
      "ec_rest_stop_nodes (snd (enrich_context up routes t)) = None"
    unfolding enrich_context_parts [OF assms] Let_def by (simp_all add: d)
  show "2 \<le> fst (enrich_context up routes t)"
    using assms by (simp add: enrich_context_def Let_def case_prod_beta d)
qed

definition all_down :: upstreams where
  "all_down = \<lparr>up_overpass = (\<lambda>q. Inl (TransportError ''ConnectTimeout'')),
     up_air = (\<lambda>p. Inl (TransportError ''ConnectTimeout'')), up_cloud = (\<lambda>p. Inl (TransportError ''ConnectTimeout'')),
     up_air_again = (\<lambda>p. Inl (TransportError ''ConnectTimeout'')),
     up_cloud_again = (\<lambda>p. Inl (TransportError ''ConnectTimeout''))\<rparr>"

lemma enrichment_degrades_witness:
  "ec_barrier_nodes (snd (enrich_context all_down [equator] 0)) = None \<and> 2 \<le> fst (enrich_context all_down [equator] 0)"
  using enrichment_degrades [of "[equator]" all_down all_down 0]
  by (simp add: equator_def all_down_def sampled_for_overpass_def)

end
