(* ===== verification/PhotoRef.thy ===== *)
theory PhotoRef
  imports Fixtures
begin

text \<open>
  backend/photos.py, the image proxy: references to upstream images, signed and resolved again, and
  the bytes handed on. Strings are byte strings here (a URL is its UTF-8 encoding). The keyed hash
  is an argument (\<open>mac\<close>: sixteen bytes of HMAC-SHA256 under the server's key), and so is
  \<open>urlsplit\<close>; base64 and the validity of UTF-8 are written out.
\<close>

definition COMMONS_IMAGE_HOST :: string where "COMMONS_IMAGE_HOST = ''upload.wikimedia.org''"
definition FBCDN_SUFFIX :: string where "FBCDN_SUFFIX = ''.fbcdn.net''"
definition ALLOWED_IMAGE_CONTENT_TYPES :: "string set" where
  "ALLOWED_IMAGE_CONTENT_TYPES = {''image/jpeg'', ''image/png'', ''image/webp'', ''image/gif'', ''image/avif''}"
definition MAX_REF_CHARS :: nat where "MAX_REF_CHARS = 1024"

datatype proxy_error = PhotoProxyError (pe_message: string) (pe_status: int) | ProxyCrash py_error

definition not_issued :: proxy_error where
  "not_issued = PhotoProxyError ''That image reference is not one this server issued.'' 404"

definition image_service :: "string \<Rightarrow> string option" where
  "image_service host =
     (if host = COMMONS_IMAGE_HOST then Some ''wikimedia_images''
      else if ends_with FBCDN_SUFFIX host \<and> contains ''scontent'' (split1_first (CHR ''.'') host)
      then Some ''mapillary_images''
      else None)"

section \<open>Base64\<close>

definition B64_ALPHABET :: string where
  "B64_ALPHABET = ''ABCDEFGHIJKLMNOPQRSTUVWXYZabcdefghijklmnopqrstuvwxyz0123456789-_''"

definition sextet_char :: "nat \<Rightarrow> char" where "sextet_char n = B64_ALPHABET ! n"

definition byte :: "char \<Rightarrow> nat" where "byte c = of_char c"

text \<open>\<open>urlsafe_b64encode\<close> without its padding, three bytes to four characters.\<close>

fun b64 :: "string \<Rightarrow> string" where
  "b64 (a # b # c # rest) =
     sextet_char (byte a div 4)
     # sextet_char (byte a mod 4 * 16 + byte b div 16)
     # sextet_char (byte b mod 16 * 4 + byte c div 64)
     # sextet_char (byte c mod 64) # b64 rest"
| "b64 [a, b] =
     [sextet_char (byte a div 4), sextet_char (byte a mod 4 * 16 + byte b div 16), sextet_char (byte b mod 16 * 4)]"
| "b64 [a] = [sextet_char (byte a div 4), sextet_char (byte a mod 4 * 16)]"
| "b64 [] = []"

text \<open>
  \<open>urlsafe_b64decode\<close> is lenient: after \<open>-\<close> and \<open>_\<close> become \<open>+\<close> and \<open>/\<close>, characters outside the
  alphabet are skipped, and a complete padding ends the input. The state is the position in the
  quad, the bits left over and the padding seen.
\<close>

definition char_sextet :: "char \<Rightarrow> nat option" where
  "char_sextet c =
     (if c = CHR ''+'' then Some 62 else if c = CHR ''/'' then Some 63
      else find (\<lambda>n. B64_ALPHABET ! n = c) [0..<64])"

fun a2b :: "string \<Rightarrow> nat \<Rightarrow> nat \<Rightarrow> nat \<Rightarrow> (py_error, string) result" where
  "a2b [] q left pads = (if q \<noteq> 0 then Inl ValueError else Inr [])"
| "a2b (c # cs) q left pads =
     (if c = CHR ''=''
      then if 2 \<le> q \<and> 4 \<le> q + (pads + 1) then Inr []
           else a2b cs q left (if 2 \<le> q then pads + 1 else pads)
      else case char_sextet c of
          None \<Rightarrow> a2b cs q left pads
        | Some n \<Rightarrow>
            if q = 0 then a2b cs 1 n 0
            else case a2b cs ((q + 1) mod 4)
                   (if q = 1 then n mod 16 else if q = 2 then n mod 4 else 0) 0 of
                Inl e \<Rightarrow> Inl e
              | Inr rest \<Rightarrow>
                  Inr (char_of (if q = 1 then left * 4 + n div 16
                                else if q = 2 then left * 16 + n div 4
                                else left * 64 + n) # rest))"

text \<open>A text that is not ASCII is refused before it is decoded.\<close>

definition unb64 :: "string \<Rightarrow> (py_error, string) result" where
  "unb64 s =
     (if list_all (\<lambda>c. byte c < 128) s
      then a2b (s @ replicate (nat ((- int (length s)) mod 4)) (CHR ''='')) 0 0 0
      else Inl ValueError)"

section \<open>UTF-8\<close>

definition cont_byte :: "nat \<Rightarrow> bool" where "cont_byte b \<longleftrightarrow> 128 \<le> b \<and> b < 192"

fun valid_utf8 :: "nat list \<Rightarrow> bool" where
  "valid_utf8 [] \<longleftrightarrow> True"
| "valid_utf8 (b # bs) \<longleftrightarrow>
     (if b < 128 then valid_utf8 bs
      else case bs of
          c # cs \<Rightarrow>
            if 194 \<le> b \<and> b < 224 then cont_byte c \<and> valid_utf8 cs
            else (case cs of
                d # ds \<Rightarrow>
                  if 224 \<le> b \<and> b < 240
                  then cont_byte c \<and> cont_byte d \<and> (b = 224 \<longrightarrow> 160 \<le> c) \<and> (b = 237 \<longrightarrow> c < 160) \<and> valid_utf8 ds
                  else (case ds of
                      e # es \<Rightarrow>
                        240 \<le> b \<and> b < 245 \<and> cont_byte c \<and> cont_byte d \<and> cont_byte e
                        \<and> (b = 240 \<longrightarrow> 144 \<le> c) \<and> (b = 244 \<longrightarrow> c < 144) \<and> valid_utf8 es
                    | [] \<Rightarrow> False)
              | [] \<Rightarrow> False)
        | [] \<Rightarrow> False)"

section \<open>References\<close>

text \<open>
  What \<open>urlsplit\<close> makes of a URL that was signed, which it had split once before it was signed; reading
  the port raises when it is no number or out of range.
\<close>

record split_url =
  su_scheme :: string
  su_hostname :: "string option"
  su_username :: "string option"
  su_password :: "string option"
  su_port :: "(py_error, int option) result"

definition image_ref :: "(string \<Rightarrow> string) \<Rightarrow> string \<Rightarrow> string" where
  "image_ref mac url = b64 url @ ''.'' @ b64 (mac url)"

text \<open>\<open>ref.rpartition(".")\<close> of a string that has a dot.\<close>

definition before_last_dot :: "string \<Rightarrow> string" where
  "before_last_dot s = rev (drop 1 (dropWhile (\<lambda>c. c \<noteq> CHR ''.'') (rev s)))"

definition after_last_dot :: "string \<Rightarrow> string" where
  "after_last_dot s = rev (takeWhile (\<lambda>c. c \<noteq> CHR ''.'') (rev s))"

definition said :: "string option \<Rightarrow> bool" where "said s \<longleftrightarrow> s \<noteq> None \<and> s \<noteq> Some []"

definition host_of :: "split_url \<Rightarrow> string" where
  "host_of su = str_lower (case su_hostname su of None \<Rightarrow> [] | Some h \<Rightarrow> h)"

definition admissible :: "split_url \<Rightarrow> bool" where
  "admissible su \<longleftrightarrow> su_scheme su = ''https'' \<and> \<not> said (su_username su) \<and> \<not> said (su_password su)
     \<and> (su_port su = Inr None \<or> su_port su = Inr (Some 443))"

definition resolve_image_ref :: "(string \<Rightarrow> string) \<Rightarrow> (string \<Rightarrow> split_url) \<Rightarrow> string
    \<Rightarrow> (proxy_error, string \<times> string) result" where
  "resolve_image_ref mac urlsplit ref =
     (if ref = [] \<or> MAX_REF_CHARS < length ref \<or> CHR ''.'' \<notin> set ref then Inl not_issued
      else case (unb64 (before_last_dot ref), unb64 (after_last_dot ref)) of
          (Inr url, Inr expected) \<Rightarrow>
            if \<not> valid_utf8 (map byte url) then Inl not_issued
            else if mac url \<noteq> expected then Inl not_issued
            else let su = urlsplit url
              in if su_scheme su \<noteq> ''https'' \<or> said (su_username su) \<or> said (su_password su) then Inl not_issued
                 else (case su_port su of
                     Inl e \<Rightarrow> Inl (ProxyCrash e)
                   | Inr port \<Rightarrow>
                       if port \<noteq> None \<and> port \<noteq> Some 443 then Inl not_issued
                       else (case image_service (host_of su) of
                               None \<Rightarrow> Inl not_issued
                             | Some service \<Rightarrow> Inr (url, service)))
        | _ \<Rightarrow> Inl not_issued)"

section \<open>The proxy\<close>

record proxied_image =
  px_body :: string
  px_content_type :: string

definition content_type_of :: "http_response \<Rightarrow> string" where
  "content_type_of r =
     str_lower (strip (split1_first (CHR '';'')
       (case map_of (map (\<lambda>(k, v). (str_lower k, v)) (hr_headers r)) ''content-type'' of
          None \<Rightarrow> '''' | Some t \<Rightarrow> t)))"

text \<open>
  \<open>download\<close> is what asking for a URL on a service's budget gives, with the raw body of the response.
\<close>

definition proxied_image :: "int \<Rightarrow> (string \<Rightarrow> string) \<Rightarrow> (string \<Rightarrow> split_url)
    \<Rightarrow> (string \<Rightarrow> string \<Rightarrow> (fetch_error, http_response \<times> string) result) \<Rightarrow> string
    \<Rightarrow> (proxy_error, proxied_image) result" where
  "proxied_image max_bytes mac urlsplit download ref =
     (case resolve_image_ref mac urlsplit ref of
        Inl e \<Rightarrow> Inl e
      | Inr (url, service) \<Rightarrow>
          (case download url service of
             Inl (FixtureMissing s sig) \<Rightarrow> Inl (PhotoProxyError ''Photographs are not available on this server right now.'' 503)
           | Inl (BudgetExhausted s) \<Rightarrow> Inl (PhotoProxyError ''Photographs are not available on this server right now.'' 503)
           | Inl ResponseTooLarge \<Rightarrow> Inl (PhotoProxyError ''That image is too large to serve.'' 502)
           | Inl (TransportError e) \<Rightarrow> Inl (PhotoProxyError ''Could not fetch that image.'' 502)
           | Inl SecretLeaked \<Rightarrow> Inl (ProxyCrash PyRuntimeError)
           | Inr (r, body) \<Rightarrow>
               if 400 \<le> hr_status r then Inl (PhotoProxyError ''Could not fetch that image.'' 502)
               else if content_type_of r \<notin> ALLOWED_IMAGE_CONTENT_TYPES
               then Inl (PhotoProxyError ''That reference does not point at an image.'' 502)
               else if max_bytes < int (length body)
               then Inl (PhotoProxyError ''That image is too large to serve.'' 502)
               else Inr \<lparr>px_body = body, px_content_type = content_type_of r\<rparr>))"

section \<open>Round trips\<close>

lemma byte_less [simp]: "byte c < 256"
  by (simp add: byte_def)

lemma char_of_byte [simp]: "char_of (byte c) = c"
  by (simp add: byte_def)

lemma alphabet_table:
  "\<forall>n \<in> {..<64}. char_sextet (B64_ALPHABET ! n) = Some n \<and> B64_ALPHABET ! n \<noteq> CHR ''='' \<and> B64_ALPHABET ! n \<noteq> CHR ''.''"
  by code_simp

lemma sextet_char_simps [simp]:
  assumes "n < 64"
  shows "char_sextet (sextet_char n) = Some n" "sextet_char n \<noteq> CHR ''=''" "sextet_char n \<noteq> CHR ''.''"
  using alphabet_table assms by (auto simp: sextet_char_def)

lemma byte_parts [simp]:
  "byte b div 16 div 16 = 0" "byte c div 64 div 4 = 0" "byte b div 16 mod 16 = byte b div 16"
  "byte c div 64 mod 4 = byte c div 64"
proof -
  have "byte b < 256" "byte c < 256" by simp_all
  then have "byte b div 16 < 16" "byte c div 64 < 4" by linarith+
  then show "byte b div 16 div 16 = 0" "byte c div 64 div 4 = 0" "byte b div 16 mod 16 = byte b div 16"
    "byte c div 64 mod 4 = byte c div 64" by simp_all
qed

definition padding :: "string \<Rightarrow> nat" where
  "padding s = (if length s mod 3 = 1 then 2 else if length s mod 3 = 2 then 1 else 0)"

lemma sextet_bounds [simp]:
  "byte a div 4 < 64" "byte a mod 4 * 16 + byte b div 16 < 64" "byte b mod 16 * 4 + byte c div 64 < 64"
  "byte c mod 64 < 64" "byte a mod 4 * 16 < 64" "byte b mod 16 * 4 < 64"
proof -
  have "byte a < 256" "byte b < 256" "byte c < 256" by simp_all
  then show "byte a div 4 < 64" "byte a mod 4 * 16 + byte b div 16 < 64" "byte b mod 16 * 4 + byte c div 64 < 64"
    "byte c mod 64 < 64" "byte a mod 4 * 16 < 64" "byte b mod 16 * 4 < 64"
    by linarith+
qed

lemma sextet_not_dot [simp]: "n < 64 \<Longrightarrow> CHR ''.'' \<noteq> sextet_char n"
  using sextet_char_simps(3) by metis

lemma a2b_sextet:
  "n < 64 \<Longrightarrow> a2b (sextet_char n # cs) q left pads =
     (if q = 0 then a2b cs 1 n 0
      else case a2b cs ((q + 1) mod 4) (if q = 1 then n mod 16 else if q = 2 then n mod 4 else 0) 0 of
          Inl e \<Rightarrow> Inl e
        | Inr rest \<Rightarrow> Inr (char_of (if q = 1 then left * 4 + n div 16
            else if q = 2 then left * 16 + n div 4 else left * 64 + n) # rest))"
  by simp

lemma a2b_b64: "a2b (b64 s @ replicate (padding s) (CHR ''='')) 0 left pads = Inr s"
proof (induction s arbitrary: left pads rule: b64.induct)
  case (1 a b c rest)
  have "padding (a # b # c # rest) = padding rest" by (simp add: padding_def)
  then show ?case using "1.IH" [of 0 0] by (simp add: a2b_sextet del: a2b.simps)
next
  case (2 a b)
  have "padding [a, b] = 1" by (simp add: padding_def)
  then show ?case by (simp add: a2b_sextet)
next
  case (3 a)
  have "padding [a] = 2" by (simp add: padding_def)
  then show ?case by (simp add: a2b_sextet numeral_2_eq_2)
qed (simp add: padding_def)

lemma length_b64: "nat ((- int (length (b64 s))) mod 4) = padding s"
proof (induction s rule: b64.induct)
  case (1 a b c rest)
  have "(- int (length (b64 rest)) - 4) mod 4 = (- int (length (b64 rest))) mod 4"
    by (metis minus_mod_self2)
  then show ?case using 1 by (simp add: padding_def algebra_simps)
qed (simp_all add: padding_def)

lemma alphabet_ascii: "n < 64 \<Longrightarrow> byte (B64_ALPHABET ! n) < 128"
proof -
  have "list_all (\<lambda>c. byte c < 128) B64_ALPHABET" by (simp add: B64_ALPHABET_def byte_def)
  moreover have "length B64_ALPHABET = 64" by (simp add: B64_ALPHABET_def)
  ultimately show "n < 64 \<Longrightarrow> ?thesis" by (simp add: list_all_length)
qed

lemma b64_ascii: "list_all (\<lambda>c. byte c < 128) (b64 s)"
proof -
  have a: "byte (sextet_char n) < 128" if "n < 64" for n using alphabet_ascii that by (simp add: sextet_char_def)
  show ?thesis by (induction s rule: b64.induct) (simp_all add: a del: One_nat_def)
qed

lemma unb64_b64: "unb64 (b64 s) = Inr s"
  unfolding unb64_def length_b64 if_P [OF b64_ascii] by (rule a2b_b64)

lemma b64_no_dot: "CHR ''.'' \<notin> set (b64 s)"
  by (induction s rule: b64.induct) auto

lemma dot_split:
  assumes "CHR ''.'' \<notin> set t"
  shows "before_last_dot (p @ ''.'' @ t) = p" and "after_last_dot (p @ ''.'' @ t) = t"
proof -
  have "dropWhile (\<lambda>c. c \<noteq> CHR ''.'') (rev t @ CHR ''.'' # rev p) = CHR ''.'' # rev p"
    "takeWhile (\<lambda>c. c \<noteq> CHR ''.'') (rev t @ CHR ''.'' # rev p) = rev t"
    using assms by (auto simp: dropWhile_append takeWhile_append)
  then show "before_last_dot (p @ ''.'' @ t) = p" "after_last_dot (p @ ''.'' @ t) = t"
    by (simp_all add: before_last_dot_def after_last_dot_def)
qed

lemma resolve_issued:
  assumes "valid_utf8 (map byte url)" and "length (image_ref mac url) \<le> 1024"
  shows "resolve_image_ref mac urlsplit (image_ref mac url) =
    (let su = urlsplit url
     in if su_scheme su \<noteq> ''https'' \<or> said (su_username su) \<or> said (su_password su) then Inl not_issued
        else (case su_port su of
            Inl e \<Rightarrow> Inl (ProxyCrash e)
          | Inr port \<Rightarrow>
              if port \<noteq> None \<and> port \<noteq> Some 443 then Inl not_issued
              else (case image_service (host_of su) of None \<Rightarrow> Inl not_issued | Some service \<Rightarrow> Inr (url, service))))"
proof -
  have "before_last_dot (image_ref mac url) = b64 url" "after_last_dot (image_ref mac url) = b64 (mac url)"
    unfolding image_ref_def by (simp_all only: dot_split [OF b64_no_dot])
  moreover have "image_ref mac url \<noteq> []" "CHR ''.'' \<in> set (image_ref mac url)" by (simp_all add: image_ref_def)
  ultimately show ?thesis using assms by (simp add: resolve_image_ref_def unb64_b64 MAX_REF_CHARS_def)
qed

lemma image_ref_resolves:
  assumes "valid_utf8 (map byte url)" and "admissible (urlsplit url)"
    and "image_service (host_of (urlsplit url)) = Some service" and "length (image_ref mac url) \<le> 1024"
  shows "resolve_image_ref mac urlsplit (image_ref mac url) = Inr (url, service)"
  using assms by (auto simp: resolve_issued admissible_def Let_def)

text \<open>
  A reference this server issues is one it resolves: for every URL on one of the two image hosts,
  over https, without user information and on the standard port, the reference made for it, when it
  is not longer than 1024 characters, resolves to that URL and to the budget line of its host,
  whatever the keyed hash is.
\<close>

theorem image_references_round_trip:
  assumes "valid_utf8 (map byte url)" and "admissible (urlsplit url)"
    and "image_service (host_of (urlsplit url)) = Some service" and "length (image_ref mac url) \<le> 1024"
  shows "resolve_image_ref mac urlsplit (image_ref mac url) = Inr (url, service)"
  using assms by (rule image_ref_resolves)

definition commons_split :: "string \<Rightarrow> split_url" where
  "commons_split url = \<lparr>su_scheme = ''https'', su_hostname = Some ''upload.wikimedia.org'', su_username = None,
     su_password = None, su_port = Inr None\<rparr>"

lemma image_references_round_trip_witness:
  "resolve_image_ref (\<lambda>u. ''0123456789abcdef'') commons_split
      (image_ref (\<lambda>u. ''0123456789abcdef'') ''https://upload.wikimedia.org/a.jpg'')
    = Inr (''https://upload.wikimedia.org/a.jpg'', ''wikimedia_images'')"
proof (rule image_references_round_trip)
  show "valid_utf8 (map byte ''https://upload.wikimedia.org/a.jpg'')" by code_simp
  show "admissible (commons_split ''https://upload.wikimedia.org/a.jpg'')"
    by (simp add: admissible_def commons_split_def said_def)
  show "image_service (host_of (commons_split ''https://upload.wikimedia.org/a.jpg'')) = Some ''wikimedia_images''"
    by (simp add: image_service_def host_of_def commons_split_def COMMONS_IMAGE_HOST_def py_defs)
  show "length (image_ref (\<lambda>u. ''0123456789abcdef'') ''https://upload.wikimedia.org/a.jpg'') \<le> 1024" by code_simp
qed

lemma resolve_image_ref_sound:
  assumes "resolve_image_ref mac urlsplit ref = Inr (url, service)"
  shows "unb64 (after_last_dot ref) = Inr (mac url) \<and> unb64 (before_last_dot ref) = Inr url
    \<and> admissible (urlsplit url) \<and> image_service (host_of (urlsplit url)) = Some service"
  using assms by (auto simp: resolve_image_ref_def admissible_def Let_def split: if_splits sum.splits option.splits)

lemma resolve_image_ref_error:
  assumes "resolve_image_ref mac urlsplit ref = Inl e"
  shows "e = not_issued \<or> (\<exists>url x. e = ProxyCrash x \<and> unb64 (before_last_dot ref) = Inr url
    \<and> unb64 (after_last_dot ref) = Inr (mac url) \<and> su_port (urlsplit url) = Inl x)"
  using assms by (auto simp: resolve_image_ref_def Let_def split: if_splits sum.splits option.splits)

lemma image_service_hosts:
  "image_service host = Some service \<Longrightarrow> host = ''upload.wikimedia.org'' \<or> ends_with ''.fbcdn.net'' host"
  by (auto simp: image_service_def COMMONS_IMAGE_HOST_def FBCDN_SUFFIX_def split: if_splits)


text \<open>One reference made up, one issued; and the URL that was signed with a port that is none.\<close>

definition commons_image :: string where "commons_image = ''https://upload.wikimedia.org/a.jpg''"

abbreviation "demo_mac \<equiv> (\<lambda>u :: string. ''0123456789abcdef'')"

lemma commons_image_resolves:
  "resolve_image_ref demo_mac commons_split (image_ref demo_mac commons_image) = Inr (commons_image, ''wikimedia_images'')"
proof (rule image_ref_resolves)
  show "valid_utf8 (map byte commons_image)" unfolding commons_image_def by code_simp
  show "admissible (commons_split commons_image)" by (simp add: admissible_def commons_split_def said_def)
  show "image_service (host_of (commons_split commons_image)) = Some ''wikimedia_images''"
    by (simp add: image_service_def host_of_def commons_split_def COMMONS_IMAGE_HOST_def py_defs)
  show "length (image_ref demo_mac commons_image) \<le> 1024" unfolding commons_image_def by code_simp
qed


text \<open>A URL on the right host with a port that is no number is signed like any other, and crashes the proxy.\<close>

lemma an_unreadable_port_is_let_out:
  "resolve_image_ref demo_mac (\<lambda>u. (commons_split u)\<lparr>su_port := Inl ValueError\<rparr>) (image_ref demo_mac commons_image)
     = Inl (ProxyCrash ValueError)"
proof -
  have "length (image_ref demo_mac commons_image) \<le> 1024" "valid_utf8 (map byte commons_image)"
    unfolding commons_image_def by code_simp+
  then show ?thesis by (subst resolve_issued) (simp_all add: commons_split_def said_def)
qed

end
