(* ===== verification/Photos.thy ===== *)
theory Photos
  imports PhotoRef Sun Models Routing
begin

text \<open>
  backend/photos.py, the photographs along a route: where the sources are asked about, what of their
  answers becomes a photograph, which one is the hero and what the strip holds. \<open>urlsplit\<close> (which may
  raise), the digest, the keyed hash, \<open>html.unescape\<close> and the printing of JSON values are arguments,
  as are the answers of the two sources, one per anchor.
\<close>

section \<open>Anchors\<close>

record anchor =
  an_point :: latlon
  an_at_m :: real
  an_is_barrier :: bool

definition nearest_index :: "latlon list \<Rightarrow> latlon \<Rightarrow> nat" where
  "nearest_index ps target = first_min (\<lambda>i. haversine_m (ps ! i) target) 0 [1..<length ps]"

fun anchor_loop :: "latlon list \<Rightarrow> real list \<Rightarrow> nat \<Rightarrow> nat list \<Rightarrow> nat set \<Rightarrow> anchor list" where
  "anchor_loop ps cum n [] seen = []"
| "anchor_loop ps cum n (i # is) seen =
     (let target_m = last cum * (real i + 0.5) / real n;
          index = first_min (\<lambda>j. \<bar>cum ! j - target_m\<bar>) 0 [1..<length ps]
      in if index \<in> seen then anchor_loop ps cum n is seen
         else \<lparr>an_point = ps ! index, an_at_m = round_dec 1 (cum ! index), an_is_barrier = False\<rparr>
              # anchor_loop ps cum n is (insert index seen))"

definition even_anchors :: "latlon list \<Rightarrow> int \<Rightarrow> anchor list" where
  "even_anchors ps n =
     (let cum = cumulative_distance_m ps
      in if last cum \<le> 0 \<or> n \<le> 0 then []
         else anchor_loop ps cum (nat n) [0..<nat n] {})"

definition barrier_anchor :: "latlon list \<Rightarrow> anchor option \<Rightarrow> blocker \<Rightarrow> anchor option" where
  "barrier_anchor ps best b =
     (let target = LatLon (bl_lat b) (bl_lon b);
          at_m = round_dec 1 (cumulative_distance_m ps ! nearest_index ps target);
          here = \<lparr>an_point = target, an_at_m = at_m, an_is_barrier = True\<rparr>
      in case best of None \<Rightarrow> Some here | Some a \<Rightarrow> if at_m < an_at_m a then Some here else Some a)"

definition anchors_for :: "environ \<Rightarrow> latlon list \<Rightarrow> string \<Rightarrow> blocker list \<Rightarrow> anchor list" where
  "anchors_for env ps objective blockers =
     (let anchors = even_anchors ps (PHOTO_MAX_ANCHORS env)
      in if objective \<noteq> ''accessible'' \<or> blockers = [] \<or> anchors = [] then anchors
         else case foldl (barrier_anchor ps) None blockers of
             None \<Rightarrow> anchors
           | Some first \<Rightarrow> first # butlast anchors)"

section \<open>Text\<close>

definition COMMONS_ATTRIBUTION_SUFFIX :: string where "COMMONS_ATTRIBUTION_SUFFIX = ''via Wikimedia Commons''"
definition MAPILLARY_LICENCE :: string where "MAPILLARY_LICENCE = ''CC BY-SA 4.0''"
definition MAPILLARY_LICENCE_URL :: string where
  "MAPILLARY_LICENCE_URL = ''https://creativecommons.org/licenses/by-sa/4.0/''"
definition MAPILLARY_AUTHOR :: string where "MAPILLARY_AUTHOR = ''Mapillary contributors''"
definition COMMONS_LIMIT_PER_ANCHOR :: int where "COMMONS_LIMIT_PER_ANCHOR = 8"
definition COMMONS_THUMB_WIDTH :: int where "COMMONS_THUMB_WIDTH = 640"
definition PHOTO_BBOX_HALF_DEG :: real where "PHOTO_BBOX_HALF_DEG = 0.002"
definition MAPILLARY_LIMIT_PER_ANCHOR :: int where "MAPILLARY_LIMIT_PER_ANCHOR = 6"

text \<open>
  \<open>_TAG_RE.sub(" ", s)\<close>, an angle bracket with at least one character up to the next closing one;
  \<open>_WHITESPACE_RE.sub(" ", s)\<close>.
\<close>

function strip_tags :: "string \<Rightarrow> string" where
  "strip_tags [] = []"
| "strip_tags (c # cs) =
     (let inside = takeWhile (\<lambda>x. x \<noteq> CHR ''>'') cs; after = dropWhile (\<lambda>x. x \<noteq> CHR ''>'') cs
      in if c = CHR ''<'' \<and> inside \<noteq> [] \<and> after \<noteq> [] then CHR '' '' # strip_tags (tl after)
         else c # strip_tags cs)"
  by pat_completeness auto
termination
proof (relation "measure length")
  fix c :: char and cs x xa
  assume "xa = dropWhile (\<lambda>x. x \<noteq> CHR ''>'') cs"
  then have "length xa \<le> length cs" by (simp add: length_dropWhile_le)
  then show "(tl xa, c # cs) \<in> measure length" by simp
qed simp_all

function one_space :: "string \<Rightarrow> string" where
  "one_space [] = []"
| "one_space (c # cs) = (if is_space c then CHR '' '' # one_space (dropWhile is_space cs) else c # one_space cs)"
  by pat_completeness auto
termination
  by (relation "measure length") (simp_all add: length_dropWhile_le less_Suc_eq_le)

definition plain_text :: "(string \<Rightarrow> string) \<Rightarrow> json \<Rightarrow> nat \<Rightarrow> string option" where
  "plain_text unescape value limit =
     (case value of
        JStr s \<Rightarrow>
          let text = strip (one_space (unescape (strip_tags s)))
          in if text = [] then None
             else Some (if limit < length text then strip (take limit text) else text)
      | _ \<Rightarrow> None)"

definition extmeta :: "json \<Rightarrow> string \<Rightarrow> json" where
  "extmeta extmetadata key =
     (if is_dict extmetadata \<and> is_dict (jget key extmetadata) then jget ''value'' (jget key extmetadata) else JNull)"

text \<open>\<open>name.rsplit(".", 1)[0]\<close>.\<close>

definition rsplit_dot :: "string \<Rightarrow> string" where
  "rsplit_dot s = (if CHR ''.'' \<in> set s then before_last_dot s else s)"

definition commons_title :: "json \<Rightarrow> string option" where
  "commons_title page =
     (case jget ''title'' page of
        JStr raw \<Rightarrow>
          if raw = [] then None
          else let name = (if starts_with ''File:'' raw then drop 5 raw else raw);
                   title = take 160 (strip (replace_char (CHR ''_'') (CHR '' '') (rsplit_dot name)))
               in if title = [] then None else Some title
      | _ \<Rightarrow> None)"

section \<open>Photographs\<close>

record photo =
  ph_id :: string
  ph_url :: string
  ph_source :: string
  ph_lat :: real
  ph_lon :: real
  ph_at_m :: real
  ph_width :: "int option"
  ph_height :: "int option"
  ph_title :: "string option"
  ph_licence :: string
  ph_licence_url :: "string option"
  ph_author :: "string option"
  ph_attribution :: string
  ph_source_page :: "string option"
  ph_captured_at :: "string option"

definition COMMONS :: string where "COMMONS = ''wikimedia_commons''"
definition MAPILLARY :: string where "MAPILLARY = ''mapillary''"

record photo_world =
  pw_env :: environ
  pw_token :: "string option"
  pw_mac :: "string \<Rightarrow> string"
  pw_digest :: "string \<Rightarrow> string"
  pw_unescape :: "string \<Rightarrow> string"
  pw_pystr :: "json \<Rightarrow> string"
  pw_urlsplit :: "string \<Rightarrow> (py_error, split_url) result"
  pw_fetch :: "nat \<Rightarrow> string \<Rightarrow> (string \<times> json) list \<Rightarrow> (fetch_error, http_response) result"

text \<open>\<open>isinstance(v, int | float)\<close> and its value; \<open>isinstance(v, int)\<close>; a string that says something.\<close>

fun number_of :: "json \<Rightarrow> real option" where
  "number_of (JNum x) = Some x"
| "number_of (JBool b) = Some (if b then 1 else 0)"
| "number_of _ = None"

definition integer_of :: "json \<Rightarrow> int option" where
  "integer_of j = (case number_of j of Some x \<Rightarrow> if x = of_int \<lfloor>x\<rfloor> then Some \<lfloor>x\<rfloor> else None | None \<Rightarrow> None)"

definition text_of :: "json \<Rightarrow> string option" where
  "text_of j = (case j of JStr s \<Rightarrow> if s = [] then None else Some s | _ \<Rightarrow> None)"

definition photo_link :: "photo_world \<Rightarrow> string \<Rightarrow> string" where
  "photo_link w source_url = ''/api/photo/'' @ image_ref (pw_mac w) source_url"

definition commons_position :: "json \<Rightarrow> latlon \<Rightarrow> latlon" where
  "commons_position page p =
     (case jget ''coordinates'' page of
        JList (c # cs) \<Rightarrow>
          (case (number_of (jget ''lat'' c), number_of (jget ''lon'' c)) of
             (Some a, Some b) \<Rightarrow> LatLon a b
           | _ \<Rightarrow> p)
      | _ \<Rightarrow> p)"

text \<open>\<open>None\<close> on the right is a file that is not shown; on the left, the exception of \<open>urlsplit\<close>.\<close>

definition photo_from_commons_page :: "photo_world \<Rightarrow> json \<Rightarrow> anchor \<Rightarrow> (py_error, photo option) result" where
  "photo_from_commons_page w page a =
     (case jget ''imageinfo'' page of
        JList (info # infos) \<Rightarrow>
          (case (is_dict info, text_of (jget ''thumburl'' info)) of
             (True, Some source_url) \<Rightarrow>
               (case pw_urlsplit w source_url of
                  Inl e \<Rightarrow> Inl e
                | Inr su \<Rightarrow>
                    if image_service (host_of su) = None then Inr None
                    else case plain_text (pw_unescape w) (extmeta (jget ''extmetadata'' info) ''LicenseShortName'') 80 of
                        None \<Rightarrow> Inr None
                      | Some licence \<Rightarrow>
                          let author = plain_text (pw_unescape w) (extmeta (jget ''extmetadata'' info) ''Artist'') 120;
                              pos = commons_position page (an_point a)
                          in if licence = [] then Inr None
                             else Inr (Some \<lparr>
                               ph_id = pw_digest w source_url, ph_url = photo_link w source_url, ph_source = COMMONS,
                               ph_lat = lat pos, ph_lon = lon pos, ph_at_m = an_at_m a,
                               ph_width = integer_of (jget ''thumbwidth'' info),
                               ph_height = integer_of (jget ''thumbheight'' info),
                               ph_title = commons_title page, ph_licence = licence,
                               ph_licence_url = text_of (extmeta (jget ''extmetadata'' info) ''LicenseUrl''),
                               ph_author = author,
                               ph_attribution = (case author of
                                   Some name \<Rightarrow> if name = [] then [] else name @ '', ''
                                 | None \<Rightarrow> []) @ licence @ '', '' @ COMMONS_ATTRIBUTION_SUFFIX,
                               ph_source_page = text_of (jget ''descriptionurl'' info), ph_captured_at = None\<rparr>))
           | _ \<Rightarrow> Inr None)
      | _ \<Rightarrow> Inr None)"

text \<open>\<open>datetime.fromtimestamp(millis / 1000, tz=UTC).isoformat()\<close>, up to the end of the year 9999.\<close>

definition captured_at_iso :: "json \<Rightarrow> string option" where
  "captured_at_iso raw =
     (case json_int raw of
        None \<Rightarrow> None
      | Some millis \<Rightarrow>
          if millis \<le> 0 \<or> 253402300800000 \<le> millis then None
          else let t = millis div 1000; ms = millis mod 1000; (y, m, d) = civil (epoch_days t)
               in Some (padded 4 y @ ''-'' @ padded 2 m @ ''-'' @ padded 2 d @ ''T'' @ padded 2 (hour_of t)
                    @ '':'' @ padded 2 (minute_of t) @ '':'' @ padded 2 (second_of t)
                    @ (if ms = 0 then [] else ''.'' @ padded 6 (ms * 1000)) @ ''+00:00''))"

definition mapillary_position :: "json \<Rightarrow> latlon \<Rightarrow> latlon" where
  "mapillary_position item p =
     (case jget ''coordinates'' (jget ''computed_geometry'' item) of
        JList [x, y] \<Rightarrow>
          (case (number_of x, number_of y) of (Some a, Some b) \<Rightarrow> LatLon b a | _ \<Rightarrow> p)
      | _ \<Rightarrow> p)"

definition photo_from_mapillary :: "photo_world \<Rightarrow> json \<Rightarrow> anchor \<Rightarrow> (py_error, photo option) result" where
  "photo_from_mapillary w item a =
     (case text_of (jget ''thumb_1024_url'' item) of
        None \<Rightarrow> Inr None
      | Some source_url \<Rightarrow>
          if jget ''id'' item = JNull then Inr None
          else case pw_urlsplit w source_url of
              Inl e \<Rightarrow> Inl e
            | Inr su \<Rightarrow>
                if image_service (host_of su) = None then Inr None
                else let pos = mapillary_position item (an_point a)
                     in Inr (Some \<lparr>
                       ph_id = pw_digest w source_url, ph_url = photo_link w source_url, ph_source = MAPILLARY,
                       ph_lat = lat pos, ph_lon = lon pos, ph_at_m = an_at_m a, ph_width = None, ph_height = None,
                       ph_title = None, ph_licence = MAPILLARY_LICENCE, ph_licence_url = Some MAPILLARY_LICENCE_URL,
                       ph_author = Some MAPILLARY_AUTHOR,
                       ph_attribution = MAPILLARY_AUTHOR @ '', '' @ MAPILLARY_LICENCE,
                       ph_source_page = Some (''https://www.mapillary.com/app/?pKey=''
                         @ json_str (pw_pystr w) (jget ''id'' item) @ ''&focus=photo''),
                       ph_captured_at = captured_at_iso (jget ''captured_at'' item)\<rparr>))"

section \<open>Asking the sources\<close>

datatype photo_error = FetchFailed fetch_error | PageFailed py_error

fun collect :: "('a \<Rightarrow> (py_error, 'b option) result) \<Rightarrow> 'a list \<Rightarrow> (py_error, 'b list) result" where
  "collect f [] = Inr []"
| "collect f (x # xs) =
     (case f x of
        Inl e \<Rightarrow> Inl e
      | Inr y \<Rightarrow> (case collect f xs of
          Inl e \<Rightarrow> Inl e
        | Inr ys \<Rightarrow> Inr (case y of None \<Rightarrow> ys | Some v \<Rightarrow> v # ys)))"

definition photos_of :: "(json \<Rightarrow> (py_error, photo option) result) \<Rightarrow> json \<Rightarrow> (photo_error, photo list option) result" where
  "photos_of to_photo listing =
     (case listing of
        JList items \<Rightarrow>
          (case collect to_photo (filter is_dict items) of
             Inl e \<Rightarrow> Inl (PageFailed e)
           | Inr ps \<Rightarrow> Inr (Some ps))
      | _ \<Rightarrow> Inr (Some []))"

text \<open>
  The part the two sources share: an error status, a synthetic fixture and an unreadable body are
  \<open>None\<close> (could not look), a body without the listing is the empty list.
\<close>

definition listed_in :: "(fetch_error, http_response) result \<Rightarrow> (json \<Rightarrow> json)
    \<Rightarrow> (json \<Rightarrow> (py_error, photo option) result) \<Rightarrow> (photo_error, photo list option) result" where
  "listed_in answer listing to_photo =
     (case answer of
        Inl e \<Rightarrow> Inl (FetchFailed e)
      | Inr r \<Rightarrow>
          if 400 \<le> hr_status r \<or> is_synthetic r then Inr None
          else case resp_json r of None \<Rightarrow> Inr None | Some payload \<Rightarrow> photos_of to_photo (listing payload))"

definition commons_params :: "environ \<Rightarrow> anchor \<Rightarrow> (string \<times> json) list" where
  "commons_params env a =
     [(''action'', JStr ''query''), (''generator'', JStr ''geosearch''),
      (''ggscoord'', JStr (fixed_text 6 (lat (an_point a)) @ ''|'' @ fixed_text 6 (lon (an_point a)))),
      (''ggsradius'', JNum (of_int (PHOTO_SEARCH_RADIUS_M env))),
      (''ggslimit'', JNum (of_int COMMONS_LIMIT_PER_ANCHOR)), (''ggsnamespace'', JNum 6),
      (''prop'', JStr ''imageinfo|coordinates''), (''iiprop'', JStr ''url|extmetadata''),
      (''iiurlwidth'', JNum (of_int COMMONS_THUMB_WIDTH)), (''format'', JStr ''json''), (''formatversion'', JNum 2)]"

definition commons_photos_near :: "photo_world \<Rightarrow> nat \<Rightarrow> anchor \<Rightarrow> (photo_error, photo list option) result" where
  "commons_photos_near w i a =
     listed_in (pw_fetch w i COMMONS (commons_params (pw_env w) a))
       (\<lambda>payload. jget ''pages'' (jget ''query'' payload)) (\<lambda>page. photo_from_commons_page w page a)"

definition photo_bbox :: "latlon \<Rightarrow> string" where
  "photo_bbox p = join '',''
     [fixed_text 6 (lon p - PHOTO_BBOX_HALF_DEG), fixed_text 6 (lat p - PHOTO_BBOX_HALF_DEG),
      fixed_text 6 (lon p + PHOTO_BBOX_HALF_DEG), fixed_text 6 (lat p + PHOTO_BBOX_HALF_DEG)]"

definition mapillary_photos_near :: "photo_world \<Rightarrow> nat \<Rightarrow> anchor \<Rightarrow> (photo_error, photo list option) result" where
  "mapillary_photos_near w i a =
     (case pw_token w of
        None \<Rightarrow> Inr None
      | Some token \<Rightarrow>
          if token = [] then Inr None
          else listed_in
            (pw_fetch w i MAPILLARY
               [(''fields'', JStr ''id,thumb_1024_url,computed_geometry,captured_at''),
                (''bbox'', JStr (photo_bbox (an_point a))), (''limit'', JNum (of_int MAPILLARY_LIMIT_PER_ANCHOR)),
                (''access_token'', JStr token)])
            (jget ''data'') (\<lambda>item. photo_from_mapillary w item a))"

text \<open>\<open>_degrade\<close>: an exception is one failure counted and \<open>None\<close>.\<close>

definition photo_degrade :: "('e, 'a option) result \<Rightarrow> nat \<times> 'a option" where
  "photo_degrade r = (case r of Inl e \<Rightarrow> (1, None) | Inr v \<Rightarrow> (0, v))"

section \<open>The hero and the strip\<close>

datatype hero_basis = FirstBarrier | Midpoint | MostPhotographed | Sampled | NoHero

definition HERO_REASONS :: "hero_basis \<Rightarrow> string" where
  "HERO_REASONS basis = (case basis of
      FirstBarrier \<Rightarrow> ''The first barrier on this route, so you can see what blocks it.''
    | Midpoint \<Rightarrow> ''About halfway along this route.''
    | MostPhotographed \<Rightarrow> ''The most photographed place along this route, according to Wikimedia Commons.''
    | Sampled \<Rightarrow> ''A place along this route.''
    | NoHero \<Rightarrow> '''')"

definition UNMEASURED_NOTES :: "(string \<times> string) list" where
  "UNMEASURED_NOTES =
    [(''scenic'', ''This is the most photographed place near the route, not the prettiest part of it. Meander scores scenery for a whole route rather than point by point, so there is no greenest spot to show you.''),
     (''shade'', ''Meander scores shade for a whole route rather than point by point, so this is a place along the way, not the most sheltered one.''),
     (''quiet'', ''Meander scores quiet for a whole route rather than point by point, so this is a place along the way, not the furthest point from traffic.''),
     (''air'', ''Meander scores air quality for a whole route rather than point by point, so this is a place along the way, not the cleanest air on it.'')]"

definition NO_BARRIER_NOTE :: string where
  "NO_BARRIER_NOTE = ''No barrier was found on this route to show you, so this is a place along the way.''"
definition NO_PHOTOS_NOTE :: string where
  "NO_PHOTOS_NOTE = ''No photographs with a clear licence were found along this route.''"
definition MAPILLARY_ABSENT_NOTE :: string where
  "MAPILLARY_ABSENT_NOTE = ''Street level imagery is switched off on this server, so these came from Wikimedia Commons only.''"
definition STRIP_SIZE :: nat where "STRIP_SIZE = 5"
definition MAX_PER_ANCHOR :: nat where "MAX_PER_ANCHOR = 2"

definition commons_count :: "photo list \<Rightarrow> nat" where
  "commons_count found = length (filter (\<lambda>p. ph_source p = COMMONS) found)"

definition pick_hero_anchor :: "string \<Rightarrow> anchor list \<Rightarrow> photo list list \<Rightarrow> real \<Rightarrow> (nat \<times> hero_basis) option" where
  "pick_hero_anchor objective anchors by_anchor total_m =
     (case filter (\<lambda>i. by_anchor ! i \<noteq> []) [0..<length anchors] of
        [] \<Rightarrow> None
      | u # us \<Rightarrow>
          (case (if objective = ''accessible'' then find (\<lambda>i. an_is_barrier (anchors ! i)) (u # us) else None) of
             Some i \<Rightarrow> Some (i, FirstBarrier)
           | None \<Rightarrow>
               if objective = ''fastest''
               then Some (first_min (\<lambda>i. \<bar>an_at_m (anchors ! i) - total_m / 2\<bar>) u us, Midpoint)
               else let best = first_max (\<lambda>i. commons_count (by_anchor ! i)) u us
                    in if 1 < commons_count (by_anchor ! best) then Some (best, MostPhotographed)
                       else Some (u, Sampled)))"

fun first_of_each :: "photo list \<Rightarrow> string set \<Rightarrow> photo list" where
  "first_of_each [] seen = []"
| "first_of_each (p # ps) seen =
     (if ph_id p \<in> seen then first_of_each ps seen else p # first_of_each ps (insert (ph_id p) seen))"

definition dedupe :: "photo list \<Rightarrow> photo list" where
  "dedupe photos = first_of_each (sort_key ph_at_m photos) {}"

definition hero_of :: "photo list \<Rightarrow> photo" where
  "hero_of candidates = (case find (\<lambda>p. ph_source p = COMMONS) candidates of Some p \<Rightarrow> p | None \<Rightarrow> hd candidates)"

fun strip_from :: "string \<Rightarrow> photo list \<Rightarrow> nat \<Rightarrow> photo list" where
  "strip_from hero [] taken = []"
| "strip_from hero (p # ps) taken =
     (if ph_id p = hero \<or> MAX_PER_ANCHOR \<le> taken then strip_from hero ps taken
      else p # strip_from hero ps (Suc taken))"

definition strip_of :: "anchor list \<Rightarrow> photo list list \<Rightarrow> photo \<Rightarrow> photo list" where
  "strip_of anchors by_anchor hero =
     take STRIP_SIZE (concat (map (\<lambda>i. strip_from (ph_id hero) (by_anchor ! i) 0)
       (sort_key (\<lambda>i. an_at_m (anchors ! i)) [0..<length anchors])))"

record photos_response =
  pr_hero :: "photo option"
  pr_strip :: "photo list"
  pr_hero_basis :: hero_basis
  pr_hero_reason :: string
  pr_objective_measured :: bool
  pr_sources_used :: "string list"
  pr_mapillary_enabled :: bool
  pr_note :: "string option"

definition no_hero :: "string list \<Rightarrow> bool \<Rightarrow> string option \<Rightarrow> photos_response" where
  "no_hero answered enabled note =
     \<lparr>pr_hero = None, pr_strip = [], pr_hero_basis = NoHero, pr_hero_reason = '''', pr_objective_measured = False,
      pr_sources_used = answered, pr_mapillary_enabled = enabled, pr_note = note\<rparr>"

definition photos_note :: "string \<Rightarrow> hero_basis \<Rightarrow> bool \<Rightarrow> string option" where
  "photos_note objective basis enabled =
     (let note = (if objective = ''accessible'' \<and> basis \<noteq> FirstBarrier then Some NO_BARRIER_NOTE
                  else map_of UNMEASURED_NOTES objective)
      in if note = None \<and> \<not> enabled then Some MAPILLARY_ABSENT_NOTE else note)"

definition present :: "string \<Rightarrow> anchor list \<Rightarrow> photo list list \<Rightarrow> real \<Rightarrow> string list \<Rightarrow> bool \<Rightarrow> photos_response" where
  "present objective anchors by_anchor total_m answered enabled =
     (case pick_hero_anchor objective anchors by_anchor total_m of
        None \<Rightarrow> no_hero answered enabled (if answered = [] then None else Some NO_PHOTOS_NOTE)
      | Some (i, basis) \<Rightarrow>
          let hero = hero_of (by_anchor ! i)
          in \<lparr>pr_hero = Some hero, pr_strip = strip_of anchors by_anchor hero, pr_hero_basis = basis,
              pr_hero_reason = HERO_REASONS basis, pr_objective_measured = (basis \<in> {FirstBarrier, Midpoint}),
              pr_sources_used = answered, pr_mapillary_enabled = enabled,
              pr_note = photos_note objective basis enabled\<rparr>)"

section \<open>The call\<close>

definition mapillary_on :: "photo_world \<Rightarrow> bool" where "mapillary_on w \<longleftrightarrow> \<not> no_key (pw_token w)"

definition photo_tasks :: "photo_world \<Rightarrow> nat \<Rightarrow> (string \<times> nat) list" where
  "photo_tasks w n = concat (map (\<lambda>i. (COMMONS, i) # (if mapillary_on w then [(MAPILLARY, i)] else [])) [0..<n])"

definition ask_source :: "photo_world \<Rightarrow> anchor list \<Rightarrow> string \<times> nat \<Rightarrow> nat \<times> photo list option" where
  "ask_source w anchors task = photo_degrade
     (case task of (source, i) \<Rightarrow>
        if source = COMMONS then commons_photos_near w i (anchors ! i) else mapillary_photos_near w i (anchors ! i))"

text \<open>\<open>by_anchor\<close> and \<open>answered\<close> after the loop over the results.\<close>

definition found_at :: "photo_world \<Rightarrow> anchor list \<Rightarrow> nat \<Rightarrow> photo list" where
  "found_at w anchors i = dedupe (concat (map (\<lambda>t. case snd (ask_source w anchors t) of None \<Rightarrow> [] | Some ps \<Rightarrow> ps)
     (filter (\<lambda>t. snd t = i) (photo_tasks w (length anchors)))))"

definition answered_by :: "photo_world \<Rightarrow> anchor list \<Rightarrow> string list" where
  "answered_by w anchors = first_seen []
     (map fst (filter (\<lambda>t. snd (ask_source w anchors t) \<noteq> None) (photo_tasks w (length anchors))))"

definition route_photos :: "photo_world \<Rightarrow> (real \<times> real) list \<Rightarrow> string \<Rightarrow> blocker list \<Rightarrow> nat \<times> photos_response" where
  "route_photos w geometry objective blockers =
     (let points = from_lonlat_pairs geometry;
          anchors = anchors_for (pw_env w) points objective blockers
      in if anchors = [] then (0, no_hero [] (mapillary_on w) (Some NO_PHOTOS_NOTE))
         else (sum_list (map (fst \<circ> ask_source w anchors) (photo_tasks w (length anchors))),
               present objective anchors (map (found_at w anchors) [0..<length anchors])
                 (last (cumulative_distance_m points)) (answered_by w anchors) (mapillary_on w)))"

section \<open>What a photograph is\<close>

text \<open>A photograph this server may show: credited, placed at its anchor, its image on an allowed host.\<close>

definition creditable :: "photo_world \<Rightarrow> anchor \<Rightarrow> photo \<Rightarrow> bool" where
  "creditable w a p \<longleftrightarrow> ph_licence p \<noteq> [] \<and> contains (ph_licence p) (ph_attribution p) \<and> ph_at_m p = an_at_m a
     \<and> (\<exists>src su. ph_url p = photo_link w src \<and> ph_id p = pw_digest w src \<and> pw_urlsplit w src = Inr su
           \<and> image_service (host_of su) \<noteq> None)"

lemma contains_middle: "contains n (a @ n @ b)"
  by (auto simp: contains_iff)

lemma contains_credit [simp]: "contains n (n @ b)" "contains n (a @ c # d # n @ b)" "contains n (a @ c # d # n)"
  using contains_middle [of n "[]" b] contains_middle [of n "a @ [c, d]" b] contains_middle [of n "a @ [c, d]" "[]"]
  by simp_all

lemma commons_creditable:
  "photo_from_commons_page w page a = Inr (Some p) \<Longrightarrow> creditable w a p"
  by (auto simp: photo_from_commons_page_def creditable_def Let_def
      split: json.splits list.splits bool.splits option.splits sum.splits if_splits)

lemma mapillary_creditable:
  "photo_from_mapillary w item a = Inr (Some p) \<Longrightarrow> creditable w a p"
  using contains_middle [of "''CC BY-SA 4.0''" "MAPILLARY_AUTHOR @ '', ''" "[]"]
  by (auto simp: photo_from_mapillary_def creditable_def Let_def MAPILLARY_LICENCE_def
      split: option.splits sum.splits if_splits)

lemma collect_in: "collect f xs = Inr ys \<Longrightarrow> y \<in> set ys \<Longrightarrow> \<exists>x. f x = Inr (Some y)"
  by (induction xs arbitrary: ys) (auto split: sum.splits option.splits)

lemma listed_in_from:
  "listed_in answer listing to_photo = Inr (Some ps) \<Longrightarrow> p \<in> set ps \<Longrightarrow> \<exists>item. to_photo item = Inr (Some p)"
  by (auto simp: listed_in_def photos_of_def split: sum.splits option.splits if_splits json.splits dest: collect_in)

lemma ask_source_creditable:
  assumes "snd (ask_source w anchors (source, i)) = Some ps" and "p \<in> set ps"
  shows "creditable w (anchors ! i) p"
proof -
  have "commons_photos_near w i (anchors ! i) = Inr (Some ps) \<or> mapillary_photos_near w i (anchors ! i) = Inr (Some ps)"
    using assms(1) by (auto simp: ask_source_def photo_degrade_def split: if_splits sum.splits)
  then show ?thesis
    using listed_in_from [OF _ assms(2)] commons_creditable mapillary_creditable
    by (fastforce simp: commons_photos_near_def mapillary_photos_near_def split: option.splits if_splits)
qed

lemma first_of_each_set: "set (first_of_each ps seen) \<subseteq> set ps"
  by (induction ps arbitrary: seen) auto

lemma first_of_each_distinct:
  "distinct (map ph_id (first_of_each ps seen)) \<and> ph_id ` set (first_of_each ps seen) \<inter> seen = {}"
proof (induction ps arbitrary: seen)
  case (Cons p ps)
  then show ?case using Cons.IH [of seen] Cons.IH [of "insert (ph_id p) seen"] by auto
qed simp

lemma dedupe_set: "set (dedupe ps) \<subseteq> set ps"
  using first_of_each_set by (force simp: dedupe_def)

lemma dedupe_distinct: "distinct (map ph_id (dedupe ps))"
  using first_of_each_distinct by (simp add: dedupe_def)

lemma found_at_creditable:
  assumes "p \<in> set (found_at w anchors i)"
  shows "creditable w (anchors ! i) p"
proof -
  obtain source ps where "snd (ask_source w anchors (source, i)) = Some ps" "p \<in> set ps"
    using subsetD [OF dedupe_set assms [unfolded found_at_def]]
    by (auto split: option.splits dest!: sym [of "Some _"])
  then show ?thesis by (rule ask_source_creditable)
qed

section \<open>The choice of the hero\<close>

definition by_anchors :: "photo_world \<Rightarrow> anchor list \<Rightarrow> photo list list" where
  "by_anchors w anchors = map (found_at w anchors) [0..<length anchors]"

lemma hero_of_in: "c \<noteq> [] \<Longrightarrow> hero_of c \<in> set c"
  by (auto simp: hero_of_def split: option.splits dest: find_Some_in)

lemma pick_hero_usable:
  assumes "pick_hero_anchor objective anchors by_anchor total_m = Some (i, basis)"
  shows "i < length anchors \<and> by_anchor ! i \<noteq> []"
proof -
  let ?usable = "filter (\<lambda>i. by_anchor ! i \<noteq> []) [0..<length anchors]"
  obtain u us where u: "?usable = u # us" using assms by (auto simp: pick_hero_anchor_def split: list.splits)
  have "i \<in> set (u # us)"
    using assms first_min_in [of _ u us] first_max_in [of _ u us]
    by (auto simp: pick_hero_anchor_def u Let_def split: option.splits if_splits dest!: find_Some_in)
  then have "i \<in> set ?usable" by (simp only: u)
  then show ?thesis by simp
qed

lemma pick_hero_barrier:
  "pick_hero_anchor objective anchors by_anchor total_m = Some (i, FirstBarrier)
     \<Longrightarrow> objective = ''accessible'' \<and> an_is_barrier (anchors ! i)"
  by (auto simp: pick_hero_anchor_def Let_def split: list.splits option.splits if_splits dest!: find_Some_in)

lemma usable_of:
  assumes "filter (\<lambda>i. by_anchor ! i \<noteq> []) [0..<length anchors] = u # us" "j < length anchors" "by_anchor ! j \<noteq> []"
  shows "j \<in> insert u (set us)"
proof -
  have "j \<in> set (filter (\<lambda>i. by_anchor ! i \<noteq> []) [0..<length anchors])" using assms(2, 3) by simp
  then show ?thesis unfolding assms(1) by simp
qed

lemma pick_hero_midpoint:
  assumes "pick_hero_anchor objective anchors by_anchor total_m = Some (i, Midpoint)"
  shows "objective = ''fastest'' \<and> (\<forall>j < length anchors. by_anchor ! j \<noteq> [] \<longrightarrow>
    \<bar>an_at_m (anchors ! i) - total_m / 2\<bar> \<le> \<bar>an_at_m (anchors ! j) - total_m / 2\<bar>)"
proof -
  obtain u us where u: "filter (\<lambda>i. by_anchor ! i \<noteq> []) [0..<length anchors] = u # us"
    using assms by (auto simp: pick_hero_anchor_def split: list.splits)
  then have "objective = ''fastest''" "i = first_min (\<lambda>i. \<bar>an_at_m (anchors ! i) - total_m / 2\<bar>) u us"
    using assms by (auto simp: pick_hero_anchor_def Let_def split: option.splits if_splits)
  then show ?thesis
    using first_min_le [of _ u us "\<lambda>i. \<bar>an_at_m (anchors ! i) - total_m / 2\<bar>"] usable_of [OF u] by auto
qed

lemma pick_hero_most_photographed:
  assumes "pick_hero_anchor objective anchors by_anchor total_m = Some (i, MostPhotographed)"
  shows "objective \<noteq> ''fastest'' \<and> 1 < commons_count (by_anchor ! i)
    \<and> (\<forall>j < length anchors. commons_count (by_anchor ! j) \<le> commons_count (by_anchor ! i))"
proof -
  obtain u us where u: "filter (\<lambda>i. by_anchor ! i \<noteq> []) [0..<length anchors] = u # us"
    using assms by (auto simp: pick_hero_anchor_def split: list.splits)
  then have i: "objective \<noteq> ''fastest''" "1 < commons_count (by_anchor ! i)"
      "i = first_max (\<lambda>i. commons_count (by_anchor ! i)) u us"
    using assms by (auto simp: pick_hero_anchor_def Let_def split: option.splits if_splits)
  have "commons_count (by_anchor ! j) \<le> commons_count (by_anchor ! i)" if "j < length anchors" for j
  proof (cases "by_anchor ! j = []")
    case True
    then show ?thesis by (simp add: commons_count_def)
  next
    case False
    from usable_of [OF u that False] show ?thesis
      unfolding i(3) by (rule first_max_ge)
  qed
  with i(1, 2) show ?thesis by simp
qed

text \<open>How far along the route a barrier is, as the code measures it.\<close>

definition blocker_at :: "latlon list \<Rightarrow> blocker \<Rightarrow> real" where
  "blocker_at ps b = round_dec 1 (cumulative_distance_m ps ! nearest_index ps (LatLon (bl_lat b) (bl_lon b)))"

definition first_blocker :: "latlon list \<Rightarrow> blocker list \<Rightarrow> anchor \<Rightarrow> bool" where
  "first_blocker ps bs a \<longleftrightarrow> (\<exists>b \<in> set bs. an_point a = LatLon (bl_lat b) (bl_lon b) \<and> an_at_m a = blocker_at ps b
     \<and> (\<forall>b' \<in> set bs. blocker_at ps b \<le> blocker_at ps b'))"

lemma barrier_anchor_simps:
  "barrier_anchor ps None b = Some \<lparr>an_point = LatLon (bl_lat b) (bl_lon b), an_at_m = blocker_at ps b, an_is_barrier = True\<rparr>"
  "barrier_anchor ps (Some a) b = (if blocker_at ps b < an_at_m a
     then Some \<lparr>an_point = LatLon (bl_lat b) (bl_lon b), an_at_m = blocker_at ps b, an_is_barrier = True\<rparr> else Some a)"
  by (simp_all add: barrier_anchor_def blocker_at_def Let_def)

lemma fold_barriers:
  assumes "foldl (barrier_anchor ps) None bs = Some a"
  shows "first_blocker ps bs a"
proof -
  have "foldl (barrier_anchor ps) None bs = Some a \<Longrightarrow> first_blocker ps bs a" for a
  proof (induction bs arbitrary: a rule: rev_induct)
    case (snoc b bs)
    show ?case
    proof (cases "foldl (barrier_anchor ps) None bs")
      case None
      then have "bs = []"
        by (cases bs rule: rev_cases) (auto simp: barrier_anchor_def Let_def split: option.splits if_splits)
      with snoc.prems show ?thesis by (auto simp: first_blocker_def barrier_anchor_simps)
    next
      case (Some best)
      then have "first_blocker ps bs best" by (rule snoc.IH)
      then show ?thesis using snoc.prems Some
        by (auto simp: first_blocker_def barrier_anchor_simps split: if_splits)
    qed
  qed simp
  then show ?thesis using assms .
qed

lemma anchor_loop_plain: "a \<in> set (anchor_loop ps cum n is seen) \<Longrightarrow> \<not> an_is_barrier a"
  by (induction ps cum n "is" seen rule: anchor_loop.induct) (auto simp: Let_def split: if_splits)

lemma barrier_among_anchors:
  assumes "a \<in> set (anchors_for env ps objective blockers)" and "an_is_barrier a"
  shows "objective = ''accessible'' \<and> first_blocker ps blockers a"
  using assms anchor_loop_plain fold_barriers
  by (fastforce simp: anchors_for_def even_anchors_def Let_def split: if_splits option.splits dest: in_set_butlastD)

lemma route_photos_present:
  assumes "route_photos w geometry objective blockers = (n, resp)" and "pr_hero resp \<noteq> None" and "geometry \<noteq> []"
  obtains anchors i where "anchors = anchors_for (pw_env w) (from_lonlat_pairs geometry) objective blockers"
    and "pick_hero_anchor objective anchors (by_anchors w anchors) (path_length_m (from_lonlat_pairs geometry))
      = Some (i, pr_hero_basis resp)"
    and "resp = present objective anchors (by_anchors w anchors) (path_length_m (from_lonlat_pairs geometry))
      (answered_by w anchors) (mapillary_on w)"
    and "pr_hero resp = Some (hero_of (found_at w anchors i))"
    and "pr_strip resp = strip_of anchors (by_anchors w anchors) (hero_of (found_at w anchors i))"
    and "i < length anchors" and "found_at w anchors i \<noteq> []"
proof -
  define anchors where "anchors = anchors_for (pw_env w) (from_lonlat_pairs geometry) objective blockers"
  let ?total = "path_length_m (from_lonlat_pairs geometry)"
  have total: "last (cumulative_distance_m (from_lonlat_pairs geometry)) = ?total"
    using assms(3) by (simp add: cumulative_distance_m_def path_length_m_def last_cumsum_from from_lonlat_pairs_def)
  have resp: "resp = present objective anchors (by_anchors w anchors) ?total (answered_by w anchors) (mapillary_on w)"
    using assms by (auto simp: route_photos_def anchors_def [symmetric] Let_def by_anchors_def no_hero_def total
        split: if_splits)
  then obtain i basis where i: "pick_hero_anchor objective anchors (by_anchors w anchors) ?total = Some (i, basis)"
    using assms(2) by (auto simp: present_def no_hero_def split: option.splits)
  have u: "i < length anchors" "by_anchors w anchors ! i \<noteq> []" using pick_hero_usable [OF i] by auto
  then have f: "by_anchors w anchors ! i = found_at w anchors i" by (simp add: by_anchors_def)
  show thesis
    by (rule that [of anchors i]) (use resp i u f in \<open>simp_all add: anchors_def present_def Let_def\<close>)
qed

text \<open>
  C20 What the hero claims, it has. A hero shown as the first barrier is only given for the accessible
  route, and was found by asking at the coordinate of a reported barrier that no other one precedes
  along the route; one shown as the halfway point is only given for the fastest, and no place that
  has photographs is nearer to halfway; one shown as the most photographed place has two Commons
  photographs at least and as many as any other. Only the first two are said to measure what the
  route was asked for.
\<close>

theorem hero_claims_are_earned:
  assumes "route_photos w geometry objective blockers = (n, resp)" and "pr_hero resp = Some hero" and "geometry \<noteq> []"
    and "points = from_lonlat_pairs geometry" and "anchors = anchors_for (pw_env w) points objective blockers"
  shows "\<exists>i < length anchors. hero \<in> set (found_at w anchors i)
    \<and> (pr_hero_basis resp = FirstBarrier \<longrightarrow>
         objective = ''accessible'' \<and> first_blocker points blockers (anchors ! i) \<and> ph_at_m hero = an_at_m (anchors ! i))
    \<and> (pr_hero_basis resp = Midpoint \<longrightarrow> objective = ''fastest''
         \<and> (\<forall>j < length anchors. found_at w anchors j \<noteq> [] \<longrightarrow>
              \<bar>ph_at_m hero - path_length_m points / 2\<bar> \<le> \<bar>an_at_m (anchors ! j) - path_length_m points / 2\<bar>))
    \<and> (pr_hero_basis resp = MostPhotographed \<longrightarrow> 1 < commons_count (found_at w anchors i)
         \<and> (\<forall>j < length anchors. commons_count (found_at w anchors j) \<le> commons_count (found_at w anchors i)))
    \<and> pr_hero_basis resp \<noteq> NoHero
    \<and> (pr_objective_measured resp \<longleftrightarrow> pr_hero_basis resp \<in> {FirstBarrier, Midpoint})"
proof -
  obtain i where i: "pick_hero_anchor objective anchors (by_anchors w anchors) (path_length_m points) = Some (i, pr_hero_basis resp)"
      "i < length anchors" "found_at w anchors i \<noteq> []" "hero = hero_of (found_at w anchors i)"
    and resp: "resp = present objective anchors (by_anchors w anchors) (path_length_m points) (answered_by w anchors) (mapillary_on w)"
    using route_photos_present [OF assms(1) _ assms(3)] assms(2, 4, 5) by (metis option.distinct(1) option.sel)
  have found: "by_anchors w anchors ! j = found_at w anchors j" if "j < length anchors" for j
    using that by (simp add: by_anchors_def)
  have hero: "hero \<in> set (found_at w anchors i)" using i(3, 4) hero_of_in by simp
  then have at: "ph_at_m hero = an_at_m (anchors ! i)"
    using found_at_creditable by (simp add: creditable_def)
  have "pr_hero_basis resp \<noteq> NoHero"
    using i(1) by (auto simp: pick_hero_anchor_def Let_def split: list.splits option.splits if_splits)
  moreover have "pr_objective_measured resp \<longleftrightarrow> pr_hero_basis resp \<in> {FirstBarrier, Midpoint}"
    unfolding resp using i(1) by (simp add: present_def Let_def)
  moreover have "objective = ''accessible'' \<and> first_blocker points blockers (anchors ! i)"
    if "pr_hero_basis resp = FirstBarrier"
    using pick_hero_barrier i(1) that barrier_among_anchors nth_mem [OF i(2)] assms(5) by metis
  moreover have "pr_hero_basis resp = Midpoint \<Longrightarrow> objective = ''fastest'' \<and> (\<forall>j < length anchors. found_at w anchors j \<noteq> [] \<longrightarrow>
      \<bar>ph_at_m hero - path_length_m points / 2\<bar> \<le> \<bar>an_at_m (anchors ! j) - path_length_m points / 2\<bar>)"
    using pick_hero_midpoint [of objective anchors "by_anchors w anchors" _ i] i(1) found at by simp
  moreover have "pr_hero_basis resp = MostPhotographed \<Longrightarrow> 1 < commons_count (found_at w anchors i)
      \<and> (\<forall>j < length anchors. commons_count (found_at w anchors j) \<le> commons_count (found_at w anchors i))"
    using pick_hero_most_photographed [of objective anchors "by_anchors w anchors" _ i] i(1, 2) found by simp
  ultimately show ?thesis using i(2) hero at by (intro exI [of _ i]) simp
qed

section \<open>The strip\<close>

lemma strip_from_take:
  "strip_from hero ps taken = take (MAX_PER_ANCHOR - taken) (filter (\<lambda>p. ph_id p \<noteq> hero) ps)"
  by (induction ps arbitrary: taken) (auto simp: take_Cons' Suc_diff_Suc not_le diff_Suc split: nat.splits)

lemma strip_from_in: "p \<in> set (strip_from hero ps taken) \<Longrightarrow> p \<in> set ps \<and> ph_id p \<noteq> hero"
  by (auto simp: strip_from_take dest: in_set_takeD)

lemma sorted_concat_constant:
  assumes "sorted (map k is)" and "\<forall>i \<in> set is. \<forall>x \<in> set (g i). f x = k i"
  shows "sorted (map f (concat (map g is)))"
  using assms
proof (induction "is")
  case (Cons i "is")
  have "sorted (map f (g i))" using Cons.prems(2) by (intro sorted_wrt_iff_nth_less [THEN iffD2]) simp
  moreover have "\<forall>x \<in> set (g i). \<forall>y \<in> set (concat (map g is)). f x \<le> f y"
    using Cons.prems by auto
  moreover have "sorted (map f (concat (map g is)))" using Cons by simp
  ultimately show ?case by (auto simp: sorted_append)
qed simp

lemma strip_of_in:
  assumes "p \<in> set (strip_of anchors (by_anchors w anchors) hero)"
  shows "ph_id p \<noteq> ph_id hero \<and> (\<exists>i < length anchors. p \<in> set (found_at w anchors i))"
proof -
  obtain i where i: "i < length anchors" "p \<in> set (strip_from (ph_id hero) (by_anchors w anchors ! i) 0)"
    using assms by (auto simp: strip_of_def dest!: in_set_takeD)
  then show ?thesis using strip_from_in [OF i(2)] by (auto simp: by_anchors_def)
qed

text \<open>
  The strip is a walk along the route. It holds at most five photographs, in the order of their
  distance along the route, none of them the hero's file, every one found at an anchor of the route;
  and it is the beginning of the list that takes from every anchor, in that order, the first two
  photographs that are not the hero's file.
\<close>

theorem strip_walks_the_route:
  assumes "route_photos w geometry objective blockers = (n, resp)" and "pr_hero resp = Some hero" and "geometry \<noteq> []"
    and "anchors = anchors_for (pw_env w) (from_lonlat_pairs geometry) objective blockers"
  shows "length (pr_strip resp) \<le> 5 \<and> sorted (map ph_at_m (pr_strip resp))
    \<and> (\<forall>p \<in> set (pr_strip resp). ph_id p \<noteq> ph_id hero \<and> (\<exists>i < length anchors. p \<in> set (found_at w anchors i)))
    \<and> pr_strip resp = take 5 (concat (map (\<lambda>i. take 2 (filter (\<lambda>p. ph_id p \<noteq> ph_id hero) (found_at w anchors i)))
        (sort_key (\<lambda>i. an_at_m (anchors ! i)) [0..<length anchors])))"
proof -
  have strip: "pr_strip resp = strip_of anchors (by_anchors w anchors) hero"
    using route_photos_present [OF assms(1) _ assms(3)] assms(2, 4) by (metis option.distinct(1) option.sel)
  let ?order = "sort_key (\<lambda>i. an_at_m (anchors ! i)) [0..<length anchors]"
  have "map (\<lambda>i. strip_from (ph_id hero) (by_anchors w anchors ! i) 0) ?order
      = map (\<lambda>i. take 2 (filter (\<lambda>p. ph_id p \<noteq> ph_id hero) (found_at w anchors i))) ?order"
    by (rule map_cong) (simp_all add: strip_from_take MAX_PER_ANCHOR_def by_anchors_def)
  then have eq: "pr_strip resp = take 5 (concat (map (\<lambda>i. take 2 (filter (\<lambda>p. ph_id p \<noteq> ph_id hero) (found_at w anchors i))) ?order))"
    by (simp only: strip strip_of_def STRIP_SIZE_def)
  have "sorted (map ph_at_m (concat (map (\<lambda>i. take 2 (filter (\<lambda>p. ph_id p \<noteq> ph_id hero) (found_at w anchors i))) ?order)))"
    by (rule sorted_concat_constant [where k = "\<lambda>i. an_at_m (anchors ! i)"])
      (auto dest!: in_set_takeD found_at_creditable simp: creditable_def)
  then have "sorted (map ph_at_m (pr_strip resp))"
    unfolding eq by (metis sorted_wrt_take take_map)
  moreover have "\<forall>p \<in> set (pr_strip resp). ph_id p \<noteq> ph_id hero \<and> (\<exists>i < length anchors. p \<in> set (found_at w anchors i))"
  proof
    fix p
    assume "p \<in> set (pr_strip resp)"
    then show "ph_id p \<noteq> ph_id hero \<and> (\<exists>i < length anchors. p \<in> set (found_at w anchors i))"
      unfolding strip by (rule strip_of_in)
  qed
  moreover have "length (pr_strip resp) \<le> 5" by (simp add: strip strip_of_def STRIP_SIZE_def)
  ultimately show ?thesis by (intro conjI eq)
qed

text \<open>
  No photograph is shown without credit, and its link leads back to its file. The hero and every
  photograph of the strip have a licence, which their credit line names, and a path on this server
  whose reference, when it is of the length the proxy reads and the file's URL is an https one
  without user information or port, resolves to that URL on one of the two allowed image services.
\<close>

theorem photographs_are_credited_and_resolve:
  assumes "route_photos w geometry objective blockers = (n, resp)" and "geometry \<noteq> []"
    and "p \<in> set_option (pr_hero resp) \<union> set (pr_strip resp)"
    and split: "\<forall>url su. pw_urlsplit w url = Inr su \<longrightarrow> urlsplit url = su"
  shows "ph_licence p \<noteq> [] \<and> contains (ph_licence p) (ph_attribution p)
    \<and> (\<exists>url. ph_url p = ''/api/photo/'' @ image_ref (pw_mac w) url
         \<and> (valid_utf8 (map byte url) \<and> admissible (urlsplit url) \<and> length (image_ref (pw_mac w) url) \<le> 1024 \<longrightarrow>
              (\<exists>service. resolve_image_ref (pw_mac w) urlsplit (image_ref (pw_mac w) url) = Inr (url, service)
                 \<and> service \<in> {''wikimedia_images'', ''mapillary_images''})))"
proof -
  define anchors where "anchors = anchors_for (pw_env w) (from_lonlat_pairs geometry) objective blockers"
  have "pr_hero resp = None \<Longrightarrow> pr_strip resp = []"
    using assms(1) by (auto simp: route_photos_def present_def no_hero_def Let_def split: if_splits option.splits)
  then have "pr_hero resp \<noteq> None" using assms(3) by (cases "pr_hero resp") auto
  then obtain i where i: "p \<in> set (found_at w anchors i)"
    using route_photos_present [OF assms(1) _ assms(2)] assms(3) hero_of_in strip_of_in
    unfolding anchors_def by (metis Un_iff elem_set option.sel)
  then obtain url su where u: "ph_url p = photo_link w url" "pw_urlsplit w url = Inr su" "image_service (host_of su) \<noteq> None"
      "ph_licence p \<noteq> []" "contains (ph_licence p) (ph_attribution p)"
    using found_at_creditable by (metis creditable_def)
  from u(2) split have su: "urlsplit url = su" by blast
  from u(3) obtain service where s: "image_service (host_of su) = Some service" by blast
  then have "service \<in> {''wikimedia_images'', ''mapillary_images''}"
    by (auto simp: image_service_def split: if_splits)
  with u su s image_ref_resolves [of url urlsplit service "pw_mac w"] show ?thesis
    unfolding photo_link_def by (intro conjI exI [of _ url]) auto
qed

section \<open>A route of forty metres\<close>

text \<open>
  Commons answers at every anchor with a file of that anchor's own and with one file it has for all
  of them, Mapillary is switched off, and there is a gate at the end of the route.
\<close>

definition demo_page :: "nat \<Rightarrow> json" where
  "demo_page i = JObj [(''imageinfo'', JList [JObj
     [(''thumburl'', JStr (''https://upload.wikimedia.org/'' @ nat_text i)),
      (''extmetadata'', JObj [(''LicenseShortName'', JObj [(''value'', JStr ''CC0'')])])]])]"

definition demo_world :: photo_world where
  "demo_world = \<lparr>pw_env = Map.empty, pw_token = None, pw_mac = (\<lambda>u. ''0123456789abcdef''), pw_digest = id, pw_unescape = id,
     pw_pystr = (\<lambda>j. ''''), pw_urlsplit = (\<lambda>u. Inr (commons_split u)),
     pw_fetch = (\<lambda>i service ps. Inr \<lparr>hr_status = 200, hr_headers = [(PROVENANCE_HEADER, PROVENANCE_LIVE)],
       hr_body = BJson (JObj [(''query'', JObj [(''pages'', JList [demo_page i, demo_page 9])])])\<rparr>)\<rparr>"

definition demo_file :: "anchor \<Rightarrow> nat \<Rightarrow> photo" where
  "demo_file a i = \<lparr>ph_id = ''https://upload.wikimedia.org/'' @ nat_text i,
     ph_url = photo_link demo_world (''https://upload.wikimedia.org/'' @ nat_text i), ph_source = COMMONS,
     ph_lat = lat (an_point a), ph_lon = lon (an_point a), ph_at_m = an_at_m a, ph_width = None, ph_height = None,
     ph_title = None, ph_licence = ''CC0'', ph_licence_url = None, ph_author = None,
     ph_attribution = ''CC0, via Wikimedia Commons'', ph_source_page = None, ph_captured_at = None\<rparr>"

definition demo_gate :: blocker where
  "demo_gate = \<lparr>bl_type = ''gate'', bl_lat = lat (metre_mark 40), bl_lon = lon (metre_mark 40), bl_description = ''''\<rparr>"

lemma demo_page_photo: "photo_from_commons_page demo_world (demo_page i) a = Inr (Some (demo_file a i))"
proof -
  have "image_service (host_of (commons_split u)) = Some ''wikimedia_images''" for u
    by (simp add: image_service_def host_of_def commons_split_def COMMONS_IMAGE_HOST_def py_defs)
  moreover have "plain_text id (JStr ''CC0'') 80 = Some ''CC0''"
    by (simp add: plain_text_def py_defs Let_def)
  ultimately show ?thesis
    by (simp add: photo_from_commons_page_def demo_page_def demo_world_def text_of_def extmeta_def plain_text_def [of _ JNull]
        commons_position_def integer_of_def commons_title_def demo_file_def photo_link_def COMMONS_ATTRIBUTION_SUFFIX_def Let_def)
qed

lemma demo_found:
  assumes "i < length anchors" and "i < 9"
  shows "found_at demo_world anchors i = [demo_file (anchors ! i) i, demo_file (anchors ! i) 9]"
proof -
  have "ask_source demo_world anchors (COMMONS, i) = (0, Some [demo_file (anchors ! i) i, demo_file (anchors ! i) 9])"
    using demo_page_photo [of i "anchors ! i"] demo_page_photo [of 9 "anchors ! i"]
    by (simp add: ask_source_def photo_degrade_def commons_photos_near_def listed_in_def photos_of_def
        demo_world_def resp_json_def is_synthetic_def provenance_of_def provenance_names demo_page_def Let_def py_defs)
  moreover have "filter (\<lambda>t. snd t = i) (photo_tasks demo_world n) = (if i < n then [(COMMONS, i)] else [])" for n
    by (induction n) (auto simp: photo_tasks_def mapillary_on_def no_key_def demo_world_def)
  then have "filter (\<lambda>t. snd t = i) (photo_tasks demo_world (length anchors)) = [(COMMONS, i)]" using assms by simp
  moreover have "nat_text i \<noteq> nat_text 9"
  proof -
    have "i \<in> {0, 1, 2, 3, 4, 5, 6, 7, 8}" using assms(2) by auto
    then show ?thesis by (auto simp: nat_text.simps digit_char_def)
  qed
  ultimately show ?thesis by (simp add: found_at_def dedupe_def demo_file_def)
qed

lemma demo_anchors:
  "anchors_for Map.empty forty_metres ''accessible'' [demo_gate] =
     [\<lparr>an_point = metre_mark 40, an_at_m = 40, an_is_barrier = True\<rparr>,
      \<lparr>an_point = metre_mark 0, an_at_m = 0, an_is_barrier = False\<rparr>,
      \<lparr>an_point = metre_mark 20, an_at_m = 20, an_is_barrier = False\<rparr>]"
proof -
  have five: "PHOTO_MAX_ANCHORS Map.empty = 5" by (simp add: PHOTO_MAX_ANCHORS_def env_int_def stripped_def)
  have r: "round_dec (Suc 0) 20 = 20" "round_dec (Suc 0) 40 = 40"
    using round_dec_of_int [of 1 20] round_dec_of_int [of 1 40] by simp_all
  have ups: "[0..<5] = [0, 1, 2, 3, 4 :: nat]" "[Suc 0..<3] = [1, 2 :: nat]" by (simp_all add: upt_rec)
  have even: "even_anchors forty_metres 5 =
     [\<lparr>an_point = metre_mark 0, an_at_m = 0, an_is_barrier = False\<rparr>,
      \<lparr>an_point = metre_mark 20, an_at_m = 20, an_is_barrier = False\<rparr>,
      \<lparr>an_point = metre_mark 40, an_at_m = 40, an_is_barrier = False\<rparr>]"
    unfolding even_anchors_def forty_metres_cumulative by (simp add: ups Let_def r forty_metres_def)
  have d: "haversine_m (metre_mark a) (metre_mark 40) = 40 - a" if "a \<in> {0, 20, 40}" for a
    using metre_mark_distance [of a 40] that by (auto simp: haversine_m_def)
  have gate: "LatLon (bl_lat demo_gate) (bl_lon demo_gate) = metre_mark 40" by (simp add: demo_gate_def)
  have "nearest_index forty_metres (metre_mark 40) = 2"
    unfolding nearest_index_def forty_metres_length One_nat_def ups by (simp add: forty_metres_def d)
  then have "blocker_at forty_metres demo_gate = 40"
    by (simp add: blocker_at_def gate forty_metres_cumulative r)
  then show ?thesis unfolding anchors_for_def five even by (simp add: barrier_anchor_simps gate)
qed

definition demo_line :: "(real \<times> real) list" where "demo_line = map (\<lambda>p. (lon p, lat p)) forty_metres"

definition demo_places :: "anchor list" where
  "demo_places = [\<lparr>an_point = metre_mark 40, an_at_m = 40, an_is_barrier = True\<rparr>,
     \<lparr>an_point = metre_mark 0, an_at_m = 0, an_is_barrier = False\<rparr>,
     \<lparr>an_point = metre_mark 20, an_at_m = 20, an_is_barrier = False\<rparr>]"

lemma demo_line_points [simp]: "from_lonlat_pairs demo_line = forty_metres" "demo_line \<noteq> []"
  by (simp_all add: demo_line_def from_lonlat_pairs_def forty_metres_def)

abbreviation demo_at :: "nat \<Rightarrow> nat \<Rightarrow> photo" where "demo_at i j \<equiv> demo_file (demo_places ! i) j"

lemma demo_by_anchor:
  "map (found_at demo_world demo_places) [0..<length demo_places]
     = [[demo_at 0 0, demo_at 0 9], [demo_at 1 1, demo_at 1 9], [demo_at 2 2, demo_at 2 9]]"
proof -
  have "length demo_places = 3" "[0..<3] = [0, 1, 2 :: nat]" by (simp_all add: demo_places_def upt_rec)
  then show ?thesis using demo_found [of 0 demo_places] demo_found [of 1 demo_places] demo_found [of 2 demo_places] by simp
qed

lemma demo_response:
  assumes "route_photos demo_world demo_line ''accessible'' [demo_gate] = (n, resp)"
  shows "pr_hero resp = Some (demo_at 0 0) \<and> pr_hero_basis resp = FirstBarrier
    \<and> pr_strip resp = [demo_at 1 1, demo_at 1 9, demo_at 2 2, demo_at 2 9, demo_at 0 9]"
proof -
  let ?by = "[[demo_at 0 0, demo_at 0 9], [demo_at 1 1, demo_at 1 9], [demo_at 2 2, demo_at 2 9]]"
  have pl: "anchors_for (pw_env demo_world) forty_metres ''accessible'' [demo_gate] = demo_places"
    using demo_anchors by (simp add: demo_world_def demo_places_def)
  have "demo_places \<noteq> []" by (simp add: demo_places_def)
  have order: "sort_key (\<lambda>i. an_at_m (demo_places ! i)) [0..<length demo_places] = [1, 2, 0]"
    by (simp add: demo_places_def upt_rec)
  have ids: "ph_id (demo_at 0 0) \<noteq> ph_id (demo_at 1 1)" "ph_id (demo_at 0 0) \<noteq> ph_id (demo_at 2 2)"
    "ph_id (demo_at i 9) \<noteq> ph_id (demo_at 0 0)" for i
    by (simp_all add: demo_file_def nat_text.simps digit_char_def)
  have "resp = present ''accessible'' demo_places ?by
      (last (cumulative_distance_m forty_metres)) (answered_by demo_world demo_places) (mapillary_on demo_world)"
    using assms \<open>demo_places \<noteq> []\<close> by (simp add: route_photos_def pl demo_by_anchor Let_def)
  moreover have "pick_hero_anchor ''accessible'' demo_places ?by total = Some (0, FirstBarrier)" for total
    by (simp add: pick_hero_anchor_def demo_places_def upt_rec)
  moreover have "hero_of [demo_at 0 0, demo_at 0 9] = demo_at 0 0" by (simp add: hero_of_def demo_file_def)
  moreover have "strip_of demo_places ?by (demo_at 0 0) = [demo_at 1 1, demo_at 1 9, demo_at 2 2, demo_at 2 9, demo_at 0 9]"
    using ids by (simp add: strip_of_def order STRIP_SIZE_def MAX_PER_ANCHOR_def)
  ultimately show ?thesis by (simp add: present_def Let_def)
qed

lemma hero_claims_are_earned_witness:
  "\<exists>i < 3. demo_at 0 0 \<in> set (found_at demo_world demo_places i)
     \<and> first_blocker forty_metres [demo_gate] (demo_places ! i) \<and> (40::real) = an_at_m (demo_places ! i)"
proof -
  obtain n resp where r: "route_photos demo_world demo_line ''accessible'' [demo_gate] = (n, resp)" by fastforce
  have pl: "demo_places = anchors_for (pw_env demo_world) forty_metres ''accessible'' [demo_gate]"
    using demo_anchors by (simp add: demo_world_def demo_places_def)
  have "pr_hero resp = Some (demo_at 0 0)" "pr_hero_basis resp = FirstBarrier"
    using demo_response [OF r] by blast+
  moreover have "length demo_places = 3" "ph_at_m (demo_at 0 0) = 40"
    by (simp_all add: demo_places_def demo_file_def)
  ultimately show ?thesis
    using hero_claims_are_earned [OF r _ demo_line_points(2) demo_line_points(1) [symmetric] pl] by auto
qed

lemma strip_walks_the_route_witness:
  "sorted (map ph_at_m [demo_at 1 1, demo_at 1 9, demo_at 2 2, demo_at 2 9, demo_at 0 9])"
proof -
  obtain n resp where r: "route_photos demo_world demo_line ''accessible'' [demo_gate] = (n, resp)" by fastforce
  have "pr_hero resp = Some (demo_at 0 0)"
    "pr_strip resp = [demo_at 1 1, demo_at 1 9, demo_at 2 2, demo_at 2 9, demo_at 0 9]"
    using demo_response [OF r] by blast+
  with strip_walks_the_route [OF r _ demo_line_points(2) refl] show ?thesis by metis
qed

lemma photographs_are_credited_and_resolve_witness:
  "ph_licence (demo_at 0 0) \<noteq> []
     \<and> contains (ph_licence (demo_at 0 0)) (ph_attribution (demo_at 0 0))"
proof -
  obtain n resp where r: "route_photos demo_world demo_line ''accessible'' [demo_gate] = (n, resp)" by fastforce
  have "\<forall>url su. pw_urlsplit demo_world url = Inr su \<longrightarrow> commons_split url = su" by (simp add: demo_world_def)
  then show ?thesis
    using photographs_are_credited_and_resolve [OF r demo_line_points(2), of "demo_at 0 0" commons_split]
      demo_response [OF r] by auto
qed

text \<open>
  One file can be shown twice. Duplicates are removed among the photographs of one anchor, where
  none is left, but not between anchors: there are answers of Commons for which the strip holds the
  same file more than once.
\<close>

theorem duplicates_survive_between_anchors:
  "(\<forall>w anchors i. distinct (map ph_id (found_at w anchors i)))
     \<and> (\<exists>w geometry objective blockers.
          \<not> distinct (map ph_id (pr_strip (snd (route_photos w geometry objective blockers)))))"
proof
  show "\<forall>w anchors i. distinct (map ph_id (found_at w anchors i))"
    by (simp add: found_at_def dedupe_distinct)
  obtain n resp where r: "route_photos demo_world demo_line ''accessible'' [demo_gate] = (n, resp)" by fastforce
  then have "\<not> distinct (map ph_id (pr_strip resp))" using demo_response [OF r] by (simp add: demo_file_def)
  with r show "\<exists>w geometry objective blockers.
      \<not> distinct (map ph_id (pr_strip (snd (route_photos w geometry objective blockers))))"
    by (metis snd_conv)
qed

end
