(* ===== verification/Assemble.thy ===== *)
theory Assemble
  imports Routing Scoring Survey Enrich Elevation
begin

text \<open>
  backend/main.py, from a routed path to the route on the wire: the assessment, its second pass with
  the barrier survey, the blends of enrichment and geometry, the notes and the wire model itself
  (backend/models.py, \<open>Route\<close>). \<open>_guard\<close> turns an exception of a scoring stage into \<open>None\<close>; the stages
  of this model raise nothing but what the segment cache raises, so the others are always \<open>Some\<close> in
  \<open>assess\<close>, and \<open>scored_route\<close> takes any assessment, missing parts included.
\<close>

section \<open>The wire model\<close>

record wire_step =
  ws_text :: string
  ws_distance_m :: real
  ws_duration_min :: real
  ws_street_name :: "string option"
  ws_sign :: int
  ws_interval :: "int \<times> int"

datatype route_status = Ok | Blocked

record wire_route =
  wr_id :: string
  wr_label :: string
  wr_status :: route_status
  wr_geometry :: "(real \<times> real) list"
  wr_duration_min :: real
  wr_distance_m :: real
  wr_mode :: mode
  wr_scores :: scores
  wr_scoring_method :: string
  wr_confidence :: real
  wr_rest_stops :: "rest_stop list option"
  wr_blockers :: "blocker list"
  wr_steps :: "wire_step list"
  wr_elevation :: "elevation_profile option"
  wr_narration :: "string option"
  wr_synthetic_upstream :: bool
  wr_confidence_note :: "string option"
  wr_status_note :: "string option"
  wr_enrichment_pending :: bool

section \<open>The assessment\<close>

record assessment =
  as_scores :: "geometry_scores option"
  as_access :: "route_accessibility option"
  as_clip_score :: "real option"
  as_elevation :: "elevation_profile option"

text \<open>\<open>_guard\<close>, and \<open>raw.elevations or None\<close>.\<close>

definition guard :: "('e, 'a) result \<Rightarrow> 'a option" where
  "guard r = (case r of Inl e \<Rightarrow> None | Inr v \<Rightarrow> Some v)"

definition elevations_of :: "raw_route \<Rightarrow> real list option" where
  "elevations_of raw = (if rr_elevations raw = [] then None else Some (rr_elevations raw))"

definition assess :: "interp_fn \<Rightarrow> cache \<Rightarrow> raw_route \<Rightarrow> assessment" where
  "assess interp c raw =
     (let clip_score = Option.bind (guard (clip_term_for_route (rr_points raw) c)) ct_score
      in \<lparr>as_scores = Some (score_geometry (rr_points raw) (elevations_of raw) (Some (rr_details raw)) clip_score),
          as_access = Some (assess_route interp (rr_points raw) (elevations_of raw) (Some (rr_details raw)) None),
          as_clip_score = clip_score,
          as_elevation = build_profile interp (rr_points raw) (elevations_of raw)\<rparr>)"

text \<open>A projected barrier as the accessibility engine takes it.\<close>

fun survey_span :: "barrier_span \<Rightarrow> span" where
  "survey_span (a, b, v, la, lo, m) = Span a b (Tag v) (Some (LatLon la lo)) (Some m)"

definition reassess_with_barriers :: "interp_fn \<Rightarrow> assessment \<Rightarrow> raw_route \<Rightarrow> barrier_span list \<Rightarrow> assessment" where
  "reassess_with_barriers interp a raw spans =
     a\<lparr>as_access := Some (assess_route interp (rr_points raw) (elevations_of raw) (Some (rr_details raw))
         (Some [''barrier'' \<mapsto> map survey_span spans]))\<rparr>"

section \<open>Blends\<close>

definition blend_air :: "air_quality option \<Rightarrow> real option \<Rightarrow> real option" where
  "blend_air measured road_proxy =
     (case (measured, road_proxy) of
        (None, p) \<Rightarrow> p
      | (Some a, None) \<Rightarrow> Some (aq_score a)
      | (Some a, Some p) \<Rightarrow> Some (round_dec 4 (aq_score a * (0.55 + 0.45 * p))))"

definition blend_shade :: "real option \<Rightarrow> real option \<Rightarrow> real option" where
  "blend_shade need cover =
     (case (need, cover) of
        (Some n, Some c) \<Rightarrow> Some (round_dec 4 (max 0 (min 1 (1 - n * (1 - c)))))
      | _ \<Rightarrow> None)"

section \<open>Notes\<close>

definition UNASSESSED_NOTE :: string where
  "UNASSESSED_NOTE = ''Accessibility could not be assessed for this route at all. Treat all of it as unverified.''"

definition SYNTHETIC_NOTE :: string where
  "SYNTHETIC_NOTE = ''This route was built from demonstration data, not a live routing response. Every number on it is a placeholder, not a measurement.''"

definition rejected_note :: string where
  "rejected_note = ''Hard accessibility constraints reject this route.''"

definition not_looked_note :: string where
  "not_looked_note = ''Gates and stiles could not be checked for this route, and almost nothing along it has been recorded in OpenStreetMap. That is an absence of data, not a step-free route.''"

definition nothing_found_note :: string where
  "nothing_found_note = ''No barriers were found, but almost nothing along this route has been recorded in OpenStreetMap. That is an absence of data, not a step-free route.''"

definition status_note :: "string \<Rightarrow> bool \<Rightarrow> route_accessibility option \<Rightarrow> raw_route \<Rightarrow> string option" where
  "status_note rid blocked access raw =
     (if blocked then Some rejected_note
      else case rr_preset_note raw of
          Some (c # cs) \<Rightarrow> Some (c # cs)
        | _ \<Rightarrow>
            (case access of
               None \<Rightarrow> None
             | Some a \<Rightarrow>
                 if rid \<noteq> ''accessible'' \<or> VERY_LOW_CONFIDENCE_THRESHOLD \<le> ra_coverage a then None
                 else Some (if ra_barriers_checked a then nothing_found_note else not_looked_note)))"

section \<open>The route on the wire\<close>

definition wire_blocker :: "finding \<Rightarrow> blocker" where
  "wire_blocker f = \<lparr>bl_type = f_type f, bl_lat = f_lat f, bl_lon = f_lon f, bl_description = f_description f\<rparr>"

definition wire_step_of :: "route_step \<Rightarrow> wire_step" where
  "wire_step_of st = \<lparr>ws_text = stp_text st, ws_distance_m = round_dec 1 (stp_distance_m st),
     ws_duration_min = round_dec 2 (stp_duration_min st), ws_street_name = stp_street_name st,
     ws_sign = stp_sign st, ws_interval = stp_interval st\<rparr>"

definition scoring_method :: "bool \<Rightarrow> assessment \<Rightarrow> string" where
  "scoring_method synthetic a =
     (if synthetic \<or> as_scores a = None then ''placeholder''
      else if as_clip_score a \<noteq> None then ''clip''
      else ''geometry_only'')"

definition blocked_by :: "string \<Rightarrow> assessment \<Rightarrow> bool" where
  "blocked_by rid a \<longleftrightarrow> rid = ''accessible'' \<and> pred_option is_blocked (as_access a) \<and> as_access a \<noteq> None"

definition wire_scores :: "air_quality option \<Rightarrow> real option \<Rightarrow> geometry_scores option \<Rightarrow> scores" where
  "wire_scores air need g =
     \<lparr>sc_scenic = map_option g_scenic g, sc_air = blend_air air (Option.bind g g_air),
      sc_shade = blend_shade need (Option.bind g g_shade_cover), sc_quiet = Option.bind g g_quiet\<rparr>"

definition scored_route :: "string \<Rightarrow> string \<Rightarrow> raw_route \<Rightarrow> rest_stop list option \<Rightarrow> air_quality option
    \<Rightarrow> real option \<Rightarrow> assessment \<Rightarrow> bool \<Rightarrow> wire_route" where
  "scored_route rid label raw stops air need a pending =
     (let synthetic = rr_synthetic_upstream raw; blocked = blocked_by rid a
      in \<lparr>wr_id = rid, wr_label = label, wr_status = (if blocked then Blocked else Ok),
          wr_geometry = geometry_for_wire raw, wr_duration_min = round_dec 1 (rr_duration_min raw),
          wr_distance_m = of_int (round_half_even (rr_distance_m raw)), wr_mode = rr_mode raw,
          wr_scores = wire_scores air need (as_scores a), wr_scoring_method = scoring_method synthetic a,
          wr_confidence = (case as_access a of None \<Rightarrow> 0 | Some ac \<Rightarrow> if synthetic then 0 else ra_coverage ac),
          wr_rest_stops = stops,
          wr_blockers = (case as_access a of None \<Rightarrow> [] | Some ac \<Rightarrow> map wire_blocker (ra_findings ac)),
          wr_steps = map wire_step_of (rr_steps raw), wr_elevation = as_elevation a, wr_narration = None,
          wr_synthetic_upstream = synthetic,
          wr_confidence_note = Some (if synthetic then SYNTHETIC_NOTE
             else case as_access a of None \<Rightarrow> UNASSESSED_NOTE | Some ac \<Rightarrow> sentence ac),
          wr_status_note = status_note rid blocked (as_access a) raw, wr_enrichment_pending = pending\<rparr>)"

definition no_scores :: scores where
  "no_scores = \<lparr>sc_scenic = None, sc_air = None, sc_shade = None, sc_quiet = None\<rparr>"

definition blocked_route :: "string \<Rightarrow> string \<Rightarrow> mode \<Rightarrow> string \<Rightarrow> wire_route" where
  "blocked_route rid label m note =
     \<lparr>wr_id = rid, wr_label = label, wr_status = Blocked, wr_geometry = [], wr_duration_min = 0, wr_distance_m = 0,
      wr_mode = m, wr_scores = no_scores, wr_scoring_method = ''placeholder'', wr_confidence = 0, wr_rest_stops = None,
      wr_blockers = [], wr_steps = [], wr_elevation = None, wr_narration = None, wr_synthetic_upstream = False,
      wr_confidence_note = None, wr_status_note = Some note, wr_enrichment_pending = False\<rparr>"

section \<open>The numbers on a card\<close>

lemma unit_blend_air:
  assumes "\<forall>a. air = Some a \<longrightarrow> 0 \<le> aq_score a \<and> aq_score a \<le> 1" and "unit_opt p"
  shows "unit_opt (blend_air air p)"
proof -
  have "0 \<le> s * (0.55 + 0.45 * q) \<and> s * (0.55 + 0.45 * q) \<le> 1" if "0 \<le> s" "s \<le> 1" "0 \<le> q" "q \<le> 1" for s q :: real
  proof -
    have "0 \<le> 0.55 + 0.45 * q" using that by simp
    moreover have "0.55 + 0.45 * q \<le> 1" using that by (simp add: power2_eq_square)
    ultimately show ?thesis using that by (metis mult_le_one mult_nonneg_nonneg)
  qed
  then show ?thesis using assms round_dec_unit by (auto simp: blend_air_def split: option.splits)
qed

lemma unit_blend_shade: "unit_opt (blend_shade need cover)"
proof -
  have "0 \<le> max 0 (min 1 x) \<and> max 0 (min 1 x) \<le> 1" for x :: real by auto
  then show ?thesis using round_dec_unit by (auto simp: blend_shade_def split: option.splits)
qed

definition unit_card :: "scores \<Rightarrow> bool" where
  "unit_card s \<longleftrightarrow> unit_opt (sc_scenic s) \<and> unit_opt (sc_air s) \<and> unit_opt (sc_shade s) \<and> unit_opt (sc_quiet s)"

lemma air_quality_of_unit:
  "snd (air_quality_of t hourly) = Inr (Some m) \<Longrightarrow> 0 \<le> aq_score m \<and> aq_score m \<le> 1"
  by (auto simp: air_quality_of_def round_dec_unit split: sum.splits option.splits)

lemma fetched_air_unit:
  "snd (fetch_air_quality t fetched) = Inr (Some m) \<Longrightarrow> 0 \<le> aq_score m \<and> aq_score m \<le> 1"
  by (auto simp: fetch_air_quality_def dest: air_quality_of_unit split: sum.splits option.splits if_splits fetch_error.splits)

text \<open>
  C33 No card shows an invented number. Take any air reading the client can hand over, that is none
  or what \<open>fetch_air_quality\<close> made of any answer of the service, any index in it included, a route
  whose geometry was scored or was not, and whose accessibility was assessed or was not. Then each
  of the card's four scores is missing or between 0 and 1, and so is its confidence; when the
  geometry could not be scored no score but the regional air reading is shown; and a route of
  demonstration data is marked a placeholder, of no confidence, and says so, while one that was
  never assessed says that.
\<close>

theorem no_card_shows_an_invented_number:
  assumes "as_scores a = None \<or> (\<exists>ps es ds clip. as_scores a = Some (score_geometry ps es ds clip))"
    and "as_access a = None \<or> (\<exists>ps es ds osm. as_access a = Some (assess_route interp ps es ds osm))"
    and "air = None \<or> (\<exists>t fetched. snd (fetch_air_quality t fetched) = Inr air)"
  shows "let r = scored_route rid label raw stops air need a pending
    in unit_card (wr_scores r) \<and> 0 \<le> wr_confidence r \<and> wr_confidence r \<le> 1
       \<and> (as_scores a = None \<longrightarrow> wr_scores r = \<lparr>sc_scenic = None, sc_air = map_option aq_score air, sc_shade = None, sc_quiet = None\<rparr>
             \<and> wr_scoring_method r = ''placeholder'')
       \<and> (rr_synthetic_upstream raw \<longrightarrow> wr_scoring_method r = ''placeholder'' \<and> wr_confidence r = 0
             \<and> wr_confidence_note r = Some SYNTHETIC_NOTE)
       \<and> (as_access a = None \<longrightarrow> wr_confidence r = 0 \<and> wr_blockers r = [] \<and> wr_status r = Ok
             \<and> (rr_synthetic_upstream raw \<or> wr_confidence_note r = Some UNASSESSED_NOTE))"
proof -
  have g: "unit_scores g" if "as_scores a = Some g" for g
    using assms(1) that score_geometry_unit by auto
  have air: "\<forall>m. air = Some m \<longrightarrow> 0 \<le> aq_score m \<and> aq_score m \<le> 1" using assms(3) fetched_air_unit by blast
  have "unit_opt (Option.bind (as_scores a) g_air)" using g by (cases "as_scores a") (auto simp: unit_scores_def)
  then have "unit_card (wire_scores air need (as_scores a))"
    using g unit_blend_air [OF air] unit_blend_shade
    by (cases "as_scores a") (auto simp: unit_card_def wire_scores_def unit_scores_def)
  moreover have "0 \<le> ra_coverage ac \<and> ra_coverage ac \<le> 1" if "as_access a = Some ac" for ac
    using assms(2) that assess_fractions_unit by auto
  ultimately show ?thesis
    unfolding scored_route_def Let_def
    by (cases "as_access a"; cases air)
      (auto simp: wire_scores_def blend_air_def blend_shade_def scoring_method_def blocked_by_def split: option.splits)
qed

text \<open>
  The shade score is what its formula says: with full need it is the route's cover, with none it
  is 1, it never falls as cover grows nor rises as need grows, and it is missing when either part is.
\<close>

theorem shade_blend_is_a_generalisation:
  "(\<forall>c. 0 \<le> c \<and> c \<le> 1 \<longrightarrow> blend_shade (Some 1) (Some c) = Some (round_dec 4 c) \<and> blend_shade (Some 0) (Some c) = Some 1)
 \<and> (\<forall>n c c'. 0 \<le> n \<and> c \<le> c' \<longrightarrow> the (blend_shade (Some n) (Some c)) \<le> the (blend_shade (Some n) (Some c')))
 \<and> (\<forall>n n' c. n \<le> n' \<and> c \<le> 1 \<longrightarrow> the (blend_shade (Some n') (Some c)) \<le> the (blend_shade (Some n) (Some c)))
 \<and> (\<forall>need cover. blend_shade need cover = None \<longleftrightarrow> need = None \<or> cover = None)"
proof (intro conjI allI impI)
  fix n c c' :: real
  assume h: "0 \<le> n \<and> c \<le> c'"
  then have "n * (1 - c') \<le> n * (1 - c)" by (intro mult_left_mono) auto
  then show "the (blend_shade (Some n) (Some c)) \<le> the (blend_shade (Some n) (Some c'))"
    by (simp add: blend_shade_def) (intro round_dec_mono; linarith)
next
  fix n n' c :: real
  assume h: "n \<le> n' \<and> c \<le> 1"
  then have "n * (1 - c) \<le> n' * (1 - c)" by (intro mult_right_mono) auto
  then show "the (blend_shade (Some n') (Some c)) \<le> the (blend_shade (Some n) (Some c))"
    by (simp add: blend_shade_def) (intro round_dec_mono; linarith)
qed (auto simp: blend_shade_def max_absorb2 min_absorb2 split: option.splits)

definition bare_route :: raw_route where
  "bare_route = \<lparr>rr_points = equator, rr_distance_m = 0, rr_duration_min = 0, rr_mode = Foot, rr_elevations = [],
     rr_details = Map.empty, rr_steps = [], rr_synthetic_upstream = False, rr_preset = ''accessible'', rr_preset_note = None\<rparr>"

definition unassessed :: assessment where
  "unassessed = \<lparr>as_scores = None, as_access = None, as_clip_score = None, as_elevation = None\<rparr>"

text \<open>A day on which the service reads an index of 140: worse than its worst, and the score is 0.\<close>

definition foul_day :: http_response where
  "foul_day = \<lparr>hr_status = 200, hr_headers = [], hr_body = BJson (JObj [(''hourly'',
     JObj [(''time'', JList [JStr ''1970-01-01T00:00'', JStr ''1970-01-01T01:00'']),
           (''european_aqi'', JList [JNum 20, JNum 140])])])\<rparr>"

lemma foul_reading:
  "fetch_air_quality 5000 (Inr foul_day) = (0, Inr (Some \<lparr>aq_score = 0, aq_aqi = Some 140, aq_pm2_5 = None\<rparr>))"
  by (simp add: fetch_air_quality_def foul_day_def hourly_of_def resp_json_def air_quality_of_def hour_index_def
      stamp_samples jor_def reading_def AQI_WORST_def)

lemma no_card_shows_an_invented_number_witness:
  "let air = Some \<lparr>aq_score = 0, aq_aqi = Some 140, aq_pm2_5 = None\<rparr>;
       r = scored_route ''shade'' ''Shade'' bare_route None air None unassessed False
   in snd (fetch_air_quality 5000 (Inr foul_day)) = Inr air
    \<and> wr_scores r = \<lparr>sc_scenic = None, sc_air = Some 0, sc_shade = None, sc_quiet = None\<rparr> \<and> unit_card (wr_scores r)
    \<and> wr_confidence_note r = Some UNASSESSED_NOTE"
  using no_card_shows_an_invented_number
      [of unassessed "\<lambda>_ _ _. 0" "Some \<lparr>aq_score = 0, aq_aqi = Some 140, aq_pm2_5 = None\<rparr>" "''shade''" "''Shade''" bare_route None None False]
    foul_reading by (simp add: Let_def unassessed_def bare_route_def) (metis snd_conv)

lemma shade_blend_is_a_generalisation_witness:
  "blend_shade (Some 1) (Some 1) = Some (round_dec 4 1) \<and> the (blend_shade (Some 1) (Some 0)) \<le> the (blend_shade (Some 1) (Some 1))"
  using shade_blend_is_a_generalisation by simp

section \<open>The notes on a card\<close>

text \<open>
  The two notes of a card never contradict each other about gates. An accessible route with
  nothing against it and almost nothing recorded is said to have no barriers found only when they
  were looked for; when they were not, its other note ends by saying so and this one repeats it. A
  rejected route says that it is, shows what rejects it, and no other objective is ever rejected.
\<close>

theorem notes_agree_about_gates:
  assumes "as_access a = Some (assess_route interp ps es ds osm)" and "rr_preset_note raw = None"
    and "\<not> rr_synthetic_upstream raw"
  shows "let r = scored_route rid label raw stops air need a pending; ac = assess_route interp ps es ds osm
    in (wr_status_note r = Some nothing_found_note \<longleftrightarrow>
          rid = ''accessible'' \<and> \<not> is_blocked ac \<and> ra_coverage ac < VERY_LOW_CONFIDENCE_THRESHOLD \<and> spans_of osm ''barrier'' \<noteq> None)
     \<and> (wr_status_note r = Some not_looked_note \<longleftrightarrow>
          rid = ''accessible'' \<and> \<not> is_blocked ac \<and> ra_coverage ac < VERY_LOW_CONFIDENCE_THRESHOLD \<and> spans_of osm ''barrier'' = None)
     \<and> (spans_of osm ''barrier'' = None \<longrightarrow>
          (\<exists>body. wr_confidence_note r = Some (body @ '' Gates and stiles were not checked.'')))
     \<and> (wr_status r = Blocked \<longleftrightarrow> rid = ''accessible'' \<and> wr_blockers r \<noteq> [])
     \<and> (wr_status r = Blocked \<longrightarrow> wr_status_note r = Some rejected_note)"
proof -
  let ?ac = "assess_route interp ps es ds osm"
  have ne: "rejected_note \<noteq> nothing_found_note" "rejected_note \<noteq> not_looked_note" "nothing_found_note \<noteq> not_looked_note"
    by (simp_all add: rejected_note_def nothing_found_note_def not_looked_note_def)
  have blocked: "is_blocked ?ac \<longleftrightarrow> ra_findings ?ac \<noteq> []" by (rule findings_block)
  have "\<exists>body. sentence ?ac = body @ '' Gates and stiles were not checked.''" if "spans_of osm ''barrier'' = None"
    using sentence_shape [of ?ac] that by (auto simp: barriers_checked_iff)
  then show ?thesis
    using assms ne blocked unfolding scored_route_def Let_def
    by (auto simp: status_note_def blocked_by_def barriers_checked_iff not_le)
qed

lemma notes_agree_about_gates_witness:
  "wr_status_note (scored_route ''accessible'' ''Accessible'' bare_route None None None
     (assess (\<lambda>_ _ _. 0) empty_cache bare_route) False)
   = Some not_looked_note"
proof -
  let ?ac = "assess_route (\<lambda>_ _ _. 0) equator None (Some Map.empty) None"
  have "tally_weights equator (Some Map.empty) = []"
    by (simp add: tally_weights_def span_verdicts_def spans_of_def)
  then have c: "ra_coverage ?ac = 0" using untagged_coverage [of equator "Some Map.empty"] by simp
  have "\<not> is_blocked ?ac" by (simp add: verdict_blocked rejected_def spans_of_def)
  then show ?thesis
    using notes_agree_about_gates [of "assess (\<lambda>_ _ _. 0) empty_cache bare_route" "\<lambda>_ _ _. 0" equator None "Some Map.empty" None bare_route "''accessible''"] c
    by (simp add: assess_def bare_route_def elevations_of_def Let_def VERY_LOW_CONFIDENCE_THRESHOLD_def spans_of_def)
qed

section \<open>Gates\<close>

lemma covers_segment:
  assumes "\<forall>x \<in> set (segment_lengths_m ps). 0 < x" and "j < length ps - 1" and "Span (int j) (int j + 1) v n m \<in> set ss"
  shows "covers ps (Some ss) (Span (int j) (int j + 1) v n m)"
proof -
  have "span_length (segment_lengths_m ps) (Span (int j) (int j + 1) v n m) = segment_lengths_m ps ! j"
    using assms(2) by (simp add: span_length_def span_bounds_def slice_def take_Suc_conv_app_nth nat_add_distrib Cons_nth_drop_Suc [symmetric])
  then show ?thesis using assms by (simp add: covers_def)
qed

lemma survey_finds:
  assumes "barrier_candidates pystr elements = Inr cs" and "2 \<le> length ps"
    and "barrier_spans_on_route pystr ps elements = Inr spans" and "(n, v) \<in> set cs"
    and "i < length ps - 1" and "segment_offsets ps n ! i \<le> BARRIER_CORRIDOR_M"
  obtains j m where "(int j, int j + 1, v, round_dec 7 (lat n), round_dec 7 (lon n), m) \<in> set spans" "j < length ps - 1"
proof (rule barrier_span_found [OF assms(5, 6), of v])
  fix j m
  assume j: "j < length ps - 1"
    "barrier_span ps (n, v) = [(int j, int j + 1, v, round_dec 7 (lat n), round_dec 7 (lon n), m)]"
  have "elements \<noteq> []" using assms(1, 4) by auto
  then have "spans = sort (remdups (concat (map (barrier_span ps) cs)))"
    using assms(1, 2, 3) by (auto simp: barrier_spans_on_route_def split: if_splits)
  then have "(int j, int j + 1, v, round_dec 7 (lat n), round_dec 7 (lon n), m) \<in> set spans"
    using assms(4) j(2) by (auto intro!: bexI [of _ "(n, v)"])
  then show thesis using j(1) by (rule that)
qed

lemma findings_of_long:
  assumes "long_enough ps"
  shows "ra_findings (assess_route interp ps es d osm) = all_findings interp ps es d osm"
proof -
  obtain a p f where t: "tally (tally_weights ps d) (0, 0, 0) = (a, p, f)" using prod_cases3 by blast
  show ?thesis unfolding assess_route_eq [OF assms t] by simp
qed


definition gated_route :: raw_route where
  "gated_route = bare_route\<lparr>rr_points := forty_metres\<rparr>"


text \<open>
  A line whose last point is written twice: both of its last segments are at no distance from a
  gate that stands there, the tie goes to the later one, and the engine skips it for its length of
  nothing. The survey was read and holds the gate, and the accessible route is not blocked.
\<close>

definition stuttering_line :: "latlon list" where
  "stuttering_line = [metre_mark 0, metre_mark 20, metre_mark 20]"

lemma stuttering_lengths: "segment_lengths_m stuttering_line = [20, 0]"
  unfolding stuttering_line_def segment_lengths_m.simps
  by (simp add: metre_mark_distance del: arcsin_sin)

lemma stuttering_offsets: "segment_offsets stuttering_line (metre_mark 20) = [0, 0]"
proof -
  have "segment_offsets stuttering_line (metre_mark 20) ! 0 = 0"
    by (rule on_the_line_offset [where t = 1]) (simp_all add: stuttering_line_def metre_mark_def)
  moreover have "segment_offsets stuttering_line (metre_mark 20) ! 1 = 0"
    by (rule on_the_line_offset [where t = 0]) (simp_all add: stuttering_line_def metre_mark_def)
  moreover have "length (segment_offsets stuttering_line (metre_mark 20)) = 2" by (simp add: stuttering_line_def)
  ultimately show ?thesis by (simp add: list_eq_iff_nth_eq less_2_cases_iff)
qed

lemma a_repeated_point_hides_a_gate:
  "\<exists>spans la lo m. barrier_spans_on_route (\<lambda>_. '''') stuttering_line [gate_at (lat (metre_mark 20)) (lon (metre_mark 20))]
        = Inr spans \<and> spans = [(1, 2, ''gate'', la, lo, m)]
     \<and> assess_barrier (Tag ''gate'') = FAIL
     \<and> segment_offsets stuttering_line (metre_mark 20) = [0, 0]
     \<and> wr_status (scored_route ''accessible'' ''Accessible'' (bare_route\<lparr>rr_points := stuttering_line\<rparr>) None None None
          (reassess_with_barriers (\<lambda>_ _ _. 0) unassessed (bare_route\<lparr>rr_points := stuttering_line\<rparr>) spans) False) = Ok"
proof -
  let ?raw = "bare_route\<lparr>rr_points := stuttering_line\<rparr>"
  have last: "last_argmin [0, 0 :: real] = 1" by (simp add: last_argmin_def argmax_def)
  obtain la lo m where sp: "barrier_span stuttering_line (metre_mark 20, ''gate'') = [(1, 2, ''gate'', la, lo, m)]"
    by (simp add: barrier_span_def Let_def stuttering_offsets last BARRIER_CORRIDOR_M_def) (simp add: stuttering_line_def)
  have run: "barrier_spans_on_route (\<lambda>_. '''') stuttering_line [gate_at (lat (metre_mark 20)) (lon (metre_mark 20))]
      = Inr [(1, 2, ''gate'', la, lo, m)]"
    using sp by (simp add: barrier_spans_on_route_def gate_candidates stuttering_line_def del: barrier_candidates.simps)
  have gate: "assess_barrier (Tag ''gate'') = FAIL"
    by (simp add: assess_barrier_def is_unknown_def normalise_def constraint_sets py_defs)
  have none: "\<not> covers stuttering_line (Some [Span 1 2 (Tag ''gate'') (Some (LatLon la lo)) (Some m)]) s" for s
    by (auto simp: covers_def stuttering_lengths span_length_def span_bounds_def slice_def)
  have el: "elevations_of ?raw = None" by (simp add: elevations_of_def bare_route_def)
  have "\<not> is_blocked (assess_route (\<lambda>_ _ _. 0) stuttering_line None (Some Map.empty)
      (Some [''barrier'' \<mapsto> [Span 1 2 (Tag ''gate'') (Some (LatLon la lo)) (Some m)]]))"
    by (simp add: verdict_blocked rejected_def spans_of_def none)
  then have "wr_status (scored_route ''accessible'' ''Accessible'' ?raw None None None
      (reassess_with_barriers (\<lambda>_ _ _. 0) unassessed ?raw [(1, 2, ''gate'', la, lo, m)]) False) = Ok"
    using el by (simp add: scored_route_def Let_def blocked_by_def reassess_with_barriers_def bare_route_def)
  then show ?thesis using run gate stuttering_offsets by blast
qed

end
