(* ===== verification/Events.thy ===== *)
theory Events
  imports Assemble Extent Models
begin

text \<open>
  backend/main.py, \<open>route_events\<close>: one request as the sequence of events both transports consume, and
  how it ends. What the outside gives is a record of functions: the router (a request body to an
  answer, through Routing), the extent of its graph, the enrichment upstreams, the narrator. The
  presets are Routing's own. \<open>asyncio.gather\<close> runs the presets of one request side by side; each is a
  function of the request alone here, so their order of completion does not show, and of several
  exceptions that are no \<open>RoutingError\<close> the first objective's is raised. The counters the code bumps
  on the way are not carried.
\<close>

section \<open>Events\<close>

record routes_response =
  rp_routes :: "wire_route list"
  rp_best_departure :: "moment option"
  rp_reason :: "string option"
  rp_segments_scored :: nat
  rp_hit_rate :: real

datatype event =
    Progress int string
  | RouteEv wire_route
  | DoneEv (de_partial: bool) (de_payload: routes_response)
  | ErrorEv (ee_kind: string) (ee_message: string)

datatype ending = Finished | Failed routing_error

record world =
  ww_env :: environ
  ww_outside :: "latlon \<Rightarrow> (py_error, box option) result"
  ww_extent :: "(py_error, box option) result"
  ww_regions :: "box list option"
  ww_post :: "string \<Rightarrow> json \<Rightarrow> (routing_error, raw_route) result"
  ww_cache :: cache
  ww_interp :: interp_fn
  ww_pystr :: "json \<Rightarrow> string"
  ww_upstreams :: upstreams
  ww_now :: moment
  ww_hit_rate :: real
  ww_narrator :: "(wire_route \<Rightarrow> string option) option"

section \<open>Routing the objectives\<close>

definition clip_score_of :: "cache \<Rightarrow> latlon list \<Rightarrow> real option" where
  "clip_score_of c ps = Option.bind (guard (clip_term_for_route ps c)) ct_score"

definition request_mode :: "route_request \<Rightarrow> mode" where
  "request_mode req = effective_mode (rq_mode req) (rq_minutes req) (straight_line_m req)"

text \<open>\<open>PRESETS[objective](origin, destination, minutes, mode)\<close>, with \<open>fastest\<close> for the scenic one.\<close>

definition run_preset :: "world \<Rightarrow> route_request \<Rightarrow> string \<Rightarrow> raw_route option \<Rightarrow> (routing_error, raw_route) result" where
  "run_preset w req objective fastest =
     (let src = rq_origin req; d = rq_destination req; n = rq_minutes req; m = request_mode req; post = ww_post w objective
      in if objective = ''fastest'' then route_fastest (ww_env w) post src d n m
         else if objective = ''scenic''
         then (case route_scenic (ww_env w) (clip_score_of (ww_cache w)) post src d n m fastest of
                 Inl e \<Rightarrow> Inl e
               | Inr None \<Rightarrow> Inl (Crash PyRuntimeError)
               | Inr (Some r) \<Rightarrow> Inr r)
         else if objective = ''accessible'' then route_accessible (ww_env w) post src d n m
         else route_preference (ww_env w) post objective src d n m)"

definition label_of :: "string \<Rightarrow> string" where
  "label_of objective = (case map_of ROUTE_LABELS objective of None \<Rightarrow> objective | Some l \<Rightarrow> l)"

definition fastest_first :: "string list \<Rightarrow> string list" where
  "fastest_first objectives = sort_key (\<lambda>ob. if ob = ''fastest'' then 0 else 1 :: nat) objectives"

text \<open>The check before routing: the first of the two points that lies outside the graph.\<close>

fun outside_error :: "(latlon \<Rightarrow> (py_error, box option) result) \<Rightarrow> latlon list \<Rightarrow> routing_error option" where
  "outside_error outside [] = None"
| "outside_error outside (p # ps) =
     (case outside p of
        Inl e \<Rightarrow> Some (Crash e)
      | Inr None \<Rightarrow> outside_error outside ps
      | Inr (Some b) \<Rightarrow> Some (OutsideCoverage (coverage_message b)))"

definition best_failure :: "world \<Rightarrow> route_request \<Rightarrow> routing_error list \<Rightarrow> routing_error" where
  "best_failure w req failures =
     (let failure = (case failures of [] \<Rightarrow> NoRouteFound ''No route could be found from there.'' False | f # fs \<Rightarrow> f)
      in case failure of
          NoRouteFound msg True \<Rightarrow>
            (case ww_extent w of
               Inl e \<Rightarrow> Crash e
             | Inr None \<Rightarrow> failure
             | Inr (Some b) \<Rightarrow> OutsideCoverage (unroutable_point_message (ww_regions w) b
                 (Some (lat (rq_origin req), lon (rq_origin req)))))
        | _ \<Rightarrow> failure)"

fun is_crash_error :: "routing_error \<Rightarrow> bool" where
  "is_crash_error (Crash e) = True"
| "is_crash_error _ = False"

fun is_no_route :: "routing_error \<Rightarrow> bool" where
  "is_no_route (NoRouteFound m p) = True"
| "is_no_route _ = False"

text \<open>The baseline that scenic is compared with when the caller did not ask for fastest.\<close>

definition baseline :: "world \<Rightarrow> route_request \<Rightarrow> (routing_error, raw_route option) result" where
  "baseline w req =
     (if ''scenic'' \<in> set (resolved_objectives req) \<and> ''fastest'' \<notin> set (resolved_objectives req)
      then case run_preset w req ''fastest'' None of
          Inr r \<Rightarrow> Inr (Some r)
        | Inl e \<Rightarrow> if is_crash_error e then Inl e else Inr None
      else Inr None)"

type_synonym outcome = "string \<times> (routing_error, raw_route) result"

definition fastest_outcome :: "world \<Rightarrow> route_request \<Rightarrow> outcome list" where
  "fastest_outcome w req =
     (if ''fastest'' \<in> set (resolved_objectives req) then [(''fastest'', run_preset w req ''fastest'' None)] else [])"

definition other_outcomes :: "world \<Rightarrow> route_request \<Rightarrow> raw_route option \<Rightarrow> outcome list" where
  "other_outcomes w req fastest =
     map (\<lambda>ob. (ob, run_preset w req ob (if ob = ''scenic'' then fastest else None)))
       (filter (\<lambda>ob. ob \<noteq> ''fastest'') (fastest_first (resolved_objectives req)))"

fun routed_of :: "outcome list \<Rightarrow> (string \<times> raw_route) list" where
  "routed_of [] = []"
| "routed_of ((ob, Inl e) # os) = routed_of os"
| "routed_of ((ob, Inr r) # os) = (ob, r) # routed_of os"

fun failures_of :: "outcome list \<Rightarrow> (string \<times> routing_error) list" where
  "failures_of [] = []"
| "failures_of ((ob, Inl e) # os) = (ob, e) # failures_of os"
| "failures_of ((ob, Inr r) # os) = failures_of os"

definition failed_route :: "mode \<Rightarrow> string \<times> routing_error \<Rightarrow> wire_route" where
  "failed_route m f = blocked_route (fst f) (label_of (fst f)) m (re_message (snd f))"

text \<open>What routing gives: the progress events, and the outcomes or the error that ends the request.\<close>

definition routing_phase :: "world \<Rightarrow> route_request \<Rightarrow> event list \<times> (routing_error, outcome list) result" where
  "routing_phase w req =
     (case outside_error (ww_outside w) (rq_origin req # (case rq_destination req of None \<Rightarrow> [] | Some d \<Rightarrow> [d])) of
        Some e \<Rightarrow> ([], Inl e)
      | None \<Rightarrow>
          (case baseline w req of
             Inl e \<Rightarrow> ([], Inl e)
           | Inr base \<Rightarrow>
               let fast = fastest_outcome w req;
                   p1 = (if fast = [] then [] else [Progress 15 ''Routing the fastest way'']);
                   others = filter (\<lambda>ob. ob \<noteq> ''fastest'') (fastest_first (resolved_objectives req));
                   p2 = (if others = [] then [] else [Progress 35 ''Routing the other ways''])
               in case find (\<lambda>e. \<not> is_no_route e) (map snd (failures_of fast)) of
                   Some e \<Rightarrow> (p1, Inl e)
                 | None \<Rightarrow>
                     let rest = other_outcomes w req (case routed_of fast of [] \<Rightarrow> base | (ob, r) # _ \<Rightarrow> Some r)
                     in (case find is_crash_error (map snd (failures_of rest)) of
                           Some e \<Rightarrow> (p1 @ p2, Inl e)
                         | None \<Rightarrow>
                             if routed_of (fast @ rest) = []
                             then (p1 @ p2, Inl (best_failure w req (map snd (failures_of (fast @ rest)))))
                             else (p1 @ p2, Inr (fast @ rest)))))"

section \<open>The two passes\<close>

definition first_pass :: "world \<Rightarrow> string \<times> raw_route \<Rightarrow> wire_route" where
  "first_pass w x =
     (case x of (ob, raw) \<Rightarrow>
        scored_route ob (label_of ob) raw None None None (assess (ww_interp w) (ww_cache w) raw) True)"

definition second_pass :: "world \<Rightarrow> enrich_context \<Rightarrow> string \<times> raw_route \<Rightarrow> (py_error, wire_route) result" where
  "second_pass w ctx x =
     (case x of (ob, raw) \<Rightarrow>
        (case (case ec_rest_stop_nodes ctx of
                 None \<Rightarrow> Inr None
               | Some nodes \<Rightarrow> (case rest_stops_on_route (ww_pystr w) (rr_points raw) nodes of
                   Inl e \<Rightarrow> Inl e | Inr s \<Rightarrow> Inr (Some s))) of
           Inl e \<Rightarrow> Inl e
         | Inr stops \<Rightarrow>
             let a = assess (ww_interp w) (ww_cache w) raw
             in (case (case ec_barrier_nodes ctx of
                         None \<Rightarrow> Inr a
                       | Some nodes \<Rightarrow> (case barrier_spans_on_route (ww_pystr w) (rr_points raw) nodes of
                           Inl e \<Rightarrow> Inl e
                         | Inr spans \<Rightarrow> Inr (reassess_with_barriers (ww_interp w) a raw spans))) of
                   Inl e \<Rightarrow> Inl e
                 | Inr a' \<Rightarrow>
                     Inr (scored_route ob (label_of ob) raw stops (ec_air ctx) (ec_shade_need ctx) a' False))))"

fun second_passes :: "world \<Rightarrow> enrich_context \<Rightarrow> (string \<times> raw_route) list \<Rightarrow> wire_route list \<times> py_error option" where
  "second_passes w ctx [] = ([], None)"
| "second_passes w ctx (x # xs) =
     (case second_pass w ctx x of
        Inl e \<Rightarrow> ([], Some e)
      | Inr r \<Rightarrow> (case second_passes w ctx xs of (rs, e) \<Rightarrow> (r # rs, e)))"

section \<open>The answer\<close>

definition narrated :: "world \<Rightarrow> wire_route \<Rightarrow> wire_route" where
  "narrated w r = (case ww_narrator w of None \<Rightarrow> r | Some f \<Rightarrow> r\<lparr>wr_narration := f r\<rparr>)"

definition has_narration :: "wire_route \<Rightarrow> bool" where
  "has_narration r \<longleftrightarrow> wr_narration r \<noteq> None \<and> wr_narration r \<noteq> Some []"

text \<open>\<open>{o: i for i, o in enumerate(objectives)}\<close>: the last position of an objective, 99 without one.\<close>

definition position_of :: "string list \<Rightarrow> string \<Rightarrow> nat" where
  "position_of objectives ob = (case map_of (rev (zip objectives [0..<length objectives])) ob of None \<Rightarrow> 99 | Some i \<Rightarrow> i)"

definition over_budget_reason :: "int \<Rightarrow> string" where
  "over_budget_reason budget =
     ''Every route found is longer than your '' @ int_text budget @ ''-minute budget. The shortest option is shown first.''"

definition all_blocked_reason :: string where
  "all_blocked_reason = ''Every route found is blocked. Each one below says what stops it, so you can see whether it matters for you.''"

definition answer_reason :: "route_request \<Rightarrow> wire_route list \<Rightarrow> departure option \<Rightarrow> string option" where
  "answer_reason req routes dep =
     (let ok = filter (\<lambda>r. wr_status r = Ok) routes;
          dep_reason = map_option dp_reason dep
      in case budget_minutes req of
          Some b \<Rightarrow>
            if ok \<noteq> [] \<and> list_all (\<lambda>r. of_int b < wr_duration_min r) ok then Some (over_budget_reason b)
            else if routes \<noteq> [] \<and> ok = [] then Some all_blocked_reason else dep_reason
        | None \<Rightarrow> if routes \<noteq> [] \<and> ok = [] then Some all_blocked_reason else dep_reason)"

definition answer :: "world \<Rightarrow> route_request \<Rightarrow> wire_route list \<Rightarrow> enrich_context \<Rightarrow> nat \<Rightarrow> routes_response" where
  "answer w req routes ctx segments =
     (let sorted_routes = sort_key (\<lambda>r. position_of (resolved_objectives req) (wr_id r)) routes
      in \<lparr>rp_routes = sorted_routes, rp_best_departure = map_option dp_when (ec_departure ctx),
          rp_reason = answer_reason req sorted_routes (ec_departure ctx),
          rp_segments_scored = segments, rp_hit_rate = ww_hit_rate w\<rparr>)"

definition depart_moment :: "world \<Rightarrow> route_request \<Rightarrow> moment" where
  "depart_moment w req = (case rq_depart_at req of None \<Rightarrow> ww_now w | Some t \<Rightarrow> t)"

definition route_events :: "world \<Rightarrow> route_request \<Rightarrow> event list \<times> ending" where
  "route_events w req =
     (let start = [Progress 5 ''Looking for routable roads'']
      in case routing_phase w req of
          (ps, Inl e) \<Rightarrow> (start @ ps, Failed e)
        | (ps, Inr outcomes) \<Rightarrow>
            let routed = routed_of outcomes;
                failed = map (failed_route (request_mode req)) (failures_of outcomes);
                early = start @ ps @ map (RouteEv \<circ> first_pass w) routed @ map RouteEv failed
                  @ [Progress 60 ''Checking surfaces, air and rest stops''];
                ctx = snd (enrich_context (ww_upstreams w) (map (rr_points \<circ> snd) routed) (depart_moment w req))
            in (case second_passes w ctx routed of
                  (rs, Some e) \<Rightarrow> (early @ map RouteEv rs, Failed (Crash e))
                | (rs, None) \<Rightarrow>
                    let routes = map (narrated w) (failed @ rs);
                        late = early @ map RouteEv rs @ [Progress 90 ''Writing the descriptions'']
                          @ map RouteEv (filter has_narration routes)
                    in (case segment_count (ww_cache w) of
                          Inl e \<Rightarrow> (late, Failed (Crash PyRuntimeError))
                        | Inr n \<Rightarrow> (late @ [DoneEv False (answer w req routes ctx n)], Finished))))"

section \<open>Every objective is answered\<close>

lemma outcomes_split: "mset (map fst os) = mset (map fst (routed_of os)) + mset (map fst (failures_of os))"
  by (induction os rule: routed_of.induct) auto

lemma routed_of_append [simp]: "routed_of (xs @ ys) = routed_of xs @ routed_of ys"
  by (induction xs rule: routed_of.induct) auto

lemma failures_of_append [simp]: "failures_of (xs @ ys) = failures_of xs @ failures_of ys"
  by (induction xs rule: failures_of.induct) auto

lemma routed_of_iff: "(ob, r) \<in> set (routed_of os) \<longleftrightarrow> (ob, Inr r) \<in> set os"
  by (induction os rule: routed_of.induct) auto

lemma sort_by_position:
  assumes "distinct os" and "mset ys = mset os"
  shows "sort_key (position_of os) ys = os"
proof (rule properties_for_sort_key)
  have at: "position_of os (os ! i) = i" if i: "i < length os" for i
  proof -
    have "distinct (map fst (rev (zip os [0..<length os])))" using assms(1) by (simp add: rev_map [symmetric])
    moreover have "(os ! i, i) \<in> set (rev (zip os [0..<length os]))" using i by (force simp: set_zip)
    ultimately have "map_of (rev (zip os [0..<length os])) (os ! i) = Some i" by (simp only: map_of_eq_Some_iff)
    then show ?thesis by (simp add: position_of_def)
  qed
  show "sorted (map (position_of os) os)"
    by (rule sorted_wrt_iff_nth_less [THEN iffD2]) (auto simp: at)
  have inj: "inj_on (position_of os) (set os)"
    by (rule inj_onI) (metis at in_set_conv_nth)
  show "mset os = mset ys" using assms(2) by simp
  fix y
  assume "y \<in> set os"
  have only: "filter (\<lambda>x. position_of os y = position_of os x) zs = filter (\<lambda>x. y = x) zs" if "set zs = set os" for zs
    by (rule filter_cong) (use that \<open>y \<in> set os\<close> inj in \<open>auto dest: inj_onD\<close>)
  have "set ys = set os" using assms(2) by (metis set_mset_mset)
  then show "filter (\<lambda>x. position_of os y = position_of os x) os = filter (\<lambda>x. position_of os y = position_of os x) ys"
    using only [of ys] only [of os] assms(2) by (metis mset_filter replicate_length_filter size_mset)
qed

lemma map_sort_key: "map f (sort_key (\<lambda>x. k (f x)) xs) = sort_key k (map f xs)"
proof -
  have "map f (insort_key (\<lambda>x. k (f x)) x ys) = insort_key k (f x) (map f ys)" for x ys
    by (induction ys) auto
  then show ?thesis by (induction xs) auto
qed

lemma scored_route_id [simp]: "wr_id (scored_route rid label raw stops air need a pending) = rid"
  by (simp add: scored_route_def Let_def)

lemma failed_route_id [simp]: "wr_id (failed_route m f) = fst f"
  by (simp add: failed_route_def blocked_route_def)

lemma narrated_simps [simp]: "wr_id (narrated w r) = wr_id r" "(narrated w r)\<lparr>wr_narration := None\<rparr> = r\<lparr>wr_narration := None\<rparr>"
  by (auto simp: narrated_def split: option.splits)

lemma scored_route_bare [simp]:
  "(scored_route rid label raw stops air need a pending)\<lparr>wr_narration := None\<rparr> = scored_route rid label raw stops air need a pending"
  by (simp add: scored_route_def Let_def)

lemma failed_route_bare [simp]: "(failed_route m f)\<lparr>wr_narration := None\<rparr> = failed_route m f"
  by (simp add: failed_route_def blocked_route_def)

lemma second_pass_scored:
  assumes "second_pass w ctx (ob, raw) = Inr r"
  obtains stops a where "r = scored_route ob (label_of ob) raw stops (ec_air ctx) (ec_shade_need ctx) a False"
    and "a = assess (ww_interp w) (ww_cache w) raw
      \<or> (\<exists>spans. a = reassess_with_barriers (ww_interp w) (assess (ww_interp w) (ww_cache w) raw) raw spans)"
  using assms by (auto simp: second_pass_def Let_def split: option.splits sum.splits)

lemma second_passes_all:
  "second_passes w ctx xs = (rs, None) \<Longrightarrow> list_all2 (\<lambda>x r. second_pass w ctx x = Inr r) xs rs"
  by (induction xs arbitrary: rs) (auto split: sum.splits prod.splits)

lemma all2_preimage: "list_all2 P xs ys \<Longrightarrow> y \<in> set ys \<Longrightarrow> \<exists>x \<in> set xs. P x y"
  by (induction rule: list_all2_induct) auto

lemma all2_image: "list_all2 P xs ys \<Longrightarrow> x \<in> set xs \<Longrightarrow> \<exists>y \<in> set ys. P x y"
  by (induction rule: list_all2_induct) auto

lemma second_passes_ids:
  "list_all2 (\<lambda>x r. second_pass w ctx x = Inr r) xs rs \<Longrightarrow> map wr_id rs = map fst xs"
proof (induction rule: list_all2_induct)
  case (Cons x xs r rs)
  obtain ob raw where "x = (ob, raw)" by fastforce
  with Cons show ?case by (auto elim!: second_pass_scored)
qed simp

text \<open>A finished request, taken apart once.\<close>

lemma finished_request:
  assumes "route_events w req = (evs, Finished)"
  obtains ps outcomes ctx rs n late where
    "routing_phase w req = (ps, Inr outcomes)"
    "ctx = snd (enrich_context (ww_upstreams w) (map (rr_points \<circ> snd) (routed_of outcomes)) (depart_moment w req))"
    "second_passes w ctx (routed_of outcomes) = (rs, None)"
    "evs = late @ [DoneEv False (answer w req (map (narrated w) (map (failed_route (request_mode req)) (failures_of outcomes) @ rs)) ctx n)]"
    "\<And>x. x \<in> set (routed_of outcomes) \<Longrightarrow> RouteEv (first_pass w x) \<in> set late"
    "\<And>f. f \<in> set (failures_of outcomes) \<Longrightarrow> RouteEv (failed_route (request_mode req) f) \<in> set late"
    "\<And>r. r \<in> set rs \<Longrightarrow> RouteEv r \<in> set late"
    "\<And>r. RouteEv r \<in> set late \<Longrightarrow> r \<in> first_pass w ` set (routed_of outcomes)
        \<or> r \<in> set (map (failed_route (request_mode req)) (failures_of outcomes)) \<or> r \<in> set rs
        \<or> r \<in> narrated w ` set (map (failed_route (request_mode req)) (failures_of outcomes) @ rs)"
    "\<And>p d. DoneEv p d \<notin> set late" "\<And>k m. ErrorEv k m \<notin> set late"
proof -
  obtain ps o1 where ph: "routing_phase w req = (ps, o1)" by fastforce
  have prog: "\<forall>e \<in> set ps. \<exists>p t. e = Progress p t"
    using ph by (auto simp: routing_phase_def Let_def split: option.splits sum.splits if_splits)
  show thesis
    using assms ph prog
    by (auto simp: route_events_def Let_def split: sum.splits prod.splits option.splits intro!: that)
qed

lemma routing_outcomes:
  assumes "routing_phase w req = (ps, Inr os)"
  obtains base where "baseline w req = Inr base"
    and "os = fastest_outcome w req @ other_outcomes w req
           (case routed_of (fastest_outcome w req) of [] \<Rightarrow> base | (ob, r) # _ \<Rightarrow> Some r)"
    and "routed_of os \<noteq> []"
  using assms
  by (auto simp: routing_phase_def Let_def split: option.splits sum.splits if_splits intro!: that simp del: routed_of_append)

lemma outcome_ids:
  assumes "routing_phase w req = (ps, Inr os)" and "distinct (resolved_objectives req)"
  shows "mset (map fst os) = mset (resolved_objectives req)"
proof -
  let ?objs = "resolved_objectives req"
  obtain fastest where os: "os = fastest_outcome w req @ other_outcomes w req fastest"
    using assms(1) by (elim routing_outcomes) blast
  have "filter (\<lambda>ob. a = ob) xs = (if a \<in> set xs then [a] else [])" if "distinct xs" for a :: string and xs
    using that by (induction xs) auto
  then have "filter (\<lambda>ob. ''fastest'' = ob) ?objs = (if ''fastest'' \<in> set ?objs then [''fastest''] else [])"
    using assms(2) by blast
  then have one: "mset (map fst (fastest_outcome w req)) = filter_mset (\<lambda>ob. ob = ''fastest'') (mset ?objs)"
    by (auto simp: fastest_outcome_def eq_commute simp flip: mset_filter)
  have "map fst (other_outcomes w req fastest) = filter (\<lambda>ob. ob \<noteq> ''fastest'') (fastest_first ?objs)"
    by (simp add: other_outcomes_def comp_def)
  then have "mset (map fst (other_outcomes w req fastest)) = filter_mset (\<lambda>ob. ob \<noteq> ''fastest'') (mset ?objs)"
    by (simp add: fastest_first_def)
  then show ?thesis using one by (simp add: os multiset_partition [symmetric])
qed

text \<open>
  C4 A request that runs to its end answers every objective, once, in the caller's order: the events
  end with the one answer, which holds a route for each objective asked for, routed or blocked, in
  the order they were asked; and every route of it was shown before, as an event of its own, apart
  from the words a narrator may have added.
\<close>

theorem every_objective_is_answered:
  assumes "route_events w req = (evs, Finished)" and "distinct (resolved_objectives req)"
  shows "\<exists>front resp. evs = front @ [DoneEv False resp] \<and> (\<forall>p d. DoneEv p d \<notin> set front)
    \<and> map wr_id (rp_routes resp) = resolved_objectives req
    \<and> (\<forall>r \<in> set (rp_routes resp). RouteEv (r\<lparr>wr_narration := None\<rparr>) \<in> set front)"
proof (rule finished_request [OF assms(1)])
  fix ps outcomes ctx rs n late
  assume ph: "routing_phase w req = (ps, Inr outcomes)"
    and sp: "second_passes w ctx (routed_of outcomes) = (rs, None)"
    and evs: "evs = late @ [DoneEv False (answer w req (map (narrated w) (map (failed_route (request_mode req)) (failures_of outcomes) @ rs)) ctx n)]"
    and shown: "\<And>f. f \<in> set (failures_of outcomes) \<Longrightarrow> RouteEv (failed_route (request_mode req) f) \<in> set late"
      "\<And>r. r \<in> set rs \<Longrightarrow> RouteEv r \<in> set late" "\<And>p d. DoneEv p d \<notin> set late"
  let ?routes = "map (narrated w) (map (failed_route (request_mode req)) (failures_of outcomes) @ rs)"
  have all: "list_all2 (\<lambda>x r. second_pass w ctx x = Inr r) (routed_of outcomes) rs" by (rule second_passes_all [OF sp])
  have "map wr_id ?routes = map fst (failures_of outcomes) @ map fst (routed_of outcomes)"
    using second_passes_ids [OF all] by (simp add: comp_def)
  then have "mset (map wr_id ?routes) = mset (map fst (failures_of outcomes)) + mset (map fst (routed_of outcomes))"
    by (simp only: mset_append)
  then have "mset (map wr_id ?routes) = mset (resolved_objectives req)"
    using outcome_ids [OF ph assms(2)] outcomes_split [of outcomes] by (metis add.commute)
  then have ids: "map wr_id (rp_routes (answer w req ?routes ctx n)) = resolved_objectives req"
    unfolding answer_def Let_def routes_response.simps map_sort_key by (rule sort_by_position [OF assms(2)])
  have "RouteEv (r\<lparr>wr_narration := None\<rparr>) \<in> set late" if r: "r \<in> set ?routes" for r
  proof -
    have "\<exists>x. second_pass w ctx x = Inr q" if "q \<in> set rs" for q
      using all2_preimage [OF all that] by blast
    then have "q\<lparr>wr_narration := None\<rparr> = q" if "q \<in> set rs" for q
      using that by (metis second_pass_scored scored_route_bare surj_pair)
    then show ?thesis using r shown(1, 2) by auto
  qed
  then have "\<forall>r \<in> set (rp_routes (answer w req ?routes ctx n)). RouteEv (r\<lparr>wr_narration := None\<rparr>) \<in> set late"
    by (simp add: answer_def Let_def)
  with evs ids shown(3) show ?thesis by blast
qed

text \<open>A world in which the survey and the weather are down and the router always answers.\<close>

definition demo_events_world :: world where
  "demo_events_world = \<lparr>ww_env = Map.empty, ww_outside = (\<lambda>p. Inr None), ww_extent = Inr None, ww_regions = None,
     ww_post = (\<lambda>objective body. Inr (walk 30 objective)), ww_cache = empty_cache, ww_interp = (\<lambda>_ _ _. 0),
     ww_pystr = (\<lambda>_. ''''), ww_upstreams = all_down, ww_now = 0, ww_hit_rate = 0, ww_narrator = None\<rparr>"

definition demo_request :: "string list \<Rightarrow> route_request" where
  "demo_request objectives = \<lparr>rq_origin = LatLon 0 0, rq_destination = None, rq_minutes = 30, rq_mode = Foot,
     rq_depart_at = None, rq_objectives = Some objectives\<rparr>"

lemma second_passes_unsurveyed:
  "ec_rest_stop_nodes ctx = None \<Longrightarrow> ec_barrier_nodes ctx = None \<Longrightarrow> snd (second_passes w ctx xs) = None"
  by (induction xs) (auto simp: second_pass_def Let_def split: prod.splits)

lemma all_down_unsurveyed:
  assumes "2 \<le> length (sampled_for_overpass (concat routes))"
  shows "ec_rest_stop_nodes (snd (enrich_context all_down routes t)) = None
    \<and> ec_barrier_nodes (snd (enrich_context all_down routes t)) = None"
proof (cases "2 \<le> length (concat routes)")
  case True
  have "degrade (fetch_overpass (sampled_for_overpass (concat routes)) (up_overpass all_down q)) = (1, None)" for q
    using degrade_overpass_failure [OF assms] by (simp add: all_down_def)
  then show ?thesis unfolding enrich_context_parts [OF True] Let_def by simp
qed (simp add: enrich_context_def Let_def empty_context_def)

lemma demo_phase:
  "routing_phase demo_events_world (demo_request [''accessible'', ''fastest''])
     = ([Progress 15 ''Routing the fastest way'', Progress 35 ''Routing the other ways''],
        Inr [(''fastest'', Inr (walk 30 ''fastest'')), (''accessible'', Inr (walk 30 ''accessible''))])"
  by (simp add: routing_phase_def demo_events_world_def demo_request_def resolved_objectives_def baseline_def
    fastest_outcome_def other_outcomes_def fastest_first_def run_preset_def route_fastest_def route_accessible_def Let_def)

lemma demo_finishes:
  "\<exists>evs. route_events demo_events_world (demo_request [''accessible'', ''fastest'']) = (evs, Finished)"
proof -
  let ?xs = "[(''fastest'', walk 30 ''fastest''), (''accessible'', walk 30 ''accessible'')]"
  let ?ctx = "snd (enrich_context all_down (map (rr_points \<circ> snd) ?xs) 0)"
  have "snd (second_passes demo_events_world ?ctx ?xs) = None"
    using all_down_unsurveyed [of "map (rr_points \<circ> snd) ?xs" 0]
    by (intro second_passes_unsurveyed) (simp_all add: walk_def sampled_for_overpass_def)
  then obtain rs where rs: "second_passes demo_events_world ?ctx ?xs = (rs, None)" by (metis prod.collapse)
  show ?thesis
    using rs unfolding route_events_def demo_phase Let_def
    by (simp add: demo_events_world_def demo_request_def depart_moment_def segment_count_def with_conn_def empty_cache_def)
qed

lemma every_objective_is_answered_witness:
  "\<exists>front resp. fst (route_events demo_events_world (demo_request [''accessible'', ''fastest''])) = front @ [DoneEv False resp]
     \<and> map wr_id (rp_routes resp) = [''accessible'', ''fastest'']"
proof -
  obtain evs where "route_events demo_events_world (demo_request [''accessible'', ''fastest'']) = (evs, Finished)"
    using demo_finishes by blast
  then show ?thesis using every_objective_is_answered [of demo_events_world "demo_request [''accessible'', ''fastest'']" evs]
    by (fastforce simp: demo_request_def resolved_objectives_def)
qed

section \<open>The first look\<close>

definition same_walk :: "wire_route \<Rightarrow> wire_route \<Rightarrow> bool" where
  "same_walk r r' \<longleftrightarrow> wr_id r = wr_id r' \<and> wr_label r = wr_label r' \<and> wr_geometry r = wr_geometry r' \<and> wr_mode r = wr_mode r'
     \<and> wr_duration_min r = wr_duration_min r' \<and> wr_distance_m r = wr_distance_m r' \<and> wr_steps r = wr_steps r'
     \<and> wr_elevation r = wr_elevation r' \<and> wr_confidence r = wr_confidence r'
     \<and> sc_scenic (wr_scores r) = sc_scenic (wr_scores r') \<and> sc_quiet (wr_scores r) = sc_quiet (wr_scores r')"

lemma span_verdicts_none: "span_verdicts ps None f name = ([], [])"
  by (simp add: span_verdicts_def)

lemma survey_only_adds:
  "set (ra_findings (assess_route interp ps es d None)) \<subseteq> set (ra_findings (assess_route interp ps es d osm))
   \<and> ra_coverage (assess_route interp ps es d osm) = ra_coverage (assess_route interp ps es d None)"
proof (cases "long_enough ps")
  case True
  obtain a p f where t: "tally (tally_weights ps d) (0, 0, 0) = (a, p, f)" using prod_cases3 by blast
  show ?thesis unfolding assess_route_eq [OF True t]
    by (auto simp: all_findings_def spans_of_def span_verdicts_none)
qed (simp add: assess_route_short)

lemma second_look:
  assumes "second_pass w ctx x = Inr r'"
  shows "same_walk (first_pass w x) r' \<and> \<not> wr_enrichment_pending r'
    \<and> set (wr_blockers (first_pass w x)) \<subseteq> set (wr_blockers r')
    \<and> (wr_status (first_pass w x) = Blocked \<longrightarrow> wr_status r' = Blocked)"
proof -
  obtain ob raw where x: "x = (ob, raw)" by fastforce
  let ?a = "assess (ww_interp w) (ww_cache w) raw"
  let ?acc = "\<lambda>osm. assess_route (ww_interp w) (rr_points raw) (elevations_of raw) (Some (rr_details raw)) osm"
  obtain stops a where r': "r' = scored_route ob (label_of ob) raw stops (ec_air ctx) (ec_shade_need ctx) a False"
    and a: "a = ?a \<or> (\<exists>spans. a = reassess_with_barriers (ww_interp w) ?a raw spans)"
    using assms unfolding x by (rule second_pass_scored)
  obtain osm where acc: "as_access a = Some (?acc osm)" and rest: "as_scores a = as_scores ?a" "as_elevation a = as_elevation ?a"
    using a by (auto simp: assess_def reassess_with_barriers_def Let_def)
  have base: "as_access ?a = Some (?acc None)" by (simp add: assess_def Let_def)
  have more: "set (ra_findings (?acc None)) \<subseteq> set (ra_findings (?acc osm))"
    and cov: "ra_coverage (?acc osm) = ra_coverage (?acc None)" using survey_only_adds by auto
  from more have "is_blocked (?acc None) \<longrightarrow> is_blocked (?acc osm)"
    by (auto simp: findings_block)
  then show ?thesis
    unfolding x r' first_pass_def using acc base rest more cov
    by (auto simp: same_walk_def scored_route_def Let_def blocked_by_def wire_scores_def)
qed

lemma narrated_looks [simp]: "wr_status (narrated w r) = wr_status r" "wr_blockers (narrated w r) = wr_blockers r"
  "wr_enrichment_pending (narrated w r) = wr_enrichment_pending r" "same_walk q (narrated w r) = same_walk q r"
  by (auto simp: narrated_def same_walk_def split: option.splits)

lemma failed_route_settled [simp]: "\<not> wr_enrichment_pending (failed_route m f)"
  by (simp add: failed_route_def blocked_route_def)

text \<open>
  C24 The first look is completed, never taken back. Every route that was shown before the slow
  surveys came in is in the final answer as the same walk (line, length, time, steps, confidence, and
  the scores that need no survey), no longer marked as pending; what was found against it still
  stands, and a route shown as blocked stays blocked.
\<close>

theorem first_look_is_only_completed:
  assumes "route_events w req = (evs, Finished)" and "RouteEv r \<in> set evs" and "wr_enrichment_pending r"
  shows "\<exists>resp r'. DoneEv False resp \<in> set evs \<and> r' \<in> set (rp_routes resp) \<and> same_walk r r' \<and> \<not> wr_enrichment_pending r'
    \<and> set (wr_blockers r) \<subseteq> set (wr_blockers r') \<and> (wr_status r = Blocked \<longrightarrow> wr_status r' = Blocked)"
proof (rule finished_request [OF assms(1)])
  fix ps outcomes ctx rs n late
  assume sp: "second_passes w ctx (routed_of outcomes) = (rs, None)"
    and evs: "evs = late @ [DoneEv False (answer w req (map (narrated w) (map (failed_route (request_mode req)) (failures_of outcomes) @ rs)) ctx n)]"
    and only: "\<And>r. RouteEv r \<in> set late \<Longrightarrow> r \<in> first_pass w ` set (routed_of outcomes)
        \<or> r \<in> set (map (failed_route (request_mode req)) (failures_of outcomes)) \<or> r \<in> set rs
        \<or> r \<in> narrated w ` set (map (failed_route (request_mode req)) (failures_of outcomes) @ rs)"
  have all: "list_all2 (\<lambda>x r. second_pass w ctx x = Inr r) (routed_of outcomes) rs" by (rule second_passes_all [OF sp])
  then have "\<not> wr_enrichment_pending q" if "q \<in> set rs" for q
    using all2_preimage [OF all that] second_look by blast
  with assms(2, 3) evs only [of r] obtain x where x: "x \<in> set (routed_of outcomes)" "r = first_pass w x" by auto
  then obtain r' where "r' \<in> set rs" "second_pass w ctx x = Inr r'" using all2_image [OF all] by blast
  then show ?thesis using second_look [of w ctx x r'] x(2) evs
    by (intro exI [of _ "answer w req (map (narrated w) (map (failed_route (request_mode req)) (failures_of outcomes) @ rs)) ctx n"]
        exI [of _ "narrated w r'"]) (auto simp: answer_def Let_def)
qed

lemma first_look_is_only_completed_witness:
  "\<exists>resp r'. DoneEv False resp \<in> set (fst (route_events demo_events_world (demo_request [''accessible'', ''fastest''])))
     \<and> r' \<in> set (rp_routes resp) \<and> \<not> wr_enrichment_pending r' \<and> wr_id r' = ''fastest''"
proof -
  let ?w = demo_events_world and ?req = "demo_request [''accessible'', ''fastest'']"
  obtain evs where run: "route_events ?w ?req = (evs, Finished)" using demo_finishes by blast
  let ?r = "first_pass ?w (''fastest'', walk 30 ''fastest'')"
  have "RouteEv ?r \<in> set evs"
    using run unfolding route_events_def demo_phase Let_def by (auto split: prod.splits option.splits sum.splits)
  moreover have "wr_enrichment_pending ?r" "wr_id ?r = ''fastest''" by (simp_all add: first_pass_def scored_route_def Let_def)
  ultimately show ?thesis using first_look_is_only_completed [OF run, of ?r] run by (fastforce simp: same_walk_def)
qed

section \<open>The scenic card\<close>

text \<open>
  C9 The scenic card is always measured against the fastest route, whether or not the caller asked to
  see that one: the scenic route of a request is compared with what the fastest preset gives for the
  same request, so its two bars are off only when the fastest route could not be found at all. A
  scenic route without a note of its own is within the cap and above the greenness floor.
\<close>

theorem scenic_is_measured_against_fastest:
  assumes "routing_phase w req = (ps, Inr os)" and "(''scenic'', Inr r) \<in> set os"
    and "\<forall>body c. ww_post w ''scenic'' body = Inr c \<longrightarrow> rr_preset_note c = None"
  shows "let fastest = (case run_preset w req ''fastest'' None of Inl e \<Rightarrow> None | Inr f \<Rightarrow> Some f);
             green = greenness (clip_score_of (ww_cache w))
    in run_preset w req ''scenic'' fastest = Inr r
     \<and> (if rr_preset_note r = Some no_better_note then within_cap fastest r \<and> \<not> beats_floor green fastest r
        else if rr_preset_note r = Some over_cap_note then \<not> within_cap fastest r
        else within_cap fastest r \<and> beats_floor green fastest r)"
proof -
  define fastest where "fastest = (case run_preset w req ''fastest'' None of Inl e \<Rightarrow> None | Inr f \<Rightarrow> Some f)"
  obtain base where base: "baseline w req = Inr base"
    and os: "os = fastest_outcome w req @ other_outcomes w req
           (case routed_of (fastest_outcome w req) of [] \<Rightarrow> base | (ob, r) # _ \<Rightarrow> Some r)"
    using assms(1) by (rule routing_outcomes)
  have asked: "''scenic'' \<in> set (resolved_objectives req)"
    and run: "run_preset w req ''scenic'' (case routed_of (fastest_outcome w req) of [] \<Rightarrow> base | (ob, r) # _ \<Rightarrow> Some r) = Inr r"
    using assms(2) unfolding os by (auto simp: fastest_outcome_def other_outcomes_def fastest_first_def split: if_splits)
  have "(case routed_of (fastest_outcome w req) of [] \<Rightarrow> base | (ob, r) # _ \<Rightarrow> Some r) = fastest"
    using base asked
    by (cases "run_preset w req ''fastest'' None")
      (auto simp: fastest_outcome_def fastest_def baseline_def split: if_splits)
  then have ran: "run_preset w req ''scenic'' fastest = Inr r" using run by simp
  then have "route_scenic (ww_env w) (clip_score_of (ww_cache w)) (ww_post w ''scenic'') (rq_origin req) (rq_destination req)
      (rq_minutes req) (request_mode req) fastest = Inr (Some r)"
    by (auto simp: run_preset_def Let_def split: sum.splits option.splits)
  from scenic_promise [OF this] assms(3) show ?thesis
    unfolding Let_def fastest_def [symmetric] using ran by blast
qed

definition slow_scenic_world :: world where
  "slow_scenic_world = demo_events_world\<lparr>ww_post := (\<lambda>objective body. Inr (walk (if objective = ''scenic'' then 60 else 20) objective))\<rparr>"

definition scenic_trip :: route_request where
  "scenic_trip = (demo_request [''scenic''])\<lparr>rq_destination := Some (LatLon 1 0)\<rparr>"

lemma slow_scenic_run:
  "run_preset slow_scenic_world scenic_trip ''fastest'' None = Inr (walk 20 ''fastest'')"
  "run_preset slow_scenic_world scenic_trip ''scenic'' (Some (walk 20 ''fastest'')) = Inr (with_note over_cap_note (walk 60 ''scenic''))"
  by (simp_all add: run_preset_def slow_scenic_world_def scenic_trip_def demo_events_world_def demo_request_def
    route_fastest_def route_scenic_def empty_env_not_self_hosted scenic_candidates_def Let_def
    SCENIC_DISTANCE_INFLUENCE_LADDER_def judge_def within_cap_def SCENIC_DURATION_CAP_def pick_scenic_def)

lemma slow_scenic_phase:
  "\<exists>ps. routing_phase slow_scenic_world scenic_trip = (ps, Inr [(''scenic'', Inr (with_note over_cap_note (walk 60 ''scenic'')))])"
proof -
  have ob: "resolved_objectives scenic_trip = [''scenic'']" by (simp add: scenic_trip_def demo_request_def resolved_objectives_def)
  have out: "outside_error (ww_outside slow_scenic_world) ps = None" for ps
    by (induction ps) (simp_all add: slow_scenic_world_def demo_events_world_def)
  show ?thesis unfolding routing_phase_def out baseline_def fastest_outcome_def other_outcomes_def ob
    by (simp add: slow_scenic_run fastest_first_def Let_def)
qed

lemma scenic_is_measured_against_fastest_witness:
  "\<not> within_cap (Some (walk 20 ''fastest'')) (with_note over_cap_note (walk 60 ''scenic''))"
proof -
  obtain ps where ph: "routing_phase slow_scenic_world scenic_trip
      = (ps, Inr [(''scenic'', Inr (with_note over_cap_note (walk 60 ''scenic'')))])" using slow_scenic_phase by blast
  have quiet: "\<forall>body c. ww_post slow_scenic_world ''scenic'' body = Inr c \<longrightarrow> rr_preset_note c = None"
    by (auto simp: slow_scenic_world_def)
  have "no_better_note \<noteq> over_cap_note" "rr_preset_note (with_note over_cap_note (walk 60 ''scenic'')) = Some over_cap_note"
    by (simp_all add: no_better_note_def over_cap_note_def with_note_def)
  then show ?thesis
    using scenic_is_measured_against_fastest [OF ph _ quiet, of "with_note over_cap_note (walk 60 ''scenic'')"]
    by (simp add: Let_def slow_scenic_run)
qed

section \<open>What the answer says\<close>

text \<open>
  The sentence over an answer is about the routes in it. It speaks of the budget exactly when the
  request is a loop, some route is usable and every usable route is longer than the budget; it says
  that everything is blocked exactly when there are routes and none is usable; otherwise the sentence
  is the departure search's, when there is one.
\<close>

theorem answer_reason_is_about_the_routes:
  assumes "\<forall>dep. ec_departure ctx = Some dep \<longrightarrow> dp_reason dep \<notin> {all_blocked_reason, over_budget_reason (rq_minutes req)}"
  shows "let resp = answer w req routes ctx n; ok = {r \<in> set routes. wr_status r = Ok}
    in set (rp_routes resp) = set routes
     \<and> (rp_reason resp = Some (over_budget_reason (rq_minutes req)) \<longleftrightarrow>
           rq_destination req = None \<and> ok \<noteq> {} \<and> (\<forall>r \<in> ok. of_int (rq_minutes req) < wr_duration_min r))
     \<and> (rp_reason resp = Some all_blocked_reason \<longleftrightarrow> routes \<noteq> [] \<and> ok = {})
     \<and> (rp_reason resp = None \<longrightarrow> ec_departure ctx = None)"
proof -
  let ?s = "sort_key (\<lambda>r. position_of (resolved_objectives req) (wr_id r)) routes"
  have ne: "over_budget_reason b \<noteq> all_blocked_reason" for b
    by (simp add: over_budget_reason_def all_blocked_reason_def)
  have mt: "?s \<noteq> [] \<longleftrightarrow> routes \<noteq> []" by (metis length_0_conv length_sort)
  have ok: "filter (\<lambda>r. wr_status r = Ok) ?s = [] \<longleftrightarrow> {r \<in> set routes. wr_status r = Ok} = {}"
    by (auto simp: filter_empty_conv)
  have long: "list_all P (filter (\<lambda>r. wr_status r = Ok) ?s) \<longleftrightarrow> (\<forall>r \<in> {r \<in> set routes. wr_status r = Ok}. P r)" for P
    by (auto simp: list_all_iff)
  show ?thesis
    using assms ne ne [symmetric]
    unfolding answer_def Let_def routes_response.simps answer_reason_def budget_minutes_def ok long mt
    by (cases "rq_destination req"; cases "ec_departure ctx") auto
qed

definition demo_card :: "string \<Rightarrow> real \<Rightarrow> wire_route" where
  "demo_card rid minutes = (blocked_route rid rid Foot ''demo'')\<lparr>wr_status := Ok, wr_duration_min := minutes\<rparr>"

lemma answer_reason_is_about_the_routes_witness:
  "rp_reason (answer demo_events_world (demo_request [''fastest'']) [demo_card ''fastest'' 45] empty_context 0)
     = Some (over_budget_reason 30)"
  using answer_reason_is_about_the_routes [of empty_context "demo_request [''fastest'']" demo_events_world "[demo_card ''fastest'' 45]" 0]
  by (simp add: Let_def empty_context_def demo_request_def demo_card_def)

text \<open>
  The over-budget sentence ends by saying that the shortest option is shown first. Nothing sorts by
  duration: the routes are in the order the objectives were asked, and a longer one can be first.
\<close>

theorem shortest_is_not_shown_first:
  "let resp = answer demo_events_world (demo_request [''scenic'', ''fastest''])
       [demo_card ''scenic'' 60, demo_card ''fastest'' 45] empty_context 0
   in rp_reason resp = Some (over_budget_reason 30)
    \<and> map wr_id (rp_routes resp) = [''scenic'', ''fastest''] \<and> map wr_duration_min (rp_routes resp) = [60, 45]"
  by (simp add: answer_def answer_reason_def Let_def demo_request_def demo_card_def blocked_route_def budget_minutes_def
    resolved_objectives_def position_of_def)

section \<open>Surveys that cannot be read\<close>

text \<open>
  A survey whose elements are not what the code expects fails the request. Enrichment is meant to
  degrade, and the fetch does; the reading of what was fetched is outside that guard, so the error of
  the first route's rest stops ends the request after that route was shown.
\<close>

theorem unreadable_survey_fails_the_request:
  assumes "routing_phase w req = (ps, Inr os)" and "routed_of os = (ob, raw) # xs"
    and "ec_rest_stop_nodes (snd (enrich_context (ww_upstreams w) (map (rr_points \<circ> snd) (routed_of os)) (depart_moment w req))) = Some nodes"
    and "rest_stops_on_route (ww_pystr w) (rr_points raw) nodes = Inl e"
  shows "snd (route_events w req) = Failed (Crash e) \<and> RouteEv (first_pass w (ob, raw)) \<in> set (fst (route_events w req))"
  using assms by (simp add: route_events_def second_pass_def Let_def)

definition odd_element :: json where
  "odd_element = JObj [(''lat'', JNum 0), (''lon'', JNum 0), (''tags'', JStr ''bench'')]"

definition odd_survey_world :: world where
  "odd_survey_world = demo_events_world\<lparr>ww_upstreams := all_down\<lparr>up_overpass := (\<lambda>q. Inr \<lparr>hr_status = 200, hr_headers = [],
     hr_body = BJson (JObj [(''elements'', JList [odd_element])])\<rparr>)\<rparr>\<rparr>"

lemma unreadable_survey_fails_the_request_witness:
  "\<exists>e. snd (route_events odd_survey_world (demo_request [''fastest''])) = Failed (Crash e)"
proof -
  let ?w = odd_survey_world and ?req = "demo_request [''fastest'']"
  have ph: "routing_phase ?w ?req = ([Progress 15 ''Routing the fastest way''], Inr [(''fastest'', Inr (walk 30 ''fastest''))])"
    by (simp add: routing_phase_def odd_survey_world_def demo_events_world_def demo_request_def resolved_objectives_def
      baseline_def fastest_outcome_def other_outcomes_def fastest_first_def run_preset_def route_fastest_def Let_def)
  have two: "2 \<le> length (concat [rr_points (walk 30 ''fastest'')])" by (simp add: walk_def)
  have nodes: "ec_rest_stop_nodes (snd (enrich_context (ww_upstreams ?w) [rr_points (walk 30 ''fastest'')] t)) = Some [odd_element]" for t
    unfolding enrich_context_parts [OF two] Let_def
    by (simp add: odd_survey_world_def fetch_overpass_def degrade_def resp_json_def walk_def sampled_for_overpass_def
      usable_def OVERPASS_MAX_RESULTS_def)
  obtain e where "rest_stops_on_route (ww_pystr ?w) (rr_points (walk 30 ''fastest'')) [odd_element] = Inl e"
    by (simp add: rest_stops_on_route_def odd_element_def element_node_def element_tags_def jor_def Let_def)
  then show ?thesis using unreadable_survey_fails_the_request [OF ph, of "''fastest''" "walk 30 ''fastest''" "[]" "[odd_element]" e] nodes
    by auto
qed

end
