(* ===== verification/Gateway.thy ===== *)
theory Gateway
  imports Events RateLimit Metrics
begin

text \<open>
  backend/main.py, what stands around the handlers: who a client is, how large a body may be, the
  shapes of an error, the keys of the two answer caches, the counters as text, readiness. A request
  is a record of what the code reads of it; header names are lower case, as Starlette looks them up.
  The hashes of the cache keys are parameters, the material they are taken of is not.
\<close>

section \<open>Requests and replies\<close>

record inbound =
  in_method :: string
  in_path :: string
  in_peer :: "string option"
  in_header :: "string \<rightharpoonup> string"
  in_chunks :: "string list"

record reply =
  ry_status :: int
  ry_headers :: "(string \<times> string) list"
  ry_body :: json

definition error_body :: "string \<Rightarrow> string \<Rightarrow> json" where
  "error_body kind message = JObj [(''error'', JObj [(''kind'', JStr kind), (''message'', JStr message)])]"

definition error_reply :: "string \<Rightarrow> string \<Rightarrow> int \<Rightarrow> reply" where
  "error_reply kind message status = \<lparr>ry_status = status, ry_headers = [], ry_body = error_body kind message\<rparr>"

text \<open>\<open>if header:\<close>, an absent and an empty header being the same.\<close>

definition present_header :: "inbound \<Rightarrow> string \<Rightarrow> string option" where
  "present_header req h = (case in_header req h of None \<Rightarrow> None | Some v \<Rightarrow> if v = [] then None else Some v)"

section \<open>Who is asking\<close>

definition client_ip :: "int \<Rightarrow> inbound \<Rightarrow> string option" where
  "client_ip hops req =
     (if hops \<le> 0 then in_peer req
      else case present_header req ''x-forwarded-for'' of
          None \<Rightarrow> in_peer req
        | Some forwarded \<Rightarrow>
            let parts = filter (\<lambda>p. p \<noteq> []) (map strip (split_on (CHR '','') forwarded))
            in if parts = [] \<or> int (length parts) < hops then in_peer req
               else Some (parts ! (length parts - nat hops)))"

section \<open>The size of a body\<close>

definition MAX_BODY_BYTES :: nat where "MAX_BODY_BYTES = 64 * 1024"

definition reflected_cors :: "string list \<Rightarrow> inbound \<Rightarrow> (string \<times> string) list" where
  "reflected_cors allowed req =
     (case present_header req ''origin'' of
        None \<Rightarrow> []
      | Some origin \<Rightarrow>
          if origin \<in> set allowed \<or> ''*'' \<in> set allowed
          then [(''Access-Control-Allow-Origin'', origin), (''Vary'', ''Origin'')] else [])"

definition too_large :: "string list \<Rightarrow> inbound \<Rightarrow> reply" where
  "too_large allowed req =
     (error_reply ''payload_too_large'' ''That request body is too large.'' 413)\<lparr>ry_headers := reflected_cors allowed req\<rparr>"

fun read_body :: "string \<Rightarrow> string list \<Rightarrow> string option" where
  "read_body body [] = Some body"
| "read_body body (chunk # chunks) =
     (let b = body @ chunk in if MAX_BODY_BYTES < length b then None else read_body b chunks)"

text \<open>What the middleware does: refuse, or pass on a request whose stream is untouched or replayed.\<close>

datatype passage = Refused reply | Untouched | Replayed string

definition limit_body_size :: "string list \<Rightarrow> inbound \<Rightarrow> passage" where
  "limit_body_size allowed req =
     (let declared = present_header req ''content-length''
      in if pred_option (\<lambda>d. list_all is_digit d \<and> int MAX_BODY_BYTES < digits_value d) declared \<and> declared \<noteq> None
         then Refused (too_large allowed req)
         else if in_method req \<in> {''POST'', ''PUT'', ''PATCH''} \<and> declared = None
         then (case read_body [] (in_chunks req) of
                 None \<Rightarrow> Refused (too_large allowed req)
               | Some body \<Rightarrow> Replayed body)
         else Untouched)"

section \<open>The other middleware and the error shapes\<close>

definition PHOTO_PATH_PREFIX :: string where "PHOTO_PATH_PREFIX = ''/api/photo/''"

definition header_text :: "inbound \<Rightarrow> string \<Rightarrow> string" where
  "header_text req h = (case in_header req h of None \<Rightarrow> [] | Some v \<Rightarrow> v)"

definition wants_stream :: "inbound \<Rightarrow> bool" where
  "wants_stream req = contains ''text/event-stream'' (header_text req ''accept'')"

definition gzip_applies :: "inbound \<Rightarrow> bool" where
  "gzip_applies req \<longleftrightarrow> \<not> (wants_stream req \<or> starts_with PHOTO_PATH_PREFIX (in_path req))"

definition request_id :: "string \<Rightarrow> inbound \<Rightarrow> string" where
  "request_id fresh req =
     (case present_header req ''x-amzn-trace-id'' of
        Some v \<Rightarrow> v
      | None \<Rightarrow> (case present_header req ''x-request-id'' of Some v \<Rightarrow> v | None \<Rightarrow> fresh))"

definition logged_request :: "inbound \<Rightarrow> bool" where
  "logged_request req \<longleftrightarrow> in_path req \<notin> {''/healthz'', ''/readyz''}"

text \<open>The first validation error: the texts of its location, and its message when it has one.\<close>

definition validation_error :: "(string list \<times> string option) list \<Rightarrow> reply" where
  "validation_error errors =
     (let (loc, msg) = (case errors of [] \<Rightarrow> ([], None) | e # _ \<Rightarrow> e);
          location = join ''.'' (filter (\<lambda>p. p \<noteq> ''body'') loc);
          message = (case msg of None \<Rightarrow> ''That request was not valid.'' | Some m \<Rightarrow> m)
      in error_reply ''invalid_request'' (if location \<noteq> [] then location @ '': '' @ message else message) 422)"

definition unhandled_error :: "string list \<Rightarrow> inbound \<Rightarrow> reply" where
  "unhandled_error allowed req =
     (error_reply ''internal'' ''Something went wrong on our side. Please try again.'' 500)
       \<lparr>ry_headers := reflected_cors allowed req\<rparr>"

definition STATUS_FOR_ERROR_KIND :: "(string \<times> int) list" where
  "STATUS_FOR_ERROR_KIND = [(''timeout'', 504), (''shutting_down'', 503), (''internal'', 500)]"

definition status_for :: "string \<Rightarrow> int" where
  "status_for kind = (case map_of STATUS_FOR_ERROR_KIND kind of None \<Rightarrow> 502 | Some s \<Rightarrow> s)"

definition rate_limited :: "decision \<Rightarrow> reply" where
  "rate_limited d = \<lparr>ry_status = 429, ry_headers = [(''Retry-After'', int_text (max 1 (dc_retry_after_s d)))],
     ry_body = error_body (dc_reason d) (dc_message d)\<rparr>"

definition startup_message :: "string list \<Rightarrow> string" where
  "startup_message required =
     ''Missing API keys: '' @ join '', '' required @ ''. Copy .env.example to .env and fill them in, or run with ''
     @ ''MEANDER_FIXTURES=replay to work entirely from recorded fixtures.''"

definition check_startup :: "environ \<Rightarrow> settings \<Rightarrow> (string, string list) result" where
  "check_startup env s =
     (let required = missing_required_keys env s
      in if required \<noteq> [] \<and> STRICT_STARTUP env then Inl (startup_message required) else Inr (missing_keys env s))"

section \<open>The keys of the answer caches\<close>

definition CACHE_COORD_DECIMALS :: nat where "CACHE_COORD_DECIMALS = 3"

fun mode_name :: "mode \<Rightarrow> string" where
  "mode_name Auto = ''auto''" | "mode_name Foot = ''foot''" | "mode_name Bike = ''bike''" | "mode_name Car = ''car''"

fun fixture_mode_name :: "fixture_mode \<Rightarrow> string" where
  "fixture_mode_name Replay = ''replay''" | "fixture_mode_name Record = ''record''" | "fixture_mode_name Live = ''live''"

definition key_point :: "latlon \<Rightarrow> json" where
  "key_point p = JList [JNum (round_dec CACHE_COORD_DECIMALS (lat p)), JNum (round_dec CACHE_COORD_DECIMALS (lon p))]"

text \<open>\<open>strftime("%Y-%m-%dT%H")\<close> of the departure, or of now.\<close>

definition departure_bucket :: "moment \<Rightarrow> route_request \<Rightarrow> string" where
  "departure_bucket now req =
     (let t = (case rq_depart_at req of None \<Rightarrow> now | Some t \<Rightarrow> t); (y, m, d) = civil (epoch_days t)
      in padded 4 y @ ''-'' @ padded 2 m @ ''-'' @ padded 2 d @ ''T'' @ padded 2 (hour_of t))"

definition route_cache_material :: "environ \<Rightarrow> fixture_mode \<Rightarrow> string \<Rightarrow> moment \<Rightarrow> route_request \<Rightarrow> json" where
  "route_cache_material env fm version now req = canonical (JObj
     [(''origin'', key_point (rq_origin req)),
      (''destination'', case rq_destination req of None \<Rightarrow> JNull | Some d \<Rightarrow> key_point d),
      (''minutes'', case budget_minutes req of None \<Rightarrow> JNull | Some n \<Rightarrow> JNum (of_int n)),
      (''mode'', JStr (mode_name (rq_mode req))),
      (''objectives'', JList (map JStr (resolved_objectives req))),
      (''depart_at'', JStr (departure_bucket now req)),
      (''effective_mode'', JStr (mode_name (effective_mode (rq_mode req) (rq_minutes req) (straight_line_m req)))),
      (''path_details'', JList (map JStr (path_details env))),
      (''fixture_mode'', JStr (fixture_mode_name fm)),
      (''version'', JStr version)])"

definition route_cache_key :: "(json \<Rightarrow> string) \<Rightarrow> environ \<Rightarrow> fixture_mode \<Rightarrow> string \<Rightarrow> moment \<Rightarrow> route_request \<Rightarrow> string" where
  "route_cache_key hash env fm version now req = hash (route_cache_material env fm version now req)"

text \<open>\<open>q.split()\<close>: the pieces between runs of whitespace.\<close>

definition words :: "string \<Rightarrow> string list" where
  "words q = filter (\<lambda>w. w \<noteq> []) (split_on (CHR '' '') (map (\<lambda>c. if is_space c then CHR '' '' else c) q))"

definition geocode_cache_key :: "(string \<Rightarrow> string) \<Rightarrow> string \<Rightarrow> string" where
  "geocode_cache_key hash q = hash (str_lower (join '' '' (words (strip q))))"

section \<open>Counters as text\<close>

definition hit_rate :: "real \<Rightarrow> 'd metrics \<Rightarrow> real" where
  "hit_rate utc m =
     (let snap = snd (snapshot utc m); hits = counter snap ''cache_hits_total''; misses = counter snap ''cache_misses_total'';
          total = hits + misses
      in if total = 0 then 0 else round_dec 3 (of_int hits / of_int total))"

definition described :: "(string \<times> string \<times> string) list" where
  "described =
     [(''route_requests_total'', ''counter'', ''Route requests accepted.''),
      (''routes_blocked_total'', ''counter'', ''Routes rejected by the accessibility engine.''),
      (''cache_hits_total'', ''counter'', ''Whole-route cache hits.''),
      (''cache_misses_total'', ''counter'', ''Whole-route cache misses.''),
      (''segments_scored_total'', ''counter'', ''Segments served from pre-warmed CLIP scores.''),
      (''rate_limited_total'', ''counter'', ''Requests refused by the rate limiter.''),
      (''upstream_failures_total'', ''counter'', ''Upstream calls that failed.''),
      (''narration_failures_total'', ''counter'', ''Narration attempts that failed.''),
      (''enrichment_failures_total'', ''counter'', ''Enrichment stages that failed.''),
      (''unhandled_errors_total'', ''counter'', ''Exceptions caught by the catch-all handler.''),
      (''stream_failures_total'', ''counter'', ''SSE streams that ended in an error frame.''),
      (''request_deadline_exceeded_total'', ''counter'', ''Requests truncated by the per-request deadline.''),
      (''overpass_truncated_total'', ''counter'', ''Overpass answers that hit the element cap and are therefore incomplete.''),
      (''client_disconnects_total'', ''counter'', ''Streams cancelled by the client hanging up.''),
      (''unique_sessions_today'', ''gauge'', ''Distinct sessions today, from an unpersisted digest.''),
      (''uptime_s'', ''gauge'', ''Seconds since this process started.'')]"

definition series_lines :: "string \<times> int \<Rightarrow> string list" where
  "series_lines nv =
     (let (kind, description) = (case map_of described (fst nv) of None \<Rightarrow> (''gauge'', '''') | Some kd \<Rightarrow> kd);
          metric = ''meander_'' @ fst nv
      in (if description \<noteq> [] then [''# HELP '' @ metric @ '' '' @ description] else [])
         @ [''# TYPE '' @ metric @ '' '' @ kind, metric @ '' '' @ int_text (snd nv)])"

definition prometheus_lines :: "real \<Rightarrow> 'd metrics \<Rightarrow> string list" where
  "prometheus_lines utc m = concat (map series_lines (snd (snapshot utc m))) @ ['''']"

section \<open>Readiness\<close>

record readiness =
  rd_missing :: "string list"
  rd_cache_ok :: bool
  rd_routing :: "bool \<times> string"

definition readiness_of :: "environ \<Rightarrow> settings \<Rightarrow> cache \<Rightarrow> bool \<times> string \<Rightarrow> readiness" where
  "readiness_of env s c probed =
     \<lparr>rd_missing = missing_required_keys env s,
      rd_cache_ok = (case segment_count c of Inl e \<Rightarrow> False | Inr n \<Rightarrow> True), rd_routing = probed\<rparr>"

definition readyz :: "environ \<Rightarrow> settings \<Rightarrow> cache \<Rightarrow> bool \<times> string \<Rightarrow> int \<times> string \<times> readiness" where
  "readyz env s c probed =
     (let r = readiness_of env s c probed; ready = (rd_missing r = [] \<and> rd_cache_ok r \<and> fst (rd_routing r))
      in if ready then (200, ''ready'', r) else (503, ''not_ready'', r))"

section \<open>A client cannot choose its address\<close>

lemma split_on_append: "split_on c (xs @ c # ys) = split_on c xs @ split_on c ys"
proof (induction xs)
  case (Cons x xs)
  show ?case using Cons split_on_nonempty [of c xs] by (auto split: list.splits)
qed simp

lemma split_on_plain: "c \<notin> set xs \<Longrightarrow> split_on c xs = [xs]"
  by (induction xs) auto

definition address :: "string \<Rightarrow> bool" where
  "address a \<longleftrightarrow> a \<noteq> [] \<and> CHR '','' \<notin> set a \<and> strip a = a"

text \<open>What arrives after the proxies in turn have added the address each of them saw.\<close>

definition append_address :: "string option \<Rightarrow> string \<Rightarrow> string option" where
  "append_address header a = Some (case header of None \<Rightarrow> a | Some h \<Rightarrow> h @ '', '' @ a)"

definition forwarded_through :: "string option \<Rightarrow> string list \<Rightarrow> string option" where
  "forwarded_through header addresses = foldl append_address header addresses"

definition header_parts :: "string option \<Rightarrow> string list" where
  "header_parts header = (case header of None \<Rightarrow> [] | Some h \<Rightarrow> filter (\<lambda>p. p \<noteq> []) (map strip (split_on (CHR '','') h)))"

lemma strip_leading_space: "is_space c \<Longrightarrow> strip (c # s) = strip s"
  by (simp add: strip_def)

lemma header_parts_append:
  assumes "address a"
  shows "header_parts (append_address header a) = header_parts header @ [a]"
proof -
  have a: "a \<noteq> []" "strip a = a" "CHR '','' \<notin> set a" using assms by (auto simp: address_def)
  then have "split_on (CHR '','') ('' '' @ a) = ['' '' @ a]" by (intro split_on_plain) auto
  moreover have "strip ('' '' @ a) = a" using a(2) strip_leading_space [of "CHR '' ''" a] by (simp add: is_space_def)
  ultimately show ?thesis
    using a split_on_plain [of "CHR '',''" a]
    by (cases header) (simp_all add: header_parts_def append_address_def split_on_append [of "CHR '',''" _ "CHR '' '' # a"])
qed

lemma header_parts_through:
  "list_all address addresses \<Longrightarrow> header_parts (forwarded_through header addresses) = header_parts header @ addresses"
proof (induction addresses rule: rev_induct)
  case (snoc a as)
  then show ?case using header_parts_append [of a "forwarded_through header as"]
    by (simp add: forwarded_through_def)
qed (simp add: forwarded_through_def)

lemma client_ip_parts:
  assumes "0 < hops" and "parts = header_parts (in_header req ''x-forwarded-for'')"
  shows "client_ip hops req = (if parts = [] \<or> int (length parts) < hops then in_peer req else Some (parts ! (length parts - nat hops)))"
proof (cases "present_header req ''x-forwarded-for''")
  case None
  then have "parts = []"
    by (auto simp: assms(2) present_header_def header_parts_def strip_def split: option.splits if_splits)
  then show ?thesis using None assms(1) by (simp add: client_ip_def)
next
  case (Some h)
  then have "parts = filter (\<lambda>p. p \<noteq> []) (map strip (split_on (CHR '','') h))"
    by (auto simp: assms(2) present_header_def header_parts_def split: option.splits if_splits)
  then show ?thesis using Some assms(1) by (simp add: client_ip_def Let_def)
qed

text \<open>
  C32 A client cannot choose the address it is limited by. Behind as many proxies as are trusted, each
  adding the address it saw, the address used is the one the first trusted proxy saw, whatever the
  client put in its own header; and with no trusted proxy the header is not read at all.
\<close>

theorem spoofed_addresses_are_ignored:
  assumes "list_all address addresses" and "addresses \<noteq> []"
    and "in_header req ''x-forwarded-for'' = forwarded_through spoofed addresses"
  shows "client_ip (int (length addresses)) req = Some (hd addresses)
    \<and> client_ip 0 (req\<lparr>in_header := h\<rparr>) = in_peer req"
proof -
  have p: "header_parts (in_header req ''x-forwarded-for'') = header_parts spoofed @ addresses"
    using header_parts_through [OF assms(1)] assms(3) by simp
  have "client_ip (int (length addresses)) req = Some (hd addresses)"
    using assms(2) client_ip_parts [of "int (length addresses)" "header_parts spoofed @ addresses" req] p
    by (simp add: nth_append hd_conv_nth)
  then show ?thesis by (simp add: client_ip_def)
qed

lemma spoofed_addresses_are_ignored_witness:
  "client_ip 1 \<lparr>in_method = ''POST'', in_path = ''/api/routes'', in_peer = Some ''10.0.0.1'',
     in_header = [''x-forwarded-for'' \<mapsto> ''1.2.3.4, 9.9.9.9''], in_chunks = []\<rparr> = Some ''9.9.9.9''"
  using spoofed_addresses_are_ignored [of "[''9.9.9.9'']" "\<lparr>in_method = ''POST'', in_path = ''/api/routes'', in_peer = Some ''10.0.0.1'',
     in_header = [''x-forwarded-for'' \<mapsto> ''1.2.3.4, 9.9.9.9''], in_chunks = []\<rparr>" "Some ''1.2.3.4''"]
  by (simp add: address_def strip_def is_space_def forwarded_through_def append_address_def)

section \<open>Oversized bodies\<close>

lemma read_body_spec: "length body \<le> MAX_BODY_BYTES \<Longrightarrow>
    read_body body chunks = (if length (body @ concat chunks) \<le> MAX_BODY_BYTES then Some (body @ concat chunks) else None)"
  by (induction body chunks rule: read_body.induct) (auto simp: Let_def)

text \<open>
  An oversized body never reaches a handler. A declared length over 64 KiB is refused unread; a
  body of no declared length is counted as it arrives, refused when it passes 64 KiB and handed on
  whole and unchanged when it does not; the refusal is readable by every origin of the allowlist and
  by no other.
\<close>

theorem oversized_bodies_are_refused:
  "(\<forall>d. in_header req ''content-length'' = Some d \<and> d \<noteq> [] \<and> list_all is_digit d \<and> 65536 < digits_value d \<longrightarrow>
       limit_body_size allowed req = Refused (too_large allowed req))
 \<and> (in_method req = ''POST'' \<and> in_header req ''content-length'' = None \<longrightarrow>
       limit_body_size allowed req = (if length (concat (in_chunks req)) \<le> 65536 then Replayed (concat (in_chunks req))
         else Refused (too_large allowed req)))
 \<and> ry_status (too_large allowed req) = 413
 \<and> (\<forall>v. (''Access-Control-Allow-Origin'', v) \<in> set (ry_headers (too_large allowed req)) \<longleftrightarrow>
       in_header req ''origin'' = Some v \<and> v \<noteq> [] \<and> (v \<in> set allowed \<or> ''*'' \<in> set allowed))"
  using read_body_spec [of "[]" "in_chunks req"]
  by (auto simp: limit_body_size_def present_header_def Let_def MAX_BODY_BYTES_def too_large_def error_reply_def
    reflected_cors_def split: option.splits if_splits)

lemma oversized_bodies_are_refused_witness:
  "limit_body_size [] \<lparr>in_method = ''POST'', in_path = ''/api/routes'', in_peer = None, in_header = Map.empty, in_chunks = [''ab'', ''c'']\<rparr>
     = Replayed ''abc''"
  using oversized_bodies_are_refused [of "\<lparr>in_method = ''POST'', in_path = ''/api/routes'', in_peer = None,
     in_header = Map.empty, in_chunks = [''ab'', ''c'']\<rparr>" "[]"] by simp

section \<open>What an answer is cached under\<close>

lemma trip_body: "build_request_body env p (Some d) n m preset infl scale = build_request_body env p (Some d) n' m preset infl scale"
  by (simp add: build_request_body_def body_points_def)

lemma trip_judge: "judge green False n = judge green False n'"
  by (intro ext) (simp add: judge_def merit_def)

lemma trip_scan_metered: "scan_metered green False n f os s = scan_metered green False n' f os s"
proof (induction os arbitrary: s)
  case (Cons a os)
  then show ?case by (cases a) (simp_all add: Let_def trip_judge [of green n n'])
qed simp

lemma trip_scenic: "route_scenic env clip post p (Some d) n m f = route_scenic env clip post p (Some d) n' m f"
proof -
  have pick: "pick_scenic False n = pick_scenic False n'" by (intro ext) (simp add: pick_scenic_def)
  have loop: "(Some d = None) = False" by simp
  show ?thesis
    unfolding route_scenic_def scan_all_def Let_def loop pick trip_judge [of _ n n'] trip_scan_metered [of _ n _ _ _ n']
      trip_body [of env p d n m "''scenic''" _ _ n'] by (rule refl)
qed

text \<open>The budget of a trip between two places is no input of any preset.\<close>

lemma trip_preset:
  assumes "rq_destination req = Some d" and "rq_destination req' = Some d" and "rq_origin req = rq_origin req'"
    and "request_mode req = request_mode req'"
  shows "run_preset w req ob f = run_preset w req' ob f"
  using assms trip_body [of "ww_env w" "rq_origin req'" d "rq_minutes req" _ _ _ _ "rq_minutes req'"]
    trip_scenic [of "ww_env w" _ _ "rq_origin req'" d "rq_minutes req" _ _ "rq_minutes req'"]
  by (simp add: run_preset_def route_fastest_def route_accessible_def route_preference_def Let_def)

lemma canonical_texts [simp]: "canonical_all (map JStr xs) = map JStr xs"
  by (induction xs) auto

lemma mode_name_inj: "mode_name m = mode_name m' \<longleftrightarrow> m = m'"
  by (cases m; cases m') auto

lemma canonical_point [simp]: "canonical (key_point p) = key_point p"
  by (simp add: key_point_def)

section \<open>Two departures of one bucket lie in one hour\<close>

text \<open>The year of an era, by the day of it: the days with the leap days taken out, by 365.\<close>

definition even_days :: "int \<Rightarrow> int" where
  "even_days x = x - x div 1460 + x div 36524 - x div 146096"

definition year_start :: "int \<Rightarrow> int" where
  "year_start n = 365 * n + n div 4 - n div 100"

text \<open>Linear facts over opaque quotients, kept apart from the numerals they are quotients by.\<close>

lemma int_div_between: "0 < k \<Longrightarrow> k * (x div k) \<le> x \<and> x < k * (x div k) + k" for k x :: int
  using mult_div_mod_eq [of k x] pos_mod_bound [of k x] pos_mod_sign [of k x] by linarith

lemma int_quot: "0 < k \<Longrightarrow> q = x div k \<Longrightarrow> k * q \<le> x \<and> x < k * q + k" for k x q :: int
  using int_div_between by blast

lemma int_div_step: "0 < k \<Longrightarrow> (x + 1) div k \<le> x div k + 1" for k x :: int
  using zdiv_mono1 [of "x + 1" "x + k" k] by simp

lemma eras_apart: "n + e * 400 = n' + e' * 400 \<Longrightarrow> 0 \<le> n \<Longrightarrow> n \<le> 399 \<Longrightarrow> 0 \<le> n' \<Longrightarrow> n' \<le> 399
    \<Longrightarrow> n = n' \<and> e = e'" for n e n' e' :: int
  using linorder_less_linear [of e e'] by (elim disjE) linarith+

lemma day_step: "a' \<le> a + 1 \<Longrightarrow> b \<le> b' \<Longrightarrow> c = 0 \<Longrightarrow> c' = 0 \<Longrightarrow> x - a + b - c \<le> x + 1 - a' + b' - c'" for a :: int
  by linarith

lemma even_days_step:
  assumes "0 \<le> x" "x < 146096" shows "even_days x \<le> even_days (x + 1)"
proof (cases "x + 1 = 146096")
  case True
  then have "x = 146095" by simp
  then show ?thesis by (simp add: even_days_def)
next
  case False
  then have "x < 146096" "x + 1 < 146096" using assms by auto
  then have "x div 146096 = 0" "(x + 1) div 146096 = 0" using assms by (auto intro!: div_pos_pos_trivial)
  then show ?thesis unfolding even_days_def
    by (intro day_step int_div_step zdiv_mono1) simp_all
qed

lemma even_days_mono:
  assumes "x \<le> y" "0 \<le> x" shows "y < 146097 \<longrightarrow> even_days x \<le> even_days y"
  using assms(1)
proof (induction y rule: int_ge_induct)
  case (step y)
  then show ?case using even_days_step [of y] assms(2) by auto
qed simp

lemma year_starts:
  "list_all (\<lambda>n. 365 * n \<le> even_days (year_start n) \<and> (n = 0 \<or> even_days (year_start n - 1) < 365 * n)
     \<and> 0 \<le> year_start n \<and> year_start n \<le> 145731 \<and> year_start (n + 1) \<le> year_start n + 366) [0..399]"
  by code_simp

lemma year_startD:
  assumes "0 \<le> n" "n \<le> 399"
  shows "365 * n \<le> even_days (year_start n)" "n = 0 \<or> even_days (year_start n - 1) < 365 * n"
    "0 \<le> year_start n" "year_start n \<le> 145731" "year_start (n + 1) \<le> year_start n + 366"
  using year_starts assms unfolding list_all_iff by simp_all

lemma year_number:
  assumes "0 \<le> f" "f \<le> 145999" "365 * n \<le> f" "f < 365 * n + 365" shows "0 \<le> n \<and> n \<le> (399 :: int)"
  using assms by linarith

lemma year_of_era:
  assumes "0 \<le> x" "x < 146097" and n: "n = even_days x div 365"
  shows "0 \<le> n \<and> n \<le> 399 \<and> year_start n \<le> x \<and> x \<le> year_start n + 365"
proof -
  have in_year: "365 * n \<le> even_days x" "even_days x < 365 * n + 365" using int_quot [OF _ n] by simp_all
  have "even_days 0 \<le> even_days x" "even_days x \<le> even_days 146096"
    using even_days_mono [of 0 x] even_days_mono [of x 146096] assms(1,2) by auto
  moreover have "even_days 0 = 0" "even_days 146096 = 145999" by (simp_all add: even_days_def)
  ultimately have "0 \<le> n \<and> n \<le> 399" using in_year by (intro year_number [of "even_days x"]) simp_all
  then have nn: "0 \<le> n" "n \<le> 399" by simp_all
  note ys = year_startD [OF nn]
  have low: "year_start n \<le> x"
  proof (rule ccontr)
    assume a: "\<not> year_start n \<le> x"
    have "year_start 0 = 0" by (simp add: year_start_def)
    then have "n \<noteq> 0" using assms(1) a by auto
    then have "even_days (year_start n - 1) < 365 * n" using ys(2) by simp
    then show False using even_days_mono [of x "year_start n - 1"] a assms(1) in_year ys(4) by simp
  qed
  have "x \<le> year_start n + 365"
  proof (cases "n = 399")
    case True
    have "year_start 399 = 145731" by (simp add: year_start_def)
    then show ?thesis using assms(2) True by simp
  next
    case False
    then have n1: "0 \<le> n + 1" "n + 1 \<le> 399" using nn by simp_all
    have "x < year_start (n + 1)"
    proof (rule ccontr)
      assume "\<not> x < year_start (n + 1)"
      then have "even_days (year_start (n + 1)) \<le> even_days x"
        using even_days_mono [of "year_start (n + 1)" x] year_startD(3) [OF n1] assms(2) by simp
      then show False using year_startD(1) [OF n1] in_year by simp
    qed
    then show ?thesis using ys(5) by simp
  qed
  with low nn show ?thesis by blast
qed

lemma month_number:
  fixes w k e :: int
  assumes "0 \<le> w" "w \<le> 365" "153 * k \<le> 5 * w + 2" "5 * w + 2 < 153 * k + 153" "5 * e \<le> 153 * k + 2" "153 * k + 2 < 5 * e + 5"
  shows "0 \<le> k \<and> k \<le> 11 \<and> 0 \<le> w - e \<and> w - e \<le> 30"
  using assms by linarith

text \<open>The pieces \<open>civil\<close> puts a date together from.\<close>

definition era_day :: "int \<Rightarrow> int" where "era_day u = (u + 719468) mod 146097"
definition era_year :: "int \<Rightarrow> int" where "era_year u = even_days (era_day u) div 365"
definition year_day :: "int \<Rightarrow> int" where "year_day u = era_day u - year_start (era_year u)"
definition march_month :: "int \<Rightarrow> int" where "march_month u = (5 * year_day u + 2) div 153"
definition month_start :: "int \<Rightarrow> int" where "month_start k = (153 * k + 2) div 5"

lemma civil_pieces:
  "civil u = (let m = (if march_month u < 10 then march_month u + 3 else march_month u - 9)
     in (era_year u + (u + 719468) div 146097 * 400 + (if m \<le> 2 then 1 else 0), m, year_day u - month_start (march_month u) + 1))"
  by (simp only: civil_def Let_def era_day_def era_year_def year_day_def march_month_def month_start_def even_days_def year_start_def)

lemma piece_bounds:
  "0 \<le> era_year u \<and> era_year u \<le> 399 \<and> 0 \<le> march_month u \<and> march_month u \<le> 11
   \<and> 0 \<le> year_day u - month_start (march_month u) \<and> year_day u - month_start (march_month u) \<le> 30"
proof -
  have "0 \<le> era_day u" "era_day u < 146097" unfolding era_day_def by (rule pos_mod_sign, simp) (rule pos_mod_bound, simp)
  from year_of_era [OF this era_year_def] have y: "0 \<le> era_year u" "era_year u \<le> 399" "0 \<le> year_day u" "year_day u \<le> 365"
    by (auto simp: year_day_def)
  have "153 * march_month u \<le> 5 * year_day u + 2 \<and> 5 * year_day u + 2 < 153 * march_month u + 153"
    by (rule int_quot [OF _ march_month_def]) simp
  moreover have "5 * month_start (march_month u) \<le> 153 * march_month u + 2
      \<and> 153 * march_month u + 2 < 5 * month_start (march_month u) + 5"
    by (rule int_quot [OF _ month_start_def]) simp
  ultimately show ?thesis using y month_number [of "year_day u" "march_month u" "month_start (march_month u)"] by simp
qed

lemma civil_inj:
  assumes "civil a = civil b" shows "a = b"
proof -
  have k: "march_month a = march_month b"
    using assms piece_bounds [of a] piece_bounds [of b] unfolding civil_pieces Let_def by (auto split: if_splits)
  then have "year_day a = year_day b"
    and e: "era_year a + (a + 719468) div 146097 * 400 = era_year b + (b + 719468) div 146097 * 400"
    using assms unfolding civil_pieces Let_def by auto
  moreover have "era_year a = era_year b \<and> (a + 719468) div 146097 = (b + 719468) div 146097"
    using piece_bounds [of a] piece_bounds [of b] by (intro eras_apart [OF e]) simp_all
  ultimately have "era_day a = era_day b" "(a + 719468) div 146097 = (b + 719468) div 146097" by (simp_all add: year_day_def)
  then have "a + 719468 = b + 719468" unfolding era_day_def by (metis mult_div_mod_eq)
  then show ?thesis by simp
qed

lemma civil_month_day:
  assumes "civil u = (y, m, d)"
  shows "1 \<le> m \<and> m \<le> 12 \<and> 1 \<le> d \<and> d \<le> 31"
  using assms piece_bounds [of u] unfolding civil_pieces Let_def by (auto split: if_splits)

text \<open>The number a decimal text stands for, whatever zeros stand before it.\<close>

definition text_value :: "string \<Rightarrow> nat" where
  "text_value s = foldl (\<lambda>v c. if c = CHR ''-'' then v else 10 * v + (of_char c - 48)) 0 s"

lemma digit_char_value: "digit_char d \<noteq> CHR ''-'' \<and> of_char (digit_char d) - 48 = d mod (10 :: nat)"
proof -
  have "d mod 10 < 10" by simp
  moreover have "\<forall>i < 10. ''0123456789'' ! i \<noteq> CHR ''-'' \<and> of_char (''0123456789'' ! i) - 48 = (i :: nat)" by code_simp
  ultimately show ?thesis unfolding digit_char_def by blast
qed

lemma nat_text_value: "text_value (nat_text n) = n"
proof (induction n rule: nat_text.induct)
  case (1 n)
  show ?case
  proof (cases "n < 10")
    case True
    then show ?thesis using digit_char_value [of n] by (simp add: nat_text.simps [of n] text_value_def)
  next
    case False
    then show ?thesis using 1 digit_char_value [of n] by (simp add: nat_text.simps [of n] text_value_def)
  qed
qed

lemma nat_text_digits: "c \<in> set (nat_text n) \<Longrightarrow> c \<noteq> CHR ''-''"
proof (induction n rule: nat_text.induct)
  case (1 n)
  then show ?case using digit_char_value [of n] by (auto simp: nat_text.simps [of n] split: if_splits)
qed

lemma zeros_before: "text_value (replicate k (CHR ''0'') @ s) = text_value s"
  by (induction k) (simp_all add: text_value_def)

lemma padded_value: "text_value (padded w i) = nat \<bar>i\<bar>"
proof -
  have "text_value (int_text i) = nat \<bar>i\<bar>"
    using nat_text_value [of "nat (- i)"] nat_text_value [of "nat i"] by (simp add: int_text_def text_value_def)
  then show ?thesis by (simp add: padded_def Let_def zeros_before)
qed

lemma padded_sign: "CHR ''-'' \<in> set (padded w i) \<longleftrightarrow> i < 0"
  using nat_text_digits [of _ "nat i"] by (auto simp: padded_def Let_def int_text_def)

lemma padded_inj: "padded w i = padded w j \<longleftrightarrow> i = j"
  using padded_value [of w i] padded_value [of w j] padded_sign [of w i] padded_sign [of w j]
  by (metis abs_of_neg abs_of_nonneg eq_nat_nat_iff abs_ge_zero neg_equal_iff_equal not_less)

lemma padded_two: "0 \<le> i \<Longrightarrow> i < 100 \<Longrightarrow> length (padded 2 i) = 2"
  by (auto simp: padded_def Let_def int_text_def nat_text.simps [of "nat i"] nat_text.simps [of "nat i div 10"])

lemma hour_of_bounds: "0 \<le> hour_of t \<and> hour_of t < 24"
proof -
  have "0 \<le> t mod 86400" "t mod 86400 < 86400" by simp_all
  then show ?thesis unfolding hour_of_def using zdiv_mono1 [of "t mod 86400" 86399 3600] by (simp add: pos_imp_zdiv_nonneg_iff)
qed

lemma whole_hours: "t div 3600 = 24 * epoch_days t + hour_of t"
proof -
  have "t div 86400 = t div 3600 div 24" using zdiv_zmult2_eq [of 24 t 3600] by simp
  moreover have "t mod 86400 = 3600 * (t div 3600 mod 24) + t mod 3600" using zmod_zmult2_eq [of 24 t 3600] by simp
  then have "t mod 86400 div 3600 = t div 3600 mod 24" by simp
  ultimately show ?thesis unfolding epoch_days_def hour_of_def by (simp only: mult_div_mod_eq)
qed

definition hour_text :: "moment \<Rightarrow> string" where
  "hour_text t = (let (y, m, d) = civil (epoch_days t)
     in padded 4 y @ ''-'' @ padded 2 m @ ''-'' @ padded 2 d @ ''T'' @ padded 2 (hour_of t))"

lemma hour_text_inj:
  assumes "hour_text t = hour_text u" shows "t div 3600 = u div 3600"
proof -
  obtain y m d where c: "civil (epoch_days t) = (y, m, d)" using prod_cases3 by blast
  obtain y' m' d' where c': "civil (epoch_days u) = (y', m', d')" using prod_cases3 by blast
  have len: "length (padded 2 m) = 2" "length (padded 2 d) = 2" "length (padded 2 m') = 2" "length (padded 2 d') = 2"
    "length (padded 2 (hour_of t)) = 2" "length (padded 2 (hour_of u)) = 2"
    using civil_month_day [OF c] civil_month_day [OF c'] hour_of_bounds [of t] hour_of_bounds [of u] by (auto intro!: padded_two)
  have "padded 4 y @ (CHR ''-'' # padded 2 m @ CHR ''-'' # padded 2 d @ CHR ''T'' # padded 2 (hour_of t))
      = padded 4 y' @ (CHR ''-'' # padded 2 m' @ CHR ''-'' # padded 2 d' @ CHR ''T'' # padded 2 (hour_of u))"
    using assms by (simp add: hour_text_def c c')
  then have "padded 4 y = padded 4 y' \<and> padded 2 m @ CHR ''-'' # padded 2 d @ CHR ''T'' # padded 2 (hour_of t)
      = padded 2 m' @ CHR ''-'' # padded 2 d' @ CHR ''T'' # padded 2 (hour_of u)"
    by (subst (asm) append_eq_append_conv) (auto simp: len)
  then have "y = y'" "m = m'" "d = d'" "hour_of t = hour_of u" by (auto simp: len padded_inj)
  then show ?thesis using civil_inj [of "epoch_days t" "epoch_days u"] by (simp add: whole_hours c c')
qed

text \<open>A cell of the grid the key rounds places to.\<close>

definition same_cell :: "latlon \<Rightarrow> latlon \<Rightarrow> bool" where
  "same_cell p q \<longleftrightarrow> round_dec 3 (lat p) = round_dec 3 (lat q) \<and> round_dec 3 (lon p) = round_dec 3 (lon q)
     \<and> \<bar>lat p - lat q\<bar> \<le> 1 / 1000 \<and> \<bar>lon p - lon q\<bar> \<le> 1 / 1000"

definition departure_at :: "moment \<Rightarrow> route_request \<Rightarrow> moment" where
  "departure_at now req = (case rq_depart_at req of None \<Rightarrow> now | Some t \<Rightarrow> t)"

lemma departure_bucket_text: "departure_bucket now req = hour_text (departure_at now req)"
  by (simp add: departure_bucket_def hour_text_def departure_at_def Let_def)

lemma rounded_alike: "round_dec 3 x = round_dec 3 y \<Longrightarrow> \<bar>x - y\<bar> \<le> 1 / 1000"
proof -
  assume "round_dec 3 x = round_dec 3 y"
  moreover have "\<bar>round_dec 3 x - x\<bar> \<le> 1 / 2000" "\<bar>round_dec 3 y - y\<bar> \<le> 1 / 2000"
    using round_dec_error [of 3 x] round_dec_error [of 3 y] by simp_all
  ultimately show ?thesis by linarith
qed

lemma key_point_cell: "key_point p = key_point q \<longleftrightarrow> same_cell p q"
  using rounded_alike by (auto simp: key_point_def same_cell_def CACHE_COORD_DECIMALS_def)

lemma fixture_mode_name_inj: "fixture_mode_name m = fixture_mode_name m' \<longleftrightarrow> m = m'"
  by (cases m; cases m') auto

lemma texts_inj: "map JStr xs = map JStr ys \<longleftrightarrow> xs = ys"
  by (metis inj_def inj_map_eq_map json.inject(3))

definition material_pairs :: "environ \<Rightarrow> fixture_mode \<Rightarrow> string \<Rightarrow> moment \<Rightarrow> route_request \<Rightarrow> (string \<times> json) list" where
  "material_pairs env fm version now req = canonical_pairs
     [(''origin'', key_point (rq_origin req)),
      (''destination'', case rq_destination req of None \<Rightarrow> JNull | Some d \<Rightarrow> key_point d),
      (''minutes'', case budget_minutes req of None \<Rightarrow> JNull | Some n \<Rightarrow> JNum (of_int n)),
      (''mode'', JStr (mode_name (rq_mode req))),
      (''objectives'', JList (map JStr (resolved_objectives req))),
      (''depart_at'', JStr (departure_bucket now req)),
      (''effective_mode'', JStr (mode_name (effective_mode (rq_mode req) (rq_minutes req) (straight_line_m req)))),
      (''path_details'', JList (map JStr (path_details env))),
      (''fixture_mode'', JStr (fixture_mode_name fm)),
      (''version'', JStr version)]"

lemma canonical_opt [simp]:
  "canonical (case n of None \<Rightarrow> JNull | Some n \<Rightarrow> JNum (of_int n)) = (case n of None \<Rightarrow> JNull | Some n \<Rightarrow> JNum (of_int n))"
  "canonical (case d of None \<Rightarrow> JNull | Some d \<Rightarrow> key_point d) = (case d of None \<Rightarrow> JNull | Some d \<Rightarrow> key_point d)"
  for n :: "int option"
  by (cases n; cases d; simp)+

lemma same_material:
  assumes "route_cache_material env fm version now req = route_cache_material env' fm' version' now' req'"
  shows "budget_minutes req = budget_minutes req'" "resolved_objectives req = resolved_objectives req'"
    "request_mode req = request_mode req'" "departure_at now req div 3600 = departure_at now' req' div 3600"
    "same_cell (rq_origin req) (rq_origin req')" "rel_option same_cell (rq_destination req) (rq_destination req')"
    "rq_mode req = rq_mode req'" "path_details env = path_details env'" "fm = fm'" "version = version'"
proof -
  let ?a = "material_pairs env fm version now req" and ?b = "material_pairs env' fm' version' now' req'"
  have "sort_key fst ?a = sort_key fst ?b" using assms by (simp add: route_cache_material_def material_pairs_def)
  then have eq: "set ?a = set ?b" by (metis set_sort)
  have mem: "(k, v) \<in> set ?a \<Longrightarrow> (k, v) \<in> set ?b" for k v using eq by simp
  show "budget_minutes req = budget_minutes req'"
    using mem [of "''minutes''" "case budget_minutes req of None \<Rightarrow> JNull | Some n \<Rightarrow> JNum (of_int n)"]
    by (auto simp: material_pairs_def split: option.splits)
  show "resolved_objectives req = resolved_objectives req'"
    using mem [of "''objectives''" "JList (map JStr (resolved_objectives req))"] by (simp add: material_pairs_def texts_inj)
  show "request_mode req = request_mode req'"
    using mem [of "''effective_mode''" "JStr (mode_name (request_mode req))"]
    by (simp add: material_pairs_def request_mode_def mode_name_inj)
  have "departure_bucket now req = departure_bucket now' req'"
    using mem [of "''depart_at''" "JStr (departure_bucket now req)"] by (simp add: material_pairs_def)
  then show "departure_at now req div 3600 = departure_at now' req' div 3600"
    unfolding departure_bucket_text by (rule hour_text_inj)
  show "same_cell (rq_origin req) (rq_origin req')"
    using mem [of "''origin''" "key_point (rq_origin req)"] by (simp add: material_pairs_def key_point_cell)
  have "key_point p \<noteq> JNull" for p by (simp add: key_point_def)
  then show "rel_option same_cell (rq_destination req) (rq_destination req')"
    using mem [of "''destination''" "case rq_destination req of None \<Rightarrow> JNull | Some d \<Rightarrow> key_point d"]
    by (auto simp: material_pairs_def key_point_cell split: option.splits) (metis json.distinct)+
  show "rq_mode req = rq_mode req'"
    using mem [of "''mode''" "JStr (mode_name (rq_mode req))"] by (simp add: material_pairs_def mode_name_inj)
  show "path_details env = path_details env'"
    using mem [of "''path_details''" "JList (map JStr (path_details env))"] by (simp add: material_pairs_def texts_inj)
  show "fm = fm'" using mem [of "''fixture_mode''" "JStr (fixture_mode_name fm)"]
    by (simp add: material_pairs_def fixture_mode_name_inj)
  show "version = version'" using mem [of "''version''" "JStr version"] by (simp add: material_pairs_def)
qed

lemma same_preset:
  assumes "rq_origin req = rq_origin req'" and "rq_destination req = rq_destination req'"
    and "budget_minutes req = budget_minutes req'" and "request_mode req = request_mode req'"
  shows "run_preset w req = run_preset w req'"
proof (cases "rq_destination req")
  case None
  then have "rq_minutes req = rq_minutes req'" using assms by (simp add: budget_minutes_def)
  then show ?thesis using assms by (intro ext) (simp add: run_preset_def)
next
  case (Some d)
  then show ?thesis using assms trip_preset [of req d req'] by (intro ext) simp
qed

lemma route_events_cong:
  assumes "rq_origin req = rq_origin req'" and "rq_destination req = rq_destination req'"
    and "budget_minutes req = budget_minutes req'" and "request_mode req = request_mode req'"
    and "resolved_objectives req = resolved_objectives req'" and "depart_moment w req = depart_moment w req'"
  shows "route_events w req = route_events w req'"
proof -
  have phase: "routing_phase w req = routing_phase w req'"
    unfolding routing_phase_def baseline_def fastest_outcome_def other_outcomes_def best_failure_def
      same_preset [OF assms(1-4)] assms by (rule refl)
  show ?thesis
    unfolding route_events_def phase answer_def answer_reason_def assms by (rule refl)
qed


text \<open>One trip asked for with two budgets.\<close>

lemma minutes_not_in_material:
  "route_cache_material env fm version now (scenic_trip\<lparr>rq_minutes := 35\<rparr>) = route_cache_material env fm version now scenic_trip"
  by (simp add: route_cache_material_def scenic_trip_def demo_request_def budget_minutes_def
    resolved_objectives_def departure_bucket_def effective_mode_def straight_line_m_def)


section \<open>The key of a place search\<close>

lemma words_nil [simp]: "words [] = []" by (simp add: words_def)

lemma words_space: "is_space c \<Longrightarrow> words (c # s) = words s"
  by (simp add: words_def)

lemma words_space_end: "is_space c \<Longrightarrow> words (s @ [c]) = words s"
  using split_on_append [of "CHR '' ''" _ "[]"] by (simp add: words_def)

lemma words_dropWhile: "words (dropWhile is_space s) = words s"
  by (induction s) (simp_all add: words_space)

lemma words_dropWhile_end: "words (rev (dropWhile is_space (rev s))) = words s"
  by (induction s rule: rev_induct) (simp_all add: words_space_end)

lemma words_strip: "words (strip s) = words s"
  by (simp add: strip_def words_dropWhile_end words_dropWhile)

definition proper_word :: "string \<Rightarrow> bool" where
  "proper_word v \<longleftrightarrow> v \<noteq> [] \<and> (\<forall>c \<in> set v. \<not> is_space c)"

lemma words_proper: "list_all proper_word (words s)"
proof -
  have sp: "set v \<subseteq> set xs \<and> CHR '' '' \<notin> set v" if "v \<in> set (split_on (CHR '' '') xs)" for v xs
    using that by (induction xs arbitrary: v) (fastforce split: if_splits list.splits)+
  show ?thesis
    unfolding list_all_iff proper_word_def words_def
    using sp [of _ "map (\<lambda>c. if is_space c then CHR '' '' else c) s"] by (fastforce simp: is_space_def)
qed

lemma proper_word_plain:
  assumes "proper_word v"
  shows "v \<noteq> []" "map (\<lambda>c. if is_space c then CHR '' '' else c) v = v" "CHR '' '' \<notin> set v"
proof -
  have sp: "is_space (CHR '' '')" by (simp add: is_space_def)
  have v: "v \<noteq> []" "\<forall>c \<in> set v. \<not> is_space c" using assms by (simp_all add: proper_word_def)
  show "v \<noteq> []" by (rule v(1))
  show "map (\<lambda>c. if is_space c then CHR '' '' else c) v = v" using v(2) by (intro map_idI) simp
  show "CHR '' '' \<notin> set v" using v(2) sp by blast
qed

lemma words_one: "proper_word v \<Longrightarrow> words v = [v]"
  using proper_word_plain [of v] by (simp add: words_def split_on_plain)

lemma words_cons: "proper_word v \<Longrightarrow> words (v @ '' '' @ s) = v # words s"
  using proper_word_plain [of v] by (simp add: words_def split_on_append split_on_plain is_space_def)

lemma words_join: "list_all proper_word ws \<Longrightarrow> words (join '' '' ws) = ws"
proof (induction ws)
  case (Cons w ws)
  then show ?case by (cases ws) (simp_all add: words_one words_cons [simplified])
qed simp

lemma str_lower_append [simp]: "str_lower (a @ b) = str_lower a @ str_lower b"
  by (simp add: str_lower_def)

lemma lower_space: "is_space (char_lower c) = is_space c"
proof (cases "map_of (zip upper_letters lower_letters) c")
  case (Some u)
  then have cu: "(c, u) \<in> set (zip upper_letters lower_letters)" by (rule map_of_SomeD)
  have "\<forall>x \<in> set upper_letters. \<not> is_space x" "\<forall>x \<in> set lower_letters. \<not> is_space x"
    by (simp_all add: upper_letters_def lower_letters_def is_space_def)
  then show ?thesis using cu Some by (auto simp: char_lower_def dest: set_zip_leftD set_zip_rightD)
qed (simp add: char_lower_def)

lemma lower_join: "str_lower (join '' '' ws) = join '' '' (map str_lower ws)"
proof (induction ws)
  case (Cons w ws)
  have "str_lower (CHR '' '' # s) = CHR '' '' # str_lower s" for s
    by (simp add: str_lower_def char_lower_def upper_letters_def lower_letters_def)
  with Cons show ?case by (cases ws) simp_all
qed (simp add: str_lower_def)

lemma lower_proper: "proper_word v \<Longrightarrow> proper_word (str_lower v)"
  by (auto simp: proper_word_def str_lower_def lower_space)

text \<open>
  A place search is cached by its words. However a name is padded, spaced or capitalised, its key is
  the same; and unless the hash collides no two different names share one.
\<close>

theorem geocode_key_is_the_words:
  assumes "inj_on hash ((\<lambda>q. str_lower (join '' '' (words q))) ` {q, q'})"
  shows "geocode_cache_key hash q = geocode_cache_key hash q' \<longleftrightarrow> map str_lower (words q) = map str_lower (words q')"
proof -
  have proper: "list_all proper_word (map str_lower (words s))" for s
    using words_proper [of s] by (auto simp: list_all_iff lower_proper)
  have "geocode_cache_key hash q = geocode_cache_key hash q'
      \<longleftrightarrow> str_lower (join '' '' (words q)) = str_lower (join '' '' (words q'))"
    unfolding geocode_cache_key_def words_strip by (rule inj_on_eq_iff [OF assms]) auto
  also have "\<dots> \<longleftrightarrow> map str_lower (words q) = map str_lower (words q')"
    unfolding lower_join using words_join [OF proper] by metis
  finally show ?thesis .
qed

lemma geocode_key_is_the_words_witness:
  "geocode_cache_key id ''  Kandy '' = geocode_cache_key id ''kandy'' \<and> geocode_cache_key id ''kandy'' \<noteq> geocode_cache_key id ''kand y''"
proof -
  have w: "map str_lower (words ''  Kandy '') = [''kandy'']" "map str_lower (words ''kandy'') = [''kandy'']"
    "map str_lower (words ''kand y'') = [''kand'', ''y'']"
    by (simp_all add: words_def is_space_def str_lower_def char_lower_def upper_letters_def lower_letters_def)
  show ?thesis
    using geocode_key_is_the_words [of id "''  Kandy ''" "''kandy''"] geocode_key_is_the_words [of id "''kandy''" "''kand y''"]
    by (simp add: w)
qed

section \<open>Counters and readiness\<close>

text \<open>
  The hit rate of an answer is a share: between 0 and 1 whenever no counter is negative, and 0
  before the first request.
\<close>

theorem hit_rate_is_a_share:
  assumes "\<forall>k. 0 \<le> counter (m_counters m) k"
  shows "0 \<le> hit_rate utc m \<and> hit_rate utc m \<le> 1 \<and> hit_rate utc (new_metrics t :: 'd metrics) = 0"
proof -
  have c: "counter (snd (snapshot utc n)) k = counter (m_counters n) k" if "k \<in> set KNOWN_COUNTERS" "k \<noteq> ''uptime_s''" "k \<noteq> ''unique_sessions_today''"
    for k and n :: "'e metrics"
    using snapshot_value [of k utc n] that by (simp add: counter_def)
  have known: "''cache_hits_total'' \<in> set KNOWN_COUNTERS" "''cache_misses_total'' \<in> set KNOWN_COUNTERS"
    by (simp_all add: KNOWN_COUNTERS_def)
  have "0 \<le> round_dec 3 (of_int h / of_int (h + n)) \<and> round_dec 3 (of_int h / of_int (h + n) :: real) \<le> 1"
    if "0 \<le> h" "0 \<le> n" "h + n \<noteq> 0" for h n :: int
    using that by (intro round_dec_unit) (auto simp: divide_simps)
  then show ?thesis using assms unfolding hit_rate_def Let_def
    by (simp add: c known) (simp add: new_metrics_def counter_def)
qed

lemma hit_rate_is_a_share_witness: "hit_rate 0 (new_metrics 0 :: string metrics) \<le> 1"
proof -
  have "\<forall>k. 0 \<le> counter (m_counters (new_metrics 0 :: string metrics)) k" by (simp add: new_metrics_def counter_def)
  from hit_rate_is_a_share [OF this] show ?thesis by blast
qed

text \<open>
  Two counters that the service increments are published as gauges without a description: the
  photograph counters are in neither the known list nor the table the text is written from.
\<close>

theorem photograph_counters_are_published_as_gauges:
  "prometheus_lines 0 (incr 0 ''photos_proxied_total'' 1 (new_metrics 0 :: string metrics))
     = concat (map series_lines (map (\<lambda>k. (k, 0)) KNOWN_COUNTERS))
       @ [''# TYPE meander_photos_proxied_total gauge'', ''meander_photos_proxied_total 1'']
       @ series_lines (''unique_sessions_today'', 0) @ series_lines (''uptime_s'', 0) @ ['''']"
proof -
  let ?m = "incr 0 ''photos_proxied_total'' 1 (new_metrics 0 :: string metrics)"
  have snap: "snd (snapshot 0 ?m) = map (\<lambda>k. (k, 0)) KNOWN_COUNTERS
      @ [(''photos_proxied_total'', 1), (''unique_sessions_today'', 0), (''uptime_s'', 0)]"
    by (simp add: snapshot_def incr_def new_metrics_def metrics_roll_day_def counter_def KNOWN_COUNTERS_def py_int_def Let_def)
  have line: "series_lines (''photos_proxied_total'', 1) = [''# TYPE meander_photos_proxied_total gauge'', ''meander_photos_proxied_total 1'']"
    using nat_text.simps [of 1] by (simp add: series_lines_def described_def int_text_def digit_char_def)
  show ?thesis unfolding prometheus_lines_def snap by (simp add: line)
qed

text \<open>
  Readiness is about serving routes. An instance is ready exactly when no required key is missing,
  its cache answers and its router was reachable; neither an absent photograph or narration key nor
  anything in replay mode makes it unready.
\<close>

theorem readiness_is_about_routes:
  "(fst (readyz env s c probed) = 200 \<longleftrightarrow>
      (st_fixture_mode s = Replay \<or> \<not> no_key (st_graphhopper_key s) \<or> graphhopper_is_self_hosted env)
      \<and> \<not> c_closed c \<and> fst probed)
   \<and> readyz env (s\<lparr>st_mapillary_token := a, st_anthropic_api_key := b\<rparr>) c probed = readyz env s c probed"
  by (auto simp: readyz_def readiness_of_def missing_required_keys_def segment_count_def with_conn_def Let_def)

end
