(* ===== verification/Serve.thy ===== *)
theory Serve
  imports Gateway
begin

text \<open>
  backend/main.py, \<open>route_events_with_deadline\<close>, and the answer as the JSON both transports send. A
  request's production is its events, each with the seconds its pull took, and how long the last pull
  took to end it. A pull is cut off when it takes longer than what is left; the time a slow consumer
  holds an event is no part of the model, as it is no part of the budget.
\<close>

section \<open>The answer on the wire\<close>

definition opt_json :: "('a \<Rightarrow> json) \<Rightarrow> 'a option \<Rightarrow> json" where
  "opt_json f x = (case x of None \<Rightarrow> JNull | Some v \<Rightarrow> f v)"

definition dump_scores :: "scores \<Rightarrow> json" where
  "dump_scores s = JObj [(''scenic'', opt_json JNum (sc_scenic s)), (''air'', opt_json JNum (sc_air s)),
     (''shade'', opt_json JNum (sc_shade s)), (''quiet'', opt_json JNum (sc_quiet s))]"

definition dump_rest_stop :: "rest_stop \<Rightarrow> json" where
  "dump_rest_stop s = JObj [(''lat'', JNum (st_lat s)), (''lon'', JNum (st_lon s)), (''type'', JStr (st_type s)),
     (''at_m'', JNum (st_at_m s))]"

definition dump_blocker :: "blocker \<Rightarrow> json" where
  "dump_blocker b = JObj [(''type'', JStr (bl_type b)), (''lat'', JNum (bl_lat b)), (''lon'', JNum (bl_lon b)),
     (''description'', JStr (bl_description b))]"

definition dump_step :: "wire_step \<Rightarrow> json" where
  "dump_step s = JObj [(''text'', JStr (ws_text s)), (''distance_m'', JNum (ws_distance_m s)),
     (''duration_min'', JNum (ws_duration_min s)), (''street_name'', opt_json JStr (ws_street_name s)),
     (''sign'', JNum (of_int (ws_sign s))),
     (''interval'', JList [JNum (of_int (fst (ws_interval s))), JNum (of_int (snd (ws_interval s)))])]"

definition dump_profile :: "elevation_profile \<Rightarrow> json" where
  "dump_profile p = JObj [(''distances_m'', JList (map JNum (ep_distances_m p))),
     (''elevations_m'', JList (map JNum (ep_elevations_m p))), (''ascent_m'', JNum (ep_ascent_m p)),
     (''descent_m'', JNum (ep_descent_m p)), (''max_gradient_pct'', JNum (ep_max_gradient_pct p)),
     (''steep_spans'', JList (map (\<lambda>(a, b). JList [JNum (of_nat a), JNum (of_nat b)]) (ep_steep_spans p))),
     (''limit_pct'', JNum (ep_limit_pct p))]"

fun status_name :: "route_status \<Rightarrow> string" where
  "status_name Ok = ''ok''" | "status_name Blocked = ''blocked''"

definition dump_route :: "wire_route \<Rightarrow> json" where
  "dump_route r = JObj
     [(''id'', JStr (wr_id r)), (''label'', JStr (wr_label r)), (''status'', JStr (status_name (wr_status r))),
      (''geometry'', JList (map (\<lambda>(x, y). JList [JNum x, JNum y]) (wr_geometry r))),
      (''duration_min'', JNum (wr_duration_min r)), (''distance_m'', JNum (wr_distance_m r)),
      (''mode'', JStr (mode_name (wr_mode r))), (''scores'', dump_scores (wr_scores r)),
      (''scoring_method'', JStr (wr_scoring_method r)), (''confidence'', JNum (wr_confidence r)),
      (''rest_stops'', opt_json (\<lambda>ss. JList (map dump_rest_stop ss)) (wr_rest_stops r)),
      (''blockers'', JList (map dump_blocker (wr_blockers r))), (''steps'', JList (map dump_step (wr_steps r))),
      (''elevation'', opt_json dump_profile (wr_elevation r)), (''narration'', opt_json JStr (wr_narration r)),
      (''synthetic_upstream'', JBool (wr_synthetic_upstream r)), (''confidence_note'', opt_json JStr (wr_confidence_note r)),
      (''status_note'', opt_json JStr (wr_status_note r)), (''enrichment_pending'', JBool (wr_enrichment_pending r))]"

text \<open>The text of an instant is a parameter: it is in the time zone of the request.\<close>

definition dump_response :: "(moment \<Rightarrow> string) \<Rightarrow> routes_response \<Rightarrow> json" where
  "dump_response stamp p = JObj
     [(''routes'', JList (map dump_route (rp_routes p))),
      (''best_departure'', opt_json (\<lambda>t. JStr (stamp t)) (rp_best_departure p)),
      (''reason'', opt_json JStr (rp_reason p)),
      (''cache'', JObj [(''segments_scored'', JNum (of_nat (rp_segments_scored p))), (''hit_rate'', JNum (rp_hit_rate p))])]"

section \<open>The deadline\<close>

definition DEADLINE_NOTE :: string where
  "DEADLINE_NOTE = ''This took longer than expected, so what had been worked out is shown here. Air quality, shade and rest stops may be missing. Try again for the full picture.''"

definition timeout_message :: string where
  "timeout_message = ''This took too long and no route was ready in time. Please try again.''"

record production =
  pd_events :: "(real \<times> event) list"
  pd_last :: real
  pd_ending :: ending

text \<open>\<open>partial[route["id"]] = route\<close>: a dict keeps the place of a key it already has.\<close>

fun note_route :: "event \<Rightarrow> (string \<times> wire_route) list \<Rightarrow> (string \<times> wire_route) list" where
  "note_route (RouteEv r) ready = AList.update (wr_id r) r ready"
| "note_route e ready = ready"

definition usable_routes :: "(string \<times> wire_route) list \<Rightarrow> wire_route list" where
  "usable_routes ready = filter (\<lambda>r. wr_geometry r \<noteq> []) (map snd ready)"

definition deadline_event :: "real \<Rightarrow> (string \<times> wire_route) list \<Rightarrow> event" where
  "deadline_event rate ready =
     (if usable_routes ready = [] then ErrorEv ''timeout'' timeout_message
      else DoneEv True \<lparr>rp_routes = usable_routes ready, rp_best_departure = None, rp_reason = Some DEADLINE_NOTE,
             rp_segments_scored = 0, rp_hit_rate = rate\<rparr>)"

definition cut_off :: "real \<Rightarrow> real \<Rightarrow> bool" where
  "cut_off budget_s d \<longleftrightarrow> budget_s \<le> 0 \<or> budget_s < d"

fun drive :: "real \<Rightarrow> real \<Rightarrow> (string \<times> wire_route) list \<Rightarrow> (real \<times> event) list \<Rightarrow> real \<Rightarrow> ending \<Rightarrow> event list \<times> ending" where
  "drive rate budget_s ready [] d fin =
     (if cut_off budget_s d then ([deadline_event rate ready], Finished) else ([], fin))"
| "drive rate budget_s ready ((d, e) # es) d' fin =
     (if cut_off budget_s d then ([deadline_event rate ready], Finished)
      else case drive rate (budget_s - d) (note_route e ready) es d' fin of (evs, en) \<Rightarrow> (e # evs, en))"

definition route_events_with_deadline :: "real \<Rightarrow> real \<Rightarrow> production \<Rightarrow> event list \<times> ending" where
  "route_events_with_deadline rate deadline_s p = drive rate deadline_s [] (pd_events p) (pd_last p) (pd_ending p)"

text \<open>What a request produces, however long each pull of it takes.\<close>

definition produces :: "world \<Rightarrow> route_request \<Rightarrow> production \<Rightarrow> bool" where
  "produces w req p \<longleftrightarrow> route_events w req = (map snd (pd_events p), pd_ending p)
     \<and> list_all (\<lambda>(d, e). 0 \<le> d) (pd_events p) \<and> 0 \<le> pd_last p"

section \<open>The deadline bounds the work and the answer always comes\<close>

definition shown_routes :: "event list \<Rightarrow> (string \<times> wire_route) list" where
  "shown_routes evs = fold note_route evs []"

definition spent_on :: "(real \<times> event) list \<Rightarrow> real" where
  "spent_on es = sum_list (map fst es)"

lemma drive_cases:
  assumes "drive rate budget_s ready es d' fin = (evs, en)"
  shows "\<exists>k \<le> length es. (k = 0 \<or> spent_on (take k es) \<le> budget_s)
    \<and> ((k = length es \<and> \<not> cut_off (budget_s - spent_on es) d' \<and> evs = map snd es \<and> en = fin)
      \<or> (cut_off (budget_s - spent_on (take k es)) (if k < length es then fst (es ! k) else d') \<and> en = Finished
          \<and> evs = map snd (take k es) @ [deadline_event rate (fold note_route (map snd (take k es)) ready)]))"
  using assms
proof (induction rate budget_s ready es d' fin arbitrary: evs en rule: drive.induct)
  case (1 rate budget_s ready d' fin)
  then show ?case by (auto simp: spent_on_def split: if_splits)
next
  case (2 rate budget_s ready d e es d' fin)
  show ?case
  proof (cases "cut_off budget_s d")
    case True
    then show ?thesis using 2(2) by (intro exI [of _ 0]) (auto simp: spent_on_def)
  next
    case False
    obtain evs' where run: "drive rate (budget_s - d) (note_route e ready) es d' fin = (evs', en)" and evs: "evs = e # evs'"
      using 2(2) False by (auto split: prod.splits)
    obtain k where k: "k \<le> length es" "k = 0 \<or> spent_on (take k es) \<le> budget_s - d"
      "(k = length es \<and> \<not> cut_off (budget_s - d - spent_on es) d' \<and> evs' = map snd es \<and> en = fin)
      \<or> (cut_off (budget_s - d - spent_on (take k es)) (if k < length es then fst (es ! k) else d') \<and> en = Finished
          \<and> evs' = map snd (take k es) @ [deadline_event rate (fold note_route (map snd (take k es)) (note_route e ready))])"
      using 2(1) [OF False run] by blast
    have d: "d \<le> budget_s" using False by (simp add: cut_off_def)
    have cons: "spent_on ((d, e) # xs) = d + spent_on xs" for xs by (simp add: spent_on_def)
    show ?thesis
      using k d evs by (intro exI [of _ "Suc k"]) (auto simp: cons diff_diff_eq spent_on_def)
  qed
qed

text \<open>
  C23 The deadline bounds the work and only the work. What a request was given the time for is a prefix
  of what it would have produced, whose pulls together took no longer than the deadline: all of it,
  ending the way it ends, when everything fits; otherwise exactly one further event, made of the
  routes shown so far, once the time is spent or the next pull would not fit in what is left.
\<close>

theorem deadline_bounds_the_work:
  assumes "route_events_with_deadline rate limit p = (evs, en)"
  shows "\<exists>k \<le> length (pd_events p). spent_on (take k (pd_events p)) \<le> max 0 limit
    \<and> (k = length (pd_events p) \<and> spent_on (pd_events p) + pd_last p \<le> limit
          \<and> evs = map snd (pd_events p) \<and> en = pd_ending p
      \<or> en = Finished
        \<and> evs = map snd (take k (pd_events p)) @ [deadline_event rate (shown_routes (map snd (take k (pd_events p))))]
        \<and> (limit \<le> spent_on (take k (pd_events p))
            \<or> limit < spent_on (take k (pd_events p)) + (if k < length (pd_events p) then fst (pd_events p ! k) else pd_last p)))"
proof -
  obtain k where k: "k \<le> length (pd_events p)" "k = 0 \<or> spent_on (take k (pd_events p)) \<le> limit"
    "(k = length (pd_events p) \<and> \<not> cut_off (limit - spent_on (pd_events p)) (pd_last p) \<and> evs = map snd (pd_events p) \<and> en = pd_ending p)
      \<or> (cut_off (limit - spent_on (take k (pd_events p))) (if k < length (pd_events p) then fst (pd_events p ! k) else pd_last p)
          \<and> en = Finished \<and> evs = map snd (take k (pd_events p)) @ [deadline_event rate (fold note_route (map snd (take k (pd_events p))) [])])"
    using drive_cases [OF assms [unfolded route_events_with_deadline_def]] by blast
  have "spent_on (take 0 (pd_events p)) = 0" by (simp add: spent_on_def)
  then show ?thesis using k by (intro exI [of _ k]) (auto simp: cut_off_def shown_routes_def)
qed

definition slow_production :: production where
  "slow_production = \<lparr>pd_events = [(1, Progress 5 ''Looking for routable roads''), (20, RouteEv (demo_card ''fastest'' 30))],
     pd_last = 1, pd_ending = Finished\<rparr>"

lemma slow_run: "route_events_with_deadline 0 10 slow_production
    = ([Progress 5 ''Looking for routable roads'', ErrorEv ''timeout'' timeout_message], Finished)"
  by (simp add: route_events_with_deadline_def slow_production_def cut_off_def deadline_event_def usable_routes_def)

lemma deadline_bounds_the_work_witness:
  "\<exists>k \<le> 2. spent_on (take k (pd_events slow_production)) \<le> 10"
proof -
  obtain k where "k \<le> length (pd_events slow_production)" "spent_on (take k (pd_events slow_production)) \<le> max 0 10"
    using deadline_bounds_the_work [OF slow_run] by blast
  then show ?thesis by (intro exI [of _ k]) (simp add: slow_production_def)
qed

section \<open>Every request settles\<close>

fun settles :: "event \<Rightarrow> bool" where
  "settles (DoneEv p d) = True"
| "settles (ErrorEv k m) = True"
| "settles e = False"

lemma phase_progress: "routing_phase w req = (ps, r) \<Longrightarrow> e \<in> set ps \<Longrightarrow> \<not> settles e"
  by (auto simp: routing_phase_def Let_def split: option.splits sum.splits if_splits)

lemma finished_settles:
  assumes "route_events w req = (evs, Finished)"
  obtains front resp where "evs = front @ [DoneEv False resp]" "\<And>e. e \<in> set front \<Longrightarrow> \<not> settles e"
proof (rule finished_request [OF assms])
  fix ps outcomes ctx rs n late
  assume "evs = late @ [DoneEv False (answer w req (map (narrated w) (map (failed_route (request_mode req)) (failures_of outcomes) @ rs)) ctx n)]"
    and "\<And>p d. DoneEv p d \<notin> set late" "\<And>k m. ErrorEv k m \<notin> set late"
  moreover from this have "\<not> settles e" if "e \<in> set late" for e using that by (cases e) auto
  ultimately show thesis by (intro that) auto
qed

lemma failed_never_settles:
  assumes "route_events w req = (evs, Failed err)" and "e \<in> set evs"
  shows "\<not> settles e"
proof -
  obtain ps o1 where ph: "routing_phase w req = (ps, o1)" by fastforce
  show ?thesis using assms phase_progress [OF ph]
    by (auto simp: route_events_def Let_def ph split: sum.splits prod.splits option.splits)
qed

lemma deadline_event_settles: "settles (deadline_event rate ready)"
  by (simp add: deadline_event_def)

lemma deadline_last_settles:
  assumes "produces w req p" and "route_events_with_deadline rate limit p = (evs, Finished)"
  shows "evs \<noteq> [] \<and> settles (last evs)"
proof -
  have run: "route_events w req = (map snd (pd_events p), pd_ending p)" using assms(1) by (simp add: produces_def)
  from drive_cases [OF assms(2) [unfolded route_events_with_deadline_def]] obtain k where
    "evs = map snd (pd_events p) \<and> pd_ending p = Finished
      \<or> evs = map snd (take k (pd_events p)) @ [deadline_event rate (fold note_route (map snd (take k (pd_events p))) [])]"
    by auto
  then show ?thesis
  proof
    assume "evs = map snd (pd_events p) \<and> pd_ending p = Finished"
    then obtain front resp where "evs = front @ [DoneEv False resp]" using finished_settles run by metis
    then show ?thesis by simp
  qed (simp add: deadline_event_settles)
qed

lemma settled_before_the_cut:
  assumes "produces w req p" and k: "k \<le> length (pd_events p)"
  shows "(\<forall>x \<in> set (map snd (take k (pd_events p))). \<not> settles x) \<or> (\<exists>before resp. map snd (take k (pd_events p)) = before @ [DoneEv False resp]
      \<and> map snd (take k (pd_events p)) = map snd (pd_events p) \<and> (\<forall>x \<in> set before. \<not> settles x) \<and> k = length (pd_events p))"
proof -
  let ?front = "map snd (take k (pd_events p))"
  have run: "route_events w req = (map snd (pd_events p), pd_ending p)" using assms(1) by (simp add: produces_def)
  show ?thesis
  proof (cases "pd_ending p")
    case (Failed err)
    have "set ?front \<subseteq> set (map snd (pd_events p))" using set_take_subset by fastforce
    then show ?thesis using failed_never_settles [of w req _ err] run Failed by (metis subsetD)
  next
    case Finished
    then obtain before resp where all: "map snd (pd_events p) = before @ [DoneEv False resp]"
        and none: "\<And>e. e \<in> set before \<Longrightarrow> \<not> settles e"
      using finished_settles run by metis
    show ?thesis
    proof (cases "k = length (pd_events p)")
      case True
      then show ?thesis using all none by auto
    next
      case False
      have "length (pd_events p) = Suc (length before)" using arg_cong [OF all, of length] by simp
      then have "?front = take k before" using False k all by (simp add: take_map [symmetric])
      then show ?thesis using none by (metis in_set_takeD)
    qed
  qed
qed

lemma drive_through:
  assumes "list_all (\<lambda>(d, e). 0 \<le> d) es" and "spent_on es < budget_s"
  shows "drive rate budget_s ready (es @ tail) d' fin =
    (case drive rate (budget_s - spent_on es) (fold note_route (map snd es) ready) tail d' fin of (evs, en) \<Rightarrow> (map snd es @ evs, en))"
  using assms
proof (induction es arbitrary: budget_s ready)
  case (Cons x es)
  obtain d e where x: "x = (d, e)" by fastforce
  have "0 \<le> spent_on es" using Cons.prems(1) unfolding spent_on_def by (intro sum_list_nonneg) (auto simp: list_all_iff)
  then have "\<not> cut_off budget_s d" "spent_on es < budget_s - d" and eq: "budget_s - d - spent_on es = budget_s - spent_on (x # es)"
    using Cons.prems by (auto simp: x cut_off_def spent_on_def)
  then show ?case using Cons.IH [of "budget_s - d" "note_route e ready"] Cons.prems(1) by (simp add: x eq split: prod.splits)
qed (simp add: spent_on_def split: prod.splits)

lemma whole_run_fits:
  assumes "produces w req p" and "spent_on (pd_events p) < limit" and "spent_on (pd_events p) + pd_last p \<le> limit"
  shows "route_events_with_deadline rate limit p = route_events w req"
  using assms drive_through [of "pd_events p" limit rate "[]" "[]" "pd_last p" "pd_ending p"]
  by (simp add: produces_def route_events_with_deadline_def cut_off_def)

lemma cut_run_settles:
  assumes "produces w req p" and "route_events_with_deadline rate limit p = (evs, en)"
  shows "case en of
      Failed err \<Rightarrow> snd (route_events w req) = Failed err \<and> (\<forall>x \<in> set evs. \<not> settles x)
    | Finished \<Rightarrow> \<exists>front e. evs = front @ [e] \<and> settles e
        \<and> ((\<forall>x \<in> set front. \<not> settles x)
          \<or> (\<exists>before resp. front = before @ [DoneEv False resp] \<and> front = map snd (pd_events p)
                \<and> (\<forall>x \<in> set before. \<not> settles x) \<and> cut_off (limit - spent_on (pd_events p)) (pd_last p)
                \<and> e = deadline_event rate (shown_routes front)))"
proof -
  have run: "route_events w req = (map snd (pd_events p), pd_ending p)" using assms(1) by (simp add: produces_def)
  obtain k where k: "k \<le> length (pd_events p)"
    "(k = length (pd_events p) \<and> \<not> cut_off (limit - spent_on (pd_events p)) (pd_last p) \<and> evs = map snd (pd_events p) \<and> en = pd_ending p)
      \<or> (cut_off (limit - spent_on (take k (pd_events p))) (if k < length (pd_events p) then fst (pd_events p ! k) else pd_last p)
          \<and> en = Finished \<and> evs = map snd (take k (pd_events p)) @ [deadline_event rate (fold note_route (map snd (take k (pd_events p))) [])])"
    using drive_cases [OF assms(2) [unfolded route_events_with_deadline_def]] by blast
  consider (whole) "evs = map snd (pd_events p)" "en = pd_ending p"
    | (cut) "en = Finished" "evs = map snd (take k (pd_events p)) @ [deadline_event rate (shown_routes (map snd (take k (pd_events p))))]"
      "cut_off (limit - spent_on (take k (pd_events p))) (if k < length (pd_events p) then fst (pd_events p ! k) else pd_last p)"
    using k(2) by (auto simp: shown_routes_def)
  then show ?thesis
  proof cases
    case whole
    then have r: "route_events w req = (evs, en)" using run by simp
    show ?thesis
    proof (cases en)
      case Finished
      with r obtain front resp where "evs = front @ [DoneEv False resp]" "\<And>e. e \<in> set front \<Longrightarrow> \<not> settles e"
        using finished_settles by metis
      with Finished show ?thesis by auto
    next
      case (Failed err)
      then show ?thesis using failed_never_settles [of w req evs err] r by simp
    qed
  next
    case cut
    have "(\<forall>x \<in> set (map snd (take k (pd_events p))). \<not> settles x) \<or> (\<exists>before resp. map snd (take k (pd_events p)) = before @ [DoneEv False resp]
        \<and> map snd (take k (pd_events p)) = map snd (pd_events p) \<and> (\<forall>x \<in> set before. \<not> settles x) \<and> k = length (pd_events p))"
      by (rule settled_before_the_cut [OF assms(1) k(1)])
    then show ?thesis using cut deadline_event_settles by auto
  qed
qed

text \<open>
  C6 A request always settles. However long its pulls take, what the deadline lets through either ends
  with an event that settles it, the answer or an error, or the request failed by itself and nothing
  before the failure claimed to be an answer; the only thing that can precede the deadline's own
  event is a full answer that came with the very last of the time. And the deadline is idle while
  there is time: when the events take less than the limit and finding their end does not exceed it,
  the caller is given exactly what the request produces without any deadline, and unless that fails
  it ends with the full answer, the only event of it that settles.
\<close>

theorem every_request_settles:
  assumes "produces w req p" and "route_events_with_deadline rate limit p = (evs, en)"
  shows "(case en of
      Failed err \<Rightarrow> snd (route_events w req) = Failed err \<and> (\<forall>x \<in> set evs. \<not> settles x)
    | Finished \<Rightarrow> \<exists>front e. evs = front @ [e] \<and> settles e
        \<and> ((\<forall>x \<in> set front. \<not> settles x)
          \<or> (\<exists>before resp. front = before @ [DoneEv False resp] \<and> front = map snd (pd_events p)
                \<and> (\<forall>x \<in> set before. \<not> settles x) \<and> cut_off (limit - spent_on (pd_events p)) (pd_last p)
                \<and> e = deadline_event rate (shown_routes front))))
    \<and> (spent_on (pd_events p) < limit \<and> spent_on (pd_events p) + pd_last p \<le> limit \<longrightarrow>
         (evs, en) = route_events w req
         \<and> (en = Finished \<longrightarrow> (\<exists>front resp. evs = front @ [DoneEv False resp] \<and> (\<forall>x \<in> set front. \<not> settles x))))"
proof (rule conjI [OF cut_run_settles [OF assms]], intro impI)
  assume fits: "spent_on (pd_events p) < limit \<and> spent_on (pd_events p) + pd_last p \<le> limit"
  then have whole: "(evs, en) = route_events w req" using whole_run_fits [OF assms(1)] assms(2) by simp
  moreover have "\<exists>front resp. evs = front @ [DoneEv False resp] \<and> (\<forall>x \<in> set front. \<not> settles x)" if "en = Finished"
    using finished_settles [of w req evs] whole that by metis
  ultimately show "(evs, en) = route_events w req
         \<and> (en = Finished \<longrightarrow> (\<exists>front resp. evs = front @ [DoneEv False resp] \<and> (\<forall>x \<in> set front. \<not> settles x)))"
    by blast
qed

text \<open>The demonstration request, its first pull taking all the time there is or more.\<close>

definition demo_production :: "real \<Rightarrow> production" where
  "demo_production d =
     (let (evs, en) = route_events demo_events_world (demo_request [''accessible'', ''fastest''])
      in \<lparr>pd_events = map (\<lambda>e. (0, e)) (butlast evs) @ [(d, last evs)], pd_last = 0, pd_ending = en\<rparr>)"

lemma demo_production_facts:
  assumes "0 \<le> d"
  obtains front resp where "pd_events (demo_production d) = map (\<lambda>e. (0, e)) front @ [(d, DoneEv False resp)]"
    and "produces demo_events_world (demo_request [''accessible'', ''fastest'']) (demo_production d)"
    and "pd_ending (demo_production d) = Finished" and "pd_last (demo_production d) = 0"
proof -
  obtain evs where run: "route_events demo_events_world (demo_request [''accessible'', ''fastest'']) = (evs, Finished)"
    using demo_finishes by blast
  then obtain front resp where evs: "evs = front @ [DoneEv False resp]" using finished_settles by metis
  have "pd_events (demo_production d) = map (\<lambda>e. (0, e)) front @ [(d, DoneEv False resp)]"
    by (simp add: demo_production_def run evs)
  moreover have "map snd (map (\<lambda>e. (0 :: real, e)) front @ [(d, DoneEv False resp)]) = evs" by (simp add: evs comp_def)
  ultimately show thesis
    using assms run evs
    by (intro that [of front resp]) (auto simp: produces_def demo_production_def list_all_iff comp_def)
qed

lemma every_request_settles_witness:
  "(\<exists>front resp. fst (route_events_with_deadline 0 60 (demo_production 40)) = front @ [DoneEv False resp]
       \<and> (\<forall>x \<in> set front. \<not> settles x))
   \<and> (\<exists>front e. fst (route_events_with_deadline 0 (-1) (demo_production 0)) = front @ [e] \<and> settles e)"
proof
  obtain evs en where run: "route_events_with_deadline 0 60 (demo_production 40) = (evs, en)" by fastforce
  obtain front resp where ev: "pd_events (demo_production 40) = map (\<lambda>e. (0, e)) front @ [(40, DoneEv False resp)]"
    and p: "produces demo_events_world (demo_request [''accessible'', ''fastest'']) (demo_production 40)"
    and l: "pd_last (demo_production 40) = 0"
    by (rule demo_production_facts [of 40]) auto
  have "spent_on (pd_events (demo_production 40)) = 40" unfolding ev by (simp add: spent_on_def comp_def)
  then have "(evs, en) = route_events demo_events_world (demo_request [''accessible'', ''fastest''])
      \<and> (en = Finished \<longrightarrow> (\<exists>front resp. evs = front @ [DoneEv False resp] \<and> (\<forall>x \<in> set front. \<not> settles x)))"
    using every_request_settles [OF p run] l by simp
  moreover from this have "en = Finished" using demo_finishes by (metis snd_conv)
  ultimately have "\<exists>front resp. evs = front @ [DoneEv False resp] \<and> (\<forall>x \<in> set front. \<not> settles x)" by blast
  then show "\<exists>front resp. fst (route_events_with_deadline 0 60 (demo_production 40)) = front @ [DoneEv False resp]
       \<and> (\<forall>x \<in> set front. \<not> settles x)" unfolding run by simp
next
  obtain evs en where run: "route_events_with_deadline 0 (-1) (demo_production 0) = (evs, en)" by fastforce
  have p: "produces demo_events_world (demo_request [''accessible'', ''fastest'']) (demo_production 0)"
    by (rule demo_production_facts [of 0]) auto
  have "snd (route_events demo_events_world (demo_request [''accessible'', ''fastest''])) = Finished" using demo_finishes by auto
  then show "\<exists>front e. fst (route_events_with_deadline 0 (-1) (demo_production 0)) = front @ [e] \<and> settles e"
    using every_request_settles [OF p run] run by (cases en) auto
qed

text \<open>
  An answer can be taken back. The budget is tested before the pull that would find the end, so
  when the full answer arrives with the very last of the time it is followed by the deadline's own
  event: a second answer, cut off and apologising, or an error, after the complete one was sent.
\<close>

theorem answer_can_be_taken_back:
  assumes "list_all (\<lambda>(d, e). 0 \<le> d) es" and "0 < d" and "pd_events p = es @ [(d, DoneEv False resp)]"
    and "spent_on es + d = limit"
  shows "route_events_with_deadline rate limit p
    = (map snd es @ [DoneEv False resp, deadline_event rate (shown_routes (map snd es))], Finished)"
  using assms drive_through [OF assms(1), of limit rate "[]" "[(d, DoneEv False resp)]" "pd_last p" "pd_ending p"]
  by (simp add: route_events_with_deadline_def cut_off_def shown_routes_def)

lemma answer_can_be_taken_back_witness:
  "\<exists>front resp. route_events_with_deadline 0 40 (demo_production 40)
     = (front @ [DoneEv False resp, deadline_event 0 (shown_routes front)], Finished)"
proof -
  obtain front resp where ev: "pd_events (demo_production 40) = map (\<lambda>e. (0, e)) front @ [(40, DoneEv False resp)]"
    by (rule demo_production_facts [of 40]) auto
  have "spent_on (map (\<lambda>e. (0, e)) front) = 0" by (simp add: spent_on_def comp_def)
  then have "route_events_with_deadline 0 40 (demo_production 40)
      = (front @ [DoneEv False resp, deadline_event 0 (shown_routes front)], Finished)"
    using answer_can_be_taken_back [OF _ _ ev, of 40 0] by (simp add: list_all_iff comp_def)
  then show ?thesis by blast
qed

section \<open>What a cut-off answer holds\<close>

fun last_look :: "event list \<Rightarrow> string \<Rightarrow> wire_route option" where
  "last_look [] i = None"
| "last_look (RouteEv r # es) i = (case last_look es i of Some q \<Rightarrow> Some q | None \<Rightarrow> if wr_id r = i then Some r else None)"
| "last_look (Progress n t # es) i = last_look es i"
| "last_look (DoneEv p d # es) i = last_look es i"
| "last_look (ErrorEv k m # es) i = last_look es i"

lemma map_of_shown: "map_of (fold note_route evs ready) i = (case last_look evs i of Some r \<Rightarrow> Some r | None \<Rightarrow> map_of ready i)"
proof (induction evs arbitrary: ready)
  case (Cons e evs)
  then show ?case by (cases e) (auto simp: update_conv split: option.splits)
qed simp

lemma last_look_id: "last_look evs i = Some r \<Longrightarrow> wr_id r = i"
  by (induction evs i arbitrary: r rule: last_look.induct) (auto split: option.splits if_splits)

lemma distinct_shown: "distinct (map fst ready) \<Longrightarrow> distinct (map fst (fold note_route evs ready))"
proof (induction evs arbitrary: ready)
  case (Cons e evs)
  then show ?case by (cases e) (simp_all add: distinct_update)
qed simp

text \<open>
  A cut-off answer holds what was shown. It has a route exactly for each objective whose newest card
  has a line on the map, and it is that card, unchanged; there is at least one, no objective twice; and
  it says that it was cut off.
\<close>

theorem cut_off_answer_is_what_was_shown:
  assumes "deadline_event rate (shown_routes evs) = DoneEv partial resp"
  shows "partial \<and> rp_reason resp = Some DEADLINE_NOTE \<and> rp_routes resp \<noteq> [] \<and> distinct (map wr_id (rp_routes resp))
    \<and> (\<forall>r. r \<in> set (rp_routes resp) \<longleftrightarrow> last_look evs (wr_id r) = Some r \<and> wr_geometry r \<noteq> [])"
proof -
  have resp: "partial" "rp_routes resp = usable_routes (shown_routes evs)" "rp_reason resp = Some DEADLINE_NOTE" "usable_routes (shown_routes evs) \<noteq> []"
    using assms by (auto simp: deadline_event_def split: if_splits)
  have look: "map_of (shown_routes evs) i = last_look evs i" for i
    using map_of_shown [of evs "[]" i] by (simp add: shown_routes_def split: option.splits)
  have dist: "distinct (map fst (shown_routes evs))" using distinct_shown [of "[]" evs] by (simp add: shown_routes_def)
  have pairs: "(i, r) \<in> set (shown_routes evs) \<longleftrightarrow> last_look evs i = Some r" for i r
    using map_of_eq_Some_iff [OF dist] look by metis
  then have ids: "wr_id r = i" if "(i, r) \<in> set (shown_routes evs)" for i r using that last_look_id by blast
  then have "\<forall>x \<in> set (shown_routes evs). fst x = wr_id (snd x)" by fastforce
  then have "map fst (shown_routes evs) = map wr_id (map snd (shown_routes evs))" by simp
  then have "distinct (map wr_id (map snd (shown_routes evs)))" using dist by metis
  then have "distinct (map wr_id (usable_routes (shown_routes evs)))"
    unfolding usable_routes_def by (rule distinct_map_filter)
  moreover have "r \<in> set (usable_routes (shown_routes evs)) \<longleftrightarrow> last_look evs (wr_id r) = Some r \<and> wr_geometry r \<noteq> []" for r
  proof -
    have "r \<in> snd ` set (shown_routes evs) \<longleftrightarrow> (wr_id r, r) \<in> set (shown_routes evs)"
    proof
      assume "r \<in> snd ` set (shown_routes evs)"
      then obtain i where i: "(i, r) \<in> set (shown_routes evs)" by auto
      then have "wr_id r = i" by (rule ids)
      with i show "(wr_id r, r) \<in> set (shown_routes evs)" by simp
    qed (rule rev_image_eqI, auto)
    then show ?thesis by (simp add: usable_routes_def pairs)
  qed
  ultimately show ?thesis using resp by simp
qed

lemma cut_off_answer_is_what_was_shown_witness:
  "\<exists>resp. deadline_event 0 (shown_routes [RouteEv ((demo_card ''fastest'' 30)\<lparr>wr_geometry := [(0, 0)]\<rparr>)]) = DoneEv True resp
     \<and> map wr_id (rp_routes resp) = [''fastest'']"
proof -
  let ?r = "(demo_card ''fastest'' 30)\<lparr>wr_geometry := [(0, 0)]\<rparr>"
  obtain resp where d: "deadline_event 0 (shown_routes [RouteEv ?r]) = DoneEv True resp"
    by (simp add: deadline_event_def shown_routes_def usable_routes_def)
  have "distinct (map wr_id (rp_routes resp)) \<and> rp_routes resp \<noteq> []
      \<and> (\<forall>r. r \<in> set (rp_routes resp) \<longrightarrow> r = ?r)"
    using cut_off_answer_is_what_was_shown [OF d] by (auto split: if_splits)
  then have "map wr_id (rp_routes resp) = [wr_id ?r]"
    by (cases "rp_routes resp"; cases "tl (rp_routes resp)") auto
  moreover have "wr_id ?r = ''fastest''" by (simp add: demo_card_def blocked_route_def)
  ultimately show ?thesis using d by auto
qed

end
