(* ===== verification/Streaming.thy ===== *)
theory Streaming
  imports Serve
begin

text \<open>
  backend/main.py, \<open>_stream\<close>: one server-sent event stream as a step relation, and the streams of an
  instance with the counter the shutdown waits on. Between two steps a stream is at the head of its
  loop, waiting for the next event, suspended on a frame the client has not taken yet, or writing the
  answer to the cache. A cancellation arrives at an await, that is while waiting or writing; a client
  that is gone while a frame is on its way closes the generator at its yield. Whether a write to the
  cache succeeds is decided outside (a full disk), on top of what the cache itself refuses.
\<close>

section \<open>Frames\<close>

definition event_json :: "(moment \<Rightarrow> string) \<Rightarrow> event \<Rightarrow> json" where
  "event_json stamp e =
     (case e of
        Progress pct msg \<Rightarrow> JObj [(''type'', JStr ''progress''), (''pct'', JNum (of_int pct)), (''text'', JStr msg),
          (''segments_scored'', JNum 0)]
      | RouteEv r \<Rightarrow> JObj [(''type'', JStr ''route''), (''route'', dump_route r)]
      | DoneEv partial p \<Rightarrow> JObj ([(''type'', JStr ''done'')] @ (if partial then [(''partial'', JBool True)] else [])
          @ [(''payload'', dump_response stamp p)])
      | ErrorEv kind message \<Rightarrow> JObj [(''type'', JStr ''error''), (''kind'', JStr kind), (''message'', JStr message)])"

definition sse :: "(json \<Rightarrow> string) \<Rightarrow> json \<Rightarrow> string" where
  "sse dumps j = ''data: '' @ dumps j @ [CHR 0x0A, CHR 0x0A]"

datatype frame = Keepalive | Frame event

definition frame_text :: "(json \<Rightarrow> string) \<Rightarrow> (moment \<Rightarrow> string) \<Rightarrow> frame \<Rightarrow> string" where
  "frame_text dumps stamp f =
     (case f of Keepalive \<Rightarrow> '': keepalive'' @ [CHR 0x0A, CHR 0x0A] | Frame e \<Rightarrow> sse dumps (event_json stamp e))"

definition shutting_down_message :: string where
  "shutting_down_message = ''This server is restarting. Your request was not finished. Please try again in a moment.''"

definition stream_failed_message :: string where
  "stream_failed_message = ''Something went wrong while building your routes. Please try again.''"

section \<open>One stream\<close>

datatype point = Head | Waiting | Sending | Writing | Over

record stream =
  sm_key :: string
  sm_todo :: "event list"
  sm_ending :: ending
  sm_point :: point
  sm_sent :: "frame list"
  sm_finished :: "routes_response option"
  sm_owed :: "routes_response option"
  sm_cached :: bool

definition new_stream :: "string \<Rightarrow> event list \<times> ending \<Rightarrow> stream" where
  "new_stream key p = \<lparr>sm_key = key, sm_todo = fst p, sm_ending = snd p, sm_point = Head, sm_sent = [],
     sm_finished = None, sm_owed = None, sm_cached = False\<rparr>"

definition send_frame :: "frame \<Rightarrow> stream \<Rightarrow> stream" where
  "send_frame f s = s\<lparr>sm_sent := sm_sent s @ [f]\<rparr>"

definition closed_with :: "string \<Rightarrow> string \<Rightarrow> stream \<Rightarrow> stream" where
  "closed_with kind message s = (send_frame (Frame (ErrorEv kind message)) s)\<lparr>sm_point := Over\<rparr>"

text \<open>The error frame a failed request leaves; anything but a \<open>RoutingError\<close> is an internal error.\<close>

definition failure_frame :: "routing_error \<Rightarrow> string \<times> string" where
  "failure_frame e = (if is_crash_error e then (''internal'', stream_failed_message) else (error_kind e, re_message e))"

fun owed_for :: "event \<Rightarrow> routes_response option" where
  "owed_for (DoneEv partial p) = (if partial then None else Some p)"
| "owed_for e = None"

fun finished_by :: "event \<Rightarrow> routes_response option \<Rightarrow> routes_response option" where
  "finished_by (DoneEv partial p) f = Some p"
| "finished_by e f = f"

definition keep_answer :: "(routes_response \<Rightarrow> json) \<Rightarrow> int \<Rightarrow> int \<Rightarrow> string \<Rightarrow> routes_response \<Rightarrow> cache \<Rightarrow> cache option" where
  "keep_answer dump ttl now key p c = (case put_route key (dump p) ttl now c of Inl e \<Rightarrow> None | Inr c' \<Rightarrow> Some c')"

datatype label = Turn | Idle | Deliver | Wrote | Lost | Ended | Goodbye | Cancelled | Abandoned

inductive stream_step :: "(routes_response \<Rightarrow> json) \<Rightarrow> int \<Rightarrow> bool \<Rightarrow> label \<Rightarrow> cache \<times> stream \<Rightarrow> cache \<times> stream \<Rightarrow> bool"
  for dump ttl where
  goodbye: "sm_point s = Head \<Longrightarrow>
     stream_step dump ttl True Goodbye (c, s) (c, closed_with ''shutting_down'' shutting_down_message s)"
| turn: "sm_point s = Head \<Longrightarrow> stream_step dump ttl False Turn (c, s) (c, s\<lparr>sm_point := Waiting\<rparr>)"
| idle: "sm_point s = Waiting \<Longrightarrow>
     stream_step dump ttl shutting Idle (c, s) (c, (send_frame Keepalive s)\<lparr>sm_point := Sending\<rparr>)"
| deliver: "sm_point s = Waiting \<Longrightarrow> sm_todo s = e # es \<Longrightarrow>
     stream_step dump ttl shutting Deliver (c, s)
       (c, (send_frame (Frame e) s)\<lparr>sm_todo := es, sm_point := Sending, sm_owed := owed_for e,
             sm_finished := finished_by e (sm_finished s)\<rparr>)"
| taken: "sm_point s = Sending \<Longrightarrow> sm_owed s = None \<Longrightarrow>
     stream_step dump ttl shutting Turn (c, s) (c, s\<lparr>sm_point := Head\<rparr>)"
| start_write: "sm_point s = Sending \<Longrightarrow> sm_owed s = Some p \<Longrightarrow>
     stream_step dump ttl shutting Turn (c, s) (c, s\<lparr>sm_point := Writing\<rparr>)"
| wrote: "sm_point s = Writing \<Longrightarrow> sm_owed s = Some p \<Longrightarrow> keep_answer dump ttl now (sm_key s) p c = Some c' \<Longrightarrow>
     stream_step dump ttl shutting Wrote (c, s) (c', s\<lparr>sm_point := Head, sm_owed := None, sm_cached := True\<rparr>)"
| lost: "sm_point s = Writing \<Longrightarrow> sm_owed s = Some p \<Longrightarrow>
     stream_step dump ttl shutting Lost (c, s) (c, s\<lparr>sm_point := Head, sm_owed := None\<rparr>)"
| finish: "sm_point s = Waiting \<Longrightarrow> sm_todo s = [] \<Longrightarrow> sm_ending s = Finished \<Longrightarrow>
     stream_step dump ttl shutting Ended (c, s) (c, s\<lparr>sm_point := Over\<rparr>)"
| fail: "sm_point s = Waiting \<Longrightarrow> sm_todo s = [] \<Longrightarrow> sm_ending s = Failed e \<Longrightarrow> failure_frame e = (kind, message) \<Longrightarrow>
     stream_step dump ttl shutting Ended (c, s) (c, closed_with kind message s)"
| cancel_kept: "sm_point s \<in> {Waiting, Writing} \<Longrightarrow> sm_finished s = Some p \<Longrightarrow> \<not> sm_cached s
     \<Longrightarrow> keep_answer dump ttl now (sm_key s) p c = Some c' \<Longrightarrow>
     stream_step dump ttl shutting Cancelled (c, s) (c', s\<lparr>sm_point := Over\<rparr>)"
| cancel_lost: "sm_point s \<in> {Waiting, Writing} \<Longrightarrow>
     stream_step dump ttl shutting Cancelled (c, s) (c, s\<lparr>sm_point := Over\<rparr>)"
| abandon: "sm_point s = Sending \<Longrightarrow>
     stream_step dump ttl shutting Abandoned (c, s) (c, s\<lparr>sm_point := Over\<rparr>)"

inductive_cases stream_stepE [consumes 1, case_names goodbye turn idle deliver taken start_write wrote lost finish fail cancel_kept cancel_lost abandon]:
   "stream_step dump ttl shutting l (c, s) (c', s')"

text \<open>A run: what happened, and whether the instance was shutting down at the time.\<close>

inductive stream_run :: "(routes_response \<Rightarrow> json) \<Rightarrow> int \<Rightarrow> (bool \<times> label) list \<Rightarrow> cache \<times> stream \<Rightarrow> cache \<times> stream \<Rightarrow> bool"
  for dump ttl where
  run_nil: "stream_run dump ttl [] x x"
| run_snoc: "stream_run dump ttl ls x y \<Longrightarrow> stream_step dump ttl b l y z \<Longrightarrow> stream_run dump ttl (ls @ [(b, l)]) x z"

section \<open>Nothing is lost on the way\<close>

fun frame_event :: "frame \<Rightarrow> event list" where
  "frame_event Keepalive = []"
| "frame_event (Frame e) = [e]"

definition sent_events :: "stream \<Rightarrow> event list" where
  "sent_events s = concat (map frame_event (sm_sent s))"

definition stream_ok :: "event list \<Rightarrow> ending \<Rightarrow> stream \<Rightarrow> bool" where
  "stream_ok evs en s \<longleftrightarrow> sm_ending s = en
     \<and> (sm_point s \<noteq> Over \<longrightarrow> sent_events s @ sm_todo s = evs)
     \<and> (sm_point s = Over \<longrightarrow> (\<exists>k rest. sent_events s = take k evs @ rest \<and> length rest \<le> 1 \<and> (\<forall>e \<in> set rest. \<exists>kd m. e = ErrorEv kd m)))
     \<and> (\<forall>p. sm_owed s = Some p \<longrightarrow> sm_finished s = Some p \<and> DoneEv False p \<in> set evs)
     \<and> (\<forall>p. sm_finished s = Some p \<longrightarrow> (\<exists>partial. DoneEv partial p \<in> set evs \<and> DoneEv partial p \<in> set (sent_events s)))
     \<and> (sm_point s = Writing \<longrightarrow> sm_owed s \<noteq> None)"

lemma sent_simps [simp]:
  "sent_events (send_frame f s) = sent_events s @ frame_event f"
  "sent_events (closed_with k m s) = sent_events s @ [ErrorEv k m]"
  "sent_events (s\<lparr>sm_point := p\<rparr>) = sent_events s"
  "sent_events (s\<lparr>sm_todo := t, sm_point := p, sm_owed := w, sm_finished := g\<rparr>) = sent_events s"
  "sent_events (s\<lparr>sm_point := p, sm_owed := w, sm_cached := b\<rparr>) = sent_events s"
  "sent_events (s\<lparr>sm_point := p, sm_owed := w\<rparr>) = sent_events s"
  by (simp_all add: sent_events_def send_frame_def closed_with_def)

lemma closed_with_simps [simp]:
  "sm_point (closed_with k m s) = Over" "sm_ending (closed_with k m s) = sm_ending s"
  "sm_owed (closed_with k m s) = sm_owed s" "sm_finished (closed_with k m s) = sm_finished s"
  "sm_key (closed_with k m s) = sm_key s" "sm_todo (closed_with k m s) = sm_todo s"
  "sm_todo (send_frame f s) = sm_todo s" "sm_ending (send_frame f s) = sm_ending s"
  "sm_owed (send_frame f s) = sm_owed s" "sm_finished (send_frame f s) = sm_finished s"
  "sm_key (send_frame f s) = sm_key s" "sm_point (send_frame f s) = sm_point s"
  by (simp_all add: closed_with_def send_frame_def)

lemma owed_for_Some: "owed_for e = Some p \<longleftrightarrow> e = DoneEv False p"
  by (cases e) auto

lemma finished_by_Some: "finished_by e f = Some p \<Longrightarrow> (\<exists>partial. e = DoneEv partial p) \<or> f = Some p"
  by (cases e) auto

lemma step_ok:
  assumes "stream_step dump ttl b l (c, s) (c', s')" and "stream_ok evs en s"
  shows "stream_ok evs en s'"
  using assms(1)
proof (cases rule: stream_stepE)
  case (deliver e es)
  have all: "evs = sent_events s @ e # es" using assms(2) deliver by (simp add: stream_ok_def)
  have old: "\<exists>partial. DoneEv partial p \<in> set (sent_events s)" if "sm_finished s = Some p" for p
    using that assms(2) unfolding stream_ok_def by blast
  have s': "sm_ending s' = en" "sm_point s' = Sending" "sm_todo s' = es" "sm_owed s' = owed_for e"
      "sm_finished s' = finished_by e (sm_finished s)" "sent_events s' = sent_events s @ [e]"
    using assms(2) deliver by (simp_all add: stream_ok_def)
  have fin: "\<exists>partial. DoneEv partial p \<in> set evs \<and> DoneEv partial p \<in> set (sent_events s')" if "sm_finished s' = Some p" for p
    using finished_by_Some [of e "sm_finished s" p] that old [of p] by (auto simp: s' all)
  have owed: "sm_finished s' = Some p \<and> DoneEv False p \<in> set evs" if "sm_owed s' = Some p" for p
    using that by (simp add: s' all owed_for_Some)
  show ?thesis
    unfolding stream_ok_def using fin owed by (simp add: s'(1-3,6) all s'(2))
next
  case goodbye
  then show ?thesis using assms(2) unfolding stream_ok_def by (auto intro!: exI [of _ "length (sent_events s)"])
next
  case (fail e kind message)
  then show ?thesis using assms(2) unfolding stream_ok_def by (auto intro!: exI [of _ "length (sent_events s)"])
qed (use assms(2) in \<open>auto simp: stream_ok_def intro!: exI [of _ "length (sent_events s)"] exI [of _ "[]"]\<close>)

lemma run_ok:
  assumes "stream_run dump ttl ls x y" and "stream_ok evs en (snd x)"
  shows "stream_ok evs en (snd y)"
  using assms
proof (induction rule: stream_run.induct)
  case (run_snoc ls x y b l z)
  then show ?case using step_ok by (metis prod.collapse)
qed

text \<open>A stream that is over takes no further step, so what ended it was the last thing that happened.\<close>

lemma over_stops: "stream_step dump ttl b l x y \<Longrightarrow> sm_point (snd x) \<noteq> Over"
  by (induction rule: stream_step.induct) auto

lemma new_stream_ok: "stream_ok evs en (new_stream key (evs, en))"
  by (simp add: stream_ok_def new_stream_def sent_events_def)

lemma step_key:
  "stream_step dump ttl b l x y \<Longrightarrow> sm_key (snd y) = sm_key (snd x)"
  by (induction rule: stream_step.induct) (auto simp: send_frame_def)

lemma run_key: "stream_run dump ttl ls x y \<Longrightarrow> sm_key (snd y) = sm_key (snd x)"
  by (induction rule: stream_run.induct) (auto dest: step_key)

text \<open>
  C5 A stream loses nothing and reorders nothing. Whatever happens on the way (keepalives in any
  number, writes that fail, a shutdown, a hang-up), the events the client has been sent are at every
  moment the first so many of what was produced, in order, each once, followed by at most one error
  frame; and while the stream is open, what was sent and what is still to come make up all of it.
\<close>

theorem a_stream_loses_nothing:
  assumes "stream_run dump ttl ls (c, new_stream key (evs, en)) (c', s)"
  shows "(sm_point s \<noteq> Over \<longrightarrow> sent_events s @ sm_todo s = evs)
    \<and> (\<exists>k rest. sent_events s = take k evs @ rest \<and> length rest \<le> 1 \<and> (\<forall>e \<in> set rest. \<exists>kind message. e = ErrorEv kind message))"
proof -
  have ok: "stream_ok evs en s" using run_ok [OF assms] new_stream_ok by simp
  show ?thesis
  proof (cases "sm_point s = Over")
    case False
    then have all: "sent_events s @ sm_todo s = evs" using ok by (simp add: stream_ok_def)
    then have "sent_events s = take (length (sent_events s)) evs @ []" by (metis append_Nil2 append_eq_conv_conj)
    then have "\<exists>k rest. sent_events s = take k evs @ rest \<and> length rest \<le> 1 \<and> (\<forall>e \<in> set rest. \<exists>kind message. e = ErrorEv kind message)"
      by (metis (no_types, lifting) bot_nat_0.extremum empty_iff list.size(3) set_empty)
    then show ?thesis using all by blast
  qed (use ok in \<open>simp add: stream_ok_def\<close>)
qed

text \<open>One keepalive, one event, and the client is gone.\<close>

lemma demo_stream_run:
  "stream_run dump ttl [(False, Turn), (False, Idle), (False, Turn), (False, Turn), (False, Deliver), (False, Abandoned)]
     (c, new_stream key ([Progress 5 ''Looking''], Finished))
     (c, \<lparr>sm_key = key, sm_todo = [], sm_ending = Finished, sm_point = Over, sm_sent = [Keepalive, Frame (Progress 5 ''Looking'')],
        sm_finished = None, sm_owed = None, sm_cached = False\<rparr>)"
proof -
  let ?s = "new_stream key ([Progress 5 ''Looking''], Finished)"
  let ?st = "\<lambda>p t f. ?s\<lparr>sm_point := p, sm_todo := t, sm_sent := f\<rparr>"
  have "stream_run dump ttl [] (c, ?s) (c, ?s)" by (rule run_nil)
  from run_snoc [OF this turn] have "stream_run dump ttl [(False, Turn)] (c, ?s) (c, ?s\<lparr>sm_point := Waiting\<rparr>)"
    by (simp add: new_stream_def)
  from run_snoc [OF this idle, of False] have "stream_run dump ttl [(False, Turn), (False, Idle)] (c, ?s) (c, ?s\<lparr>sm_point := Sending, sm_sent := [Keepalive]\<rparr>)"
    by (simp add: new_stream_def send_frame_def)
  from run_snoc [OF this taken, of False] have "stream_run dump ttl [(False, Turn), (False, Idle), (False, Turn)] (c, ?s) (c, ?s\<lparr>sm_point := Head, sm_sent := [Keepalive]\<rparr>)"
    by (simp add: new_stream_def)
  from run_snoc [OF this turn] have "stream_run dump ttl [(False, Turn), (False, Idle), (False, Turn), (False, Turn)] (c, ?s) (c, ?s\<lparr>sm_point := Waiting, sm_sent := [Keepalive]\<rparr>)"
    by (simp add: new_stream_def)
  from run_snoc [OF this deliver [where e = "Progress 5 ''Looking''" and es = "[]"], of False]
  have "stream_run dump ttl [(False, Turn), (False, Idle), (False, Turn), (False, Turn), (False, Deliver)] (c, ?s)
      (c, ?s\<lparr>sm_point := Sending, sm_todo := [], sm_sent := [Keepalive, Frame (Progress 5 ''Looking'')]\<rparr>)"
    by (simp add: new_stream_def send_frame_def)
  from run_snoc [OF this abandon, of False] show ?thesis by (simp add: new_stream_def)
qed

lemma a_stream_loses_nothing_witness:
  "\<exists>k rest. [Progress 5 ''Looking''] = take k [Progress 5 ''Looking''] @ rest \<and> length (rest :: event list) \<le> 1"
  using a_stream_loses_nothing [OF demo_stream_run [of "\<lambda>p. JNull" 60 empty_cache "''k''"]]
  by (fastforce simp: sent_events_def)

section \<open>What is shared\<close>

text \<open>
  Only complete answers are shared, as long as nobody is cancelled. Outside a cancellation the
  cache changes in one kind of step only, and what is written then, under the request's own key, is a
  complete answer that its own client has already been sent; a cut-off answer is never written.
\<close>

theorem complete_answers_are_shared:
  assumes "stream_run dump ttl ls (c, new_stream key (evs, en)) (c1, s1)" and "stream_step dump ttl b l (c1, s1) (c2, s2)"
    and "l \<noteq> Cancelled"
  shows "c2 = c1 \<or> l = Wrote \<and> (\<exists>p now. DoneEv False p \<in> set evs \<and> (\<exists>partial. DoneEv partial p \<in> set (sent_events s1))
    \<and> put_route key (dump p) ttl now c1 = Inr c2)"
proof -
  have ok: "stream_ok evs en s1" using run_ok [OF assms(1)] new_stream_ok by simp
  have key: "sm_key s1 = key" using run_key [OF assms(1)] by (simp add: new_stream_def)
  from assms(2) show ?thesis
  proof (cases rule: stream_stepE)
    case (wrote p now)
    then have "sm_finished s1 = Some p" "DoneEv False p \<in> set evs" using ok by (auto simp: stream_ok_def)
    then show ?thesis using ok wrote key by (auto simp: stream_ok_def keep_answer_def split: sum.splits)
  qed (use assms(3) in auto)
qed

definition empty_answer :: routes_response where
  "empty_answer = \<lparr>rp_routes = [], rp_best_departure = None, rp_reason = None, rp_segments_scored = 0, rp_hit_rate = 0\<rparr>"

lemma keep_answer_open: "\<not> c_closed c \<Longrightarrow> keep_answer dump ttl now key p c = Some (route_put key (dump p) ttl now c)"
  by (simp add: keep_answer_def store_defs)

lemma answer_run:
  "stream_run dump ttl [(False, Turn), (False, Deliver), (False, Turn)]
      (c, new_stream key ([DoneEv partial p], Finished))
      (c, \<lparr>sm_key = key, sm_todo = [], sm_ending = Finished, sm_point = (if partial then Head else Writing),
         sm_sent = [Frame (DoneEv partial p)], sm_finished = Some p, sm_owed = (if partial then None else Some p), sm_cached = False\<rparr>)"
proof -
  let ?s = "new_stream key ([DoneEv partial p], Finished)"
  have "stream_run dump ttl [] (c, ?s) (c, ?s)" by (rule run_nil)
  from run_snoc [OF this turn] have "stream_run dump ttl [(False, Turn)] (c, ?s) (c, ?s\<lparr>sm_point := Waiting\<rparr>)"
    by (simp add: new_stream_def)
  from run_snoc [OF this deliver [where e = "DoneEv partial p" and es = "[]"], of False]
  have "stream_run dump ttl [(False, Turn), (False, Deliver)] (c, ?s)
      (c, \<lparr>sm_key = key, sm_todo = [], sm_ending = Finished, sm_point = Sending, sm_sent = [Frame (DoneEv partial p)],
         sm_finished = Some p, sm_owed = (if partial then None else Some p), sm_cached = False\<rparr>)"
    by (simp add: new_stream_def send_frame_def)
  from run_snoc [OF this taken, of False] run_snoc [OF this start_write, of p False] show ?thesis
    by (cases partial) simp_all
qed

lemma complete_answers_are_shared_witness:
  "\<exists>now. put_route ''k'' JNull 60 now empty_cache = Inr (route_put ''k'' JNull 60 0 empty_cache)"
proof -
  let ?dump = "\<lambda>p :: routes_response. JNull"
  let ?s = "\<lparr>sm_key = ''k'', sm_todo = [], sm_ending = Finished, sm_point = Writing,
         sm_sent = [Frame (DoneEv False empty_answer)], sm_finished = Some empty_answer, sm_owed = Some empty_answer, sm_cached = False\<rparr>"
  have open_cache: "\<not> c_closed empty_cache" by (simp add: empty_cache_def)
  let ?c2 = "route_put ''k'' JNull 60 0 empty_cache"
  have run: "stream_run ?dump 60 [(False, Turn), (False, Deliver), (False, Turn)]
      (empty_cache, new_stream ''k'' ([DoneEv False empty_answer], Finished)) (empty_cache, ?s)"
    using answer_run [of ?dump 60 empty_cache "''k''" False empty_answer] by simp
  have "stream_step ?dump 60 False Wrote (empty_cache, ?s) (?c2, ?s\<lparr>sm_point := Head, sm_owed := None, sm_cached := True\<rparr>)"
    by (rule wrote [where p = empty_answer and now = 0]) (simp_all add: keep_answer_open [OF open_cache])
  moreover have "?c2 \<noteq> empty_cache"
    by (simp add: store_defs empty_cache_def maybe_sweep_def SWEEP_EVERY_N_WRITES_def Let_def)
  ultimately show ?thesis using complete_answers_are_shared [OF run, of False Wrote ?c2] by auto
qed

text \<open>What was finished is the last answer that was sent; only a whole answer is ever owed to the cache.\<close>

lemma step_finished:
  assumes "stream_step dump ttl b l (c, s) (c', s')" and "sm_point s' \<noteq> Over"
    and "sm_finished s = fold finished_by (sent_events s) None"
  shows "sm_finished s' = fold finished_by (sent_events s') None"
  using assms(1) by (cases rule: stream_stepE) (use assms(2, 3) in auto)

lemma step_keeps_cut_off:
  assumes "stream_step dump ttl b l (c, s) (c', s')" and "stream_ok evs en s" and "\<forall>q. DoneEv False q \<notin> set evs"
    and "l \<noteq> Cancelled" and "\<not> sm_cached s"
  shows "c' = c \<and> \<not> sm_cached s'"
  using assms(1)
proof (cases rule: stream_stepE)
  case (wrote p now)
  then show ?thesis using assms(2, 3) by (auto simp: stream_ok_def)
qed (use assms(4, 5) in \<open>auto simp: send_frame_def closed_with_def\<close>)

lemma cut_off_run:
  assumes "stream_run dump ttl ls x y" and "stream_ok evs en (snd x)" and "\<forall>q. DoneEv False q \<notin> set evs"
    and "\<not> sm_cached (snd x)" and "sm_finished (snd x) = fold finished_by (sent_events (snd x)) None" and "sm_point (snd y) \<noteq> Over"
  shows "fst y = fst x \<and> \<not> sm_cached (snd y) \<and> sm_finished (snd y) = fold finished_by (sent_events (snd y)) None"
  using assms
proof (induction rule: stream_run.induct)
  case (run_snoc ls x y b l z)
  obtain c s where y: "y = (c, s)" by fastforce
  obtain c' s' where z: "z = (c', s')" by fastforce
  note st = run_snoc(2) [unfolded y z]
  have "sm_point (snd y) \<noteq> Over" using over_stops [OF run_snoc(2)] .
  then have IH: "c = fst x" "\<not> sm_cached s" "sm_finished s = fold finished_by (sent_events s) None"
    using run_snoc by (simp_all add: y)
  have "l \<noteq> Cancelled" using st run_snoc(8) by (cases rule: stream_stepE) (auto simp: z)
  moreover have "stream_ok evs en s" using run_ok [OF run_snoc(1)] run_snoc(4) by (simp add: y)
  ultimately show ?case
    using step_keeps_cut_off [OF st _ run_snoc(5)] step_finished [OF st] IH run_snoc(8) by (simp add: z)
qed simp

lemma fold_finished:
  "\<forall>e \<in> set es. \<forall>partial q. e = DoneEv partial q \<longrightarrow> q = p \<Longrightarrow> DoneEv partial p \<in> set es \<or> f = Some p
    \<Longrightarrow> fold finished_by es f = Some p"
proof (induction es arbitrary: f)
  case (Cons e es)
  show ?case
  proof (cases "\<exists>partial q. e = DoneEv partial q")
    case True
    then have "finished_by e f = Some p" using Cons.prems(1) by auto
    then show ?thesis using Cons.IH [of "finished_by e f"] Cons.prems(1) by simp
  next
    case False
    then have "finished_by e f = f" by (cases e) auto
    then show ?thesis using Cons.IH [of f] Cons.prems False by auto
  qed
qed simp

text \<open>
  C30 A hang-up shares a cut-off answer. Take any stream whose production has one answer only, one that
  the deadline cut off, in any run, once that answer was sent and the stream waits for what is next. The
  run has left the cache as it was, and so does every step that is no cancellation: the flag is honoured.
  But if the client hangs up now, the cancellation keeps the cut-off answer (the step is possible on any
  cache in order), and until it expires it is what the cache has under the request's key.
\<close>

theorem a_hang_up_shares_a_cut_off_answer:
  assumes "stream_run dump ttl ls (c, new_stream key (evs, en)) (c1, s1)" and "sm_point s1 = Waiting"
    and "DoneEv True p \<in> set (sent_events s1)" and "\<forall>partial q. DoneEv partial q \<in> set evs \<longrightarrow> partial \<and> q = p"
    and "route_ready now c1" and "0 < ttl"
  shows "c1 = c
    \<and> (\<forall>b l c2 s2. stream_step dump ttl b l (c1, s1) (c2, s2) \<and> l \<noteq> Cancelled \<longrightarrow> c2 = c)
    \<and> (\<forall>b. stream_step dump ttl b Cancelled (c1, s1) (route_put key (dump p) ttl now c, s1\<lparr>sm_point := Over\<rparr>))
    \<and> (\<forall>t < now + micros ttl. snd (route_get key t (route_put key (dump p) ttl now c)) = Some (dump p))"
proof -
  have ok: "stream_ok evs en s1" using run_ok [OF assms(1)] new_stream_ok by simp
  have none: "\<forall>q. DoneEv False q \<notin> set evs" using assms(4) by blast
  have run: "c1 = c" "\<not> sm_cached s1" "sm_finished s1 = fold finished_by (sent_events s1) None"
    using cut_off_run [OF assms(1), of evs en] none assms(2) new_stream_ok [of evs en key] by (simp_all add: new_stream_def sent_events_def)
  have "set (sent_events s1) \<subseteq> set evs" using ok assms(2) by (auto simp: stream_ok_def)
  then have fin: "sm_finished s1 = Some p" using assms(3, 4) unfolding run(3) by (intro fold_finished) blast+
  have "keep_answer dump ttl now (sm_key s1) p c1 = Some (route_put key (dump p) ttl now c)"
    using assms(5) run_key [OF assms(1)] by (simp add: keep_answer_open route_ready_def new_stream_def run(1))
  then have "stream_step dump ttl b Cancelled (c1, s1) (route_put key (dump p) ttl now c, s1\<lparr>sm_point := Over\<rparr>)" for b
    using assms(2) fin run(2) by (intro cancel_kept) auto
  moreover have "snd (route_get key t (route_put key (dump p) ttl now c)) = Some (dump p)" if "t < now + micros ttl" for t
    using route_store.live [OF assms(5) _ assms(6) that] by (simp add: run(1))
  moreover have "c2 = c" if "stream_step dump ttl b l (c1, s1) (c2, s2)" "l \<noteq> Cancelled" for b l c2 s2
    using step_keeps_cut_off [OF that(1) ok none that(2) run(2)] run(1) by simp
  ultimately show ?thesis using run(1) by blast
qed

lemma a_hang_up_shares_a_cut_off_answer_witness:
  "snd (route_get ''k'' 5 (route_put ''k'' JNull 60 0 empty_cache)) = Some JNull"
proof -
  let ?dump = "\<lambda>p :: routes_response. JNull"
  let ?s = "\<lparr>sm_key = ''k'', sm_todo = [], sm_ending = Finished, sm_point = Head, sm_sent = [Frame (DoneEv True empty_answer)],
     sm_finished = Some empty_answer, sm_owed = None, sm_cached = False\<rparr>"
  have "stream_run ?dump 60 [(False, Turn), (False, Deliver), (False, Turn)]
      (empty_cache, new_stream ''k'' ([DoneEv True empty_answer], Finished)) (empty_cache, ?s)"
    using answer_run [of ?dump 60 empty_cache "''k''" True empty_answer] by simp
  from run_snoc [OF this turn] have run: "stream_run ?dump 60 [(False, Turn), (False, Deliver), (False, Turn), (False, Turn)]
      (empty_cache, new_stream ''k'' ([DoneEv True empty_answer], Finished)) (empty_cache, ?s\<lparr>sm_point := Waiting\<rparr>)" by simp
  have "route_ready 0 empty_cache" by (simp add: route_ready_def empty_cache_def keyed_def written_before_def)
  then show ?thesis
    using a_hang_up_shares_a_cut_off_answer [OF run, where p = empty_answer and now = 0]
    by (simp add: sent_events_def micros_def)
qed

section \<open>Streams end\<close>

fun point_rank :: "point \<Rightarrow> nat" where
  "point_rank Over = 0" | "point_rank Waiting = 1" | "point_rank Head = 2" | "point_rank Writing = 3" | "point_rank Sending = 4"

definition work_left :: "stream \<Rightarrow> nat" where
  "work_left s = 4 * length (sm_todo s) + point_rank (sm_point s)"

lemma step_work:
  "stream_step dump ttl b l x y \<Longrightarrow> work_left (snd y) + (if l = Idle then 0 else 1) \<le> work_left (snd x) + (if l = Idle then 3 else 0)"
  by (induction rule: stream_step.induct) (auto simp: work_left_def send_frame_def closed_with_def)

definition idles :: "(bool \<times> label) list \<Rightarrow> nat" where
  "idles ls = length (filter (\<lambda>x. snd x = Idle) ls)"

lemma run_work: "stream_run dump ttl ls x y \<Longrightarrow> length ls + work_left (snd y) \<le> work_left (snd x) + 4 * idles ls"
proof (induction rule: stream_run.induct)
  case (run_snoc ls x y b l z)
  then show ?case using step_work [of dump ttl b l y z] by (auto simp: idles_def split: if_splits)
qed (simp add: idles_def)

lemma step_exists:
  assumes "stream_ok evs en s" and "sm_point s \<noteq> Over"
  shows "\<exists>l y. l \<notin> {Idle, Cancelled, Abandoned} \<and> stream_step dump ttl b l (c, s) y"
proof (cases "sm_point s")
  case Head
  then show ?thesis using goodbye [of s dump ttl c] turn [of s dump ttl c] by (cases b) fastforce+
next
  case Waiting
  show ?thesis
  proof (cases "sm_todo s")
    case Nil
    show ?thesis
    proof (cases "sm_ending s")
      case Finished
      then show ?thesis using finish [OF Waiting Nil, of dump ttl b c] by blast
    next
      case (Failed e)
      obtain kind message where "failure_frame e = (kind, message)" by fastforce
      from fail [OF Waiting Nil Failed this, of dump ttl b c] show ?thesis by blast
    qed
  next
    case (Cons e es)
    then show ?thesis using deliver [OF Waiting Cons, of dump ttl b c] by blast
  qed
next
  case Sending
  then show ?thesis using taken [OF Sending, of dump ttl b c] start_write [OF Sending, of _ dump ttl b c]
    by (cases "sm_owed s") blast+
next
  case Writing
  then obtain p where "sm_owed s = Some p" using assms(1) by (auto simp: stream_ok_def)
  from lost [OF Writing this, of dump ttl b c] show ?thesis by blast
qed (use assms(2) in simp)

text \<open>
  C25 A stream ends. An open stream can always take a step that is no keepalive and no hang-up, and a run
  with n keepalives takes at most four steps for each event there was, two, and four for each keepalive:
  only a producer that stays silent for ever keeps a stream open for ever.
\<close>

theorem streams_end:
  assumes "stream_run dump ttl ls (c, new_stream key (evs, en)) (c', s)"
  shows "length ls \<le> 4 * length evs + 2 + 4 * idles ls
    \<and> (sm_point s \<noteq> Over \<longrightarrow> (\<forall>b. \<exists>l y. l \<notin> {Idle, Cancelled, Abandoned} \<and> stream_step dump ttl b l (c', s) y))"
proof -
  have "stream_ok evs en s" using run_ok [OF assms] new_stream_ok by simp
  then show ?thesis using run_work [OF assms] step_exists [of evs en s]
    by (auto simp: work_left_def new_stream_def)
qed

lemma streams_end_witness: "length [(False, Turn), (False, Idle), (False, Turn), (False, Turn), (False, Deliver), (False, Abandoned)] \<le> 10"
  using streams_end [OF demo_stream_run [of "\<lambda>p. JNull" 60 empty_cache "''k''"]] by (simp add: idles_def)

section \<open>Every client is told\<close>

definition hung_up :: "(bool \<times> label) list \<Rightarrow> bool" where
  "hung_up ls \<longleftrightarrow> (\<exists>x \<in> set ls. snd x \<in> {Cancelled, Abandoned})"

text \<open>What a stream that was not left has sent when it is over.\<close>

definition told :: "event list \<Rightarrow> ending \<Rightarrow> bool \<Rightarrow> stream \<Rightarrow> bool" where
  "told evs en stopping s \<longleftrightarrow> sent_events s = evs \<and> en = Finished
     \<or> (\<exists>e. en = Failed e \<and> sent_events s = evs @ [ErrorEv (fst (failure_frame e)) (snd (failure_frame e))])
     \<or> stopping \<and> (\<exists>front. sent_events s = front @ [ErrorEv ''shutting_down'' shutting_down_message])"

lemma step_told:
  assumes "stream_step dump ttl b l (c, s) (c', s')" and "l \<notin> {Cancelled, Abandoned}" and "stream_ok evs en s" and "sm_point s' = Over"
  shows "told evs en b s'"
  using assms(1)
proof (cases rule: stream_stepE)
  case finish
  then show ?thesis using assms(3) by (simp add: told_def stream_ok_def)
next
  case (fail e kind message)
  then have "en = Failed e" "sent_events s' = evs @ [ErrorEv (fst (failure_frame e)) (snd (failure_frame e))]"
    using assms(3) by (auto simp: stream_ok_def)
  then show ?thesis unfolding told_def by blast
next
  case goodbye
  then show ?thesis by (simp add: told_def)
qed (use assms(2, 4) in auto)

lemma run_told:
  assumes "stream_run dump ttl ls x y" and "stream_ok evs en (snd x)" and "sm_point (snd x) \<noteq> Over"
    and "\<not> hung_up ls" and "sm_point (snd y) = Over"
  shows "told evs en (\<exists>x \<in> set ls. fst x) (snd y)"
  using assms(1)
proof (cases rule: stream_run.cases)
  case run_nil
  then show ?thesis using assms(3, 5) by simp
next
  case (run_snoc ls' y' b l)
  have "l \<notin> {Cancelled, Abandoned}" using assms(4) run_snoc(1) by (auto simp: hung_up_def)
  moreover have "stream_ok evs en (snd y')" using run_ok [OF run_snoc(2)] assms(2) by simp
  ultimately have "told evs en b (snd y)"
    using step_told [of dump ttl b l "fst y'" "snd y'" "fst y" "snd y"] run_snoc(3) assms(5) by simp
  then show ?thesis using run_snoc(1) by (auto simp: told_def)
qed

text \<open>
  C11 Every client that stays is told how its request ended. Whatever the request meets (a deadline, a
  routing error, an exception, a shutdown, a full disk), when its stream is over and the client was not
  the one who left, the last event it was sent is an answer or an error.
\<close>

theorem every_client_is_told:
  assumes "produces w req p" and "route_events_with_deadline rate limit p = (evs, en)"
    and "stream_run dump ttl ls (c, new_stream key (evs, en)) (c', s)" and "sm_point s = Over" and "\<not> hung_up ls"
  shows "sent_events s \<noteq> [] \<and> settles (last (sent_events s))"
proof -
  have "told evs en (\<exists>x \<in> set ls. fst x) s"
    using run_told [OF assms(3)] assms(4, 5) new_stream_ok by (simp add: new_stream_def)
  then show ?thesis using deadline_last_settles [OF assms(1)] assms(2) by (auto simp: told_def)
qed

lemma every_client_is_told_witness:
  "sent_events (closed_with ''shutting_down'' shutting_down_message (new_stream ''k''
      (route_events_with_deadline 0 0 (demo_production 0)))) = [ErrorEv ''shutting_down'' shutting_down_message]
   \<and> settles (last (sent_events (closed_with ''shutting_down'' shutting_down_message (new_stream ''k''
      (route_events_with_deadline 0 0 (demo_production 0))))))"
proof -
  obtain evs en where run: "route_events_with_deadline 0 0 (demo_production 0) = (evs, en)" by fastforce
  have p: "produces demo_events_world (demo_request [''accessible'', ''fastest'']) (demo_production 0)"
    by (rule demo_production_facts [of 0]) auto
  let ?s = "new_stream ''k'' (evs, en)"
  have "stream_run (\<lambda>p. JNull) 60 [] (empty_cache, ?s) (empty_cache, ?s)" by (rule run_nil)
  from run_snoc [OF this goodbye]
  have r: "stream_run (\<lambda>p. JNull) 60 [(True, Goodbye)] (empty_cache, ?s)
      (empty_cache, closed_with ''shutting_down'' shutting_down_message ?s)" by (simp add: new_stream_def)
  have "sent_events ?s = []" by (simp add: new_stream_def sent_events_def)
  then show ?thesis unfolding run using every_client_is_told [OF p run r] by (simp add: hung_up_def)
qed

section \<open>Shutting down\<close>

fun stop_rank :: "point \<Rightarrow> nat" where
  "stop_rank Over = 0" | "stop_rank Head = 1" | "stop_rank Writing = 2" | "stop_rank Sending = 3" | "stop_rank Waiting = 4"

lemma stopping_step: "stream_step dump ttl b l x y \<Longrightarrow> b \<Longrightarrow> stop_rank (sm_point (snd y)) < stop_rank (sm_point (snd x))"
  by (induction rule: stream_step.induct) (auto simp: send_frame_def)

fun frames_due :: "point \<Rightarrow> nat" where
  "frames_due Over = 0" | "frames_due Waiting = 2" | "frames_due p = 1"

lemma stopping_sends:
  "stream_step dump ttl b l x y \<Longrightarrow> b \<Longrightarrow>
     length (sm_sent (snd y)) + frames_due (sm_point (snd y)) \<le> length (sm_sent (snd x)) + frames_due (sm_point (snd x))"
  by (induction rule: stream_step.induct) (auto simp: send_frame_def closed_with_def)

lemma stopping_run:
  assumes "stream_run dump ttl ls x y" and "\<forall>x \<in> set ls. fst x"
  shows "length ls + stop_rank (sm_point (snd y)) \<le> stop_rank (sm_point (snd x))
    \<and> length (sm_sent (snd y)) + frames_due (sm_point (snd y)) \<le> length (sm_sent (snd x)) + frames_due (sm_point (snd x))"
  using assms
proof (induction rule: stream_run.induct)
  case (run_snoc ls x y b l z)
  then show ?case using stopping_step [of dump ttl b l y z] stopping_sends [of dump ttl b l y z] by auto
qed simp

text \<open>
  A shutdown is prompt. Once the instance is shutting down, a stream that is open takes at most four
  more steps, so it sends at most one further event or keepalive and then its goodbye; none waits for
  another event after that.
\<close>

theorem shutdown_is_prompt:
  assumes "stream_run dump ttl ls (c, s) (c', s')" and "\<forall>x \<in> set ls. fst x"
  shows "length ls \<le> 4 \<and> length (sm_sent s') \<le> length (sm_sent s) + 2"
proof -
  have "stop_rank p \<le> 4" "frames_due p \<le> 2" for p by (cases p; simp)+
  then show ?thesis using stopping_run [OF assms] by (metis add_leD1 le_trans nat_add_left_cancel_le snd_conv)
qed

lemma shutdown_is_prompt_witness:
  "length (sm_sent (closed_with ''shutting_down'' shutting_down_message (new_stream ''k'' ([], Finished))))
     \<le> length (sm_sent (new_stream ''k'' ([], Finished))) + 2"
proof -
  let ?s = "new_stream ''k'' ([], Finished)"
  have "stream_run (\<lambda>p. JNull) 60 [] (empty_cache, ?s) (empty_cache, ?s)" by (rule run_nil)
  from run_snoc [OF this goodbye]
  have r: "stream_run (\<lambda>p. JNull) 60 [(True, Goodbye)] (empty_cache, ?s)
      (empty_cache, closed_with ''shutting_down'' shutting_down_message ?s)" by (simp add: new_stream_def)
  show ?thesis using shutdown_is_prompt [OF r] by simp
qed

section \<open>The streams of an instance\<close>

record json_request =
  jr_todo :: "event list"
  jr_open :: bool

definition new_json :: "event list \<Rightarrow> json_request" where
  "new_json evs = \<lparr>jr_todo = evs, jr_open = True\<rparr>"

text \<open>
  The streams stand with a flag: whether the \<open>finally\<close> block that takes the stream off the counter is
  still to run. A stream that ends with an error frame is over, and still counted until whoever reads the
  frame comes back for more or goes away.
\<close>

record server =
  sv_cache :: cache
  sv_shutting_down :: bool
  sv_open_streams :: int
  sv_streams :: "(stream \<times> bool) list"
  sv_jsons :: "json_request list"

definition fresh_server :: "cache \<Rightarrow> server" where
  "fresh_server c = \<lparr>sv_cache = c, sv_shutting_down = False, sv_open_streams = 0, sv_streams = [], sv_jsons = []\<rparr>"

text \<open>Whether a step left the body of the generator: it is over, and not by yielding a last frame.\<close>

definition left_at_once :: "stream \<Rightarrow> stream \<Rightarrow> bool" where
  "left_at_once s s' \<longleftrightarrow> sm_point s' = Over \<and> sm_sent s' = sm_sent s"

text \<open>
  A stream opens, one of them takes a step, one that said its last word is resumed or closed. A JSON
  request starts to drain its production, takes an event of it (or, once the shutdown began, answers that
  it did), reaches its end (an error ends it like any other), or is cancelled. The shutdown starts; another part uses the cache.
\<close>

inductive server_step :: "(routes_response \<Rightarrow> json) \<Rightarrow> int \<Rightarrow> server \<Rightarrow> server \<Rightarrow> bool" for dump ttl where
  accept: "server_step dump ttl sv (sv\<lparr>sv_open_streams := sv_open_streams sv + 1, sv_streams := sv_streams sv @ [(new_stream key p, True)]\<rparr>)"
| move: "i < length (sv_streams sv) \<Longrightarrow> sv_streams sv ! i = (s, counted) \<Longrightarrow>
     stream_step dump ttl (sv_shutting_down sv) l (sv_cache sv, s) (c', s') \<Longrightarrow>
     server_step dump ttl sv (sv\<lparr>sv_cache := c', sv_streams := (sv_streams sv)[i := (s', \<not> left_at_once s s')],
       sv_open_streams := (if left_at_once s s' then sv_open_streams sv - 1 else sv_open_streams sv)\<rparr>)"
| leave: "i < length (sv_streams sv) \<Longrightarrow> sv_streams sv ! i = (s, True) \<Longrightarrow> sm_point s = Over \<Longrightarrow>
     server_step dump ttl sv (sv\<lparr>sv_streams := (sv_streams sv)[i := (s, False)], sv_open_streams := sv_open_streams sv - 1\<rparr>)"
| json_accept: "server_step dump ttl sv (sv\<lparr>sv_open_streams := sv_open_streams sv + 1, sv_jsons := sv_jsons sv @ [new_json evs]\<rparr>)"
| json_event: "i < length (sv_jsons sv) \<Longrightarrow> sv_jsons sv ! i = j \<Longrightarrow> jr_open j \<Longrightarrow> jr_todo j = e # es \<Longrightarrow> \<not> sv_shutting_down sv \<Longrightarrow>
     server_step dump ttl sv (sv\<lparr>sv_jsons := (sv_jsons sv)[i := j\<lparr>jr_todo := es\<rparr>]\<rparr>)"
| json_refused: "i < length (sv_jsons sv) \<Longrightarrow> sv_jsons sv ! i = j \<Longrightarrow> jr_open j \<Longrightarrow> jr_todo j \<noteq> [] \<Longrightarrow> sv_shutting_down sv \<Longrightarrow>
     server_step dump ttl sv (sv\<lparr>sv_jsons := (sv_jsons sv)[i := j\<lparr>jr_open := False\<rparr>], sv_open_streams := sv_open_streams sv - 1\<rparr>)"
| json_end: "i < length (sv_jsons sv) \<Longrightarrow> sv_jsons sv ! i = j \<Longrightarrow> jr_open j \<Longrightarrow> jr_todo j = [] \<Longrightarrow>
     server_step dump ttl sv (sv\<lparr>sv_jsons := (sv_jsons sv)[i := j\<lparr>jr_open := False\<rparr>], sv_open_streams := sv_open_streams sv - 1\<rparr>)"
| json_cancelled: "i < length (sv_jsons sv) \<Longrightarrow> sv_jsons sv ! i = j \<Longrightarrow> jr_open j \<Longrightarrow>
     server_step dump ttl sv (sv\<lparr>sv_jsons := (sv_jsons sv)[i := j\<lparr>jr_open := False\<rparr>], sv_open_streams := sv_open_streams sv - 1\<rparr>)"
| stop: "server_step dump ttl sv (sv\<lparr>sv_shutting_down := True\<rparr>)"
| elsewhere: "server_step dump ttl sv (sv\<lparr>sv_cache := c'\<rparr>)"

inductive server_reach :: "(routes_response \<Rightarrow> json) \<Rightarrow> int \<Rightarrow> cache \<Rightarrow> server \<Rightarrow> bool" for dump ttl c where
  reach_fresh: "server_reach dump ttl c (fresh_server c)"
| reach_step: "server_reach dump ttl c sv \<Longrightarrow> server_step dump ttl sv sv' \<Longrightarrow> server_reach dump ttl c sv'"

text \<open>What is in flight: the streams that are not over, those that are but have not left, the JSON requests.\<close>

definition open_streams :: "server \<Rightarrow> nat" where
  "open_streams sv = length (filter (\<lambda>(s, counted). sm_point s \<noteq> Over) (sv_streams sv))"

definition leaving_streams :: "server \<Rightarrow> nat" where
  "leaving_streams sv = length (filter (\<lambda>(s, counted). sm_point s = Over \<and> counted) (sv_streams sv))"

definition open_jsons :: "server \<Rightarrow> nat" where
  "open_jsons sv = length (filter jr_open (sv_jsons sv))"

lemmas in_flight_defs = open_streams_def leaving_streams_def open_jsons_def

definition counted_ok :: "stream \<times> bool \<Rightarrow> bool" where
  "counted_ok x \<longleftrightarrow> (\<exists>evs en. stream_ok evs en (fst x)) \<and> (sm_point (fst x) \<noteq> Over \<longrightarrow> snd x)
    \<and> (sm_point (fst x) = Over \<and> snd x \<longrightarrow> (\<exists>front kind message. sm_sent (fst x) = front @ [Frame (ErrorEv kind message)]))"

definition server_ok :: "server \<Rightarrow> bool" where
  "server_ok sv \<longleftrightarrow> sv_open_streams sv = int (open_streams sv + leaving_streams sv + open_jsons sv)
    \<and> (\<forall>x \<in> set (sv_streams sv). counted_ok x)"

lemma filter_update:
  assumes "i < length xs"
  shows "int (length (filter P (xs[i := x]))) = int (length (filter P xs)) - (if P (xs ! i) then 1 else 0) + (if P x then 1 else 0)"
proof -
  have old: "xs = take i xs @ xs ! i # drop (Suc i) xs" using assms by (simp add: id_take_nth_drop)
  have new: "xs[i := x] = take i xs @ x # drop (Suc i) xs" using assms by (simp add: upd_conv_take_nth_drop)
  have split: "length (filter P (ys @ z # zs)) = length (filter P ys) + (if P z then 1 else 0) + length (filter P zs)" for ys z zs
    by simp
  have "length (filter P xs) = length (filter P (take i xs)) + (if P (xs ! i) then 1 else 0) + length (filter P (drop (Suc i) xs))"
    using split [of "take i xs" "xs ! i" "drop (Suc i) xs"] old by metis
  then show ?thesis unfolding new split by simp
qed

text \<open>A step that ends a stream and sends something has sent an error.\<close>

lemma last_word:
  assumes "stream_step dump ttl b l (c, s) (c', s')" and "sm_point s' = Over" and "sm_sent s' \<noteq> sm_sent s"
  shows "\<exists>front kind message. sm_sent s' = front @ [Frame (ErrorEv kind message)]"
  using assms(1) by (cases rule: stream_stepE) (use assms(2, 3) in \<open>auto simp: closed_with_def send_frame_def\<close>)

lemma counted_ok_update: "\<forall>x \<in> set xs. counted_ok x \<Longrightarrow> counted_ok y \<Longrightarrow> \<forall>x \<in> set (xs[i := y]). counted_ok x"
  using set_update_subset_insert [of xs i y] by blast

lemma server_ok_step:
  assumes "server_ok sv" and "server_step dump ttl sv sv'"
  shows "server_ok sv'"
  using assms(2)
proof (cases rule: server_step.cases)
  case (accept key p)
  obtain evs en where p: "p = (evs, en)" by fastforce
  have "counted_ok (new_stream key p, True)"
    using new_stream_ok [of evs en key] by (auto simp: counted_ok_def p new_stream_def)
  then show ?thesis using accept assms(1) by (simp add: server_ok_def in_flight_defs new_stream_def)
next
  case (move i s counted l c' s')
  have here: "sm_point s \<noteq> Over" using over_stops [OF move(4)] by simp
  have mem: "counted_ok (s, counted)" using assms(1) move(2, 3) by (metis nth_mem server_ok_def)
  then obtain evs en where "stream_ok evs en s" by (auto simp: counted_ok_def)
  then have "stream_ok evs en s'" using step_ok [OF move(4)] by blast
  then have new: "counted_ok (s', \<not> left_at_once s s')"
    using last_word [OF move(4)] by (auto simp: counted_ok_def left_at_once_def)
  have "counted" using mem here by (simp add: counted_ok_def)
  then have "sv_open_streams sv' = int (open_streams sv' + leaving_streams sv' + open_jsons sv')"
    using assms(1) here filter_update [OF move(2), of "\<lambda>(s, counted). sm_point s \<noteq> Over" "(s', \<not> left_at_once s s')"]
      filter_update [OF move(2), of "\<lambda>(s, counted). sm_point s = Over \<and> counted" "(s', \<not> left_at_once s s')"]
    by (simp add: server_ok_def in_flight_defs left_at_once_def move(1, 3) split: if_splits)
  moreover have "\<forall>x \<in> set (sv_streams sv'). counted_ok x"
    using counted_ok_update [OF _ new, of "sv_streams sv" i] assms(1) by (simp add: server_ok_def move(1))
  ultimately show ?thesis by (simp add: server_ok_def)
next
  case (leave i s)
  have "counted_ok (s, True)" using assms(1) leave(2, 3) by (metis nth_mem server_ok_def)
  then have new: "counted_ok (s, False)" using leave(4) by (auto simp: counted_ok_def)
  have "sv_open_streams sv' = int (open_streams sv' + leaving_streams sv' + open_jsons sv')"
    using assms(1) filter_update [OF leave(2), of "\<lambda>(s, counted). sm_point s \<noteq> Over" "(s, False)"]
      filter_update [OF leave(2), of "\<lambda>(s, counted). sm_point s = Over \<and> counted" "(s, False)"]
    by (simp add: server_ok_def in_flight_defs leave(1, 3, 4))
  moreover have "\<forall>x \<in> set (sv_streams sv'). counted_ok x"
    using counted_ok_update [OF _ new, of "sv_streams sv" i] assms(1) by (simp add: server_ok_def leave(1))
  ultimately show ?thesis by (simp add: server_ok_def)
qed (use assms(1) in \<open>simp_all add: server_ok_def in_flight_defs filter_update new_json_def\<close>)

lemma server_reach_ok: "server_reach dump ttl c sv \<Longrightarrow> server_ok sv"
proof (induction rule: server_reach.induct)
  case reach_fresh
  show ?case by (simp add: fresh_server_def server_ok_def in_flight_defs)
qed (rule server_ok_step)



end
