(* ===== verification/Handlers.thy ===== *)
theory Handlers
  imports Streaming PhotoRef
begin

text \<open>
  backend/main.py, the request handlers: what a request does to the limiters, the counters and the
  cache, and what it is answered. A handler is a function of the service's state; the clocks, the
  production a route request would have (Serve), the answer place search gives and the image a
  download gives are arguments. Whether the disk takes a write is decided outside.
\<close>

section \<open>The service\<close>

record ('k, 'd) service =
  sx_limiter :: "'k limiter"
  sx_geocode_limiter :: "'k limiter"
  sx_photo_limiter :: "'k limiter"
  sx_metrics :: "'d metrics"
  sx_cache :: cache

record clock =
  ck_monotonic :: real
  ck_utc :: real
  ck_micros :: int
  ck_moment :: moment

record ('k, 'd) app =
  ap_env :: environ
  ap_settings :: settings
  ap_version :: string
  ap_client_digest :: "string \<Rightarrow> 'k"
  ap_session_digest :: "string \<Rightarrow> 'd"
  ap_route_hash :: "json \<Rightarrow> string"
  ap_geocode_hash :: "string \<Rightarrow> string"
  ap_stamp :: "moment \<Rightarrow> string"

datatype served = Reply reply | Replay_sse "json list" | Open_stream string | Raised

definition client_of :: "('k, 'd) app \<Rightarrow> inbound \<Rightarrow> string option" where
  "client_of ap rq = client_ip (TRUSTED_PROXY_HOPS (ap_env ap)) rq"

definition ask_limiter :: "('k, 'd) app \<Rightarrow> clock \<Rightarrow> inbound \<Rightarrow> bool \<Rightarrow> 'k limiter \<Rightarrow> 'k limiter \<times> decision" where
  "ask_limiter ap ck rq counts lr = check (ap_client_digest ap) (client_of ap rq) (ck_monotonic ck) (ck_utc ck) counts lr"

definition bump :: "clock \<Rightarrow> string \<Rightarrow> ('k, 'd) service \<Rightarrow> ('k, 'd) service" where
  "bump ck k sx = sx\<lparr>sx_metrics := incr (ck_utc ck) k 1 (sx_metrics sx)\<rparr>"

text \<open>A write: refused by a closed cache or by the disk, done otherwise.\<close>

definition stored :: "bool \<Rightarrow> (cache_error, cache) result \<Rightarrow> cache option" where
  "stored disk_ok r = (if disk_ok then guard r else None)"

definition key_of :: "('k, 'd) app \<Rightarrow> clock \<Rightarrow> route_request \<Rightarrow> string" where
  "key_of ap ck req = route_cache_key (ap_route_hash ap) (ap_env ap) (st_fixture_mode (ap_settings ap)) (ap_version ap) (ck_moment ck) req"

section \<open>POST /api/routes\<close>

text \<open>A cache hit over SSE: every route of the payload, then the payload.\<close>

definition replay_frames :: "json \<Rightarrow> json list" where
  "replay_frames cached = map (\<lambda>r. JObj [(''type'', JStr ''route''), (''route'', r)]) (jlist (jget ''routes'' cached))
     @ [JObj [(''type'', JStr ''done''), (''payload'', cached)]]"

definition cache_header :: "string \<Rightarrow> json \<Rightarrow> reply" where
  "cache_header hm body = \<lparr>ry_status = 200, ry_headers = [(''X-Meander-Cache'', hm)], ry_body = body\<rparr>"

text \<open>The JSON transport drains the same events; at each of them it looks whether a shutdown began.\<close>

fun drain :: "(bool \<times> event) list \<Rightarrow> routes_response option \<times> (string \<times> string) option \<times> bool
    \<Rightarrow> (routes_response option \<times> (string \<times> string) option \<times> bool) option" where
  "drain [] a = Some a"
| "drain ((shutting, e) # es) (payload, failure, partial) =
     (if shutting then None
      else drain es (case e of
          DoneEv part p \<Rightarrow> (Some p, failure, part)
        | ErrorEv kind message \<Rightarrow> (payload, Some (kind, message), partial)
        | _ \<Rightarrow> (payload, failure, partial)))"

definition routing_error_reply :: "('k, 'd) app \<Rightarrow> inbound \<Rightarrow> routing_error \<Rightarrow> reply" where
  "routing_error_reply ap rq e =
     (if is_crash_error e then unhandled_error (st_allowed_origins (ap_settings ap)) rq
      else error_reply (error_kind e) (re_message e) (error_status e))"

definition keep_route :: "('k, 'd) app \<Rightarrow> clock \<Rightarrow> bool \<Rightarrow> string \<Rightarrow> routes_response \<Rightarrow> ('k, 'd) service \<Rightarrow> ('k, 'd) service" where
  "keep_route ap ck disk_ok key p sx =
     (case stored disk_ok (put_route key (dump_response (ap_stamp ap) p) (st_route_cache_ttl_s (ap_settings ap)) (ck_micros ck) (sx_cache sx)) of
        None \<Rightarrow> sx
      | Some c \<Rightarrow> sx\<lparr>sx_cache := c\<rparr>)"

definition json_answer :: "('k, 'd) app \<Rightarrow> clock \<Rightarrow> inbound \<Rightarrow> string \<Rightarrow> bool \<Rightarrow> (bool \<times> event) list \<times> ending
    \<Rightarrow> ('k, 'd) service \<Rightarrow> served \<times> ('k, 'd) service" where
  "json_answer ap ck rq key disk_ok produced sx =
     (case drain (fst produced) (None, None, False) of
        None \<Rightarrow> (Reply (error_reply ''shutting_down'' shutting_down_message 503), sx)
      | Some (payload, failure, partial) \<Rightarrow>
          (case snd produced of
             Failed e \<Rightarrow> (Reply (routing_error_reply ap rq e),
               bump ck (if is_crash_error e then ''unhandled_errors_total'' else ''upstream_failures_total'') sx)
           | Finished \<Rightarrow>
               (case payload of
                  None \<Rightarrow> (Reply (case failure of
                        Some (kind, message) \<Rightarrow> error_reply kind message (status_for kind)
                      | None \<Rightarrow> error_reply ''upstream'' ''No route could be produced for that request.'' 502), sx)
                | Some p \<Rightarrow> (Reply (cache_header ''miss'' (dump_response (ap_stamp ap) p)),
                     if partial then sx else keep_route ap ck disk_ok key p sx))))"

text \<open>A request is counted, its session noted, and it is charged to its client.\<close>

definition arrive :: "('k, 'd) app \<Rightarrow> clock \<Rightarrow> inbound \<Rightarrow> ('k, 'd) service \<Rightarrow> ('k, 'd) service \<times> decision" where
  "arrive ap ck rq sx0 =
     (let sx1 = bump ck ''route_requests_total'' sx0;
          sx2 = sx1\<lparr>sx_metrics := note_session (ap_session_digest ap) (ck_utc ck) (client_of ap rq) (in_header rq ''user-agent'') (sx_metrics sx1)\<rparr>;
          (lr, d) = ask_limiter ap ck rq True (sx_limiter sx2)
      in (sx2\<lparr>sx_limiter := lr\<rparr>, d))"

definition post_routes :: "('k, 'd) app \<Rightarrow> clock \<Rightarrow> inbound \<Rightarrow> route_request \<Rightarrow> bool \<Rightarrow> (bool \<times> event) list \<times> ending
    \<Rightarrow> ('k, 'd) service \<Rightarrow> served \<times> ('k, 'd) service" where
  "post_routes ap ck rq req disk_ok produced sx0 =
     (let (sx, d) = arrive ap ck rq sx0
      in if \<not> dc_allowed d then (Reply (rate_limited d), bump ck ''rate_limited_total'' sx)
         else case get_route (key_of ap ck req) (ck_micros ck) (sx_cache sx) of
             Inl e \<Rightarrow> (Raised, sx)
           | Inr (c, Some cached) \<Rightarrow>
               (if wants_stream rq then Replay_sse (replay_frames cached) else Reply (cache_header ''hit'' cached),
                bump ck ''cache_hits_total''
                  (sx\<lparr>sx_cache := c, sx_limiter := refund (ap_client_digest ap) (client_of ap rq) (sx_limiter sx)\<rparr>))
           | Inr (c, None) \<Rightarrow>
               (let sx' = bump ck ''cache_misses_total'' (sx\<lparr>sx_cache := c\<rparr>)
                in if wants_stream rq then (Open_stream (key_of ap ck req), sx')
                   else json_answer ap ck rq (key_of ap ck req) disk_ok produced sx'))"

section \<open>GET /api/geocode\<close>

definition dump_place :: "geocode_result \<Rightarrow> json" where
  "dump_place g = JObj [(''name'', JStr (gr_name g)), (''lat'', JNum (gr_lat g)), (''lon'', JNum (gr_lon g))]"

definition places_reply :: "json \<Rightarrow> reply" where
  "places_reply items = \<lparr>ry_status = 200, ry_headers = [], ry_body = JObj [(''results'', items)]\<rparr>"

definition geocode_failure :: "string list \<Rightarrow> inbound \<Rightarrow> geocode_error \<Rightarrow> reply" where
  "geocode_failure allowed rq e =
     (case e of
        GeocodeCrash x \<Rightarrow> unhandled_error allowed rq
      | GeocodeError message status retry \<Rightarrow>
          (error_reply ''geocode'' message status)
            \<lparr>ry_headers := (case retry of None \<Rightarrow> [] | Some n \<Rightarrow> [(''Retry-After'', int_text (max 1 n))])\<rparr>)"

definition geocode_ttl :: "settings \<Rightarrow> geocode_result list \<Rightarrow> int" where
  "geocode_ttl s results = (if results \<noteq> [] then st_geocode_cache_ttl_s s else st_geocode_empty_cache_ttl_s s)"

definition geocode :: "('k, 'd) app \<Rightarrow> clock \<Rightarrow> inbound \<Rightarrow> string \<Rightarrow> bool \<Rightarrow> (geocode_error, geocode_result list) result
    \<Rightarrow> ('k, 'd) service \<Rightarrow> served \<times> ('k, 'd) service" where
  "geocode ap ck rq q disk_ok found sx0 =
     (let (lr, d) = ask_limiter ap ck rq False (sx_geocode_limiter sx0);
          sx = sx0\<lparr>sx_geocode_limiter := lr\<rparr>; key = geocode_cache_key (ap_geocode_hash ap) q
      in if \<not> dc_allowed d then (Reply (rate_limited d), bump ck ''rate_limited_total'' sx)
         else case get_geocode key (ck_micros ck) (sx_cache sx) of
             Inl e \<Rightarrow> (Raised, sx)
           | Inr (c, Some cached) \<Rightarrow>
               (Reply (places_reply cached),
                bump ck ''cache_hits_total''
                  (sx\<lparr>sx_cache := c, sx_geocode_limiter := refund (ap_client_digest ap) (client_of ap rq) lr\<rparr>))
           | Inr (c, None) \<Rightarrow>
               (let sx' = bump ck ''cache_misses_total'' (sx\<lparr>sx_cache := c\<rparr>)
                in case found of
                    Inl e \<Rightarrow> (Reply (geocode_failure (st_allowed_origins (ap_settings ap)) rq e),
                      case e of GeocodeCrash x \<Rightarrow> bump ck ''unhandled_errors_total'' sx' | _ \<Rightarrow> sx')
                  | Inr results \<Rightarrow>
                      (case stored disk_ok (put_geocode key (JList (map dump_place results)) (geocode_ttl (ap_settings ap) results)
                               (ck_micros ck) (sx_cache sx')) of
                         None \<Rightarrow> (Raised, sx')
                       | Some c' \<Rightarrow> (Reply (places_reply (JList (map dump_place results))), sx'\<lparr>sx_cache := c'\<rparr>))))"

section \<open>Photographs\<close>

datatype image_reply = Image string "(string \<times> string) list" | No_image reply

definition photo :: "('k, 'd) app \<Rightarrow> clock \<Rightarrow> inbound \<Rightarrow> (proxy_error, proxied_image) result
    \<Rightarrow> ('k, 'd) service \<Rightarrow> image_reply \<times> ('k, 'd) service" where
  "photo ap ck rq fetched_image sx0 =
     (let (lr, d) = ask_limiter ap ck rq False (sx_photo_limiter sx0); sx = sx0\<lparr>sx_photo_limiter := lr\<rparr>
      in if \<not> dc_allowed d then (No_image (rate_limited d), bump ck ''rate_limited_total'' sx)
         else case fetched_image of
             Inl (PhotoProxyError message status) \<Rightarrow> (No_image (error_reply ''photo'' message status), sx)
           | Inl (ProxyCrash x) \<Rightarrow> (No_image (unhandled_error (st_allowed_origins (ap_settings ap)) rq), bump ck ''unhandled_errors_total'' sx)
           | Inr im \<Rightarrow> (Image (px_body im)
               [(''Content-Type'', px_content_type im),
                (''Cache-Control'', ''public, max-age='' @ int_text (PHOTO_CACHE_MAX_AGE_S (ap_env ap)) @ '', immutable''),
                (''X-Content-Type-Options'', ''nosniff''), (''Content-Disposition'', ''inline'')], sx))"

text \<open>\<open>/api/photos\<close> and \<open>/api/report-barrier\<close> stand on the route bucket and spend nothing of the day.\<close>

definition guarded_by_routes :: "('k, 'd) app \<Rightarrow> clock \<Rightarrow> inbound \<Rightarrow> reply \<Rightarrow> ('k, 'd) service \<Rightarrow> reply \<times> ('k, 'd) service" where
  "guarded_by_routes ap ck rq answered sx0 =
     (let (lr, d) = ask_limiter ap ck rq False (sx_limiter sx0); sx = sx0\<lparr>sx_limiter := lr\<rparr>
      in if \<not> dc_allowed d then (rate_limited d, bump ck ''rate_limited_total'' sx) else (answered, sx))"

section \<open>What is stored and what is served\<close>

lemma drain_payload:
  "drain es (p, f, b) = Some (Some q, f', b') \<Longrightarrow> (p = Some q \<and> b' = b) \<or> (\<exists>s. (s, DoneEv b' q) \<in> set es)"
proof (induction es "(p, f, b)" arbitrary: p f b rule: drain.induct)
  case (2 s e es p f b)
  then show ?case by (cases e) (auto split: if_splits)
qed simp

lemma get_route_open: "\<not> c_closed c \<Longrightarrow> get_route k now c = Inr (route_get k now c)"
  by (simp add: store_defs)

lemma get_geocode_open: "\<not> c_closed c \<Longrightarrow> get_geocode k now c = Inr (geocode_get k now c)"
  by (simp add: store_defs)

lemma bump_simps [simp]:
  "sx_cache (bump ck k sx) = sx_cache sx" "sx_limiter (bump ck k sx) = sx_limiter sx"
  "sx_geocode_limiter (bump ck k sx) = sx_geocode_limiter sx" "sx_photo_limiter (bump ck k sx) = sx_photo_limiter sx"
  by (simp_all add: bump_def)

lemma arrive_cache: "arrive ap ck rq sx0 = (sx, d) \<Longrightarrow> sx_cache sx = sx_cache sx0"
  by (auto simp: arrive_def Let_def split: prod.splits)

lemma json_answer_stores:
  assumes "json_answer ap ck rq k disk_ok produced s = (out, s')" and "sx_cache s' \<noteq> sx_cache s"
  obtains p f where "drain (fst produced) (None, None, False) = Some (Some p, f, False)" "snd produced = Finished"
    "out = Reply (cache_header ''miss'' (dump_response (ap_stamp ap) p))" "s' = keep_route ap ck disk_ok k p s"
  using assms
  by (auto simp: json_answer_def split: option.splits ending.splits prod.splits if_splits)

text \<open>
  The JSON transport stores complete answers only. When a request changes the cache beyond dropping
  the expired row its lookup found, it ran to its end, what is stored is a complete answer of that run,
  and that is what it replied; a request that was refused, cut off, failed or shut down stores nothing.
\<close>

theorem json_stores_complete_answers_only:
  assumes "post_routes ap ck rq req disk_ok produced sx = (out, sx')" and "\<not> c_closed (sx_cache sx)"
    and "sx_cache sx' \<notin> {sx_cache sx, fst (route_get (key_of ap ck req) (ck_micros ck) (sx_cache sx))}"
  shows "\<exists>p s. (s, DoneEv False p) \<in> set (fst produced) \<and> snd produced = Finished
    \<and> out = Reply (cache_header ''miss'' (dump_response (ap_stamp ap) p))"
proof -
  obtain sx1 d where ar: "arrive ap ck rq sx = (sx1, d)" by fastforce
  note c1 = arrive_cache [OF ar]
  obtain c found where got: "route_get (key_of ap ck req) (ck_micros ck) (sx_cache sx) = (c, found)" by fastforce
  have get: "get_route (key_of ap ck req) (ck_micros ck) (sx_cache sx1) = Inr (c, found)"
    using get_route_open [of "sx_cache sx"] assms(2) got c1 by simp
  let ?sx' = "bump ck ''cache_misses_total'' (sx1\<lparr>sx_cache := c\<rparr>)"
  have "json_answer ap ck rq (key_of ap ck req) disk_ok produced ?sx' = (out, sx')" and "sx_cache sx' \<noteq> sx_cache ?sx'"
    using assms(1, 3) got c1 unfolding post_routes_def ar Let_def prod.case get
    by (auto split: if_splits option.splits)
  then obtain p f where p: "drain (fst produced) (None, None, False) = Some (Some p, f, False)" "snd produced = Finished"
    "out = Reply (cache_header ''miss'' (dump_response (ap_stamp ap) p))" by (rule json_answer_stores)
  then show ?thesis using drain_payload [OF p(1)] by auto
qed

definition plain_app :: "(string, string) app" where
  "plain_app = \<lparr>ap_env = Map.empty, ap_settings = load_settings Map.empty, ap_version = ''0.1.0'',
     ap_client_digest = id, ap_session_digest = id, ap_route_hash = (\<lambda>j. ''route''), ap_geocode_hash = id, ap_stamp = (\<lambda>t. ''now'')\<rparr>"

definition plain_service :: "(string, string) service" where
  "plain_service = \<lparr>sx_limiter = new_limiter 12 1 2000 0, sx_geocode_limiter = new_limiter 40 20 2000 0,
     sx_photo_limiter = new_limiter 60 60 2000 0, sx_metrics = new_metrics 0, sx_cache = empty_cache\<rparr>"

definition tick :: "int \<Rightarrow> clock" where
  "tick t = \<lparr>ck_monotonic = of_int t, ck_utc = of_int t, ck_micros = micros t, ck_moment = t\<rparr>"

definition plain_inbound :: inbound where
  "plain_inbound = \<lparr>in_method = ''POST'', in_path = ''/api/routes'', in_peer = Some ''10.0.0.1'', in_header = Map.empty, in_chunks = []\<rparr>"

lemma first_check_allowed:
  "1 \<le> cap \<Longrightarrow> 1 \<le> ceil \<Longrightarrow> dc_allowed (snd (check id ip (of_int t) (of_int t) counts (new_limiter cap refill ceil 0)))"
  by (simp add: limiter_eval)

lemma plain_arrive: "\<exists>sx d. arrive plain_app (tick t) plain_inbound plain_service = (sx, d) \<and> dc_allowed d \<and> sx_cache sx = empty_cache"
proof -
  obtain sx d where ar: "arrive plain_app (tick t) plain_inbound plain_service = (sx, d)" by fastforce
  have "dc_allowed d" using ar first_check_allowed [of 12 2000 "client_of plain_app plain_inbound" t True 1]
    by (auto simp: arrive_def Let_def ask_limiter_def plain_app_def plain_service_def tick_def bump_def split: prod.splits)
  then show ?thesis using ar arrive_cache [OF ar] by (simp add: plain_service_def)
qed

lemma plain_miss:
  "\<exists>sx. post_routes plain_app (tick t) plain_inbound req True ([(False, DoneEv False p)], Finished) plain_service
     = (Reply (cache_header ''miss'' (dump_response (\<lambda>t. ''now'') p)), sx)
   \<and> sx_cache sx = route_put ''route'' (dump_response (\<lambda>t. ''now'') p) 21600 (micros t) empty_cache"
proof -
  obtain sx d where ar: "arrive plain_app (tick t) plain_inbound plain_service = (sx, d)" "dc_allowed d" "sx_cache sx = empty_cache"
    using plain_arrive by blast
  have ns: "\<not> wants_stream plain_inbound" by (simp add: wants_stream_def header_text_def plain_inbound_def)
  have key: "key_of plain_app (tick t) req = ''route''" by (simp add: key_of_def route_cache_key_def plain_app_def)
  have ttl: "st_route_cache_ttl_s (ap_settings plain_app) = 21600" by (simp add: plain_app_def load_settings_def env_int_def)
  have get: "get_route ''route'' n empty_cache = Inr (empty_cache, None)" for n by (simp add: store_defs empty_cache_def)
  show ?thesis unfolding post_routes_def ar(1) Let_def prod.case key ar(3) get using ar(2) ns ttl
    by (simp add: json_answer_def keep_route_def stored_def guard_def store_defs empty_cache_def plain_app_def tick_def)
qed

lemma json_stores_complete_answers_only_witness:
  "\<exists>p s. (s, DoneEv False p) \<in> set [(False, DoneEv False empty_answer)]"
proof -
  obtain sx where sx: "post_routes plain_app (tick 0) plain_inbound (demo_request [''fastest'']) True ([(False, DoneEv False empty_answer)], Finished) plain_service
     = (Reply (cache_header ''miss'' (dump_response (\<lambda>t. ''now'') empty_answer)), sx)"
     "sx_cache sx = route_put ''route'' (dump_response (\<lambda>t. ''now'') empty_answer) 21600 (micros 0) empty_cache"
    using plain_miss by blast
  have "fst (route_get k n empty_cache) = empty_cache" for k n by (simp add: store_defs empty_cache_def)
  moreover have "route_put ''route'' v 21600 (micros 0) empty_cache \<noteq> empty_cache" for v
    by (simp add: store_defs empty_cache_def maybe_sweep_def SWEEP_EVERY_N_WRITES_def Let_def)
  moreover have "sx_cache plain_service = empty_cache" "\<not> c_closed empty_cache" by (simp_all add: plain_service_def empty_cache_def)
  ultimately show ?thesis using json_stores_complete_answers_only [OF sx(1)] sx(2) by fastforce
qed

section \<open>The second asker\<close>

lemma route_hit:
  assumes "arrive ap ck rq sx0 = (sx, d)" and "dc_allowed d" and "\<not> c_closed (sx_cache sx0)"
    and "snd (route_get (key_of ap ck req) (ck_micros ck) (sx_cache sx0)) = Some v"
  shows "fst (post_routes ap ck rq req disk_ok produced sx0) = (if wants_stream rq then Replay_sse (replay_frames v) else Reply (cache_header ''hit'' v))
    \<and> sx_limiter (snd (post_routes ap ck rq req disk_ok produced sx0)) = refund (ap_client_digest ap) (client_of ap rq) (sx_limiter sx)"
proof -
  have c: "sx_cache sx = sx_cache sx0" using arrive_cache [OF assms(1)] .
  have "get_route (key_of ap ck req) (ck_micros ck) (sx_cache sx0) = Inr (sx_cache sx0, Some v)"
    using get_route_open [OF assms(3)] route_store.hit_pure [OF assms(4)] assms(4) by (metis prod.collapse)
  then show ?thesis using assms(2) unfolding post_routes_def assms(1) Let_def prod.case c by simp
qed



section \<open>The two transports\<close>

lemma drain_settled:
  "\<forall>x \<in> set front. \<not> settles x \<Longrightarrow> drain (map (Pair False) (front @ es)) a = drain (map (Pair False) es) a"
proof (induction front arbitrary: a)
  case (Cons x front)
  then show ?case by (cases a; cases x) auto
qed simp



section \<open>Place search\<close>

lemma put_geocode_open: "\<not> c_closed c \<Longrightarrow> put_geocode k v ttl now c = Inr (geocode_put k v ttl now c)"
  by (simp add: store_defs)

text \<open>
  Typing a name again asks nobody. After a place search found its places (or found none) and kept
  them, every later search for the same words, however capitalised or spaced, is answered with the same
  places while they are kept: a day by default, ten minutes for nothing found; and its token is given
  back. Once they have expired, the search service is asked again.
\<close>

theorem searching_again_asks_nobody:
  assumes "geocode_ready (ck_micros ck) c" and "ttl = geocode_ttl (ap_settings ap) results" and "0 < ttl"
    and "map str_lower (words q') = map str_lower (words q)" and "sx_cache sx = geocode_put (geocode_cache_key (ap_geocode_hash ap) q)
        (JList (map dump_place results)) ttl (ck_micros ck) c"
    and "ask_limiter ap ck2 rq False (sx_geocode_limiter sx) = (lr, d)" and "dc_allowed d"
  shows "(ck_micros ck2 < ck_micros ck + micros ttl \<longrightarrow>
        fst (geocode ap ck2 rq q' disk_ok found sx) = Reply (places_reply (JList (map dump_place results)))
        \<and> sx_geocode_limiter (snd (geocode ap ck2 rq q' disk_ok found sx)) = refund (ap_client_digest ap) (client_of ap rq) lr)
    \<and> (ck_micros ck + micros ttl \<le> ck_micros ck2 \<longrightarrow>
        fst (geocode ap ck2 rq q' True (Inr other) sx) = Reply (places_reply (JList (map dump_place other))))"
proof -
  have key: "geocode_cache_key (ap_geocode_hash ap) q' = geocode_cache_key (ap_geocode_hash ap) q"
    using assms(4) by (simp add: geocode_cache_key_def words_strip lower_join)
  have op: "\<not> c_closed (sx_cache sx)" using assms(1) by (simp add: assms(5) store_defs geocode_ready_def)
  note get = get_geocode_open [OF op]
  show ?thesis
  proof (intro conjI impI)
    assume "ck_micros ck2 < ck_micros ck + micros ttl"
    then have hit: "snd (geocode_get (geocode_cache_key (ap_geocode_hash ap) q) (ck_micros ck2) (sx_cache sx)) = Some (JList (map dump_place results))"
      unfolding assms(5) by (intro geocode_store.live [OF assms(1)] assms(3)) simp_all
    obtain c' where g: "geocode_get (geocode_cache_key (ap_geocode_hash ap) q) (ck_micros ck2) (sx_cache sx) = (c', Some (JList (map dump_place results)))"
      using hit by (metis prod.collapse)
    show "fst (geocode ap ck2 rq q' disk_ok found sx) = Reply (places_reply (JList (map dump_place results)))"
      and "sx_geocode_limiter (snd (geocode ap ck2 rq q' disk_ok found sx)) = refund (ap_client_digest ap) (client_of ap rq) lr"
      using assms(6, 7) get by (simp_all add: geocode_def key g)
  next
    assume "ck_micros ck + micros ttl \<le> ck_micros ck2"
    then have "snd (geocode_get (geocode_cache_key (ap_geocode_hash ap) q) (ck_micros ck2) (sx_cache sx)) = None"
      unfolding assms(5) by (rule geocode_store.gone [OF assms(1)])
    then obtain c' where g: "geocode_get (geocode_cache_key (ap_geocode_hash ap) q) (ck_micros ck2) (sx_cache sx) = (c', None)"
      by (metis prod.collapse)
    then have "\<not> c_closed c'" using op by (auto simp: store_defs split: option.splits if_splits)
    then show "fst (geocode ap ck2 rq q' True (Inr other) sx) = Reply (places_reply (JList (map dump_place other)))"
      using assms(6, 7) get by (simp add: geocode_def key g stored_def guard_def put_geocode_open Let_def)
  qed
qed

lemma plain_search_allowed:
  "\<exists>lr d. ask_limiter plain_app (tick t) plain_inbound False (new_limiter 40 20 2000 0) = (lr, d) \<and> dc_allowed d"
  using first_check_allowed [of 40 2000 "client_of plain_app plain_inbound" t False 20]
  by (cases "ask_limiter plain_app (tick t) plain_inbound False (new_limiter 40 20 2000 0)")
    (auto simp: ask_limiter_def plain_app_def tick_def)

lemma searching_again_asks_nobody_witness:
  "fst (geocode plain_app (tick 300) plain_inbound ''KANDY'' True (Inl (GeocodeCrash PyRuntimeError))
     (plain_service\<lparr>sx_cache := geocode_put (geocode_cache_key id ''Kandy'') (JList []) 600 0 empty_cache\<rparr>))
   = Reply (places_reply (JList []))"
proof -
  let ?sx = "plain_service\<lparr>sx_cache := geocode_put (geocode_cache_key (ap_geocode_hash plain_app) ''Kandy'')
      (JList (map dump_place [])) 600 (ck_micros (tick 0)) empty_cache\<rparr>"
  have ready: "geocode_ready (ck_micros (tick 0)) empty_cache"
    by (simp add: geocode_ready_def empty_cache_def keyed_def written_before_def)
  have ttl: "600 = geocode_ttl (ap_settings plain_app) []"
    by (simp add: geocode_ttl_def plain_app_def load_settings_def env_int_def)
  have same: "map str_lower (words ''KANDY'') = map str_lower (words ''Kandy'')"
    by (simp add: words_def is_space_def str_lower_def char_lower_def upper_letters_def lower_letters_def)
  obtain lr d where l: "ask_limiter plain_app (tick 300) plain_inbound False (sx_geocode_limiter ?sx) = (lr, d)" "dc_allowed d"
    using plain_search_allowed [of 300] by (auto simp: plain_service_def)
  have time: "ck_micros (tick 300) < ck_micros (tick 0) + micros 600" by (simp add: tick_def micros_def)
  have "fst (geocode plain_app (tick 300) plain_inbound ''KANDY'' True (Inl (GeocodeCrash PyRuntimeError)) ?sx)
      = Reply (places_reply (JList (map dump_place [])))"
    using searching_again_asks_nobody [OF ready ttl _ same _ l] time by simp
  then show ?thesis by (simp add: plain_app_def tick_def micros_def)
qed

text \<open>
  A full disk loses the places. The write of a route answer is guarded, because a cache that cannot be
  written is no reason to withhold an answer; the write of a place search is not, so places that were
  found and paid for become a server error.
\<close>

theorem a_failed_write_loses_the_places:
  assumes "ask_limiter ap ck rq False (sx_geocode_limiter sx) = (lr, d)" and "dc_allowed d" and "\<not> c_closed (sx_cache sx)"
    and "snd (geocode_get (geocode_cache_key (ap_geocode_hash ap) q) (ck_micros ck) (sx_cache sx)) = None"
  shows "fst (geocode ap ck rq q False (Inr results) sx) = Raised"
proof -
  obtain c' where "geocode_get (geocode_cache_key (ap_geocode_hash ap) q) (ck_micros ck) (sx_cache sx) = (c', None)"
    using assms(4) by (metis prod.collapse)
  then show ?thesis using assms(1, 2) get_geocode_open [OF assms(3)] by (simp add: geocode_def stored_def Let_def)
qed

lemma a_failed_write_loses_the_places_witness:
  "fst (geocode plain_app (tick 0) plain_inbound ''Kandy'' False (Inr [\<lparr>gr_name = ''Kandy'', gr_lat = 7, gr_lon = 80\<rparr>]) plain_service) = Raised"
proof -
  obtain lr d where l: "ask_limiter plain_app (tick 0) plain_inbound False (sx_geocode_limiter plain_service) = (lr, d)" "dc_allowed d"
    using plain_search_allowed [of 0] by (auto simp: plain_service_def)
  show ?thesis
    by (rule a_failed_write_loses_the_places [OF l]) (simp_all add: plain_service_def store_defs empty_cache_def)
qed

end
