(* ===== verification/Logs.thy ===== *)
theory Logs
  imports Json
begin

text \<open>
  backend/logging_setup.py: what may reach a log line. The two regular expressions are matchers over a
  text, and \<open>re.sub\<close> is the scanner that applies one from the left. A logged value is a datatype of the
  types the code tells apart; how Python prints one (\<open>str\<close>, \<open>repr\<close>, and \<open>repr\<close> of a float) is an
  argument, \<open>None\<close> where printing raises. A record's attributes are its level, logger, message,
  arguments and traceback, and the extra fields in the order they were set.
\<close>

section \<open>re.sub\<close>

text \<open>
  A matcher is given the character before and the text from there on, and answers how much it takes
  and what to put there.
\<close>

type_synonym matcher = "char option \<Rightarrow> string \<Rightarrow> (nat \<times> string) option"

function substitute :: "matcher \<Rightarrow> char option \<Rightarrow> string \<Rightarrow> string" where
  "substitute m prev [] = []"
| "substitute m prev (c # cs) =
     (case m prev (c # cs) of
        None \<Rightarrow> c # substitute m (Some c) cs
      | Some (n, r) \<Rightarrow> r @ substitute m (Some (last (c # take (n - 1) cs))) (drop (n - 1) cs))"
  by pat_completeness auto

termination by (relation "measure (\<lambda>(m, prev, s). length s)") auto

definition redacted :: string where "redacted = ''<redacted>''"

text \<open>\<open>-?\\d+\\.\\d{4,}\<close>: how much of the text it takes.\<close>

definition coordinate_length :: "string \<Rightarrow> nat option" where
  "coordinate_length s =
     (let sign = (case s of c # _ \<Rightarrow> if c = CHR ''-'' then 1 else 0 | [] \<Rightarrow> 0);
          whole = takeWhile is_digit (drop sign s);
          rest = drop (sign + length whole) s;
          places = takeWhile is_digit (drop 1 rest)
      in if whole \<noteq> [] \<and> take 1 rest = ''.'' \<and> 4 \<le> length places
         then Some (sign + length whole + 1 + length places) else None)"

definition coordinate_shaped :: matcher where
  "coordinate_shaped prev s = map_option (\<lambda>n. (n, redacted)) (coordinate_length s)"

definition SENSITIVE_QUERY_KEYS :: "string list" where
  "SENSITIVE_QUERY_KEYS = [''access_token'', ''api_key'', ''apikey'', ''auth'', ''key'', ''password'', ''secret'',
     ''signature'', ''token'', ''bbox'', ''ggscoord'', ''lat'', ''latitude'', ''lon'', ''lng'', ''longitude'', ''point'']"

definition is_word :: "char \<Rightarrow> bool" where
  "is_word c \<longleftrightarrow> is_digit c \<or> c = CHR ''_'' \<or> char_lower c \<in> set lower_letters"

fun after_word :: "char option \<Rightarrow> bool" where
  "after_word None \<longleftrightarrow> False"
| "after_word (Some c) \<longleftrightarrow> is_word c"

text \<open>A character a parameter's value may hold.\<close>

definition in_value :: "char \<Rightarrow> bool" where
  "in_value c \<longleftrightarrow> \<not> is_space c \<and> c \<notin> {CHR ''&'', CHR ''#'', CHR 0x22, CHR 0x27, CHR ''<'', CHR ''>''}"

text \<open>\<open>\\b(name)=\<close> and a value: the name must not follow a word character.\<close>

definition named_here :: "string \<Rightarrow> string \<Rightarrow> bool" where
  "named_here s k \<longleftrightarrow> str_lower (take (length k) s) = k \<and> take 1 (drop (length k) s) = ''=''"

definition sensitive_query :: matcher where
  "sensitive_query prev s =
     (if after_word prev then None
      else case find (named_here s) SENSITIVE_QUERY_KEYS of
          None \<Rightarrow> None
        | Some k \<Rightarrow>
            let v = takeWhile in_value (drop (length k + 1) s)
            in if v = [] then None
               else Some (length k + 1 + length v, take (length k) s @ ''='' @ redacted))"

definition scrub_text :: "string \<Rightarrow> string" where
  "scrub_text s = substitute coordinate_shaped None (substitute sensitive_query None s)"

section \<open>What a scrubbed text holds\<close>

text \<open>A digit, a point and four digits: precise enough to place a person on a street.\<close>

fun precise_here :: "string \<Rightarrow> bool" where
  "precise_here (d # q # a # b # c # e # rest) \<longleftrightarrow>
     is_digit d \<and> q = CHR ''.'' \<and> is_digit a \<and> is_digit b \<and> is_digit c \<and> is_digit e"
| "precise_here _ \<longleftrightarrow> False"

fun precise :: "string \<Rightarrow> bool" where
  "precise [] \<longleftrightarrow> False"
| "precise (c # cs) \<longleftrightarrow> precise_here (c # cs) \<or> precise cs"

text \<open>A sensitive parameter with a value that was not redacted.\<close>

fun discloses :: "char option \<Rightarrow> string \<Rightarrow> bool" where
  "discloses prev [] \<longleftrightarrow> False"
| "discloses prev (c # cs) \<longleftrightarrow> sensitive_query prev (c # cs) \<noteq> None \<or> discloses (Some c) cs"

lemma precise_iff: "precise s \<longleftrightarrow> (\<exists>a b. s = a @ b \<and> precise_here b)"
proof (induction s)
  case Nil
  then show ?case by simp
next
  case (Cons c cs)
  show ?case
  proof
    assume "precise (c # cs)"
    then consider "precise_here (c # cs)" | "precise cs" by auto
    then show "\<exists>a b. c # cs = a @ b \<and> precise_here b"
    proof cases
      case 1
      then show ?thesis by (intro exI [of _ "[]"] exI [of _ "c # cs"]) simp
    next
      case 2
      then obtain a b where "cs = a @ b" "precise_here b" using Cons.IH by auto
      then show ?thesis by (intro exI [of _ "c # a"] exI [of _ b]) simp
    qed
  next
    assume "\<exists>a b. c # cs = a @ b \<and> precise_here b"
    then obtain a b where ab: "c # cs = a @ b" "precise_here b" by blast
    show "precise (c # cs)"
    proof (cases a)
      case Nil
      then show ?thesis using ab by auto
    next
      case (Cons d a')
      then show ?thesis using ab Cons.IH by auto
    qed
  qed
qed

text \<open>A letter of the output that is no part of a replacement stands in the text itself.\<close>

lemma substitute_prefix:
  assumes "\<And>p t n r. m p t = Some (n, r) \<Longrightarrow> r \<noteq> [] \<and> hd r \<notin> set w" and "take (length w) (substitute m prev s) = w"
  shows "take (length w) s = w"
  using assms
proof (induction w arbitrary: prev s)
  case Nil
  then show ?case by simp
next
  case (Cons x w)
  show ?case
  proof (cases s)
    case Nil
    then show ?thesis using Cons.prems by simp
  next
    case s: (Cons c cs)
    show ?thesis
    proof (cases "m prev (c # cs)")
      case None
      have "take (length w) cs = w"
        by (rule Cons.IH [of "Some c"]) (use Cons.prems None s in \<open>auto split: if_splits\<close>)
      then show ?thesis using Cons.prems None s by simp
    next
      case (Some y)
      obtain n r where y: "y = (n, r)" by fastforce
      then have r: "r \<noteq> []" "hd r \<notin> set (x # w)" using Cons.prems(1) Some by blast+
      have "hd r = x" using Cons.prems(2) s Some y r(1) by (cases r) auto
      then show ?thesis using r by simp
    qed
  qed
qed

lemma precise_hereE:
  assumes "precise_here s"
  obtains d a b c e rest where "s = d # CHR ''.'' # a # b # c # e # rest" "is_digit d" "is_digit a" "is_digit b" "is_digit c" "is_digit e"
  using assms by (cases s rule: precise_here.cases) auto

lemma coordinate_taken: "precise_here s \<Longrightarrow> coordinate_length s \<noteq> None"
  by (elim precise_hereE) (auto simp: coordinate_length_def is_digit_def)

lemma replacement_is_redacted:
  "coordinate_shaped prev s = Some (n, r) \<Longrightarrow> r = redacted"
  by (auto simp: coordinate_shaped_def)

lemma precise_here_after: "\<not> is_digit c \<Longrightarrow> \<not> precise_here (c # s)"
  by (auto elim: precise_hereE)

lemma precise_redacted: "precise (redacted @ s) = precise s"
  by (simp add: redacted_def precise_here_after is_digit_def)

lemma redacted_head [simp]: "redacted \<noteq> []" "hd redacted = CHR ''<''" "\<not> is_digit (CHR ''<'')"
  by (simp_all add: redacted_def is_digit_def)

lemma precise_here_prefix: "precise_here (c # take 5 cs) \<Longrightarrow> precise_here (c # cs)"
  by (cases "c # cs" rule: precise_here.cases) simp_all

text \<open>No coordinate is left.\<close>

lemma coordinates_are_gone: "\<not> precise (substitute coordinate_shaped prev s)"
proof (induction coordinate_shaped prev s rule: substitute.induct)
  case (1 prev)
  then show ?case by simp
next
  case (2 prev c cs)
  show ?case
  proof (cases "coordinate_shaped prev (c # cs)")
    case (Some y)
    obtain n r where y: "y = (n, r)" by fastforce
    then have "r = redacted" using Some replacement_is_redacted by blast
    then show ?thesis using 2(2) [OF Some y [symmetric]] Some y by (simp add: precise_redacted)
  next
    case None
    have "\<not> precise_here (c # substitute coordinate_shaped (Some c) cs)"
    proof
      assume "precise_here (c # substitute coordinate_shaped (Some c) cs)"
      then obtain x y z u rest where w: "substitute coordinate_shaped (Some c) cs = CHR ''.'' # x # y # z # u # rest"
          and d: "is_digit c" "is_digit x" "is_digit y" "is_digit z" "is_digit u"
        by (elim precise_hereE) auto
      have "take (length [CHR ''.'', x, y, z, u]) cs = [CHR ''.'', x, y, z, u]"
      proof (rule substitute_prefix [where m = coordinate_shaped and prev = "Some c"])
        fix p t n r
        assume "coordinate_shaped p t = Some (n, r)"
        then have "r = redacted" by (rule replacement_is_redacted)
        then show "r \<noteq> [] \<and> hd r \<notin> set [CHR ''.'', x, y, z, u]"
          using d by auto
      qed (simp add: w)
      then have "take 5 cs = [CHR ''.'', x, y, z, u]" by (simp add: eval_nat_numeral)
      then have "precise_here (c # take 5 cs)" using d by simp
      then have "precise_here (c # cs)" by (rule precise_here_prefix)
      then show False using None coordinate_taken by (simp add: coordinate_shaped_def)
    qed
    then show ?thesis using None 2(1) by simp
  qed
qed

lemma name_chars: "k \<in> set SENSITIVE_QUERY_KEYS \<Longrightarrow> x \<in> set k \<Longrightarrow> x \<notin> {CHR ''<'', CHR ''>'', CHR ''=''}"
  by (auto simp: SENSITIVE_QUERY_KEYS_def)

lemma lower_plain [simp]: "char_lower (CHR ''<'') = CHR ''<''" "char_lower (CHR ''>'') = CHR ''>''" "char_lower (CHR ''='') = CHR ''=''"
  by (simp_all add: string_defs)

text \<open>What a match is: a name not glued to a word, an equals sign, and the longest value there is.\<close>

lemma sensitive_matchE:
  assumes "sensitive_query prev s = Some (n, r)"
  obtains k name v rest where "k \<in> set SENSITIVE_QUERY_KEYS" "s = name @ ''='' @ v @ rest" "str_lower name = k"
    "v \<noteq> []" "list_all in_value v" "rest \<noteq> [] \<longrightarrow> \<not> in_value (hd rest)" "\<not> after_word prev"
    "n = length name + 1 + length v" "r = name @ ''='' @ redacted"
proof -
  from assms obtain k where k: "find (named_here s) SENSITIVE_QUERY_KEYS = Some k"
    and p: "\<not> after_word prev" and v: "takeWhile in_value (drop (length k + 1) s) \<noteq> []"
      "n = length k + 1 + length (takeWhile in_value (drop (length k + 1) s))" "r = take (length k) s @ ''='' @ redacted"
    by (auto simp: sensitive_query_def Let_def split: if_splits option.splits)
  have here: "named_here s k" "k \<in> set SENSITIVE_QUERY_KEYS" using find_Some_in [OF k] by auto
  then have low: "str_lower (take (length k) s) = k" and eq: "take 1 (drop (length k) s) = ''=''" by (auto simp: named_here_def)
  then have len: "length (take (length k) s) = length k" by (metis length_map str_lower_def)
  have "s = take (length k) s @ ''='' @ drop (length k + 1) s"
    by (metis append_take_drop_id drop_drop eq add.commute)
  then have "s = take (length k) s @ ''='' @ takeWhile in_value (drop (length k + 1) s) @ dropWhile in_value (drop (length k + 1) s)"
    by (metis takeWhile_dropWhile_id)
  moreover have "dropWhile in_value (drop (length k + 1) s) \<noteq> [] \<longrightarrow> \<not> in_value (hd (dropWhile in_value (drop (length k + 1) s)))"
    using hd_dropWhile by blast
  moreover have "list_all in_value (takeWhile in_value (drop (length k + 1) s))"
    by (auto simp: list_all_iff dest: set_takeWhileD)
  ultimately show thesis
    by (intro that [of k "take (length k) s" "takeWhile in_value (drop (length k + 1) s)" "dropWhile in_value (drop (length k + 1) s)"])
      (use here(2) low v p len in simp_all)
qed

text \<open>No value of a sensitive parameter is left by the first pass.\<close>

lemma sensitive_skips: "c \<in> {CHR ''<'', CHR ''>'', CHR ''=''} \<Longrightarrow> sensitive_query prev (c # s) = None"
proof (rule ccontr)
  assume c: "c \<in> {CHR ''<'', CHR ''>'', CHR ''=''}" and "sensitive_query prev (c # s) \<noteq> None"
  then obtain n r where "sensitive_query prev (c # s) = Some (n, r)" by auto
  then obtain k name t where k: "k \<in> set SENSITIVE_QUERY_KEYS" "c # s = name @ t" "str_lower name = k" by (elim sensitive_matchE) auto
  then obtain x name' where name: "name = x # name'" by (cases name) (auto simp: SENSITIVE_QUERY_KEYS_def str_lower_def)
  then have "char_lower c \<in> set k" using k by (auto simp: str_lower_def)
  then have "char_lower c \<notin> {CHR ''<'', CHR ''>'', CHR ''=''}" using name_chars [OF k(1)] by blast
  then show False using c by auto
qed

text \<open>A match that starts inside a name would have to follow a word character, so a redacted parameter holds none.\<close>

lemma word_of_name: "k \<in> set SENSITIVE_QUERY_KEYS \<Longrightarrow> str_lower name = k \<Longrightarrow> list_all is_word name"
proof -
  assume k: "k \<in> set SENSITIVE_QUERY_KEYS" "str_lower name = k"
  have "char_lower x \<in> set lower_letters \<or> x = CHR ''_''" if "x \<in> set name" for x
  proof -
    have "char_lower x \<in> set k" using that k(2) by (auto simp: str_lower_def)
    then have "char_lower x \<in> insert (CHR ''_'') (set lower_letters)" using k(1) by (auto simp: SENSITIVE_QUERY_KEYS_def lower_letters_def)
    moreover have "char_lower x = CHR ''_'' \<Longrightarrow> x = CHR ''_''"
      using set_zip_rightD [of x "CHR ''_''" upper_letters lower_letters] map_of_SomeD [of "zip upper_letters lower_letters" x "CHR ''_''"]
      by (auto simp: char_lower_def lower_letters_def split: option.splits)
    ultimately show ?thesis by blast
  qed
  then show ?thesis by (auto simp: list_all_iff is_word_def)
qed

lemma word_in_value: "is_word c \<Longrightarrow> in_value c \<and> c \<noteq> CHR ''=''"
proof -
  assume w: "is_word c"
  have "list_all (\<lambda>x. \<not> is_word x) [CHR '' '', CHR 0x09, CHR 0x0A, CHR 0x0B, CHR 0x0C, CHR 0x0D, CHR 0x1C, CHR 0x1D, CHR 0x1E, CHR 0x1F,
      CHR ''&'', CHR ''#'', CHR 0x22, CHR 0x27, CHR ''<'', CHR ''>'', CHR ''='']"
    by code_simp
  with w show ?thesis by (auto simp: in_value_def is_space_def)
qed

lemma name_before_equals:
  assumes "a @ CHR ''='' # x = b @ CHR ''='' # y" and "list_all is_word a" and "list_all is_word b"
  shows "a = b \<and> x = y"
proof -
  have tw: "takeWhile (\<lambda>c. c \<noteq> CHR ''='') (n @ CHR ''='' # z) = n" if "list_all is_word n" for n z
    using that word_in_value by (induction n) auto
  have "a = b" using tw [OF assms(2), of x] tw [OF assms(3), of y] assms(1) by simp
  then show ?thesis using assms(1) by simp
qed

lemma sensitive_matchI:
  assumes "k \<in> set SENSITIVE_QUERY_KEYS" and "str_lower name = k" and "in_value v" and "\<not> after_word prev"
  shows "sensitive_query prev (name @ CHR ''='' # v # rest) \<noteq> None"
proof -
  let ?s = "name @ CHR ''='' # v # rest"
  have len: "length name = length k" using assms(2) by (auto simp: str_lower_def)
  have "named_here ?s k" using assms(2) len by (simp add: named_here_def)
  then obtain j where j: "find (named_here ?s) SENSITIVE_QUERY_KEYS = Some j"
    using assms(1) find_None_iff' by (metis option.exhaust)
  then have here: "named_here ?s j" "j \<in> set SENSITIVE_QUERY_KEYS" using find_Some_in by fast+
  have "take (length j) ?s @ CHR ''='' # drop (length j + 1) ?s = ?s"
    using here(1) unfolding named_here_def by (metis append_Cons append_Nil append_take_drop_id drop_drop add.commute)
  moreover have "list_all is_word (take (length j) ?s)" using here word_of_name unfolding named_here_def by blast
  ultimately have "drop (length j + 1) ?s = v # rest"
    using name_before_equals [of "take (length j) ?s" _ name] word_of_name [OF assms(1, 2)] by blast
  then show ?thesis using j assms(3, 4) by (simp add: sensitive_query_def Let_def)
qed

lemma not_in_value_skips: "\<not> in_value c \<Longrightarrow> sensitive_query prev (c # s) = None"
proof (rule ccontr)
  assume c: "\<not> in_value c" and "sensitive_query prev (c # s) \<noteq> None"
  then obtain n r where "sensitive_query prev (c # s) = Some (n, r)" by auto
  then obtain k name t where k: "k \<in> set SENSITIVE_QUERY_KEYS" "c # s = name @ t" "str_lower name = k" by (elim sensitive_matchE) auto
  then obtain x name' where "name = x # name'" by (cases name) (auto simp: SENSITIVE_QUERY_KEYS_def str_lower_def)
  then show False using k(2) word_of_name [OF k(1, 3)] word_in_value c by auto
qed

lemma after_word_skips: "is_word c \<Longrightarrow> sensitive_query (Some c) s = None"
  by (simp add: sensitive_query_def)

lemma discloses_within_word:
  "is_word c \<Longrightarrow> list_all is_word u \<Longrightarrow> discloses (Some c) (u @ t) = discloses (Some (last (c # u))) t"
  by (induction u arbitrary: c) (auto simp: after_word_skips)

lemma substitute_within_word:
  assumes "is_word c" and "list_all is_word w" and "take (length w) (substitute sensitive_query (Some c) cs) = w"
  shows "take (length w) cs = w \<and> drop (length w) (substitute sensitive_query (Some c) cs)
      = substitute sensitive_query (Some (last (c # w))) (drop (length w) cs)"
  using assms
proof (induction w arbitrary: c cs)
  case (Cons x w)
  then show ?case by (cases cs) (auto simp: after_word_skips)
qed simp

lemma substitute_keeps_head:
  assumes "substitute sensitive_query prev s = x # xs"
  obtains s' where "s = x # s'"
proof (cases s)
  case (Cons c cs)
  show thesis
  proof (cases "sensitive_query prev (c # cs)")
    case None
    then show thesis using that assms Cons by simp
  next
    case (Some y)
    obtain n r where y: "y = (n, r)" by fastforce
    then have "sensitive_query prev (c # cs) = Some (n, r)" using Some by simp
    then obtain k name t where k: "k \<in> set SENSITIVE_QUERY_KEYS" "c # cs = name @ ''='' @ t" "str_lower name = k" "r = name @ ''='' @ redacted"
      by (elim sensitive_matchE) auto
    then have "name \<noteq> []" by (auto simp: SENSITIVE_QUERY_KEYS_def str_lower_def)
    then have "x = c" using assms Cons Some y k(2, 4) by (cases name) auto
    then show thesis using that Cons by simp
  qed
qed (use assms in simp)

lemma redacted_discloses_nothing: "discloses prev (redacted @ t) = discloses (Some (CHR ''>'')) t"
proof -
  have "list_all is_word ''redacted'' \<and> list_all (\<lambda>c. \<not> is_word c) ''<>'' \<and> list_all (\<lambda>k. k ! 0 \<noteq> CHR ''r'') SENSITIVE_QUERY_KEYS"
    by code_simp
  then have w: "list_all is_word ''edacted''" "is_word (CHR ''r'')" and nr: "\<And>k. k \<in> set SENSITIVE_QUERY_KEYS \<Longrightarrow> k ! 0 \<noteq> CHR ''r''"
    by (auto simp: list_all_iff)
  have "sensitive_query (Some (CHR ''<'')) (CHR ''r'' # s) = None" for s
  proof (rule ccontr)
    assume "sensitive_query (Some (CHR ''<'')) (CHR ''r'' # s) \<noteq> None"
    then obtain n r where "sensitive_query (Some (CHR ''<'')) (CHR ''r'' # s) = Some (n, r)" by auto
    then obtain k name t where k: "k \<in> set SENSITIVE_QUERY_KEYS" "CHR ''r'' # s = name @ t" "str_lower name = k" by (elim sensitive_matchE) auto
    then obtain name' where "name = CHR ''r'' # name'" by (cases name) (auto simp: SENSITIVE_QUERY_KEYS_def str_lower_def)
    then have "k ! 0 = char_lower (CHR ''r'')" using k(3) by (auto simp: str_lower_def)
    moreover have "char_lower (CHR ''r'') = CHR ''r''" by (simp add: string_defs)
    ultimately show False using nr [OF k(1)] by simp
  qed
  then have "discloses prev (redacted @ t) = discloses (Some (CHR ''r'')) (''edacted'' @ CHR ''>'' # t)"
    unfolding redacted_def by (simp add: sensitive_skips)
  also have "\<dots> = discloses (Some (last (CHR ''r'' # ''edacted''))) (CHR ''>'' # t)"
    by (rule discloses_within_word [OF w(2, 1)])
  finally show ?thesis by (simp add: sensitive_skips)
qed

text \<open>Where the scanner found nothing, its output holds nothing either.\<close>

lemma no_match_appears:
  assumes "sensitive_query prev (c # cs) = None"
  shows "sensitive_query prev (c # substitute sensitive_query (Some c) cs) = None"
proof (rule ccontr)
  let ?t = "substitute sensitive_query (Some c) cs"
  assume "sensitive_query prev (c # ?t) \<noteq> None"
  then obtain n r where "sensitive_query prev (c # ?t) = Some (n, r)" by auto
  then obtain k name v rest where k: "k \<in> set SENSITIVE_QUERY_KEYS" "c # ?t = name @ ''='' @ v @ rest" "str_lower name = k"
      "v \<noteq> []" "list_all in_value v" "\<not> after_word prev"
    by (elim sensitive_matchE)
  obtain w where name: "name = c # w" using k(1-3) by (cases name) (auto simp: SENSITIVE_QUERY_KEYS_def str_lower_def)
  obtain x v' where v: "v = x # v'" "in_value x" using k(4, 5) by (cases v) auto
  have t: "?t = w @ CHR ''='' # x # v' @ rest" using k(2) name v by simp
  have ww: "is_word c" "list_all is_word w" using word_of_name [OF k(1, 3)] name by auto
  have sub: "take (length w) cs = w" "CHR ''='' # x # v' @ rest = substitute sensitive_query (Some (last (c # w))) (drop (length w) cs)"
    using substitute_within_word [OF ww, of cs] unfolding t by auto
  obtain s1 where s1: "drop (length w) cs = CHR ''='' # s1" using substitute_keeps_head [OF sub(2) [symmetric]] .
  then have "x # v' @ rest = substitute sensitive_query (Some (CHR ''='')) s1" using sub(2) by (simp add: sensitive_skips)
  then obtain s2 where "s1 = x # s2" using substitute_keeps_head by metis
  then have "c # cs = name @ CHR ''='' # x # s2" using sub(1) s1 name by (metis append_Cons append_take_drop_id)
  then show False using sensitive_matchI [OF k(1, 3) v(2) k(6), of s2] assms by simp
qed

text \<open>A redacted parameter holds nothing, whatever follows it.\<close>

lemma redacted_parameter_is_silent:
  assumes "k \<in> set SENSITIVE_QUERY_KEYS" and "str_lower name = k"
  shows "discloses prev (name @ CHR ''='' # redacted @ t) = discloses (Some (CHR ''>'')) t"
proof -
  have "sensitive_query prev (name @ CHR ''='' # redacted @ t) = None"
  proof (rule ccontr)
    assume "sensitive_query prev (name @ CHR ''='' # redacted @ t) \<noteq> None"
    then obtain n r where "sensitive_query prev (name @ CHR ''='' # redacted @ t) = Some (n, r)" by auto
    then obtain k' name' v rest where k': "k' \<in> set SENSITIVE_QUERY_KEYS" "name @ CHR ''='' # redacted @ t = name' @ ''='' @ v @ rest"
        "str_lower name' = k'" "v \<noteq> []" "list_all in_value v"
      by (elim sensitive_matchE)
    then have "name @ CHR ''='' # (redacted @ t) = name' @ CHR ''='' # (v @ rest)" by (simp only: append.simps)
    then have "redacted @ t = v @ rest"
      by (rule conjunct2 [OF name_before_equals [OF _ word_of_name [OF assms] word_of_name [OF k'(1, 3)]]])
    then have "hd v = CHR ''<''" using k'(4) redacted_head(1, 2) by (metis hd_append2)
    moreover have "in_value (hd v)" using k'(4, 5) by (cases v) simp_all
    ultimately show False by (simp add: in_value_def)
  qed
  moreover obtain c w where name: "name = c # w" using assms by (cases name) (auto simp: SENSITIVE_QUERY_KEYS_def str_lower_def)
  moreover have "is_word c" "list_all is_word w" using word_of_name [OF assms] name by auto
  ultimately show ?thesis
    using discloses_within_word [of c w] by (simp add: sensitive_skips redacted_discloses_nothing)
qed

lemma values_are_gone: "\<not> discloses prev (substitute sensitive_query prev s)"
proof (induction sensitive_query prev s rule: substitute.induct)
  case (1 prev)
  then show ?case by simp
next
  case (2 prev c cs)
  show ?case
  proof (cases "sensitive_query prev (c # cs)")
    case None
    then show ?thesis using no_match_appears [OF None] 2(1) by simp
  next
    case (Some y)
    obtain n r where y: "y = (n, r)" by fastforce
    then have "sensitive_query prev (c # cs) = Some (n, r)" using Some by simp
    then obtain k name v rest where k: "k \<in> set SENSITIVE_QUERY_KEYS" "c # cs = name @ ''='' @ v @ rest" "str_lower name = k"
        "rest \<noteq> [] \<longrightarrow> \<not> in_value (hd rest)" "n = length name + 1 + length v" "r = name @ ''='' @ redacted"
      by (elim sensitive_matchE)
    have rest: "drop (n - 1) cs = rest" using arg_cong [OF k(2), of "drop n"] k(5) by simp
    let ?t = "substitute sensitive_query (Some (last (c # take (n - 1) cs))) rest"
    have below: "\<not> discloses (Some (last (c # take (n - 1) cs))) ?t" using 2(2) [OF Some y [symmetric]] rest by simp
    have "\<not> discloses p ?t" for p
    proof (cases rest)
      case (Cons d ds)
      then have "\<And>q z. sensitive_query q (d # z) = None" using k(4) not_in_value_skips by simp
      then show ?thesis using below Cons by simp
    qed simp
    then have "\<not> discloses prev (name @ CHR ''='' # redacted @ ?t)" using redacted_parameter_is_silent [OF k(1, 3)] by simp
    then show ?thesis using Some y rest k(6) by simp
  qed
qed

text \<open>The second pass leaves a text without coordinates as it is.\<close>

lemma coordinate_length_precise: "coordinate_length s = Some n \<Longrightarrow> precise s"
proof -
  assume c: "coordinate_length s = Some n"
  define sign where "sign = (case s of [] \<Rightarrow> 0 | c # _ \<Rightarrow> if c = CHR ''-'' then 1 else (0::nat))"
  let ?whole = "takeWhile is_digit (drop sign s)"
  let ?rest = "drop (sign + length ?whole) s"
  let ?places = "takeWhile is_digit (drop 1 ?rest)"
  have w: "?whole \<noteq> []" "take 1 ?rest = ''.''" "4 \<le> length ?places"
    using c by (auto simp: coordinate_length_def Let_def sign_def split: if_splits)
  have "length (take 4 ?places) = Suc (Suc (Suc (Suc 0)))" using w(3) by simp
  then obtain a b x e where p: "take 4 ?places = [a, b, x, e]" unfolding length_Suc_conv by auto
  then have d: "is_digit a" "is_digit b" "is_digit x" "is_digit e"
    by (metis in_set_takeD list.set_intros set_takeWhileD)+
  have rest: "?rest = CHR ''.'' # a # b # x # e # drop 4 ?places @ dropWhile is_digit (drop 1 ?rest)"
    by (metis append_Cons append_Nil append_take_drop_id append_assoc p takeWhile_dropWhile_id w(2))
  have "s = take sign s @ ?whole @ ?rest"
    by (metis append_take_drop_id drop_drop add.commute takeWhile_eq_take dropWhile_eq_drop takeWhile_dropWhile_id)
  moreover have "?whole = butlast ?whole @ [last ?whole]" using w(1) by simp
  ultimately have "s = (take sign s @ butlast ?whole) @ last ?whole # ?rest" by (metis append.assoc append_Cons append_Nil)
  moreover have "is_digit (last ?whole)" using w(1) by (meson last_in_set set_takeWhileD)
  then have "precise_here (last ?whole # ?rest)" using rest d by (metis precise_here.simps(1))
  ultimately show "precise s" unfolding precise_iff by blast
qed

lemma coordinates_untouched: "\<not> precise s \<Longrightarrow> substitute coordinate_shaped prev s = s"
proof (induction s arbitrary: prev)
  case (Cons c cs)
  have "coordinate_length (c # cs) = None"
    by (rule ccontr) (use Cons.prems coordinate_length_precise [of "c # cs"] in auto)
  then show ?case using Cons by (simp add: coordinate_shaped_def)
qed simp

lemma queries_untouched: "\<not> discloses prev s \<Longrightarrow> substitute sensitive_query prev s = s"
  by (induction s arbitrary: prev) (auto split: option.splits)

text \<open>What a text with no coordinate keeps of it through the first pass.\<close>

lemma precise_skip: "list_all (\<lambda>c. \<not> is_digit c) u \<Longrightarrow> precise (u @ t) = precise t"
  by (induction u) (auto simp: precise_here_after)

lemma precise_suffix: "precise (drop n s) \<Longrightarrow> precise s"
  unfolding precise_iff by (metis append.assoc append_take_drop_id)

lemma name_has_no_digit:
  assumes "k \<in> set SENSITIVE_QUERY_KEYS" and "str_lower name = k"
  shows "list_all (\<lambda>c. \<not> is_digit c) name \<and> name \<noteq> []"
proof -
  have "list_all (\<lambda>c. char_lower c = c) ''0123456789'' \<and> list_all (list_all (\<lambda>c. \<not> is_digit c)) SENSITIVE_QUERY_KEYS
      \<and> list_all (\<lambda>k. k \<noteq> []) SENSITIVE_QUERY_KEYS" by code_simp
  then have "\<And>c. is_digit c \<Longrightarrow> char_lower c = c" "\<And>c. c \<in> set k \<Longrightarrow> \<not> is_digit c" "k \<noteq> []"
    using assms(1) by (auto simp: list_all_iff is_digit_def)
  then show ?thesis using assms(2) by (fastforce simp: list_all_iff str_lower_def)
qed

lemma query_pass_precise: "precise (substitute sensitive_query prev s) \<Longrightarrow> precise s"
proof (induction sensitive_query prev s rule: substitute.induct)
  case (2 prev c cs)
  show ?case
  proof (cases "sensitive_query prev (c # cs)")
    case (Some y)
    obtain n r where y: "y = (n, r)" by fastforce
    then have "sensitive_query prev (c # cs) = Some (n, r)" using Some by simp
    then obtain k name where k: "k \<in> set SENSITIVE_QUERY_KEYS" "str_lower name = k" "r = name @ ''='' @ redacted"
      by (elim sensitive_matchE)
    have "list_all (\<lambda>c. \<not> is_digit c) (''='' @ redacted)" by code_simp
    then have "list_all (\<lambda>c. \<not> is_digit c) r" using k(3) name_has_no_digit [OF k(1, 2)] by simp
    then have "precise (substitute sensitive_query (Some (last (c # take (n - 1) cs))) (drop (n - 1) cs))"
      using 2(3) Some y by (simp add: precise_skip)
    then have "precise (drop (n - 1) cs)" by (rule 2(2) [OF Some y [symmetric]])
    then show ?thesis using precise_suffix by simp
  next
    case None
    then consider (here) "precise_here (c # substitute sensitive_query (Some c) cs)" | (later) "precise (substitute sensitive_query (Some c) cs)"
      using 2(3) by auto
    then show ?thesis
    proof cases
      case here
      then obtain x y z u rest where w: "substitute sensitive_query (Some c) cs = CHR ''.'' # x # y # z # u # rest"
          and d: "is_digit c" "is_digit x" "is_digit y" "is_digit z" "is_digit u"
        by (elim precise_hereE) auto
      have "take (length [CHR ''.'', x, y, z, u]) cs = [CHR ''.'', x, y, z, u]"
      proof (rule substitute_prefix [where m = sensitive_query and prev = "Some c"])
        fix p t n r
        assume "sensitive_query p t = Some (n, r)"
        then obtain k name where k: "k \<in> set SENSITIVE_QUERY_KEYS" "str_lower name = k" "r = name @ ''='' @ redacted"
          by (elim sensitive_matchE)
        have name: "\<not> is_digit (hd name)" "name \<noteq> []" "list_all is_word name"
          using name_has_no_digit [OF k(1, 2)] word_of_name [OF k(1, 2)] by (cases name; simp)+
        have "\<not> is_word (CHR ''.'')" by code_simp
        then have "hd name \<noteq> CHR ''.''" using name by (cases name) auto
        then show "r \<noteq> [] \<and> hd r \<notin> set [CHR ''.'', x, y, z, u]" using k(3) name d by auto
      qed (simp add: w)
      then have "take 5 cs = [CHR ''.'', x, y, z, u]" by (simp add: eval_nat_numeral)
      then have "precise_here (c # take 5 cs)" using d by simp
      then show ?thesis using precise_here_prefix by auto
    next
      case later
      then show ?thesis using 2(1) [OF None] by simp
    qed
  qed
qed simp

section \<open>What may be logged\<close>

text \<open>
  The types a logged value may have. Anything else is an object, known by what prints it. A dict's
  keys are texts here, as they are in a record's fields.
\<close>

datatype pyval = PNone | PBool bool | PInt int | PFloat real | PStr string | PBytes string
  | PTuple "pyval list" | PList "pyval list" | PDict "(string \<times> pyval) list" | PObject nat

text \<open>How Python prints: \<open>str\<close> and \<open>repr\<close> of a value, either of which may raise, and \<open>repr\<close> of a float.\<close>

record printer =
  pn_str :: "pyval \<Rightarrow> string option"
  pn_repr :: "pyval \<Rightarrow> string option"
  pn_float :: "real \<Rightarrow> string"

definition BANNED_FIELDS :: "string list" where
  "BANNED_FIELDS = [''lat'', ''lon'', ''latitude'', ''longitude'', ''ip'', ''client_ip'', ''user_agent'',
     ''origin_coord'', ''destination'', ''origin'', ''coordinates'', ''point'', ''points'',
     ''segment_key'', ''bbox'', ''upstream_message'']"

fun could_carry_a_coordinate :: "pyval \<Rightarrow> bool" where
  "could_carry_a_coordinate (PBool b) = False"
| "could_carry_a_coordinate (PInt n) = False"
| "could_carry_a_coordinate (PStr s) = list_ex is_digit s"
| "could_carry_a_coordinate v = True"

fun scrub :: "printer \<Rightarrow> pyval \<Rightarrow> pyval" where
  "scrub pn (PStr s) = PStr (scrub_text s)"
| "scrub pn (PFloat x) = (if coordinate_length (pn_float pn x) = Some (length (pn_float pn x)) then PStr redacted else PFloat x)"
| "scrub pn (PTuple vs) = PTuple (map (scrub pn) vs)"
| "scrub pn (PList vs) = PList (map (scrub pn) vs)"
| "scrub pn (PDict kvs) = PDict (map (\<lambda>(k, v). (k, scrub pn v)) kvs)"
| "scrub pn (PObject n) =
     (case pn_str pn (PObject n) of
        None \<Rightarrow> PObject n
      | Some t \<Rightarrow> if scrub_text t = t then PObject n else PStr (scrub_text t))"
| "scrub pn v = v"

section \<open>A record on its way out\<close>

record log_record =
  lr_created :: string
  lr_levelname :: string
  lr_name :: string
  lr_msg :: pyval
  lr_args :: pyval
  lr_exc :: "string option"
  lr_fields :: "(string \<times> pyval) list"

text \<open>\<open>bool(record.args)\<close>: an empty tuple, an empty dict or none at all.\<close>

definition no_args :: "pyval \<Rightarrow> bool" where
  "no_args v \<longleftrightarrow> v \<in> {PNone, PTuple [], PDict []}"

definition privacy_filter :: "printer \<Rightarrow> log_record \<Rightarrow> log_record" where
  "privacy_filter pn r = r\<lparr>
     lr_fields := map (\<lambda>(k, v). (k, if str_lower k \<in> set BANNED_FIELDS \<and> could_carry_a_coordinate v then PStr redacted else v)) (lr_fields r),
     lr_msg := (case lr_msg r of PStr s \<Rightarrow> scrub pn (PStr s) | v \<Rightarrow> v),
     lr_args := (if no_args (lr_args r) then lr_args r else scrub pn (lr_args r))\<rparr>"

definition request_id_filter :: "string option \<Rightarrow> log_record \<Rightarrow> log_record" where
  "request_id_filter rid r =
     (case rid of None \<Rightarrow> r | Some i \<Rightarrow> r\<lparr>lr_fields := AList.update ''request_id'' (PStr i) (lr_fields r)\<rparr>)"

text \<open>
  \<open>msg % args\<close> with a tuple: each conversion takes the next argument, and it raises on one too few,
  one too many, a trailing percent sign or a value the conversion does not print. A conversion is
  one letter here, without flags, width or a mapping key.
\<close>

fun convert :: "printer \<Rightarrow> char \<Rightarrow> pyval \<Rightarrow> string option" where
  "convert pn c v =
     (if c = CHR ''s'' then pn_str pn v
      else if c = CHR ''r'' then pn_repr pn v
      else if c = CHR ''d'' then
        (case v of PInt n \<Rightarrow> Some (int_text n) | PBool b \<Rightarrow> Some (if b then ''1'' else ''0'')
         | PFloat x \<Rightarrow> Some (int_text (py_int x)) | _ \<Rightarrow> None)
      else None)"

fun percent :: "printer \<Rightarrow> string \<Rightarrow> pyval list \<Rightarrow> string option" where
  "percent pn [] vs = (if vs = [] then Some [] else None)"
| "percent pn (c # cs) vs =
     (if c \<noteq> CHR ''%'' then map_option ((#) c) (percent pn cs vs)
      else case cs of
          [] \<Rightarrow> None
        | d # ds \<Rightarrow>
            if d = CHR ''%'' then map_option ((#) d) (percent pn ds vs)
            else case vs of
                [] \<Rightarrow> None
              | v # vs' \<Rightarrow> Option.bind (convert pn d v) (\<lambda>t. map_option ((@) t) (percent pn ds vs')))"

definition get_message :: "printer \<Rightarrow> log_record \<Rightarrow> string option" where
  "get_message pn r = Option.bind (pn_str pn (lr_msg r)) (\<lambda>m.
     if no_args (lr_args r) then Some m
     else case lr_args r of
         PTuple vs \<Rightarrow> percent pn m vs
       | PDict kvs \<Rightarrow> (case percent pn m [] of Some t \<Rightarrow> Some t | None \<Rightarrow> percent pn m [PDict kvs])
       | v \<Rightarrow> percent pn m [v])"

text \<open>What \<open>json.dumps\<close> takes as it is; the rest is logged as its \<open>repr\<close>.\<close>

fun dumpable :: "pyval \<Rightarrow> bool" where
  "dumpable (PTuple vs) = list_all dumpable vs"
| "dumpable (PList vs) = list_all dumpable vs"
| "dumpable (PDict kvs) = list_all (\<lambda>(k, v). dumpable v) kvs"
| "dumpable (PBytes s) = False"
| "dumpable (PObject n) = False"
| "dumpable v = True"

definition RESERVED :: "string list" where
  "RESERVED = [''name'', ''msg'', ''args'', ''levelname'', ''levelno'', ''pathname'', ''filename'',
     ''module'', ''exc_info'', ''exc_text'', ''stack_info'', ''lineno'', ''funcName'',
     ''created'', ''msecs'', ''relativeCreated'', ''thread'', ''threadName'',
     ''processName'', ''process'', ''taskName'', ''message'', ''asctime'']"

definition field_value :: "printer \<Rightarrow> pyval \<Rightarrow> pyval option" where
  "field_value pn v = map_option (scrub pn) (if dumpable v then Some v else map_option PStr (pn_repr pn v))"

fun put_fields :: "printer \<Rightarrow> (string \<times> pyval) list \<Rightarrow> (string \<times> pyval) list \<Rightarrow> (string \<times> pyval) list option" where
  "put_fields pn [] payload = Some payload"
| "put_fields pn ((k, v) # kvs) payload =
     (if k \<in> set RESERVED \<or> take 1 k = ''_'' then put_fields pn kvs payload
      else Option.bind (field_value pn v) (\<lambda>w. put_fields pn kvs (AList.update k w payload)))"

text \<open>\<open>JsonFormatter.format\<close>, up to \<open>json.dumps\<close> of the payload; \<open>None\<close> where it raises and the line is lost.\<close>

definition format_line :: "printer \<Rightarrow> log_record \<Rightarrow> (string \<times> pyval) list option" where
  "format_line pn r =
     Option.bind (get_message pn r) (\<lambda>m.
       Option.bind (put_fields pn (lr_fields r)
           [(''ts'', PStr (lr_created r)), (''level'', PStr (lr_levelname r)), (''logger'', PStr (lr_name r)), (''msg'', PStr m)])
         (\<lambda>payload. Some (case lr_exc r of
              None \<Rightarrow> payload
            | Some e \<Rightarrow> AList.update ''exc'' (scrub pn (PStr e)) payload)))"

text \<open>The handler's two filters, in their order, and then its formatter.\<close>

definition emitted :: "printer \<Rightarrow> string option \<Rightarrow> log_record \<Rightarrow> (string \<times> pyval) list option" where
  "emitted pn rid r = format_line pn (privacy_filter pn (request_id_filter rid r))"

section \<open>Configuring it\<close>

record logging_state =
  ls_configured :: bool
  ls_handlers :: nat
  ls_level :: int
  ls_access_log :: bool

definition level_number :: "string \<Rightarrow> int" where
  "level_number level =
     (case map_of [(''CRITICAL'', 50), (''FATAL'', 50), (''ERROR'', 40), (''WARNING'', 30), (''WARN'', 30),
                   (''INFO'', 20), (''DEBUG'', 10), (''NOTSET'', 0)] (str_upper level) of
        Some n \<Rightarrow> n | None \<Rightarrow> 20)"

definition configure_logging :: "string \<Rightarrow> logging_state \<Rightarrow> logging_state" where
  "configure_logging level s =
     (if ls_configured s then s
      else s\<lparr>ls_configured := True, ls_handlers := 1, ls_level := level_number level, ls_access_log := False\<rparr>)"

section \<open>What a line holds\<close>

text \<open>No text of the value, at any depth, has a coordinate in it, and no float of it prints as one.\<close>

fun clean :: "printer \<Rightarrow> pyval \<Rightarrow> bool" where
  "clean pn (PStr s) \<longleftrightarrow> \<not> precise s"
| "clean pn (PFloat x) \<longleftrightarrow> coordinate_length (pn_float pn x) \<noteq> Some (length (pn_float pn x))"
| "clean pn (PTuple vs) \<longleftrightarrow> list_all (clean pn) vs"
| "clean pn (PList vs) \<longleftrightarrow> list_all (clean pn) vs"
| "clean pn (PDict kvs) \<longleftrightarrow> list_all (\<lambda>(k, v). clean pn v) kvs"
| "clean pn (PObject n) \<longleftrightarrow> (\<forall>t. pn_str pn (PObject n) = Some t \<longrightarrow> \<not> precise t)"
| "clean pn v \<longleftrightarrow> True"

lemma scrub_text_clean: "\<not> precise (scrub_text s)"
  by (simp add: scrub_text_def coordinates_are_gone)

lemma precise_redacted_text [simp]: "\<not> precise redacted"
  using precise_redacted [of "[]"] by simp

lemma clean_scrub: "clean pn (scrub pn v)"
proof (induction pn v rule: scrub.induct)
  case (6 pn n)
  show ?case
  proof (cases "pn_str pn (PObject n)")
    case (Some t)
    then show ?thesis using scrub_text_clean [of t] by (cases "scrub_text t = t") auto
  qed simp
qed (auto simp: scrub_text_clean list_all_iff)

lemma field_value_clean: "field_value pn v = Some w \<Longrightarrow> clean pn w"
  by (auto simp: field_value_def clean_scrub)

lemma substitute_chars:
  assumes "\<forall>p t n r. m p t = Some (n, r) \<longrightarrow> set r \<subseteq> set t \<union> X"
  shows "set (substitute m prev s) \<subseteq> set s \<union> X"
  using assms
proof (induction m prev s rule: substitute.induct)
  case (2 m prev c cs)
  show ?case
  proof (cases "m prev (c # cs)")
    case None
    then show ?thesis using 2(1) [OF None 2(3)] by auto
  next
    case (Some y)
    obtain n r where y: "y = (n, r)" by fastforce
    have "set (substitute m (Some (last (c # take (n - 1) cs))) (drop (n - 1) cs)) \<subseteq> set (drop (n - 1) cs) \<union> X"
      by (rule 2(2) [OF Some y [symmetric] 2(3)])
    moreover have "set r \<subseteq> set (c # cs) \<union> X" using 2(3) Some y by blast
    ultimately show ?thesis using Some y set_drop_subset [of "n - 1" cs] by auto
  qed
qed simp

lemma scrub_text_chars: "set (scrub_text s) \<subseteq> set s \<union> insert (CHR ''='') (set redacted)"
proof -
  have "set (substitute sensitive_query None s) \<subseteq> set s \<union> insert (CHR ''='') (set redacted)"
    by (rule substitute_chars) (auto elim!: sensitive_matchE)
  moreover have "set (substitute coordinate_shaped None u) \<subseteq> set u \<union> set redacted" for u
    by (rule substitute_chars) (auto dest: replacement_is_redacted)
  ultimately show ?thesis unfolding scrub_text_def by blast
qed

lemma scrub_carries_no_more: "\<not> could_carry_a_coordinate v \<Longrightarrow> \<not> could_carry_a_coordinate (scrub pn v)"
proof (cases v)
  case (PStr s)
  have "list_all (\<lambda>c. \<not> is_digit c) (''='' @ redacted)" by code_simp
  moreover assume "\<not> could_carry_a_coordinate v"
  ultimately show ?thesis using scrub_text_chars [of s] PStr by (auto simp: list_ex_iff list_all_iff)
qed auto

lemma scrub_redacted: "scrub pn (PStr redacted) = PStr redacted"
  by (simp add: scrub_text_def queries_untouched redacted_discloses_nothing [of _ "[]", simplified] coordinates_untouched)

text \<open>A field of a filtered record: clean once it is printed, and redacted under a banned name unless it could not be a place.\<close>

definition safe_field :: "printer \<Rightarrow> string \<Rightarrow> pyval \<Rightarrow> bool" where
  "safe_field pn k v \<longleftrightarrow> clean pn v
     \<and> (str_lower k \<in> set BANNED_FIELDS \<longrightarrow> v = PStr redacted \<or> \<not> could_carry_a_coordinate v)"

lemma field_value_safe:
  assumes "field_value pn v = Some w" and "str_lower k \<in> set BANNED_FIELDS \<longrightarrow> v = PStr redacted \<or> \<not> could_carry_a_coordinate v"
  shows "safe_field pn k w"
proof -
  have "w = PStr redacted \<or> \<not> could_carry_a_coordinate w" if "v = PStr redacted \<or> \<not> could_carry_a_coordinate v"
  proof -
    have "dumpable v" using that by (cases v) auto
    then have "w = scrub pn v" using assms(1) by (simp add: field_value_def)
    then show ?thesis using that scrub_redacted scrub_carries_no_more by metis
  qed
  then show ?thesis using assms field_value_clean by (auto simp: safe_field_def)
qed

lemma in_update: "(j, u) \<in> set (AList.update k w kvs) \<Longrightarrow> (j, u) = (k, w) \<or> (j, u) \<in> set kvs"
  by (induction kvs) (auto split: if_splits)

lemma put_fields_safe:
  assumes "put_fields pn kvs payload = Some out" and "\<forall>(k, v) \<in> set kvs. str_lower k \<in> set BANNED_FIELDS \<longrightarrow> v = PStr redacted \<or> \<not> could_carry_a_coordinate v"
    and "\<forall>(k, v) \<in> set payload. k \<notin> X \<longrightarrow> safe_field pn k v"
  shows "\<forall>(k, v) \<in> set out. k \<notin> X \<longrightarrow> safe_field pn k v"
  using assms
proof (induction pn kvs payload rule: put_fields.induct)
  case (2 pn k v kvs payload)
  show ?case
  proof (cases "k \<in> set RESERVED \<or> take 1 k = ''_''")
    case True
    then show ?thesis using 2(1) [OF True] 2(3-5) by simp
  next
    case False
    then obtain w where w: "field_value pn v = Some w" "put_fields pn kvs (AList.update k w payload) = Some out"
      using 2(3) by (auto simp: Option.bind_eq_Some_conv split: if_splits)
    have "safe_field pn k w" using field_value_safe [OF w(1)] 2(4) by simp
    then have "\<forall>(j, u) \<in> set (AList.update k w payload). j \<notin> X \<longrightarrow> safe_field pn j u"
      using 2(5) in_update by fast
    then show ?thesis using 2(2) [OF False w(1)] w(2) 2(4) by simp
  qed
qed simp

lemma privacy_filter_bans:
  "\<forall>(k, v) \<in> set (lr_fields (privacy_filter pn r)). str_lower k \<in> set BANNED_FIELDS \<longrightarrow> v = PStr redacted \<or> \<not> could_carry_a_coordinate v"
  by (auto simp: privacy_filter_def split: if_splits)

text \<open>The keys a line's head holds: they are printed from the record, not scrubbed.\<close>

definition HEAD_KEYS :: "string list" where
  "HEAD_KEYS = [''ts'', ''level'', ''logger'', ''msg'']"


section \<open>Properties of the scrubbing\<close>

text \<open>A printer to try the definitions with: it prints texts, ints and one object, a request's URL.\<close>

definition plain_printer :: printer where
  "plain_printer = \<lparr>
     pn_str = (\<lambda>v. case v of PStr s \<Rightarrow> Some s | PInt n \<Rightarrow> Some (int_text n)
       | PObject n \<Rightarrow> if n = 0 then Some ''https://host/?token=abc&z=1'' else None | _ \<Rightarrow> Some ''?''),
     pn_repr = (\<lambda>v. Some ''?''), pn_float = (\<lambda>x. ''51.507489'')\<rparr>"

definition plain_record :: "string \<Rightarrow> pyval list \<Rightarrow> (string \<times> pyval) list \<Rightarrow> log_record" where
  "plain_record m args extra = \<lparr>lr_created = ''now'', lr_levelname = ''INFO'', lr_name = ''app'', lr_msg = PStr m,
     lr_args = PTuple args, lr_exc = None, lr_fields = extra\<rparr>"


text \<open>
  A credential or a position passed as a parameter does not survive in a text: no sensitive name that
  starts a word is followed by an equals sign and a value, and scrubbing once more changes nothing. A
  text with a coordinate in it is the exception the next property shows.
\<close>

theorem parameters_are_redacted:
  assumes "\<not> precise s"
  shows "\<not> discloses None (scrub_text s) \<and> \<not> precise (scrub_text s) \<and> scrub_text (scrub_text s) = scrub_text s"
proof -
  have "\<not> precise (substitute sensitive_query None s)" using query_pass_precise assms by blast
  then have one: "scrub_text s = substitute sensitive_query None s" by (simp add: scrub_text_def coordinates_untouched)
  then have gone: "\<not> discloses None (scrub_text s)" by (simp add: values_are_gone)
  then show ?thesis
    using scrub_text_clean [of s] queries_untouched [OF gone] by (simp add: scrub_text_def [of "scrub_text s"] coordinates_untouched)
qed

theorem parameters_are_redacted_witness:
  "\<not> discloses None (scrub_text ''GET /?token=abc&lat=51.5'')"
  using parameters_are_redacted [of "''GET /?token=abc&lat=51.5''"] by (simp add: is_digit_def)

text \<open>
  The second pass can undo what the first relied on: a credential glued to a coordinate does not start
  a word, so it is left, and redacting the coordinate then makes it start one.
\<close>

theorem a_glued_credential_survives:
  "scrub_text ''51.50741token=abc'' = ''<redacted>token=abc'' \<and> discloses None (scrub_text ''51.50741token=abc'')
 \<and> scrub_text (scrub_text ''51.50741token=abc'') \<noteq> scrub_text ''51.50741token=abc''"
  by code_simp

text \<open>
  The message is put together after it was scrubbed, so parts that are harmless one by one can make a
  coordinate: an int is never redacted, and two of them with a point between are a latitude.
\<close>

theorem a_message_can_hold_a_coordinate:
  "map_option (\<lambda>p. map_of p ''msg'') (emitted plain_printer None (plain_record ''at %d.%d'' [PInt 51, PInt 507489] []))
     = Some (Some (PStr ''at 51.507489''))
 \<and> precise ''at 51.507489''"
proof
  have s: "scrub_text ''at %d.%d'' = ''at %d.%d''" by code_simp
  have t: "int_text 51 = ''51'' \<and> int_text 507489 = ''507489''" by (simp add: int_text_def nat_text.simps digit_char_def)
  show "map_option (\<lambda>p. map_of p ''msg'') (emitted plain_printer None (plain_record ''at %d.%d'' [PInt 51, PInt 507489] []))
     = Some (Some (PStr ''at 51.507489''))"
    using s t by (simp add: emitted_def format_line_def privacy_filter_def request_id_filter_def plain_record_def plain_printer_def
        get_message_def no_args_def)
  show "precise ''at 51.507489''" by (simp add: is_digit_def)
qed

text \<open>
  A template is scrubbed like a text, and in \<open>latitude=%s\<close> the placeholder is what stands for the
  value: it is redacted, the argument has nowhere to go, and the whole line is lost in the formatter,
  which without the filter would have printed it.
\<close>

theorem a_sensitive_template_loses_its_line:
  "emitted plain_printer None (plain_record ''latitude=%s'' [PStr ''ok''] []) = None
 \<and> format_line plain_printer (plain_record ''latitude=%s'' [PStr ''ok''] []) \<noteq> None"
proof -
  let ?v = "[PStr ''ok'']"
  have s: "scrub_text ''latitude=%s'' = ''latitude=<redacted>''" "scrub_text ''ok'' = ''ok''" by code_simp+
  have str: "pn_str plain_printer (PStr t) = Some t" for t by (simp add: plain_printer_def)
  have "percent plain_printer ''latitude=<redacted>'' ?v = None" by code_simp
  moreover have "percent plain_printer ''latitude=%s'' ?v \<noteq> None" by code_simp
  moreover have "get_message plain_printer (privacy_filter plain_printer (request_id_filter None (plain_record ''latitude=%s'' ?v [])))
      = percent plain_printer ''latitude=<redacted>'' ?v"
    using s by (simp add: get_message_def privacy_filter_def request_id_filter_def plain_record_def no_args_def str del: percent.simps)
  moreover have "get_message plain_printer (plain_record ''latitude=%s'' ?v []) = percent plain_printer ''latitude=%s'' ?v"
    by (simp add: get_message_def plain_record_def no_args_def str del: percent.simps)
  ultimately show ?thesis
    by (auto simp: emitted_def format_line_def Option.bind_eq_None_conv plain_record_def split: option.splits)
qed

text \<open>What is printed is scrubbed even when it is not a text: the URL object httpx logs is one.\<close>

lemma an_object_is_scrubbed_by_its_text:
  "scrub plain_printer (PTuple [PStr ''GET'', PObject 0]) = PTuple [PStr ''GET'', PStr ''https://host/?token=<redacted>&z=1'']"
proof -
  have "scrub_text ''GET'' = ''GET'' \<and> scrub_text ''https://host/?token=abc&z=1'' = ''https://host/?token=<redacted>&z=1''" by code_simp
  then show ?thesis by (simp add: plain_printer_def)
qed

lemma logging_is_configured_once: "configure_logging b (configure_logging a s) = configure_logging a s"
  by (simp add: configure_logging_def)

end
