(* ===== verification/Narrate.thy ===== *)
theory Narrate
  imports Serve
begin

text \<open>
  backend/narrate.py, and main.py's \<open>_attach_narration\<close>: two sentences about a route, written by a
  third-party model from the facts of the card. The request goes through \<open>fetch\<close> (Fixtures); what the
  network answers for a route is an argument. The calls of one request run together, and each has spent
  its budget before it first waits, so the state passes through them in the order of the routes.
\<close>

section \<open>The facts\<close>

definition ANTHROPIC_URL :: url where
  "ANTHROPIC_URL = \<lparr>u_scheme = ''https'', u_netloc = ''api.anthropic.com'', u_hostname = Some ''api.anthropic.com'', u_path = ''/v1/messages''\<rparr>"

definition ANTHROPIC_VERSION :: string where "ANTHROPIC_VERSION = ''2023-06-01''"
definition MODEL :: string where "MODEL = ''claude-sonnet-5''"
definition MAX_TOKENS :: int where "MAX_TOKENS = 220"

abbreviation newline :: string where "newline \<equiv> [CHR 0x0A]"

definition SYSTEM_PROMPT :: string where
  "SYSTEM_PROMPT =
     ''You write two-sentence descriptions of walking, cycling and driving routes '' @ ''for a routing app.'' @ newline
     @ newline
     @ ''Rules:'' @ newline
     @ ''- Use only the facts given. Never invent a landmark, a street name, a '' @ ''surface, or anything about what the route looks like.'' @ newline
     @ ''- If a route is blocked, say what blocks it and do not soften it.'' @ newline
     @ ''- Plain British English. No marketing tone, no exclamation marks, no '' @ ''second-person imperatives.'' @ newline
     @ ''- Two sentences, at most 45 words.'' @ newline
     @ ''- Do not mention scores, percentages or the word '' @ [CHR 0x27] @ ''route'' @ [CHR 0x27] @ ''.''"

record narration_request =
  nq_label :: string
  nq_duration_min :: real
  nq_distance_m :: real
  nq_mode :: string
  nq_scenic :: "real option"
  nq_air :: "real option"
  nq_shade :: "real option"
  nq_status :: string
  nq_blockers :: "string list"
  nq_rest_stop_types :: "string list"
  nq_scoring_method :: string

definition score_line :: "string \<Rightarrow> real option \<Rightarrow> string list" where
  "score_line what x = (case x of None \<Rightarrow> [] | Some v \<Rightarrow> [what @ fixed_text 2 v])"

definition facts :: "narration_request \<Rightarrow> string" where
  "facts n = join newline
     ([''Objective: '' @ nq_label n,
       ''Travel: '' @ nq_mode n @ '', '' @ int_text (round_half_even (nq_duration_min n)) @ '' minutes, ''
         @ int_text (round_half_even (nq_distance_m n)) @ '' metres'',
       ''Status: '' @ nq_status n]
      @ score_line ''Greenery, 0 to 1: '' (nq_scenic n)
      @ score_line ''Air quality, 0 to 1 where 1 is clean: '' (nq_air n)
      @ score_line ''Shade, 0 to 1: '' (nq_shade n)
      @ (if nq_rest_stop_types n = [] then [] else [''Rest stops along the way: '' @ join '', '' (nq_rest_stop_types n)])
      @ (if nq_blockers n = [] then [] else [''Blocked by: '' @ join ''; '' (nq_blockers n)])
      @ (if nq_scoring_method n = ''placeholder''
         then [''NOTE: these figures are placeholders, not measurements. Say so in the '' @ ''second sentence.'']
         else if nq_scoring_method n = ''geometry_only''
         then [''NOTE: greenery was estimated from the route'' @ [CHR 0x27] @ ''s shape and tags, not from '' @ ''photographs.'']
         else []))"

definition narration_request_for :: "wire_route \<Rightarrow> rest_stop list option \<Rightarrow> narration_request" where
  "narration_request_for r stops =
     \<lparr>nq_label = wr_label r, nq_duration_min = wr_duration_min r, nq_distance_m = wr_distance_m r,
      nq_mode = mode_name (wr_mode r), nq_scenic = sc_scenic (wr_scores r), nq_air = sc_air (wr_scores r), nq_shade = sc_shade (wr_scores r),
      nq_status = status_name (wr_status r),
      nq_blockers = map (\<lambda>b. bl_type b @ '': '' @ bl_description b) (wr_blockers r),
      nq_rest_stop_types = sort (remdups (map st_type (case stops of None \<Rightarrow> [] | Some ss \<Rightarrow> ss))),
      nq_scoring_method = wr_scoring_method r\<rparr>"

definition narration_body :: "narration_request \<Rightarrow> json" where
  "narration_body n = JObj [(''model'', JStr MODEL), (''max_tokens'', JNum (of_int MAX_TOKENS)), (''system'', JStr SYSTEM_PROMPT),
     (''messages'', JList [JObj [(''role'', JStr ''user''), (''content'', JStr (facts n))]])]"

definition narration_call :: "string \<Rightarrow> narration_request \<Rightarrow> http_request" where
  "narration_call key n =
     \<lparr>fq_method = ''POST'', fq_url = ANTHROPIC_URL, fq_params = None, fq_json = narration_body n, fq_data = None, fq_content = None,
      fq_headers = Some [(''Content-Type'', ''application/json''), (''x-api-key'', key), (''anthropic-version'', ANTHROPIC_VERSION)],
      fq_cost = 1, fq_service = Some ''anthropic'', fq_persist = None\<rparr>"

section \<open>The answer\<close>

text \<open>The text of the blocks that are text; anything the loop would raise on is \<open>None\<close>.\<close>

fun block_texts :: "json list \<Rightarrow> string option" where
  "block_texts [] = Some []"
| "block_texts (b # bs) =
     (if \<not> is_dict b then None
      else if jget ''type'' b \<noteq> JStr ''text'' then block_texts bs
      else case (if jhas ''text'' b then jget ''text'' b else JStr '''') of
          JStr t \<Rightarrow> map_option ((@) t) (block_texts bs)
        | _ \<Rightarrow> None)"

definition narration_text :: "http_response \<Rightarrow> string option" where
  "narration_text resp =
     (case resp_json resp of
        None \<Rightarrow> None
      | Some payload \<Rightarrow>
          if \<not> is_dict payload then None
          else let content = jget ''content'' payload
            in if \<not> truthy content then Some []
               else if is_list content then block_texts (jlist content) else None)"

text \<open>The text or none, whether a failure was counted, or the exception the caller has to catch.\<close>

definition narrate :: "fetch_env \<Rightarrow> settings \<Rightarrow> real \<Rightarrow> upstream \<Rightarrow> narration_request \<Rightarrow> fetch_state
    \<Rightarrow> (py_error, string option \<times> bool) result \<times> fetch_state" where
  "narrate e st utc up n s =
     (case st_anthropic_api_key st of
        None \<Rightarrow> (Inr (None, False), s)
      | Some key \<Rightarrow>
          if key = [] then (Inr (None, False), s)
          else let f = fetch e (narration_call key n) utc up s
            in (case fr_result f of
                  Inl ResponseTooLarge \<Rightarrow> Inl PyRuntimeError
                | Inl SecretLeaked \<Rightarrow> Inl PyRuntimeError
                | Inl x \<Rightarrow> Inr (None, True)
                | Inr resp \<Rightarrow>
                    if 400 \<le> hr_status resp then Inr (None, True)
                    else case narration_text resp of
                        None \<Rightarrow> Inr (None, True)
                      | Some t \<Rightarrow> Inr (if strip t = [] then None else Some (strip t), False),
                fr_state f))"

section \<open>Attaching it\<close>

fun narrate_all :: "fetch_env \<Rightarrow> settings \<Rightarrow> real \<Rightarrow> (wire_route \<Rightarrow> upstream) \<Rightarrow> wire_route list \<Rightarrow> fetch_state
    \<Rightarrow> wire_route list \<times> fetch_state \<times> nat" where
  "narrate_all e st utc ups [] s = ([], s, 0)"
| "narrate_all e st utc ups (r # rs) s =
     (let (told, s1) = narrate e st utc (ups r) (narration_request_for r (wr_rest_stops r)) s;
          (rs', s2, failures) = narrate_all e st utc ups rs s1
      in case told of
          Inl x \<Rightarrow> (r # rs', s2, Suc failures)
        | Inr (t, failed) \<Rightarrow> (r\<lparr>wr_narration := t\<rparr> # rs', s2, if failed then Suc failures else failures))"

definition attach_narration :: "fetch_env \<Rightarrow> settings \<Rightarrow> real \<Rightarrow> (wire_route \<Rightarrow> upstream) \<Rightarrow> wire_route list \<Rightarrow> fetch_state
    \<Rightarrow> wire_route list \<times> fetch_state \<times> nat" where
  "attach_narration e st utc ups rs s =
     (if st_anthropic_api_key st = None \<or> st_anthropic_api_key st = Some [] then (rs, s, 0)
      else narrate_all e st utc ups rs s)"

section \<open>What narration can do to an answer\<close>

lemma narrate_text: "narrate e st utc up n s = (Inr (Some t, failed), s') \<Longrightarrow> t \<noteq> []"
  by (auto simp: narrate_def Let_def split: option.splits if_splits sum.splits fetch_error.splits)

lemma narrate_all_routes:
  "narrate_all e st utc ups rs s = (rs', s', failures) \<Longrightarrow>
     map (\<lambda>r. r\<lparr>wr_narration := None\<rparr>) rs' = map (\<lambda>r. r\<lparr>wr_narration := None\<rparr>) rs \<and> failures \<le> length rs"
proof (induction rs arbitrary: s rs' s' failures)
  case (Cons r rs)
  then show ?case by (fastforce simp: Let_def split: prod.splits sum.splits if_splits)
qed simp


definition quiet_card :: wire_route where
  "quiet_card = demo_card ''quiet'' 10"


text \<open>
  The model is told no place. The prompt of a route is the same wherever the route runs: its geometry,
  its instructions, its profile, and where its blockers and rest stops stand make no difference to it.
\<close>

theorem the_model_is_told_no_place:
  "narration_body (narration_request_for
      (r\<lparr>wr_geometry := line, wr_steps := steps, wr_elevation := profile,
         wr_blockers := map (\<lambda>b. b\<lparr>bl_lat := blat b, bl_lon := blon b\<rparr>) (wr_blockers r)\<rparr>)
      (map_option (map (\<lambda>x. x\<lparr>st_lat := slat x, st_lon := slon x, st_at_m := sat x\<rparr>)) stops))
   = narration_body (narration_request_for r stops)"
  by (cases stops) (simp_all add: narration_request_for_def comp_def)

text \<open>Live, nothing is metered or kept, so the calls do not touch each other and the pass is one map.\<close>

lemma fetch_live:
  assumes "fe_mode e = Live" and "fq_persist q = None"
  shows "fr_state (fetch e q utc up s) = s \<and> fr_result (fetch e q utc up s) = fr_result (fetch e q utc up s')"
  using assms by (auto simp: fetch_def after_answer_def budget_applies_def Let_def split: upstream.splits)

definition narrator_of :: "fetch_env \<Rightarrow> settings \<Rightarrow> real \<Rightarrow> (wire_route \<Rightarrow> upstream) \<Rightarrow> wire_route \<Rightarrow> string option" where
  "narrator_of e st utc ups r =
     (case fst (narrate e st utc (ups r) (narration_request_for r (wr_rest_stops r)) blank_state) of
        Inl x \<Rightarrow> None | Inr (t, failed) \<Rightarrow> t)"

lemma narrate_live:
  assumes "fe_mode e = Live"
  shows "narrate e st utc up n s = (fst (narrate e st utc up n blank_state), s)"
proof -
  have q: "fq_persist (narration_call key n) = None" for key by (simp add: narration_call_def)
  show ?thesis
    using fetch_live [OF assms q, of _ utc up s blank_state] by (simp add: narrate_def Let_def split: option.splits)
qed

lemma narrate_all_live:
  assumes "fe_mode e = Live" and "\<forall>r \<in> set rs. wr_narration r = None"
  shows "\<exists>failures. narrate_all e st utc ups rs s = (map (\<lambda>r. r\<lparr>wr_narration := narrator_of e st utc ups r\<rparr>) rs, s, failures)"
  using assms(2)
proof (induction rs)
  case (Cons r rs)
  have "r = r\<lparr>wr_narration := None\<rparr>" using Cons.prems by simp
  then show ?case
    using Cons narrate_live [OF assms(1), of st utc "ups r" "narration_request_for r (wr_rest_stops r)" s]
    by (auto simp: narrator_of_def Let_def split: sum.splits)
qed simp

text \<open>
  What the event stream assumes of narration is what it does: with a key, on a live instance, the pass
  over the cards is the map the stream applies, for the narrator these calls make.
\<close>

theorem attaching_is_the_narrated_map:
  assumes "fe_mode e = Live" and "st_anthropic_api_key st = Some key" and "key \<noteq> []" and "\<forall>r \<in> set rs. wr_narration r = None"
  shows "fst (attach_narration e st utc ups rs s) = map (narrated (w\<lparr>ww_narrator := Some (narrator_of e st utc ups)\<rparr>)) rs"
  using narrate_all_live [OF assms(1, 4), of st utc ups s] assms(2, 3)
  by (auto simp: attach_narration_def narrated_def)

lemma attaching_is_the_narrated_map_witness:
  "fst (attach_narration (recorder Live) ((load_settings local_env)\<lparr>st_anthropic_api_key := Some ''k''\<rparr>) 0 (\<lambda>_. Fails ''down'') [quiet_card] blank_state)
     = map (narrated (demo_events_world\<lparr>ww_narrator :=
         Some (narrator_of (recorder Live) ((load_settings local_env)\<lparr>st_anthropic_api_key := Some ''k''\<rparr>) 0 (\<lambda>_. Fails ''down''))\<rparr>)) [quiet_card]"
  by (rule attaching_is_the_narrated_map [where key = "''k''"]) (simp_all add: recorder_def quiet_card_def demo_card_def blocked_route_def)

end
