(* ===== verification/Reports.thy ===== *)
theory Reports
  imports Handlers
begin

text \<open>
  backend/osm_report.py with \<open>BarrierReport\<close> of backend/models.py and its endpoint of main.py: filing an
  obstruction as a note on the OpenStreetMap development server. The note goes through \<open>fetch\<close>
  (Fixtures), so what it spends and whether it reaches the network is what \<open>fetch\<close> says. The URL the
  configuration names is an argument, because the guard against any other one is what is proved.
\<close>

record barrier_report =
  br_lat :: real
  br_lon :: real
  br_type :: string
  br_description :: string

definition valid_report :: "barrier_report \<Rightarrow> bool" where
  "valid_report r \<longleftrightarrow> - 90 \<le> br_lat r \<and> br_lat r \<le> 90 \<and> - 180 \<le> br_lon r \<and> br_lon r \<le> 180
     \<and> length (br_type r) \<le> 40 \<and> length (br_description r) \<le> 500"

definition PERMITTED_HOST :: string where "PERMITTED_HOST = ''api06.dev.openstreetmap.org''"

definition OSM_DEV_API_URL :: url where
  "OSM_DEV_API_URL = \<lparr>u_scheme = ''https'', u_netloc = ''api06.dev.openstreetmap.org'',
     u_hostname = Some ''api06.dev.openstreetmap.org'', u_path = ''/api/0.6''\<rparr>"

definition NOTE_FOOTER :: string where
  "NOTE_FOOTER = CHR 0x0A # CHR 0x0A # ''Reported via Meander (https://github.com/meander-routing/meander).''"

text \<open>What the endpoint catches, and what escapes it.\<close>

datatype report_error = BarrierReportError string int | ReportCrash py_error

definition url_host :: "url \<Rightarrow> string" where
  "url_host u = str_lower (case u_hostname u of None \<Rightarrow> '''' | Some h \<Rightarrow> h)"

text \<open>\<open>repr\<close> of a host: letters, digits, points and dashes, which need no escape.\<close>

definition assert_development_server :: "url \<Rightarrow> report_error option" where
  "assert_development_server u =
     (if url_host u = PERMITTED_HOST then None
      else Some (BarrierReportError
        (''Refusing to write to '' @ [CHR 0x27] @ url_host u @ [CHR 0x27] @ ''. Meander only ever writes to ''
         @ PERMITTED_HOST @ '', the OpenStreetMap development server.'') 500))"

definition note_text :: "barrier_report \<Rightarrow> string" where
  "note_text r =
     ''Accessibility barrier reported: '' @ (if strip (br_type r) = [] then ''barrier'' else strip (br_type r))
     @ ''. '' @ strip (br_description r) @ NOTE_FOOTER"

definition notes_url :: "url \<Rightarrow> url" where
  "notes_url base = base\<lparr>u_path := u_path base @ ''/notes''\<rparr>"

definition note_headers :: "settings \<Rightarrow> (string \<times> string) list" where
  "note_headers st = (''Accept'', ''application/json'')
     # (case st_osm_dev_token st of
          None \<Rightarrow> []
        | Some t \<Rightarrow> if t = [] then [] else [(''Authorization'', ''Bearer '' @ t)])"

definition note_request :: "settings \<Rightarrow> url \<Rightarrow> barrier_report \<Rightarrow> http_request" where
  "note_request st base r =
     \<lparr>fq_method = ''POST'', fq_url = notes_url base,
      fq_params = Some [(''lat'', JNum (round_dec 6 (br_lat r))), (''lon'', JNum (round_dec 6 (br_lon r))), (''text'', JStr (note_text r))],
      fq_json = JNull, fq_data = None, fq_content = None, fq_headers = Some (note_headers st),
      fq_cost = 1, fq_service = Some ''osm_dev'', fq_persist = None\<rparr>"

text \<open>The note's id, if the answer gives one.\<close>

definition note_id :: "http_response \<Rightarrow> int option" where
  "note_id resp =
     (case resp_json resp of
        None \<Rightarrow> None
      | Some payload \<Rightarrow>
          let properties = jget ''properties'' payload
          in if is_dict payload \<and> is_dict properties \<and> jhas ''id'' properties then json_int (jget ''id'' properties) else None)"

definition read_note :: "(fetch_error, http_response) result \<Rightarrow> (report_error, int option) result" where
  "read_note fetched =
     (case fetched of
        Inl (FixtureMissing s sig) \<Rightarrow> Inl (BarrierReportError ''Barrier reporting is not available on this server right now. Nothing was sent.'' 503)
      | Inl (BudgetExhausted s) \<Rightarrow> Inl (BarrierReportError ''Barrier reporting is not available on this server right now. Nothing was sent.'' 503)
      | Inl (TransportError e) \<Rightarrow> Inl (BarrierReportError ''Could not reach OpenStreetMap. Nothing was sent.'' 502)
      | Inl ResponseTooLarge \<Rightarrow> Inl (ReportCrash PyRuntimeError)
      | Inl SecretLeaked \<Rightarrow> Inl (ReportCrash PyRuntimeError)
      | Inr resp \<Rightarrow>
          if 400 \<le> hr_status resp then Inl (BarrierReportError ''OpenStreetMap rejected that report. Nothing was recorded.'' 502)
          else Inr (note_id resp))"

text \<open>The result, the state it leaves, and whether anything went out to the network.\<close>

definition submit_barrier :: "fetch_env \<Rightarrow> settings \<Rightarrow> url \<Rightarrow> real \<Rightarrow> upstream \<Rightarrow> barrier_report \<Rightarrow> fetch_state
    \<Rightarrow> (report_error, int option) result \<times> fetch_state \<times> bool" where
  "submit_barrier e st base utc up r s =
     (case assert_development_server (notes_url base) of
        Some x \<Rightarrow> (Inl x, s, False)
      | None \<Rightarrow>
          let f = fetch e (note_request st base r) utc up s
          in (read_note (fr_result f), fr_state f, fr_live f))"

text \<open>\<open>POST /api/report-barrier\<close>.\<close>

definition submitted_reply :: "int option \<Rightarrow> reply" where
  "submitted_reply n = \<lparr>ry_status = 200, ry_headers = [],
     ry_body = JObj [(''status'', JStr ''submitted''), (''note_id'', opt_json (\<lambda>i. JNum (of_int i)) n),
       (''target'', JStr PERMITTED_HOST),
       (''message'', JStr (''Thank you. This was filed on the OpenStreetMap development server, '' @ ''not the live map.''))]\<rparr>"

definition report_reply :: "('k, 'd) app \<Rightarrow> inbound \<Rightarrow> (report_error, int option) result \<Rightarrow> reply" where
  "report_reply ap rq res =
     (case res of
        Inl (BarrierReportError m code) \<Rightarrow> error_reply ''barrier_report'' m code
      | Inl (ReportCrash x) \<Rightarrow> unhandled_error (st_allowed_origins (ap_settings ap)) rq
      | Inr n \<Rightarrow> submitted_reply n)"

definition report_barrier :: "('k, 'd) app \<Rightarrow> clock \<Rightarrow> inbound \<Rightarrow> fetch_env \<Rightarrow> url \<Rightarrow> upstream \<Rightarrow> barrier_report
    \<Rightarrow> ('k, 'd) service \<times> fetch_state \<Rightarrow> reply \<times> ('k, 'd) service \<times> fetch_state \<times> bool" where
  "report_barrier ap ck rq e base up r s0 =
     (case s0 of (sx0, fs) \<Rightarrow>
        let (lr, d) = ask_limiter ap ck rq False (sx_limiter sx0); sx = sx0\<lparr>sx_limiter := lr\<rparr>
        in if \<not> dc_allowed d then (rate_limited d, bump ck ''rate_limited_total'' sx, fs, False)
           else case submit_barrier e (ap_settings ap) base (ck_utc ck) up r fs of
               (res, fs', sent) \<Rightarrow>
                 (report_reply ap rq res,
                  case res of Inl (ReportCrash x) \<Rightarrow> bump ck ''unhandled_errors_total'' sx | _ \<Rightarrow> sx, fs', sent))"

section \<open>Where a report goes\<close>

lemma the_configured_server_is_permitted: "assert_development_server (notes_url OSM_DEV_API_URL) = None"
  by (simp add: assert_development_server_def notes_url_def OSM_DEV_API_URL_def url_host_def PERMITTED_HOST_def string_defs)

lemma notes_url_host [simp]: "url_host (notes_url base) = url_host base"
  by (simp add: url_host_def notes_url_def)

lemma not_live_when_refused:
  "fr_live (fetch e q utc up s) \<Longrightarrow> (\<forall>sv sig. fr_result (fetch e q utc up s) \<noteq> Inl (FixtureMissing sv sig))
     \<and> (\<forall>sv. fr_result (fetch e q utc up s) \<noteq> Inl (BudgetExhausted sv))"
  by (auto simp: fetch_def after_answer_def Let_def split: option.splits upstream.splits prod.splits if_splits)

text \<open>
  C29 A report never leaves for any server but the development one, whatever URL the configuration names:
  with another host nothing is asked of the network, nothing is spent, no fixture is read or written,
  and the caller is told. A 503, which says nothing was sent, is said only when nothing was.
\<close>

theorem reports_go_to_the_development_server:
  assumes "report_barrier ap ck rq e base up r (sx, fs) = (rp, sx', fs', sent)"
  shows "(sent \<longrightarrow> url_host base = PERMITTED_HOST \<and> ry_status rp \<noteq> 503 \<and> ry_status rp \<noteq> 429)
    \<and> (url_host base \<noteq> PERMITTED_HOST \<longrightarrow> \<not> sent \<and> fs' = fs \<and> ry_status rp \<in> {429, 500})
    \<and> (ry_status rp = 429 \<longrightarrow> fs' = fs)"
proof -
  obtain lr d where l: "ask_limiter ap ck rq False (sx_limiter sx) = (lr, d)" by fastforce
  show ?thesis
  proof (cases "dc_allowed d")
    case False
    then show ?thesis using assms l by (auto simp: report_barrier_def Let_def rate_limited_def error_reply_def)
  next
    case True
    obtain res sent' fs'' where sub: "submit_barrier e (ap_settings ap) base (ck_utc ck) up r fs = (res, fs'', sent')" by (metis prod_cases3)
    have out: "rp = report_reply ap rq res" "fs' = fs''" "sent = sent'"
      using assms l True sub by (auto simp: report_barrier_def Let_def)
    have codes: "ry_status (report_reply ap rq res) = (case res of Inl (BarrierReportError m code) \<Rightarrow> code | Inl (ReportCrash x) \<Rightarrow> 500 | Inr n \<Rightarrow> 200)"
      by (auto simp: report_reply_def error_reply_def unhandled_error_def submitted_reply_def split: sum.splits report_error.splits)
    show ?thesis
    proof (cases "url_host base = PERMITTED_HOST")
      case False
      then show ?thesis using sub out codes by (auto simp: submit_barrier_def assert_development_server_def)
    next
      case True
      let ?f = "fetch e (note_request (ap_settings ap) base r) (ck_utc ck) up fs"
      have f: "res = read_note (fr_result ?f)" "sent' = fr_live ?f"
        using sub True by (simp_all add: submit_barrier_def assert_development_server_def Let_def)
      then show ?thesis
        using True out codes not_live_when_refused [of e "note_request (ap_settings ap) base r" "ck_utc ck" up fs]
        by (auto simp: read_note_def split: sum.splits fetch_error.splits report_error.splits if_splits)
    qed
  qed
qed

definition gate_report :: barrier_report where
  "gate_report = \<lparr>br_lat = 51, br_lon = 0, br_type = ''gate'', br_description = ''locked''\<rparr>"

lemma reports_go_to_the_development_server_witness:
  "\<not> snd (snd (snd (report_barrier plain_app (tick 0) plain_inbound (recorder Live)
       (OSM_DEV_API_URL\<lparr>u_hostname := Some ''api.openstreetmap.org''\<rparr>) (Answers good_answer []) gate_report (plain_service, blank_state))))"
proof -
  let ?u = "OSM_DEV_API_URL\<lparr>u_hostname := Some ''api.openstreetmap.org''\<rparr>"
  obtain rp sx fs sent where r: "report_barrier plain_app (tick 0) plain_inbound (recorder Live) ?u (Answers good_answer []) gate_report (plain_service, blank_state)
      = (rp, sx, fs, sent)" by (metis prod_cases4)
  have "url_host ?u \<noteq> PERMITTED_HOST" by (simp add: url_host_def OSM_DEV_API_URL_def PERMITTED_HOST_def string_defs)
  then show ?thesis using reports_go_to_the_development_server [OF r] r by simp
qed

text \<open>
  "Could not reach OpenStreetMap. Nothing was sent." is said of any transport error, and the request
  may have gone out by then: one whose answer never arrived (a read timeout) may well have filed a note.
\<close>

theorem nothing_was_sent_may_be_wrong:
  "submit_barrier (recorder Live) st OSM_DEV_API_URL utc (Fails ''ReadTimeout'') r s
     = (Inl (BarrierReportError ''Could not reach OpenStreetMap. Nothing was sent.'' 502), s, True)"
proof -
  have "fetch (recorder Live) q utc (Fails ''ReadTimeout'') s
      = \<lparr>fr_state = s, fr_result = Inl (TransportError ''ReadTimeout''), fr_live = True\<rparr>" for q
    by (simp add: fetch_def recorder_def budget_applies_def Let_def)
  then show ?thesis
    by (simp add: submit_barrier_def the_configured_server_is_permitted read_note_def Let_def)
qed

text \<open>The token travels in one header, of the one request this module makes.\<close>

lemma token_in_one_header:
  "st_osm_dev_token st = Some t \<Longrightarrow> t \<noteq> [] \<Longrightarrow> fq_headers (note_request st base r)
     = Some [(''Accept'', ''application/json''), (''Authorization'', ''Bearer '' @ t)]"
  by (simp add: note_request_def note_headers_def)

end
