(* ===== verification/Offline.thy ===== *)
theory Offline
  imports Scoring
begin

text \<open>
  What runs beside the service, by hand: backend/batch_score.py, which scores imagery along the routes of
  a test location into the cache the deployment reads, and scripts/scrub_cache_db.py, which keeps what
  people asked for out of the committed cache file. What routing, imagery and the clock give the batch
  are arguments; a database is the cache it holds (Cache).
\<close>

section \<open>The points of a location\<close>

text \<open>The cell of the cache's grid a point falls in.\<close>

definition cell :: "latlon \<Rightarrow> real \<times> real" where
  "cell p = (round_dec 4 (lat p), round_dec 4 (lon p))"

text \<open>\<open>seen.setdefault(cell, p)\<close>, from the left.\<close>

fun first_in_cell :: "latlon list \<Rightarrow> ((real \<times> real) \<times> latlon) list \<Rightarrow> ((real \<times> real) \<times> latlon) list" where
  "first_in_cell [] seen = seen"
| "first_in_cell (p # ps) seen = first_in_cell ps (if map_of seen (cell p) = None then seen @ [(cell p, p)] else seen)"

text \<open>What the two presets routed; one that failed is skipped.\<close>

definition collected_points :: "('e, latlon list) result list \<Rightarrow> latlon list" where
  "collected_points routed =
     concat (map (\<lambda>r. case r of Inl e \<Rightarrow> [] | Inr ps \<Rightarrow> map s_point (sample_every ps SAMPLE_SPACING_M MAX_SAMPLE_POINTS)) routed)"

definition points_for_location :: "('e, latlon list) result list \<Rightarrow> latlon list" where
  "points_for_location routed = map snd (first_in_cell (collected_points routed) [])"

section \<open>Scoring them\<close>

record 'img scorer =
  so_clip :: "'img list \<Rightarrow> string \<times> string \<Rightarrow> real list"
  so_download :: "mapillary_image \<Rightarrow> 'img option"
  so_images :: "latlon \<Rightarrow> budget \<Rightarrow> budget \<times> (scoring_error, mapillary_image list) result"
  so_variant :: string
  so_now :: int
  so_utc :: real

record batch =
  bt_cache :: cache
  bt_budget :: budget
  bt_scored :: nat
  bt_empty :: nat
  bt_done :: "latlon list"

text \<open>
  One point: its score is written as it comes. A place that cannot be scored is passed over; anything
  else ends the run, with what was written kept.
\<close>

definition batch_point :: "'img scorer \<Rightarrow> latlon \<Rightarrow> batch \<Rightarrow> batch \<times> scoring_error option" where
  "batch_point so p b =
     (let (bg, images) = so_images so p (bt_budget b); b1 = b\<lparr>bt_budget := bg\<rparr>
      in case score_point (so_clip so) (so_download so) images p (so_variant so) (so_now so) (bt_cache b1) of
          Inl (ScoringUnavailable m) \<Rightarrow> (b1, None)
        | Inl e \<Rightarrow> (b1, Some e)
        | Inr (c, score, n) \<Rightarrow>
            (b1\<lparr>bt_cache := c, bt_scored := (if score = None then bt_scored b1 else Suc (bt_scored b1)),
                bt_empty := (if score = None then Suc (bt_empty b1) else bt_empty b1), bt_done := bt_done b1 @ [p]\<rparr>, None))"

fun batch_points :: "'img scorer \<Rightarrow> latlon list \<Rightarrow> batch \<Rightarrow> batch \<times> scoring_error option" where
  "batch_points so [] b = (b, None)"
| "batch_points so (p # ps) b =
     (let (bg, left) = remaining ''mapillary'' (so_utc so) (bt_budget b); b1 = b\<lparr>bt_budget := bg\<rparr>
      in if left \<le> 0 then (b1, None)
         else case batch_point so p b1 of
             (b2, Some e) \<Rightarrow> (b2, Some e)
           | (b2, None) \<Rightarrow> batch_points so ps b2)"

text \<open>
  The locations in turn. What is left of the budget is printed for each, which is a read that may turn
  its day over; an exhausted budget ends a location's points, not the run. What routing the locations
  spends of the same budget is not followed: the routes are an argument.
\<close>

fun batch_locations :: "'img scorer \<Rightarrow> bool \<Rightarrow> latlon list list \<Rightarrow> batch \<Rightarrow> batch \<times> scoring_error option" where
  "batch_locations so dry_run [] b = (b, None)"
| "batch_locations so dry_run (ps # rest) b =
     (let b0 = b\<lparr>bt_budget := fst (remaining ''mapillary'' (so_utc so) (bt_budget b))\<rparr>
      in if dry_run then batch_locations so dry_run rest b0
         else case batch_points so ps b0 of
             (b1, Some e) \<Rightarrow> (b1, Some e)
           | (b1, None) \<Rightarrow> batch_locations so dry_run rest b1)"

text \<open>The exit status: two for a run that could not fetch or score anything.\<close>

definition run_batch :: "bool \<Rightarrow> settings \<Rightarrow> 'img scorer \<Rightarrow> bool \<Rightarrow> ('e, latlon list) result list list \<Rightarrow> batch
    \<Rightarrow> int \<times> batch \<times> scoring_error option" where
  "run_batch torch st so dry_run locations b =
     (if \<not> torch \<or> st_fixture_mode st = Replay \<or> no_key (st_mapillary_token st) then (2, b, None)
      else case batch_locations so dry_run (map points_for_location locations) b of (b', e) \<Rightarrow> (0, b', e))"

section \<open>Keeping requests out of the committed file\<close>

definition REQUEST_SCOPED_TABLES :: "string list" where "REQUEST_SCOPED_TABLES = [''route_cache'']"

text \<open>The rows of a table, \<open>None\<close> where the database has no such table.\<close>

definition rows_in :: "cache \<Rightarrow> string \<Rightarrow> nat option" where
  "rows_in c t = map_of [(''segment_scores'', length (c_segments c)), (''route_cache'', length (c_routes c)),
     (''geocode_cache'', length (c_geocodes c))] t"

definition count_request_scoped_rows :: "cache \<Rightarrow> (string \<times> nat) list" where
  "count_request_scoped_rows c =
     map (\<lambda>t. (t, case rows_in c t of None \<Rightarrow> 0 | Some n \<Rightarrow> n)) REQUEST_SCOPED_TABLES"

definition check_db :: "cache \<Rightarrow> int" where
  "check_db c = (if filter (\<lambda>(t, n). n \<noteq> 0) (count_request_scoped_rows c) = [] then 0 else 1)"

definition delete_rows :: "string \<Rightarrow> cache \<Rightarrow> cache" where
  "delete_rows t c =
     (if t = ''route_cache'' then c\<lparr>c_routes := []\<rparr>
      else if t = ''geocode_cache'' then c\<lparr>c_geocodes := []\<rparr>
      else if t = ''segment_scores'' then c\<lparr>c_segments := []\<rparr> else c)"

definition scrub_db :: "cache \<Rightarrow> cache" where
  "scrub_db c = fold (\<lambda>t c. if rows_in c t \<noteq> None then delete_rows t c else c) REQUEST_SCOPED_TABLES c"

section \<open>What the batch leaves\<close>

lemma first_in_cell_ok:
  assumes "distinct (map fst seen)" and "\<forall>(k, p) \<in> set seen. k = cell p \<and> p \<in> S" and "set ps \<subseteq> S"
  shows "distinct (map fst (first_in_cell ps seen)) \<and> (\<forall>(k, p) \<in> set (first_in_cell ps seen). k = cell p \<and> p \<in> S)
    \<and> fst ` set (first_in_cell ps seen) = fst ` set seen \<union> cell ` set ps"
  using assms
proof (induction ps seen rule: first_in_cell.induct)
  case (2 p ps seen)
  show ?case
  proof (cases "map_of seen (cell p) = None")
    case True
    then have "cell p \<notin> fst ` set seen" by (simp add: map_of_eq_None_iff)
    then show ?thesis using 2(1) 2(2-4) True by auto
  next
    case False
    then have "cell p \<in> fst ` set seen" by (simp add: map_of_eq_None_iff)
    then have "fst ` set seen \<union> cell ` set (p # ps) = fst ` set seen \<union> cell ` set ps" by (simp add: insert_absorb)
    moreover have "first_in_cell (p # ps) seen = first_in_cell ps seen" using False by auto
    ultimately show ?thesis using 2(1) 2(2-4) False by (simp only: if_False) simp
  qed
qed simp

text \<open>
  Two routes that share a street do not pay for its imagery twice: the points of a location stand in
  different cells of the cache's grid, each is a sample point of one of the routes, and every cell a
  sample point falls in is represented.
\<close>

theorem batch_points_stand_in_different_cells:
  "distinct (map cell (points_for_location routed))
 \<and> set (points_for_location routed) \<subseteq> set (collected_points routed)
 \<and> cell ` set (points_for_location routed) = cell ` set (collected_points routed)"
proof -
  let ?f = "first_in_cell (collected_points routed) []"
  have f: "distinct (map fst ?f)" "\<forall>(k, p) \<in> set ?f. k = cell p \<and> p \<in> set (collected_points routed)"
      "fst ` set ?f = cell ` set (collected_points routed)"
    using first_in_cell_ok [of "[]" "set (collected_points routed)" "collected_points routed"] by auto
  have cells: "map cell (map snd ?f) = map fst ?f" using f(2) by (auto simp: comp_def)
  then have "cell ` set (map snd ?f) = fst ` set ?f" by (metis list.set_map)
  moreover have "set (map snd ?f) \<subseteq> set (collected_points routed)" using f(2) by auto
  ultimately show ?thesis unfolding points_for_location_def cells using f(1, 3) by (simp only: simp_thms)
qed

text \<open>A score that was written: made by CLIP with the prompts asked for.\<close>

definition recorded_with :: "string \<Rightarrow> cache \<Rightarrow> latlon \<Rightarrow> bool" where
  "recorded_with variant c p \<longleftrightarrow> (\<exists>row. map_of (c_segments c) (segment_key (lat p) (lon p)) = Some row
     \<and> ss_scoring_method row = ''clip'' \<and> ss_prompt_variant row = Some variant)"

definition batch_ok :: "string \<Rightarrow> cache \<Rightarrow> batch \<Rightarrow> bool" where
  "batch_ok variant c b \<longleftrightarrow> (\<forall>p \<in> set (bt_done b). recorded_with variant (bt_cache b) p)
     \<and> bt_scored b + bt_empty b = length (bt_done b)
     \<and> c_routes (bt_cache b) = c_routes c \<and> c_geocodes (bt_cache b) = c_geocodes c"

lemma put_segment_writes:
  assumes "put_segment_score now la lo score n scoring variant c = Inr (c', k)"
  shows "\<exists>row. c' = c\<lparr>c_segments := AList.update (segment_key la lo) row (c_segments c)\<rparr>
    \<and> ss_scoring_method row = scoring \<and> ss_prompt_variant row = variant"
  using assms by (cases "map_of (c_segments c) (segment_key la lo)") (auto simp: put_segment_score_def with_conn_def Let_def split: if_splits)

lemma put_score_writes:
  assumes "put_score p variant now c score n = Inr (c', score', n')"
  shows "\<exists>row. c' = c\<lparr>c_segments := AList.update (segment_key (lat p) (lon p)) row (c_segments c)\<rparr>
    \<and> ss_scoring_method row = ''clip'' \<and> ss_prompt_variant row = Some variant"
  using assms put_segment_writes by (fastforce simp: put_score_def split: sum.splits)

lemma score_point_writes:
  assumes "score_point clip download images p variant now c = Inr (c', score, n)"
  shows "\<exists>row. c' = c\<lparr>c_segments := AList.update (segment_key (lat p) (lon p)) row (c_segments c)\<rparr>
    \<and> ss_scoring_method row = ''clip'' \<and> ss_prompt_variant row = Some variant"
  using assms put_score_writes by (auto simp: score_point_def Let_def split: sum.splits if_splits)

lemma recorded_after:
  assumes "c' = c\<lparr>c_segments := AList.update (segment_key (lat p) (lon p)) row (c_segments c)\<rparr>"
    and "ss_scoring_method row = ''clip''" "ss_prompt_variant row = Some variant"
  shows "recorded_with variant c' p \<and> (recorded_with variant c q \<longrightarrow> recorded_with variant c' q)"
  using assms by (auto simp: recorded_with_def update_conv')

lemma batch_point_ok: "batch_ok (so_variant so) c b \<Longrightarrow> batch_point so p b = (b', e) \<Longrightarrow> batch_ok (so_variant so) c b'"
proof -
  assume ok: "batch_ok (so_variant so) c b" and run: "batch_point so p b = (b', e)"
  obtain bg images where i: "so_images so p (bt_budget b) = (bg, images)" by fastforce
  show ?thesis
  proof (cases "score_point (so_clip so) (so_download so) images p (so_variant so) (so_now so) (bt_cache b)")
    case (Inl x)
    then show ?thesis using ok run i by (cases x) (auto simp: batch_point_def batch_ok_def Let_def)
  next
    case (Inr y)
    obtain c' score n where y: "y = (c', score, n)" by (metis prod_cases3)
    obtain row where row: "c' = (bt_cache b)\<lparr>c_segments := AList.update (segment_key (lat p) (lon p)) row (c_segments (bt_cache b))\<rparr>"
        "ss_scoring_method row = ''clip''" "ss_prompt_variant row = Some (so_variant so)"
      using score_point_writes Inr y by blast
    show ?thesis using ok run i Inr y recorded_after [OF row] row(1) by (auto simp: batch_point_def batch_ok_def Let_def)
  qed
qed

lemma batch_points_ok: "batch_ok (so_variant so) c b \<Longrightarrow> batch_points so ps b = (b', e) \<Longrightarrow> batch_ok (so_variant so) c b'"
proof (induction so ps b arbitrary: b' e rule: batch_points.induct)
  case (2 so p ps b)
  obtain bg left where r: "remaining ''mapillary'' (so_utc so) (bt_budget b) = (bg, left)" by fastforce
  have ok: "batch_ok (so_variant so) c (b\<lparr>bt_budget := bg\<rparr>)" using 2(2) by (simp add: batch_ok_def)
  obtain b2 x where p: "batch_point so p (b\<lparr>bt_budget := bg\<rparr>) = (b2, x)" by fastforce
  have ok2: "batch_ok (so_variant so) c b2" by (rule batch_point_ok [OF ok p])
  show ?case
  proof (cases "left \<le> 0 \<or> x \<noteq> None")
    case True
    then show ?thesis using 2(3) r p ok ok2 by (auto simp: Let_def split: if_splits)
  next
    case False
    then have "x = None" "\<not> left \<le> 0" by auto
    then show ?thesis using 2(1) [OF r [symmetric] refl refl _ p [symmetric] _ ok2, of b' e] 2(3) r p by (simp add: Let_def)
  qed
qed simp

lemma batch_locations_ok: "batch_ok (so_variant so) c b \<Longrightarrow> batch_locations so dry_run ls b = (b', e) \<Longrightarrow> batch_ok (so_variant so) c b'"
proof (induction so dry_run ls b arbitrary: b' e rule: batch_locations.induct)
  case (2 so dry_run ps rest b)
  let ?b = "b\<lparr>bt_budget := fst (remaining ''mapillary'' (so_utc so) (bt_budget b))\<rparr>"
  have ok0: "batch_ok (so_variant so) c ?b" using 2(3) by (simp add: batch_ok_def)
  obtain b1 x where p: "batch_points so ps ?b = (b1, x)" by fastforce
  have ok: "batch_ok (so_variant so) c b1" by (rule batch_points_ok [OF ok0 p])
  show ?case
  proof (cases dry_run)
    case True
    then show ?thesis using 2(1) [OF refl _ ok0, of b' e] 2(4) by (simp add: Let_def)
  next
    case False
    then show ?thesis using 2(2) [OF refl _ p [symmetric] _ ok, of b' e] 2(4) p ok by (cases x) (auto simp: Let_def)
  qed
qed simp

lemma a_dry_run_only_looks: "\<exists>bg. batch_locations so True ls b = (b\<lparr>bt_budget := bg\<rparr>, None)"
proof (induction ls arbitrary: b)
  case Nil
  show ?case by (intro exI [of _ "bt_budget b"]) simp
next
  case (Cons l ls)
  show ?case using Cons [of "b\<lparr>bt_budget := fst (remaining ''mapillary'' (so_utc so) (bt_budget b))\<rparr>"] by (simp add: Let_def)
qed


definition demo_scorer :: "nat scorer" where
  "demo_scorer = \<lparr>so_clip = (\<lambda>is pair. map (\<lambda>_. 1/2) is), so_download = (\<lambda>i. Some 0),
     so_images = (\<lambda>p b. (b, Inr [])), so_variant = ''v2_plain'', so_now = 7, so_utc = 0\<rparr>"

definition first_batch :: batch where
  "first_batch = \<lparr>bt_cache = empty_cache, bt_budget = new_budget None [(''mapillary'', 5)] 0, bt_scored = 0, bt_empty = 0, bt_done = []\<rparr>"

lemma demo_run: "\<exists>b'. run_batch True ((load_settings local_env)\<lparr>st_fixture_mode := Record, st_mapillary_token := Some ''t''\<rparr>)
    demo_scorer False [[Inl (0 :: nat), Inr [LatLon 51 0]]] first_batch = (0, b', None) \<and> bt_empty b' = 1 \<and> bt_done b' = [LatLon 51 0]"
proof -
  have p: "points_for_location [Inl (0 :: nat), Inr [LatLon 51 0]] = [LatLon 51 0]"
    by (simp add: points_for_location_def collected_points_def sample_every_def)
  show ?thesis
    by (simp add: run_batch_def no_key_def p demo_scorer_def first_batch_def Let_def remaining_def spent_def roll_if_new_day_def new_budget_def
        cap_for_def count_of_def budget_load_def batch_point_def score_point_def map_filter_def MIN_IMAGES_FOR_A_SCORE_def put_score_def
        put_segment_score_def with_conn_def empty_cache_def)
qed


text \<open>
  A scrubbed database passes the check that guards commits and images, its scores are all there, and
  scrubbing again changes nothing. The places people searched for are all there too: their table is not
  among the ones the script knows to be about a request.
\<close>

theorem a_scrubbed_database_passes:
  "check_db (scrub_db c) = 0 \<and> c_routes (scrub_db c) = [] \<and> c_segments (scrub_db c) = c_segments c
 \<and> scrub_db (scrub_db c) = scrub_db c \<and> c_geocodes (scrub_db c) = c_geocodes c"
  by (simp add: scrub_db_def REQUEST_SCOPED_TABLES_def check_db_def count_request_scoped_rows_def rows_in_def delete_rows_def)

lemma a_database_with_requests_is_refused: "c_routes c \<noteq> [] \<Longrightarrow> check_db c = 1"
  by (simp add: check_db_def count_request_scoped_rows_def rows_in_def REQUEST_SCOPED_TABLES_def)

end
