(* ===== verification/Lifecycle.thy ===== *)
theory Lifecycle
  imports Handlers Extent
begin

text \<open>
  backend/main.py, the life of an instance: what happens before the first request and after the last, and
  the endpoints that say how it is doing. The counter the shutdown watches is the one of Streaming; what
  it reads at each look is an argument here. Whether a package can be found, and what the fixture
  directory holds, are arguments.
\<close>

section \<open>Up and down\<close>

text \<open>What \<open>find_spec\<close> answers for the two packages, \<open>None\<close> where it raises.\<close>

definition clip_available :: "bool option \<Rightarrow> bool option \<Rightarrow> bool" where
  "clip_available torch open_clip =
     (case torch of None \<Rightarrow> False | Some False \<Rightarrow> False
      | Some True \<Rightarrow> (case open_clip of None \<Rightarrow> False | Some found \<Rightarrow> found))"

record instance_state =
  in_shutting_down :: bool
  in_open_streams :: int
  in_cache :: cache
  in_client_open :: bool

datatype startup_error = MissingKeys string | NoCache cache_error

text \<open>
  Start-up clears what an earlier run of the same process left, and refuses without a required key. The
  cache is the process's own: an earlier run's, if there was one.
\<close>

definition start_up :: "environ \<Rightarrow> settings \<Rightarrow> int \<Rightarrow> instance_state \<Rightarrow> instance_state \<times> (startup_error, string list \<times> nat) result" where
  "start_up env st now s0 =
     (let s = s0\<lparr>in_shutting_down := False, in_open_streams := 0\<rparr>
      in case check_startup env st of
          Inl m \<Rightarrow> (s, Inl (MissingKeys m))
        | Inr missing \<Rightarrow>
            (case with_conn (in_cache s) (purge_expired_routes now) of
               Inl e \<Rightarrow> (s, Inl (NoCache e))
             | Inr (c, purged) \<Rightarrow> (s\<lparr>in_cache := c\<rparr>, Inr (missing, purged))))"

text \<open>
  A shutdown is a sequence of actions: the flag is set, the counter is looked at, a quarter of a second is
  slept, the client is closed, the cache is closed.
\<close>

datatype shutdown_action = Tell | Look int | Sleep | Close_client | Close_cache

fun do_action :: "shutdown_action \<Rightarrow> instance_state \<Rightarrow> instance_state" where
  "do_action Tell s = s\<lparr>in_shutting_down := True\<rparr>"
| "do_action (Look n) s = s\<lparr>in_open_streams := n\<rparr>"
| "do_action Sleep s = s"
| "do_action Close_client s = s\<lparr>in_client_open := False\<rparr>"
| "do_action Close_cache s = s\<lparr>in_cache := close (in_cache s)\<rparr>"

text \<open>
  The wait for streams: at most \<open>looks\<close> looks at the counter with a sleep after each that found some.
  \<open>opened i\<close> is what is read after \<open>i\<close> sleeps; the result is what was done and how often it slept.
\<close>

fun drain_wait :: "(nat \<Rightarrow> int) \<Rightarrow> nat \<Rightarrow> nat \<Rightarrow> shutdown_action list \<times> nat" where
  "drain_wait opened 0 slept = ([], slept)"
| "drain_wait opened (Suc looks) slept =
     (if opened slept = 0 then ([Look 0], slept)
      else case drain_wait opened looks (Suc slept) of (acts, n) \<Rightarrow> (Look (opened slept) # Sleep # acts, n))"

definition drain_looks :: "environ \<Rightarrow> nat" where
  "drain_looks env = nat (py_int (DRAIN_TIMEOUT_S env / (1/4)))"

text \<open>Tell the streams, wait for them, see what is left, then close what they use: first the client, then the cache.\<close>

definition shut_down :: "environ \<Rightarrow> (nat \<Rightarrow> int) \<Rightarrow> instance_state \<Rightarrow> instance_state \<times> shutdown_action list \<times> nat" where
  "shut_down env opened s =
     (let (waited, slept) = drain_wait opened (drain_looks env) 0;
          acts = [Tell] @ waited @ [Look (opened slept), Close_client, Close_cache]
      in (fold do_action acts s, acts, slept))"

section \<open>How it is doing\<close>

definition healthz :: "string \<Rightarrow> json" where
  "healthz version = JObj [(''status'', JStr ''ok''), (''version'', JStr version)]"

abbreviation jint :: "int \<Rightarrow> json" where "jint n \<equiv> JNum (of_int n)"

definition stats :: "(int \<Rightarrow> expiry \<Rightarrow> bool) \<Rightarrow> int \<Rightarrow> cache \<Rightarrow> (cache_error, json) result" where
  "stats after now c =
     (case (segment_count c, clip_segment_count c, route_cache_size after now c, geocode_cache_size after now c, schema_version c) of
        (Inr segments, Inr clips, Inr routes, Inr places, Inr version) \<Rightarrow>
          Inr (JObj [(''segments_scored'', jint (int segments)), (''segments_clip'', jint (int clips)),
            (''routes_cached'', jint (int routes)), (''geocodes_cached'', jint (int places)),
            (''schema_version'', opt_json jint version)])
      | _ \<Rightarrow> Inl CacheClosed)"

definition budget_regime :: "fixture_mode \<Rightarrow> bool \<Rightarrow> json" where
  "budget_regime m self_hosted =
     (case budget_applies m self_hosted ''graphhopper'' of
        (applies, reason) \<Rightarrow> JObj [(''enforced'', JBool applies), (''reason'', JStr reason),
          (''note'', JStr (''Development guard rail only. Production is protected by the per-IP ''
            @ ''rate limiter and the daily route ceiling.''))])"

definition routing_health :: "environ \<Rightarrow> json" where
  "routing_health env =
     JObj [(''endpoint'', JStr (GRAPHHOPPER_URL env)),
       (''self_hosted'', JBool (graphhopper_is_self_hosted env)),
       (''self_hosted_source'', JStr (rs_source (self_hosted_resolution env))),
       (''custom_models_available'', JBool (graphhopper_is_self_hosted env)),
       (''path_details'', JList (map JStr (path_details env)))]"

definition rate_limit_health :: "settings \<Rightarrow> int \<Rightarrow> json" where
  "rate_limit_health st served =
     JObj [(''per_ip_capacity'', jint (st_per_ip_bucket_capacity st)), (''per_ip_refill_per_min'', JNum (st_per_ip_refill_per_min st)),
       (''daily_ceiling'', jint (st_global_daily_route_ceiling st)), (''served_today'', jint served),
       (''geocode_capacity'', jint (st_geocode_bucket_capacity st)), (''geocode_refill_per_min'', JNum (st_geocode_refill_per_min st))]"

definition health :: "('k, 'd) app \<Rightarrow> clock \<Rightarrow> (int \<Rightarrow> expiry \<Rightarrow> bool) \<Rightarrow> bool \<Rightarrow> (string \<times> json) list \<Rightarrow> bool
    \<Rightarrow> ('k, 'd) service \<Rightarrow> (cache_error, json) result \<times> ('k, 'd) service" where
  "health ap ck after clip verbose_part verbose sx =
     (case stats after (ck_micros ck) (sx_cache sx) of
        Inl e \<Rightarrow> (Inl e, sx)
      | Inr cached \<Rightarrow>
          let st = ap_settings ap; env = ap_env ap;
              (m, counters) = snapshot (ck_utc ck) (sx_metrics sx);
              (lr, served) = served_today (ck_utc ck) (sx_limiter sx)
          in (Inr (JObj ([(''status'', JStr ''ok''), (''version'', JStr (ap_version ap)), (''clip_available'', JBool clip),
                (''routing'', routing_health env), (''fixture_mode'', JStr (fixture_mode_name (st_fixture_mode st))),
                (''keys_ok'', JBool (missing_keys env st = [])), (''required_keys_ok'', JBool (missing_required_keys env st = [])),
                (''cache'', cached), (''live_call_budget'', budget_regime (st_fixture_mode st) (graphhopper_is_self_hosted env)),
                (''counters'', JObj (map (\<lambda>(k, v). (k, jint v)) counters)), (''rate_limit'', rate_limit_health st served)]
                @ (if verbose then verbose_part else []))),
              sx\<lparr>sx_metrics := m, sx_limiter := lr\<rparr>))"

section \<open>Properties\<close>

text \<open>A wait of n sleeps: a look that found some before each, and a look that found none unless time ran out.\<close>

definition waiting :: "(nat \<Rightarrow> int) \<Rightarrow> nat \<Rightarrow> nat \<Rightarrow> bool \<Rightarrow> shutdown_action list" where
  "waiting opened start until drained = concat (map (\<lambda>i. [Look (opened i), Sleep]) [start..<until]) @ (if drained then [Look 0] else [])"

lemma drain_wait_bounds:
  assumes "drain_wait opened looks slept = (acts, n)"
  shows "slept \<le> n \<and> n \<le> slept + looks \<and> (\<forall>i. slept \<le> i \<and> i < n \<longrightarrow> opened i \<noteq> 0)
    \<and> (n < slept + looks \<longrightarrow> opened n = 0) \<and> acts = waiting opened slept n (n < slept + looks)"
  using assms
proof (induction opened looks slept arbitrary: acts rule: drain_wait.induct)
  case (2 opened looks slept)
  show ?case
  proof (cases "opened slept = 0")
    case False
    then obtain rest where r: "drain_wait opened looks (Suc slept) = (rest, n)" "acts = Look (opened slept) # Sleep # rest"
      using "2.prems" by (auto split: prod.splits)
    note ih = "2.IH" [OF False r(1)]
    have "opened i \<noteq> 0" if "slept \<le> i" "i < n" for i
      using that ih False by (cases "i = slept") auto
    moreover have "[slept..<n] = slept # [Suc slept..<n]" using ih by (simp add: upt_conv_Cons)
    ultimately show ?thesis using ih r(2) by (auto simp: waiting_def)
  qed (use "2.prems" in \<open>simp add: waiting_def\<close>)
qed (simp add: waiting_def)

lemma waiting_closes_nothing:
  assumes "a \<in> set (waiting opened start until drained)"
  shows "(\<exists>n. a = Look n) \<or> a = Sleep"
  using assms by (auto simp: waiting_def split: if_splits)

lemma acting_open:
  "\<forall>a \<in> set acts. a \<noteq> Close_client \<and> a \<noteq> Close_cache \<Longrightarrow>
     in_client_open (fold do_action acts s) = in_client_open s \<and> in_cache (fold do_action acts s) = in_cache s"
proof (induction acts arbitrary: s)
  case (Cons a acts)
  then show ?case by (cases a) auto
qed simp

lemma fold_tells: "in_shutting_down s \<Longrightarrow> in_shutting_down (fold do_action acts s)"
proof (induction acts arbitrary: s)
  case (Cons a acts)
  then show ?case by (cases a) auto
qed simp

text \<open>
  C31 A shutdown waits for its streams and not for ever, and closes what they use only then. It tells
  them first; it looks, and sleeps after every look that found some open; it stops at the first look that
  finds none, or when the drain timeout is slept away, and never sleeps longer than that. Up to there the
  client and the cache are as they were; then the client is closed, and after it the cache.
\<close>

theorem shutdown_waits_for_the_streams:
  assumes "shut_down env opened s = (s', acts, slept)"
  shows "acts = Tell # waiting opened 0 slept (slept < drain_looks env) @ [Look (opened slept), Close_client, Close_cache]
    \<and> real slept / 4 \<le> max 0 (DRAIN_TIMEOUT_S env) \<and> (\<forall>i < slept. opened i \<noteq> 0)
    \<and> (slept < drain_looks env \<longrightarrow> opened slept = 0) \<and> slept \<le> drain_looks env
    \<and> (\<forall>k \<le> length acts - 2. in_client_open (fold do_action (take k acts) s) = in_client_open s
        \<and> in_cache (fold do_action (take k acts) s) = in_cache s)
    \<and> in_shutting_down s' \<and> \<not> in_client_open s' \<and> in_cache s' = close (in_cache s)"
proof -
  obtain waited where w: "drain_wait opened (drain_looks env) 0 = (waited, slept)"
      "acts = Tell # waited @ [Look (opened slept), Close_client, Close_cache]" "s' = fold do_action acts s"
    using assms by (auto simp: shut_down_def Let_def split: prod.splits)
  note b = drain_wait_bounds [OF w(1)]
  have harmless: "\<forall>a \<in> set waited. a \<noteq> Close_client \<and> a \<noteq> Close_cache" using b waiting_closes_nothing by fastforce
  have before: "\<forall>a \<in> set (take k acts). a \<noteq> Close_client \<and> a \<noteq> Close_cache" if "k \<le> length acts - 2" for k
  proof -
    have "set (take k acts) \<subseteq> set (take (length acts - 2) acts)" using that by (rule set_take_subset_set_take)
    also have "take (length acts - 2) acts = Tell # waited @ [Look (opened slept)]" by (simp add: w(2))
    finally show ?thesis using harmless by auto
  qed
  have "real (drain_looks env) \<le> max 0 (DRAIN_TIMEOUT_S env * 4)"
    unfolding drain_looks_def py_int_def by (auto simp: max_def)
  then have time: "real slept / 4 \<le> max 0 (DRAIN_TIMEOUT_S env)"
    using b by (auto simp: max_def split: if_splits)
  have closed: "in_shutting_down s' \<and> \<not> in_client_open s' \<and> in_cache s' = close (in_cache s)"
    using acting_open [OF harmless] fold_tells [of "s\<lparr>in_shutting_down := True\<rparr>" waited] by (simp add: w(2, 3))
  have acts: "acts = Tell # waiting opened 0 slept (slept < drain_looks env) @ [Look (opened slept), Close_client, Close_cache]"
    using b w(2) by simp
  show ?thesis using acts time b closed acting_open [OF before] by simp
qed

definition running_instance :: instance_state where
  "running_instance = \<lparr>in_shutting_down = False, in_open_streams = 2, in_cache = empty_cache, in_client_open = True\<rparr>"

lemma shutdown_waits_for_the_streams_witness:
  "\<exists>acts. (\<exists>s'. shut_down local_env (\<lambda>i. if i < 3 then 2 else 0) running_instance = (s', acts, 3))
    \<and> acts = [Tell, Look 2, Sleep, Look 2, Sleep, Look 2, Sleep, Look 0, Look 0, Close_client, Close_cache]"
proof -
  have "drain_looks local_env = 80" by (simp add: drain_looks_def py_int_def DRAIN_TIMEOUT_S_def env_float_def local_env_def)
  then have r: "\<exists>s' acts. shut_down local_env (\<lambda>i. if i < 3 then 2 else 0) running_instance = (s', acts, 3)"
    by (simp add: shut_down_def Let_def eval_nat_numeral)
  then obtain s' acts where run: "shut_down local_env (\<lambda>i. if i < 3 then 2 else 0) running_instance = (s', acts, 3)" by blast
  show ?thesis
    using shutdown_waits_for_the_streams [OF run] run \<open>drain_looks local_env = 80\<close>
    by (intro exI [of _ acts]) (simp add: waiting_def upt_rec)
qed

text \<open>
  An instance cannot be started twice in one process. Start-up clears the flags an earlier run left, so
  that one could follow it; but that run closed the process's cache, which does not reopen, and the first
  thing start-up asks of it fails.
\<close>

theorem a_second_start_fails:
  assumes "check_startup env st = Inr missing"
  shows "snd (start_up env st now (fst (shut_down env opened s))) = Inl (NoCache CacheClosed)"
  using assms by (simp add: start_up_def shut_down_def close_def with_conn_def Let_def split: prod.split)

lemma a_second_start_fails_witness:
  "snd (start_up local_env (load_settings local_env) 7 (fst (shut_down local_env (\<lambda>i. 0) running_instance))) = Inl (NoCache CacheClosed)"
proof -
  have "missing_required_keys local_env (load_settings local_env) = [] \<or> \<not> STRICT_STARTUP local_env"
    by (simp add: STRICT_STARTUP_def env_flag_def local_env_def stripped_def)
  then obtain missing where "check_startup local_env (load_settings local_env) = Inr missing"
    by (auto simp: check_startup_def Let_def)
  then show ?thesis by (rule a_second_start_fails)
qed

text \<open>
  The diagnostic gives nothing away: it is the same whatever the secrets are, as long as the same ones
  of them are set as far as the two booleans tell, and whatever the limiters hold of their clients.
\<close>

theorem health_gives_nothing_away:
  assumes "st' = (ap_settings ap)\<lparr>st_graphhopper_key := g, st_mapillary_token := m, st_anthropic_api_key := a, st_osm_dev_token := o'\<rparr>"
    and "missing_keys (ap_env ap) st' = [] \<longleftrightarrow> missing_keys (ap_env ap) (ap_settings ap) = []"
    and "missing_required_keys (ap_env ap) st' = [] \<longleftrightarrow> missing_required_keys (ap_env ap) (ap_settings ap) = []"
  shows "fst (health (ap\<lparr>ap_settings := st'\<rparr>) ck after clip part verbose
        (sx\<lparr>sx_limiter := (sx_limiter sx)\<lparr>rl_buckets := bs\<rparr>, sx_geocode_limiter := gl, sx_photo_limiter := pl\<rparr>))
      = fst (health ap ck after clip part verbose sx)"
proof -
  have served: "snd (served_today utc (lr\<lparr>rl_buckets := bs\<rparr>)) = snd (served_today utc lr)" for utc and lr :: "'a limiter"
    by (simp add: served_today_def roll_day_def)
  have st: "st_fixture_mode st' = st_fixture_mode (ap_settings ap)" "rate_limit_health st' n = rate_limit_health (ap_settings ap) n" for n
    using assms(1) by (simp_all add: rate_limit_health_def)
  show ?thesis
    using assms(2, 3) served [of "ck_utc ck" "sx_limiter sx"]
    by (auto simp: health_def Let_def st split: sum.split prod.split)
qed

lemma health_gives_nothing_away_witness:
  "fst (health (plain_app\<lparr>ap_settings := (ap_settings plain_app)\<lparr>st_osm_dev_token := Some ''secret''\<rparr>\<rparr>) (tick 0) (\<lambda>n e. True) True [] True plain_service)
     = fst (health plain_app (tick 0) (\<lambda>n e. True) True [] True plain_service)"
proof -
  let ?st = "ap_settings plain_app"
  have same: "?st\<lparr>st_osm_dev_token := Some ''secret''\<rparr>
      = ?st\<lparr>st_graphhopper_key := st_graphhopper_key ?st, st_mapillary_token := st_mapillary_token ?st,
          st_anthropic_api_key := st_anthropic_api_key ?st, st_osm_dev_token := Some ''secret''\<rparr>" by simp
  have service: "plain_service\<lparr>sx_limiter := (sx_limiter plain_service)\<lparr>rl_buckets := rl_buckets (sx_limiter plain_service)\<rparr>,
      sx_geocode_limiter := sx_geocode_limiter plain_service, sx_photo_limiter := sx_photo_limiter plain_service\<rparr> = plain_service"
    by simp
  show ?thesis
    using health_gives_nothing_away [OF same, where ck = "tick 0" and after = "\<lambda>n e. True" and clip = True and part = "[]" and verbose = True
      and sx = plain_service and bs = "rl_buckets (sx_limiter plain_service)" and gl = "sx_geocode_limiter plain_service"
      and pl = "sx_photo_limiter plain_service"]
    by (simp add: service missing_keys_def missing_required_keys_def)
qed

end
