(* ===== verification/Synthetic.thy ===== *)
theory Synthetic
  imports Assemble
begin

text \<open>
  scripts/make_synthetic_fixtures.py: the made-up GraphHopper answers the demo runs on, and the fixed
  test locations of config.py they start from. The generator draws from \<open>random.Random\<close>: what the n-th
  draw gives is a field of \<open>rng\<close>, and a draw moves on by one. \<open>uniform\<close>, \<open>randint\<close>, \<open>choice\<close> and
  \<open>choices\<close> are what the standard library makes of a draw. The digest a seed is read from is a
  parameter, and so is what generator a seed gives.
\<close>

section \<open>The test locations\<close>

record test_location =
  tl_slug :: string
  tl_name :: string
  tl_point :: latlon
  tl_notes :: string
  tl_tags :: "string list"

definition TEST_LOCATIONS :: "test_location list" where
  "TEST_LOCATIONS =
     [\<lparr>tl_slug = ''colombo-fort'', tl_name = ''Colombo Fort, Sri Lanka'', tl_point = LatLon 6.933727 79.850080,
       tl_notes = ''Dense arterial grid beside Galle Face Green. Origin for most fixtures.'', tl_tags = [''urban'', ''arterial'']\<rparr>,
      \<lparr>tl_slug = ''viharamahadevi'', tl_name = ''Viharamahadevi Park, Colombo'', tl_point = LatLon 6.914899 79.861364,
       tl_notes = ''Large city park. Expected to score above the arterial baseline.'', tl_tags = [''park'', ''green'']\<rparr>,
      \<lparr>tl_slug = ''hyde-park-london'', tl_name = ''Hyde Park, London'', tl_point = LatLon 51.507489 (- 0.162207),
       tl_notes = ''Dense Mapillary coverage and rich OSM accessibility tagging.'', tl_tags = [''park'', ''green'', ''well-tagged'']\<rparr>,
      \<lparr>tl_slug = ''euston-road-london'', tl_name = ''Euston Road, London'', tl_point = LatLon 51.524718 (- 0.138530),
       tl_notes = ''Six-lane arterial. The grim control for CLIP ranking.'', tl_tags = [''urban'', ''arterial'']\<rparr>,
      \<lparr>tl_slug = ''amsterdam-vondelpark'', tl_name = ''Vondelpark, Amsterdam'', tl_point = LatLon 52.357197 4.864119,
       tl_notes = ''Flat, exceptionally well tagged for surface and smoothness.'', tl_tags = [''park'', ''green'', ''well-tagged'']\<rparr>,
      \<lparr>tl_slug = ''ella-sri-lanka'', tl_name = ''Ella, Sri Lanka'', tl_point = LatLon 6.875280 81.038330,
       tl_notes = ''1,041 m in steep hill country. The only test location not at sea level.'', tl_tags = [''rural'', ''elevation'', ''hills'']\<rparr>]"

text \<open>\<open>TEST_LOCATIONS_BY_SLUG[slug]\<close>; \<open>None\<close> is the KeyError.\<close>

definition location_point :: "string \<Rightarrow> latlon option" where
  "location_point slug = map_option tl_point (find (\<lambda>l. tl_slug l = slug) (rev TEST_LOCATIONS))"

section \<open>Random draws\<close>

record rng =
  rg_unit :: "nat \<Rightarrow> real"
  rg_below :: "nat \<Rightarrow> nat \<Rightarrow> nat"
  rg_pos :: nat

definition rng_ok :: "rng \<Rightarrow> bool" where
  "rng_ok g \<longleftrightarrow> (\<forall>i n. 0 < n \<longrightarrow> rg_below g i n < n)"

definition next_draw :: "rng \<Rightarrow> rng" where
  "next_draw g = g\<lparr>rg_pos := Suc (rg_pos g)\<rparr>"

definition uniform :: "real \<Rightarrow> real \<Rightarrow> rng \<Rightarrow> real \<times> rng" where
  "uniform a b g = (a + (b - a) * rg_unit g (rg_pos g), next_draw g)"

definition randint :: "nat \<Rightarrow> nat \<Rightarrow> rng \<Rightarrow> nat \<times> rng" where
  "randint a b g = (a + rg_below g (rg_pos g) (b - a + 1), next_draw g)"

definition choice :: "'a list \<Rightarrow> rng \<Rightarrow> 'a \<times> rng" where
  "choice xs g = (xs ! rg_below g (rg_pos g) (length xs), next_draw g)"

text \<open>The bisection over the running totals of \<open>choices(values, weights, k=1)\<close>; the last value takes what is left.\<close>

fun by_weight :: "(string \<times> real) list \<Rightarrow> real \<Rightarrow> string" where
  "by_weight [] x = ''''"
| "by_weight [(v, w)] x = v"
| "by_weight ((v, w) # rest) x = (if x < w then v else by_weight rest (x - w))"

definition weighted_choice :: "(string \<times> real) list \<Rightarrow> rng \<Rightarrow> string \<times> rng" where
  "weighted_choice mix g = (by_weight mix (rg_unit g (rg_pos g) * sum_list (map snd mix)), next_draw g)"

section \<open>The tables\<close>

text \<open>Subscripting a table by a preset; every preset of the generator is in every table.\<close>

definition at_preset :: "(string \<times> 'a) list \<Rightarrow> string \<Rightarrow> 'a" where
  "at_preset table preset = the (map_of table preset)"

definition SPEED_M_S :: "(string \<times> real) list" where
  "SPEED_M_S = [(''foot'', 1.35), (''bike'', 4.2), (''car'', 9)]"

definition BOW_FRACTION :: "(string \<times> real) list" where
  "BOW_FRACTION = [(''fastest'', 0.03), (''scenic'', 0.34), (''accessible'', - 0.13), (''quiet'', 0.19),
     (''shade'', - 0.26), (''air'', 0.11)]"

definition DETAIL_MIX :: "(string \<times> (string \<times> (string \<times> real) list) list) list" where
  "DETAIL_MIX =
     [(''fastest'',
       [(''road_class'', [(''PRIMARY'', 0.35), (''SECONDARY'', 0.3), (''RESIDENTIAL'', 0.25), (''FOOTWAY'', 0.1)]),
        (''surface'', [(''ASPHALT'', 0.6), (''PAVING_STONES'', 0.15), (''MISSING'', 0.25)]),
        (''road_environment'', [(''ROAD'', 0.92), (''BRIDGE'', 0.08)])]),
      (''scenic'',
       [(''road_class'', [(''FOOTWAY'', 0.3), (''PATH'', 0.3), (''TRACK'', 0.15), (''RESIDENTIAL'', 0.15), (''PEDESTRIAN'', 0.1)]),
        (''surface'', [(''COMPACTED'', 0.25), (''GROUND'', 0.2), (''ASPHALT'', 0.2), (''FINE_GRAVEL'', 0.1), (''MISSING'', 0.25)]),
        (''road_environment'', [(''ROAD'', 0.95), (''BRIDGE'', 0.05)])]),
      (''accessible'',
       [(''road_class'', [(''FOOTWAY'', 0.4), (''RESIDENTIAL'', 0.3), (''PEDESTRIAN'', 0.2), (''SECONDARY'', 0.1)]),
        (''surface'', [(''ASPHALT'', 0.4), (''PAVING_STONES'', 0.25), (''CONCRETE'', 0.1), (''MISSING'', 0.25)]),
        (''road_environment'', [(''ROAD'', 1)])]),
      (''quiet'',
       [(''road_class'', [(''FOOTWAY'', 0.3), (''PEDESTRIAN'', 0.2), (''PATH'', 0.15), (''CYCLEWAY'', 0.15),
          (''LIVING_STREET'', 0.1), (''RESIDENTIAL'', 0.1)]),
        (''surface'', [(''ASPHALT'', 0.55), (''CONCRETE'', 0.15), (''PAVING_STONES'', 0.05), (''MISSING'', 0.25)]),
        (''road_environment'', [(''ROAD'', 1)])]),
      (''shade'',
       [(''road_class'', [(''PATH'', 0.3), (''FOOTWAY'', 0.3), (''TRACK'', 0.15), (''RESIDENTIAL'', 0.2), (''BRIDLEWAY'', 0.05)]),
        (''surface'', [(''GROUND'', 0.3), (''COMPACTED'', 0.25), (''DIRT'', 0.15), (''ASPHALT'', 0.05), (''MISSING'', 0.25)]),
        (''road_environment'', [(''ROAD'', 1)])]),
      (''air'',
       [(''road_class'', [(''PATH'', 0.35), (''FOOTWAY'', 0.25), (''PEDESTRIAN'', 0.15), (''CYCLEWAY'', 0.15),
          (''RESIDENTIAL'', 0.05), (''BRIDLEWAY'', 0.05)]),
        (''surface'', [(''ASPHALT'', 0.35), (''PAVING_STONES'', 0.2), (''COMPACTED'', 0.15), (''MISSING'', 0.3)]),
        (''road_environment'', [(''ROAD'', 1)])])]"

definition SYNTHETIC_PRESETS :: "string list" where
  "SYNTHETIC_PRESETS = [''fastest'', ''scenic'', ''accessible'', ''quiet'', ''shade'', ''air'']"

definition PREFERENCE_LOOP_PRESETS :: "string set" where
  "PREFERENCE_LOOP_PRESETS = {''quiet'', ''shade'', ''air''}"

record scenario =
  sn_slug :: string
  sn_origin :: string
  sn_destination :: "string option"
  sn_minutes :: int
  sn_mode :: mode
  sn_unroutable :: "string list"
  sn_known_bad :: "string list"

definition SCENARIOS :: "scenario list" where
  "SCENARIOS =
     [\<lparr>sn_slug = ''colombo-walk'', sn_origin = ''colombo-fort'', sn_destination = Some ''viharamahadevi'', sn_minutes = 25,
       sn_mode = Foot, sn_unroutable = [], sn_known_bad = []\<rparr>,
      \<lparr>sn_slug = ''hyde-park-loop'', sn_origin = ''hyde-park-london'', sn_destination = None, sn_minutes = 35,
       sn_mode = Foot, sn_unroutable = [], sn_known_bad = []\<rparr>,
      \<lparr>sn_slug = ''euston-to-hyde'', sn_origin = ''euston-road-london'', sn_destination = Some ''hyde-park-london'', sn_minutes = 40,
       sn_mode = Foot, sn_unroutable = [], sn_known_bad = [''accessible'']\<rparr>,
      \<lparr>sn_slug = ''vondelpark-loop'', sn_origin = ''amsterdam-vondelpark'', sn_destination = None, sn_minutes = 60,
       sn_mode = Bike, sn_unroutable = [], sn_known_bad = []\<rparr>,
      \<lparr>sn_slug = ''colombo-loop'', sn_origin = ''colombo-fort'', sn_destination = None, sn_minutes = 30,
       sn_mode = Foot, sn_unroutable = [''accessible''], sn_known_bad = []\<rparr>,
      \<lparr>sn_slug = ''colombo-drive'', sn_origin = ''colombo-fort'', sn_destination = Some ''viharamahadevi'', sn_minutes = 150,
       sn_mode = Car, sn_unroutable = [], sn_known_bad = []\<rparr>]"

definition loop_scales_for :: "string \<Rightarrow> latlon option \<Rightarrow> real list" where
  "loop_scales_for preset destination =
     (if destination \<noteq> None \<or> preset \<notin> PREFERENCE_LOOP_PRESETS then [1] else PREFERENCE_LOOP_SCALES)"

section \<open>Geometry\<close>

definition offset :: "latlon \<Rightarrow> real \<Rightarrow> real \<Rightarrow> latlon" where
  "offset p north_m east_m =
     LatLon (lat p + north_m / 111320) (lon p + east_m / (111320 * max 0.1 (cos (radians (lat p)))))"

definition bezier :: "latlon \<Rightarrow> latlon \<Rightarrow> latlon \<Rightarrow> nat \<Rightarrow> latlon list" where
  "bezier a control b n =
     map (\<lambda>i. let t = real i / (real n - 1); u = 1 - t
              in LatLon (u * u * lat a + 2 * u * t * lat control + t * t * lat b)
                        (u * u * lon a + 2 * u * t * lon control + t * t * lon b)) [0..<n]"

fun jitter_inner :: "real \<Rightarrow> latlon list \<Rightarrow> rng \<Rightarrow> latlon list \<times> rng" where
  "jitter_inner metres [] g = ([], g)"
| "jitter_inner metres (p # ps) g =
     (let (north, g1) = uniform (- metres) metres g; (east, g2) = uniform (- metres) metres g1;
          (rest, g3) = jitter_inner metres ps g2
      in (offset p north east # rest, g3))"

definition jitter :: "latlon list \<Rightarrow> real \<Rightarrow> rng \<Rightarrow> latlon list \<times> rng" where
  "jitter ps metres g =
     (let (inner, g') = jitter_inner metres (butlast (tl ps)) g in ([hd ps] @ inner @ [last ps], g'))"

definition a_to_b :: "latlon \<Rightarrow> latlon \<Rightarrow> string \<Rightarrow> rng \<Rightarrow> latlon list \<times> rng" where
  "a_to_b origin dest preset g =
     (let straight = haversine_m origin dest;
          mid = LatLon ((lat origin + lat dest) / 2) ((lon origin + lon dest) / 2);
          dlat_m = (lat dest - lat origin) * 111320;
          dlon_m = (lon dest - lon origin) * 111320 * cos (radians (lat origin));
          h = sqrt (dlat_m\<^sup>2 + dlon_m\<^sup>2); norm = (if h = 0 then 1 else h);
          perp_north = - dlon_m / norm; perp_east = dlat_m / norm;
          bow = straight * at_preset BOW_FRACTION preset;
          control = offset mid (perp_north * bow * 2) (perp_east * bow * 2);
          n = nat (max 24 (min 90 (py_int (straight / 45))))
      in jitter (bezier origin control dest n) 6 g)"

definition loop_lobes :: "(string \<times> real) list" where
  "loop_lobes = [(''fastest'', 0), (''scenic'', 3), (''accessible'', 0), (''quiet'', 2), (''shade'', 4), (''air'', 0)]"
definition loop_wobble :: "(string \<times> real) list" where
  "loop_wobble = [(''fastest'', 0.06), (''scenic'', 0.22), (''accessible'', 0.03), (''quiet'', 0.12), (''shade'', 0.18), (''air'', 0.09)]"
definition loop_bearing :: "(string \<times> real) list" where
  "loop_bearing = [(''fastest'', 20), (''scenic'', 95), (''accessible'', 200), (''quiet'', 260), (''shade'', 320), (''air'', 145)]"

text \<open>The 73 points of a loop; the first and the last are put on the origin.\<close>

definition loop_point :: "latlon \<Rightarrow> real \<Rightarrow> string \<Rightarrow> nat \<Rightarrow> latlon" where
  "loop_point origin radius preset i =
     (let start = radians (at_preset loop_bearing preset);
          centre = offset origin (radius * cos start) (radius * sin start);
          theta = 2 * pi * real i / 72; lobes = at_preset loop_lobes preset;
          shape = (if lobes \<noteq> 0 then sin (lobes * theta) else sin theta);
          r = radius * (1 + at_preset loop_wobble preset * shape); angle = start + pi + theta
      in offset centre (r * cos angle) (r * sin angle))"

definition loop_line :: "latlon \<Rightarrow> real \<Rightarrow> string \<Rightarrow> rng \<Rightarrow> latlon list \<times> rng" where
  "loop_line origin target_distance_m preset g =
     (let pts = map (loop_point origin (target_distance_m / (2 * pi)) preset) [0..<73]
      in jitter (pts[0 := origin, 72 := origin]) 5 g)"

definition elevation_amplitude :: "(string \<times> real) list" where
  "elevation_amplitude = [(''fastest'', 2), (''scenic'', 22), (''accessible'', 1.2), (''quiet'', 4.5), (''shade'', 14), (''air'', 6)]"

fun elevation_draws :: "real \<Rightarrow> real \<Rightarrow> nat \<Rightarrow> nat list \<Rightarrow> rng \<Rightarrow> real list \<times> rng" where
  "elevation_draws base amplitude n [] g = ([], g)"
| "elevation_draws base amplitude n (i # is) g =
     (let (x, g1) = uniform (- 0.4) 0.4 g; (rest, g2) = elevation_draws base amplitude n is g1
      in (round_dec 1 (base + amplitude * sin (3.1 * real i / real n * pi) + x) # rest, g2))"

definition elevations :: "nat \<Rightarrow> string \<Rightarrow> rng \<Rightarrow> real list \<times> rng" where
  "elevations n preset g =
     (let (x, g1) = uniform 0 20 g in elevation_draws (8 + x) (at_preset elevation_amplitude preset) n [0..<n] g1)"

section \<open>Path details\<close>

text \<open>The runs of two to eight points a tag is drawn for.\<close>

function span_loop :: "(string \<times> real) list \<Rightarrow> nat \<Rightarrow> nat \<Rightarrow> rng \<Rightarrow> (nat \<times> nat \<times> string) list \<times> rng" where
  "span_loop mix n idx g =
     (if idx < n - 1
      then let len = min (fst (randint 2 8 g)) (n - 1 - idx);
               v = weighted_choice mix (snd (randint 2 8 g));
               rest = span_loop mix n (idx + len) (snd v)
           in ((idx, idx + len, fst v) # fst rest, snd rest)
      else ([], g))"
  by pat_completeness auto
termination
  by (relation "measure (\<lambda>(mix, n, idx, g). n - idx)") (auto simp: randint_def)

declare span_loop.simps [simp del]

definition weighted_spans :: "nat \<Rightarrow> (string \<times> real) list \<Rightarrow> (nat \<times> nat \<times> string) list \<Rightarrow> rng
    \<Rightarrow> (nat \<times> nat \<times> string) list \<times> rng" where
  "weighted_spans n mix forced g =
     (let (spans, g') = span_loop mix n 0 g
      in (sort_key fst (spans @ map (\<lambda>(start, stop, v). (start, min stop (n - 1), v)) forced), g'))"

definition FORCED_ENVIRONMENT :: "(string \<times> (real \<times> real \<times> string) list) list" where
  "FORCED_ENVIRONMENT = [(''shade'', [(0.30, 0.35, ''TUNNEL'')]), (''air'', [(0.55, 0.60, ''BRIDGE'')])]"

text \<open>\<open>int(n * x)\<close>.\<close>

definition part_of :: "nat \<Rightarrow> real \<Rightarrow> nat" where
  "part_of n x = nat (py_int (real n * x))"

definition span_json :: "nat \<times> nat \<times> string \<Rightarrow> json" where
  "span_json s = JList [JNum (real (fst s)), JNum (real (fst (snd s))), JStr (snd (snd s))]"

definition details_for :: "nat \<Rightarrow> string \<Rightarrow> bool \<Rightarrow> rng
    \<Rightarrow> (string \<times> (nat \<times> nat \<times> string) list) list \<times> rng" where
  "details_for n preset known_bad g =
     (let mix = at_preset DETAIL_MIX preset;
          forced_class = (if known_bad then [(part_of n 0.42, part_of n 0.45, ''STEPS'')] else []);
          forced_surface = (if known_bad then [(part_of n 0.62, part_of n 0.68, ''COBBLESTONE'')] else []);
          forced_env = map (\<lambda>(start, stop, v). (part_of n start, part_of n stop, v))
            (case map_of FORCED_ENVIRONMENT preset of None \<Rightarrow> [] | Some xs \<Rightarrow> xs);
          (road_class, g1) = weighted_spans n (the (map_of mix ''road_class'')) forced_class g;
          (surface, g2) = weighted_spans n (the (map_of mix ''surface'')) forced_surface g1;
          (road_environment, g3) = weighted_spans n (the (map_of mix ''road_environment'')) forced_env g2
      in ([(''road_class'', road_class), (''surface'', surface), (''road_environment'', road_environment)], g3))"

section \<open>Directions\<close>

text \<open>The turn templates all end in the street's name; here is what stands before it.\<close>

definition SYNTH_TURNS :: "(int \<times> string) list" where
  "SYNTH_TURNS = [(0, ''Continue onto ''), (2, ''Turn right onto ''), (- 2, ''Turn left onto ''),
     (7, ''Keep right onto ''), (- 7, ''Keep left onto '')]"

definition SYNTH_STREETS :: "string list" where
  "SYNTH_STREETS = [''Demonstration Way'', ''Example Parade'', ''Placeholder Lane'', ''Sample Street'',
     ''Specimen Road'', ''Illustration Walk'', ''Mock Avenue'', ''Fixture Path'']"

record direction =
  dn_distance :: real
  dn_heading :: "real option"
  dn_sign :: int
  dn_interval :: "int \<times> int"
  dn_text :: string
  dn_time :: int
  dn_street :: string

definition turn_bound :: "nat \<Rightarrow> nat \<Rightarrow> nat \<Rightarrow> int" where
  "turn_bound n legs i = round_half_even (real i * (real n - 1) / real legs)"

fun direction_draws :: "nat \<Rightarrow> nat \<Rightarrow> real \<Rightarrow> int \<Rightarrow> nat list \<Rightarrow> rng \<Rightarrow> direction list \<times> rng" where
  "direction_draws n legs distance_m time_ms [] g = ([], g)"
| "direction_draws n legs distance_m time_ms (i # is) g =
     (let start = turn_bound n legs i; stop = turn_bound n legs (Suc i); span = max 1 (stop - start);
          ((sign, onto), g1) = (if i = 0 then ((0, ''Continue onto ''), g) else choice SYNTH_TURNS g);
          (street, g2) = choice SYNTH_STREETS g1;
          (heading, g3) = uniform 0 360 g2;
          (rest, g4) = direction_draws n legs distance_m time_ms is g3
      in (\<lparr>dn_distance = round_dec 3 (distance_m * of_int span / real (max 1 (n - 1))), dn_heading = Some (round_dec 2 heading),
           dn_sign = sign, dn_interval = (start, stop), dn_text = onto @ street,
           dn_time = round_half_even (of_int (time_ms * span) / real (max 1 (n - 1))), dn_street = street\<rparr> # rest, g4))"

definition arrival :: "nat \<Rightarrow> direction" where
  "arrival n = \<lparr>dn_distance = 0, dn_heading = None, dn_sign = 4, dn_interval = (int n - 1, int n - 1),
     dn_text = ''Arrive at destination'', dn_time = 0, dn_street = ''''\<rparr>"

definition turn_count :: "nat \<Rightarrow> nat" where
  "turn_count n = max 2 (min 8 (n div 6))"

definition directions :: "nat \<Rightarrow> real \<Rightarrow> int \<Rightarrow> rng \<Rightarrow> direction list \<times> rng" where
  "directions n distance_m time_ms g =
     (if n < 2 then ([], g)
      else let (steps, g') = direction_draws n (turn_count n) distance_m time_ms [0..<turn_count n] g
           in (steps @ [arrival n], g'))"

definition direction_json :: "direction \<Rightarrow> json" where
  "direction_json d = JObj
     ([(''distance'', JNum (dn_distance d))]
      @ (case dn_heading d of None \<Rightarrow> [] | Some h \<Rightarrow> [(''heading'', JNum h)])
      @ [(''sign'', JNum (of_int (dn_sign d))),
         (''interval'', JList [JNum (of_int (fst (dn_interval d))), JNum (of_int (snd (dn_interval d)))]),
         (''text'', JStr (dn_text d)), (''time'', JNum (of_int (dn_time d))), (''street_name'', JStr (dn_street d))])"

section \<open>The answer\<close>

definition SPEED_FACTOR :: "(string \<times> real) list" where
  "SPEED_FACTOR = [(''fastest'', 1), (''scenic'', 0.88), (''accessible'', 0.95), (''quiet'', 0.97), (''shade'', 0.9), (''air'', 0.94)]"

text \<open>\<open>LatLon(pair[1], pair[0])\<close> of a point the generator wrote itself.\<close>

definition point_at :: "json \<Rightarrow> nat \<Rightarrow> latlon" where
  "point_at body i = (let pair = jlist (jlist (jget ''points'' body) ! i)
     in LatLon (the (jnum (pair ! 1))) (the (jnum (pair ! 0))))"

definition synth_line :: "json \<Rightarrow> string \<Rightarrow> rng \<Rightarrow> latlon list \<times> rng" where
  "synth_line body preset g =
     (if jget ''algorithm'' body = JStr ''round_trip''
      then loop_line (point_at body 0) (the (jnum (jget ''round_trip.distance'' body))) preset g
      else a_to_b (point_at body 0) (point_at body 1) preset g)"

definition rounded :: "latlon \<Rightarrow> latlon" where
  "rounded p = LatLon (round_dec 6 (lat p)) (round_dec 6 (lon p))"

definition synth_speed :: "json \<Rightarrow> string \<Rightarrow> real" where
  "synth_speed body preset = at_preset SPEED_M_S (the (jstr (jget ''profile'' body))) * at_preset SPEED_FACTOR preset"

definition synth_path :: "latlon list \<Rightarrow> real list \<Rightarrow> real \<Rightarrow> int
    \<Rightarrow> (string \<times> (nat \<times> nat \<times> string) list) list \<Rightarrow> direction list \<Rightarrow> json" where
  "synth_path points es speed time_ms details steps =
     (let distance_m = path_length_m points in JObj
       [(''distance'', JNum (round_dec 3 distance_m)), (''weight'', JNum (round_dec 3 (distance_m / max speed 0.1))),
        (''time'', JNum (of_int time_ms)), (''transfers'', JNum 0), (''points_encoded'', JBool False),
        (''bbox'', JList [JNum (Min (set (map lon points))), JNum (Min (set (map lat points))),
                          JNum (Max (set (map lon points))), JNum (Max (set (map lat points)))]),
        (''points'', JObj [(''type'', JStr ''LineString''),
           (''coordinates'', JList (map (\<lambda>(p, e). JList [JNum (lon (rounded p)), JNum (lat (rounded p)), JNum e]) (zip points es)))]),
        (''ascend'', JNum (round_dec 1 (Max (set es) - hd es))), (''descend'', JNum (round_dec 1 (Max (set es) - last es))),
        (''details'', JObj (map (\<lambda>(k, spans). (k, JList (map span_json spans))) details)),
        (''instructions'', JList (map direction_json steps)), (''legs'', JList []),
        (''snapped_waypoints'', JObj [(''type'', JStr ''LineString''),
           (''coordinates'', JList (map (\<lambda>p. JList [JNum (lon (rounded p)), JNum (lat (rounded p))]) [hd points, last points]))])])"

definition synth_payload :: "json \<Rightarrow> string \<Rightarrow> scenario \<Rightarrow> rng \<Rightarrow> json" where
  "synth_payload body preset sn g0 =
     (let (points, g1) = synth_line body preset g0;
          (es, g2) = elevations (length points) preset g1;
          distance_m = path_length_m points; speed = synth_speed body preset;
          time_ms = py_int (distance_m / speed * 1000);
          (details, g3) = details_for (length points) preset (preset \<in> set (sn_known_bad sn)) g2;
          (steps, g4) = directions (length points) distance_m time_ms g3
      in JObj [(''hints'', JObj [(''visited_nodes.sum'', JNum 0), (''visited_nodes.average'', JNum 0)]),
               (''info'', JObj [(''copyrights'', JList [JStr ''GraphHopper'', JStr ''OpenStreetMap contributors'']),
                  (''took'', JNum 12), (''road_data_timestamp'', JStr ''2026-07-01T00:00:00Z'')]),
               (''paths'', JList [synth_path points es speed time_ms details steps])])"

definition unroutable_payload :: json where
  "unroutable_payload = JObj [(''message'', JStr ''Connection between locations not found: 0->1''),
     (''hints'', JList [JObj [(''message'', JStr ''Connection between locations not found: 0->1''),
        (''details'', JStr ''com.graphhopper.util.exceptions.ConnectionNotFoundException'')]])]"

section \<open>Lines that start and end where they should\<close>

lemma jitter_inner_length: "length (fst (jitter_inner m ps g)) = length ps"
  by (induction m ps g rule: jitter_inner.induct) (auto simp: uniform_def split: prod.splits)

lemma jitter_ends:
  assumes "2 \<le> length ps"
  shows "length (fst (jitter ps m g)) = length ps \<and> hd (fst (jitter ps m g)) = hd ps \<and> last (fst (jitter ps m g)) = last ps"
proof -
  obtain inner g' where i: "jitter_inner m (butlast (tl ps)) g = (inner, g')" by fastforce
  then have "length inner = length ps - 2" using jitter_inner_length [of m "butlast (tl ps)" g] by simp
  then show ?thesis using assms i by (simp add: jitter_def)
qed

lemma bezier_ends:
  assumes "2 \<le> n"
  shows "length (bezier a c b n) = n \<and> hd (bezier a c b n) = a \<and> last (bezier a c b n) = b"
proof -
  define pt where "pt t = LatLon ((1 - t) * (1 - t) * lat a + 2 * (1 - t) * t * lat c + t * t * lat b)
      ((1 - t) * (1 - t) * lon a + 2 * (1 - t) * t * lon c + t * t * lon b)" for t :: real
  have line: "bezier a c b n = map (\<lambda>i. pt (real i / (real n - 1))) [0..<n]" by (simp add: bezier_def Let_def pt_def)
  have ends: "hd (map f [0..<n]) = f 0 \<and> last (map f [0..<n]) = f (n - 1)" for f :: "nat \<Rightarrow> latlon"
    using assms by (simp add: hd_map last_map)
  have "real (n - 1) / (real n - 1) = 1" "real 0 / (real n - 1) = 0" using assms by (simp_all add: of_nat_diff)
  then have "hd (bezier a c b n) = pt 0 \<and> last (bezier a c b n) = pt 1"
    unfolding line using ends [of "\<lambda>i. pt (real i / (real n - 1))"] by (simp only:)
  moreover have "pt 0 = a" "pt 1 = b" by (simp_all add: pt_def)
  moreover have "length (bezier a c b n) = n" by (simp add: bezier_def)
  ultimately show ?thesis by simp
qed

lemma a_to_b_ends:
  "24 \<le> length (fst (a_to_b p q preset g)) \<and> length (fst (a_to_b p q preset g)) \<le> 90
   \<and> hd (fst (a_to_b p q preset g)) = p \<and> last (fst (a_to_b p q preset g)) = q"
proof -
  have "\<exists>c x. a_to_b p q preset g = jitter (bezier p c q (nat (max 24 (min 90 x)))) 6 g"
    unfolding a_to_b_def Let_def by (rule exI)+ (rule refl)
  then obtain c x where s: "a_to_b p q preset g = jitter (bezier p c q (nat (max 24 (min 90 x)))) 6 g" by blast
  define n where "n = nat (max 24 (min 90 x))"
  have n: "24 \<le> n" "n \<le> 90" by (auto simp: n_def)
  have c: "a_to_b p q preset g = jitter (bezier p c q n) 6 g" using s by (simp only: n_def)
  have b: "length (bezier p c q n) = n" "hd (bezier p c q n) = p" "last (bezier p c q n) = q"
    using bezier_ends [of n p c q] n(1) by simp_all
  show ?thesis using jitter_ends [of "bezier p c q n" 6 g] b n by (simp add: c)
qed

lemma loop_line_ends:
  "length (fst (loop_line p d preset g)) = 73 \<and> hd (fst (loop_line p d preset g)) = p \<and> last (fst (loop_line p d preset g)) = p"
proof -
  define pts where "pts = (map (loop_point p (d / (2 * pi)) preset) [0..<73]) [0 := p, 72 := p]"
  have len: "length pts = 73" by (simp add: pts_def)
  then have "pts \<noteq> []" by auto
  then have h: "hd pts = p" "last pts = p" using len by (simp_all add: hd_conv_nth last_conv_nth) (simp_all add: pts_def)
  have "loop_line p d preset g = jitter pts 5 g" by (simp add: loop_line_def pts_def)
  then show ?thesis using jitter_ends [of pts 5 g] len h by auto
qed

lemma synth_line_long: "24 \<le> length (fst (synth_line body preset g))"
  using a_to_b_ends loop_line_ends by (simp add: synth_line_def)

lemma elevation_draws_length: "length (fst (elevation_draws b a n is g)) = length is"
  by (induction b a n "is" g rule: elevation_draws.induct) (auto simp: uniform_def split: prod.splits)

lemma elevations_length: "length (fst (elevations n preset g)) = n"
  using elevation_draws_length by (simp add: elevations_def uniform_def)

section \<open>Spans that tile the line\<close>

fun chained :: "nat \<Rightarrow> (nat \<times> nat \<times> string) list \<Rightarrow> nat \<Rightarrow> bool" where
  "chained a [] b \<longleftrightarrow> a = b"
| "chained a ((s, e, v) # rest) b \<longleftrightarrow> s = a \<and> a < e \<and> chained e rest b"

lemma span_loop_tiles: "idx \<le> n - 1 \<Longrightarrow> chained idx (fst (span_loop mix n idx g)) (n - 1)"
proof (induction mix n idx g rule: span_loop.induct)
  case (1 mix n idx g)
  show ?case
  proof (cases "idx < n - 1")
    case True
    let ?len = "min (fst (randint 2 8 g)) (n - 1 - idx)"
    have l: "0 < ?len" "idx + ?len \<le> n - 1" using True by (auto simp: randint_def)
    show ?thesis using 1(1) [OF True refl refl] l True by (subst span_loop.simps) (simp add: Let_def)
  next
    case False
    then show ?thesis using 1(2) by (subst span_loop.simps) simp
  qed
qed

lemma weighted_spans_ne: "2 \<le> n \<Longrightarrow> fst (weighted_spans n mix forced g) \<noteq> []"
  using span_loop_tiles [of 0 n mix g]
  by (cases "fst (span_loop mix n 0 g)") (auto simp: weighted_spans_def split: prod.splits)

lemma details_for_shape:
  assumes "details_for n preset bad g = (details, g')" and "2 \<le> n"
  shows "map fst details = [''road_class'', ''surface'', ''road_environment''] \<and> (\<forall>(k, spans) \<in> set details. spans \<noteq> [])"
  using assms weighted_spans_ne [OF assms(2)]
  by (auto simp: details_for_def Let_def split: prod.splits) (metis fst_conv)+

section \<open>Reading back what is written\<close>

lemma coordinates_read_back:
  assumes "length ps = length es"
  shows "parse_points (map (\<lambda>(p, e). JList [JNum (lon (rounded p)), JNum (lat (rounded p)), JNum e]) (zip ps es)) = Inr (map rounded ps)
    \<and> parse_elevations (map (\<lambda>(p, e). JList [JNum (lon (rounded p)), JNum (lat (rounded p)), JNum e]) (zip ps es)) = Inr es"
  using assms
proof (induction ps es rule: list_induct2)
  case (Cons p ps e es)
  then show ?case by (simp add: from_post_point_def parse_elevations_def)
qed (simp add: parse_elevations_def)

definition read_span :: "nat \<times> nat \<times> string \<Rightarrow> span" where
  "read_span s = detail_span (int (fst s)) (int (fst (snd s))) (Tag (snd (snd s)))"

lemma py_int_real [simp]: "py_int (real n) = int n"
  by (simp add: py_int_def)

lemma py_int_of_int [simp]: "py_int (of_int k) = k"
  by (simp add: py_int_def)

lemma spans_read_back: "spans \<noteq> [] \<Longrightarrow> parse_spans pystr (JList (map span_json spans)) = Some (map read_span spans)"
proof -
  have one: "parse_span pystr (span_json s) = [read_span s]" for s
    by (simp add: parse_span_def span_json_def read_span_def)
  have "concat (map (parse_span pystr) (map span_json spans)) = map read_span spans"
    by (induction spans) (simp_all add: one)
  then show "spans \<noteq> [] \<Longrightarrow> ?thesis" by (simp add: parse_spans_def)
qed

text \<open>A direction the reader keeps whole: its sentence has no blanks around it and is not empty.\<close>

definition plain_direction :: "direction \<Rightarrow> bool" where
  "plain_direction d \<longleftrightarrow> dn_text d \<noteq> [] \<and> strip (dn_text d) = dn_text d \<and> strip (dn_street d) = dn_street d"

definition read_direction :: "direction \<Rightarrow> route_step" where
  "read_direction d = \<lparr>stp_text = dn_text d, stp_distance_m = dn_distance d, stp_duration_min = of_int (dn_time d) / 60000,
     stp_street_name = (if dn_street d = [] then None else Some (dn_street d)), stp_sign = dn_sign d, stp_interval = dn_interval d\<rparr>"

lemma direction_reads_back:
  assumes "plain_direction d"
  shows "parse_instruction (direction_json d) = [read_direction d]"
proof -
  obtain di h s a b t ti st where d: "d = \<lparr>dn_distance = di, dn_heading = h, dn_sign = s, dn_interval = (a, b), dn_text = t, dn_time = ti, dn_street = st\<rparr>"
    by (metis direction.cases prod.exhaust)
  show ?thesis using assms unfolding d
    by (cases h) (simp_all add: plain_direction_def direction_json_def parse_instruction_def read_direction_def number_def parse_interval_def)
qed

lemma directions_read_back:
  "\<forall>d \<in> set ds. plain_direction d \<Longrightarrow> parse_instructions (JList (map direction_json ds)) = map read_direction ds"
  by (induction ds) (simp_all add: parse_instructions_def direction_reads_back)

lemma streets_are_plain:
  "\<forall>(s, onto) \<in> set SYNTH_TURNS. \<forall>street \<in> set SYNTH_STREETS. onto @ street \<noteq> [] \<and> strip (onto @ street) = onto @ street \<and> strip street = street"
  by code_simp

lemma choice_in: "rng_ok g \<Longrightarrow> xs \<noteq> [] \<Longrightarrow> fst (choice xs g) \<in> set xs \<and> rng_ok (snd (choice xs g))"
  by (simp add: choice_def rng_ok_def next_draw_def)

lemma direction_draws_ok:
  assumes "rng_ok g" and "direction_draws n legs d t is g = (ds, g')"
  shows "length ds = length is \<and> rng_ok g'
    \<and> (\<forall>x \<in> set ds. plain_direction x \<and> dn_street x \<in> set SYNTH_STREETS)
    \<and> map dn_interval ds = map (\<lambda>i. (turn_bound n legs i, turn_bound n legs (Suc i))) is"
  using assms
proof (induction "is" arbitrary: g ds g')
  case (Cons i "is")
  obtain turn g1 where turn: "(if i = 0 then ((0, ''Continue onto ''), g) else choice SYNTH_TURNS g) = (turn, g1)" by fastforce
  obtain street g2 where street: "choice SYNTH_STREETS g1 = (street, g2)" by fastforce
  obtain h g3 where h: "uniform 0 360 g2 = (h, g3)" by fastforce
  obtain rest g4 where rest: "direction_draws n legs d t is g3 = (rest, g4)" by fastforce
  obtain sign onto where so: "turn = (sign, onto)" by fastforce
  have t: "turn \<in> set SYNTH_TURNS \<and> rng_ok g1"
    using turn choice_in [OF Cons(2), of SYNTH_TURNS] Cons(2) by (cases "i = 0") (auto simp: SYNTH_TURNS_def)
  have s: "street \<in> set SYNTH_STREETS \<and> rng_ok g2"
    using street choice_in [of g1 SYNTH_STREETS] t by (simp add: SYNTH_STREETS_def)
  have g3: "rng_ok g3" using h s by (auto simp: uniform_def rng_ok_def next_draw_def)
  have plain: "onto @ street \<noteq> [] \<and> strip (onto @ street) = onto @ street \<and> strip street = street"
    using streets_are_plain t s so by fastforce
  have IH: "length rest = length is \<and> rng_ok g4 \<and> (\<forall>x \<in> set rest. plain_direction x \<and> dn_street x \<in> set SYNTH_STREETS)
      \<and> map dn_interval rest = map (\<lambda>i. (turn_bound n legs i, turn_bound n legs (Suc i))) is"
    by (rule Cons(1) [OF g3 rest])
  show ?case using Cons(3) IH plain s
    unfolding direction_draws.simps turn so Let_def by (auto simp: street h rest plain_direction_def)
qed simp

text \<open>Drawing only moves on, so a generator that behaves goes on behaving.\<close>

lemma next_draw_ok [simp]: "rng_ok (next_draw g) = rng_ok g"
  by (simp add: rng_ok_def next_draw_def)

lemma jitter_inner_rng [simp]: "rng_ok (snd (jitter_inner m ps g)) = rng_ok g"
  by (induction m ps g rule: jitter_inner.induct) (auto simp: uniform_def split: prod.splits)

lemma jitter_rng [simp]: "rng_ok (snd (jitter ps m g)) = rng_ok g"
proof -
  obtain inner g' where i: "jitter_inner m (butlast (tl ps)) g = (inner, g')" by fastforce
  then show ?thesis using jitter_inner_rng [of m "butlast (tl ps)" g] by (simp add: jitter_def)
qed

lemma synth_line_rng [simp]: "rng_ok (snd (synth_line body preset g)) = rng_ok g"
  by (simp add: synth_line_def loop_line_def a_to_b_def Let_def)

lemma elevation_draws_rng: "rng_ok (snd (elevation_draws b a n is g)) = rng_ok g"
  by (induction b a n "is" g rule: elevation_draws.induct) (auto simp: uniform_def split: prod.splits)

lemma elevations_rng [simp]: "rng_ok (snd (elevations n preset g)) = rng_ok g"
  by (simp add: elevations_def uniform_def elevation_draws_rng)

lemma span_loop_rng: "rng_ok (snd (span_loop mix n idx g)) = rng_ok g"
proof (induction mix n idx g rule: span_loop.induct)
  case (1 mix n idx g)
  then show ?case
    by (subst span_loop.simps) (simp add: Let_def randint_def weighted_choice_def)
qed

lemma weighted_spans_rng: "rng_ok (snd (weighted_spans n mix forced g)) = rng_ok g"
proof -
  obtain spans g' where s: "span_loop mix n 0 g = (spans, g')" by fastforce
  then show ?thesis using span_loop_rng [of mix n 0 g] by (simp add: weighted_spans_def)
qed

lemma details_for_rng: "rng_ok (snd (details_for n preset bad g)) = rng_ok g"
proof -
  have w: "rng_ok g' = rng_ok g" if "weighted_spans n mix forced g = (x, g')" for mix forced x g g'
    using weighted_spans_rng [of n mix forced g] that by simp
  show ?thesis by (auto simp: details_for_def Let_def split: prod.splits dest!: w)
qed

lemma turn_bound_ends:
  assumes "0 < legs" and "1 \<le> n"
  shows "turn_bound n legs 0 = 0 \<and> turn_bound n legs legs = int n - 1"
proof -
  have "real legs * (real n - 1) / real legs = of_int (int n - 1)" using assms by simp
  then have "turn_bound n legs legs = int n - 1" unfolding turn_bound_def by (simp only: round_half_even_of_int)
  moreover have "turn_bound n legs 0 = 0" using round_half_even_of_int [of 0] by (simp add: turn_bound_def)
  ultimately show ?thesis by simp
qed

lemma turn_bound_mono: "i \<le> j \<Longrightarrow> 1 \<le> n \<Longrightarrow> turn_bound n legs i \<le> turn_bound n legs j"
  unfolding turn_bound_def by (intro round_half_even_mono divide_right_mono mult_right_mono) auto

text \<open>
  Directions lead from the start to the end: the first leg starts at the first point, each leg starts
  where the one before ended and none goes backwards, the last entry is the arrival at the last point,
  and every street that is named is one of the invented ones, so the words send nobody anywhere.
\<close>

theorem directions_lead_to_the_end:
  assumes "directions n d t g = (ds, g')" and "2 \<le> n" and "rng_ok g"
  shows "ds \<noteq> [] \<and> fst (dn_interval (hd ds)) = 0 \<and> last ds = arrival n
    \<and> (\<forall>i. Suc i < length ds \<longrightarrow> fst (dn_interval (ds ! i)) \<le> snd (dn_interval (ds ! i))
          \<and> snd (dn_interval (ds ! i)) = fst (dn_interval (ds ! Suc i)))
    \<and> (\<forall>x \<in> set (butlast ds). dn_street x \<in> set SYNTH_STREETS)"
proof -
  let ?k = "turn_count n"
  have k: "0 < ?k" by (simp add: turn_count_def)
  obtain legs where legs: "direction_draws n ?k d t [0..<?k] g = (legs, g')" and ds: "ds = legs @ [arrival n]"
    using assms(1,2) by (auto simp: directions_def split: prod.splits)
  have ok: "length legs = ?k" "\<forall>x \<in> set legs. dn_street x \<in> set SYNTH_STREETS"
      "map dn_interval legs = map (\<lambda>i. (turn_bound n ?k i, turn_bound n ?k (Suc i))) [0..<?k]"
    using direction_draws_ok [OF assms(3) legs] by simp_all
  have nth: "dn_interval (legs ! i) = (turn_bound n ?k i, turn_bound n ?k (Suc i))" if "i < ?k" for i
    using that ok(1) arg_cong [OF ok(3), of "\<lambda>xs. xs ! i"] by simp
  have bounds: "turn_bound n ?k 0 = 0" "turn_bound n ?k ?k = int n - 1" using turn_bound_ends [OF k] assms(2) by simp_all
  have ne: "legs \<noteq> []" using ok(1) k by auto
  have "hd ds = legs ! 0" using ne by (cases legs) (simp_all add: ds)
  then have "fst (dn_interval (hd ds)) = 0" using nth [OF k] bounds by simp
  moreover have "fst (dn_interval (ds ! i)) \<le> snd (dn_interval (ds ! i)) \<and> snd (dn_interval (ds ! i)) = fst (dn_interval (ds ! Suc i))"
    if "Suc i < length ds" for i
  proof -
    have i: "i < ?k" using that by (simp add: ds ok(1))
    have le: "turn_bound n ?k i \<le> turn_bound n ?k (Suc i)" using turn_bound_mono assms(2) by simp
    show ?thesis
    proof (cases "Suc i < ?k")
      case True
      then show ?thesis using nth [OF i] nth [OF True] le by (simp add: ds nth_append ok(1))
    next
      case False
      then have "Suc i = ?k" using i by simp
      then show ?thesis using nth [OF i] le bounds(2) i by (simp add: ds nth_append ok(1) arrival_def)
    qed
  qed
  moreover have "ds \<noteq> []" "last ds = arrival n" "\<forall>x \<in> set (butlast ds). dn_street x \<in> set SYNTH_STREETS"
    using ok(2) by (simp_all add: ds)
  ultimately show ?thesis by blast
qed

definition plain_rng :: rng where
  "plain_rng = \<lparr>rg_unit = (\<lambda>i. 1/2), rg_below = (\<lambda>i n. 0), rg_pos = 0\<rparr>"

lemma plain_rng_ok [simp]: "rng_ok plain_rng"
  by (simp add: plain_rng_def rng_ok_def)

lemma directions_lead_to_the_end_witness:
  "last (fst (directions 24 1000 900000 plain_rng)) = arrival 24"
proof -
  obtain ds g' where d: "directions 24 1000 900000 plain_rng = (ds, g')" by fastforce
  show ?thesis using directions_lead_to_the_end [OF d] d by simp
qed

text \<open>
  C22 What the generator makes up, the client reads back whole: for any body, preset and scenario the
  payload is accepted as a route with exactly the points, heights, tags and directions that were drawn,
  the points on the grid they are written with. Nothing of it is dropped as malformed, so the demo
  exercises everything the reader can read.
\<close>

theorem what_is_made_up_is_read_back:
  assumes "synth_line body preset g = (points, g1)" and "elevations (length points) preset g1 = (es, g2)"
    and "details_for (length points) preset (preset \<in> set (sn_known_bad sn)) g2 = (details, g3)"
    and "directions (length points) (path_length_m points)
           (py_int (path_length_m points / synth_speed body preset * 1000)) g3 = (steps, g4)"
    and "rng_ok g" and "hr_status r = 200" and "hr_body r = BJson (synth_payload body preset sn g)"
  shows "\<exists>rt. post_route pystr self_hosted m service preset (Inr r) = Inr rt
    \<and> rr_points rt = map rounded points \<and> rr_elevations rt = es
    \<and> rr_duration_min rt = of_int (py_int (path_length_m points / synth_speed body preset * 1000)) / 60000
    \<and> (\<forall>k. rr_details rt k = map_option (map read_span) (map_of details k))
    \<and> rr_steps rt = map read_direction steps \<and> rr_synthetic_upstream rt = is_synthetic r"
proof -
  let ?t = "py_int (path_length_m points / synth_speed body preset * 1000)"
  define path where "path = synth_path points es (synth_speed body preset) ?t details steps"
  have pay: "jget ''paths'' (synth_payload body preset sn g) = JList [path] \<and> is_dict (synth_payload body preset sn g)"
    using assms(1-4) by (simp add: synth_payload_def Let_def path_def)
  have long: "24 \<le> length points" using synth_line_long [of body preset g] assms(1) by simp
  have len: "length points = length es" using elevations_length [of "length points" preset g1] assms(2) by simp
  have g3: "rng_ok g3"
    using assms(1-3,5) synth_line_rng [of body preset g] elevations_rng [of "length points" preset g1]
      details_for_rng [of "length points" preset "preset \<in> set (sn_known_bad sn)" g2] by simp
  have steps: "parse_instructions (JList (map direction_json steps)) = map read_direction steps"
  proof (rule directions_read_back)
    obtain legs where "direction_draws (length points) (turn_count (length points)) (path_length_m points) ?t
        [0..<turn_count (length points)] g3 = (legs, g4)" and s: "steps = legs @ [arrival (length points)]"
      using assms(4) long by (auto simp: directions_def split: prod.splits)
    then have "\<forall>d \<in> set legs. plain_direction d" using direction_draws_ok [OF g3] by blast
    moreover have "plain_direction (arrival (length points))"
      by (simp add: plain_direction_def arrival_def strip_def is_space_def)
    ultimately show "\<forall>d \<in> set steps. plain_direction d" by (simp add: s)
  qed
  have dets: "parse_details pystr (JObj (map (\<lambda>(k, spans). (k, JList (map span_json spans))) details)) k
      = map_option (map read_span) (map_of details k)" for k
  proof -
    have ne: "\<forall>(k, spans) \<in> set details. spans \<noteq> []" using details_for_shape [OF assms(3)] long by simp
    have "map_of (map (\<lambda>(k, spans). (k, JList (map span_json spans))) details) k
        = map_option (\<lambda>spans. JList (map span_json spans)) (map_of details k)" by (simp add: map_of_map)
    then show ?thesis using ne map_of_SomeD [of details k]
      by (cases "map_of details k") (auto simp: parse_details_def spans_read_back)
  qed
  have coords: "map (\<lambda>(p, e). JList [JNum (lon (rounded p)), JNum (lat (rounded p)), JNum e]) (zip points es) \<noteq> []"
    using long len by (cases points; cases es) auto
  have ge: "\<not> length (zip points es) < 2" "length points = length es" using long len by simp_all
  note read = coordinates_read_back [OF len]
  have "\<exists>rt. parse_path pystr path m (is_synthetic r) preset = Inr rt
    \<and> rr_points rt = map rounded points \<and> rr_elevations rt = es \<and> rr_duration_min rt = of_int ?t / 60000
    \<and> (\<forall>k. rr_details rt k = map_option (map read_span) (map_of details k))
    \<and> rr_steps rt = map read_direction steps \<and> rr_synthetic_upstream rt = is_synthetic r"
    using read ge coords dets steps
    by (simp add: parse_path_def path_def synth_path_def Let_def jor_def)
  then show ?thesis using pay assms(6,7) by (simp add: post_route_def resp_json_def jor_def Let_def)
qed

definition demo_loop :: scenario where
  "demo_loop = SCENARIOS ! 1"

definition hyde_park :: latlon where
  "hyde_park = LatLon 51.507489 (- 0.162207)"

lemma what_is_made_up_is_read_back_witness:
  "\<exists>rt. post_route (\<lambda>_. '''') False Foot ''graphhopper'' ''quiet''
      (Inr \<lparr>hr_status = 200, hr_headers = [(PROVENANCE_HEADER, PROVENANCE_SYNTHETIC)],
            hr_body = BJson (synth_payload (build_request_body Map.empty hyde_park None 35 Foot ''quiet'' None 1) ''quiet'' demo_loop plain_rng)\<rparr>)
      = Inr rt \<and> 24 \<le> length (rr_points rt) \<and> rr_synthetic_upstream rt"
proof -
  let ?body = "build_request_body Map.empty hyde_park None 35 Foot ''quiet'' None 1"
  let ?r = "\<lparr>hr_status = 200, hr_headers = [(PROVENANCE_HEADER, PROVENANCE_SYNTHETIC)],
            hr_body = BJson (synth_payload ?body ''quiet'' demo_loop plain_rng)\<rparr>"
  obtain points g1 where a: "synth_line ?body ''quiet'' plain_rng = (points, g1)" by fastforce
  obtain es g2 where b: "elevations (length points) ''quiet'' g1 = (es, g2)" by fastforce
  obtain details g3 where c: "details_for (length points) ''quiet'' (''quiet'' \<in> set (sn_known_bad demo_loop)) g2 = (details, g3)" by fastforce
  obtain steps g4 where d: "directions (length points) (path_length_m points)
           (py_int (path_length_m points / synth_speed ?body ''quiet'' * 1000)) g3 = (steps, g4)" by fastforce
  have "24 \<le> length points" using synth_line_long [of ?body "''quiet''" plain_rng] a by simp
  then show ?thesis
    using what_is_made_up_is_read_back [OF a b c d plain_rng_ok, of ?r "\<lambda>_. ''''" False Foot "''graphhopper''"]
    by (auto simp: is_synthetic_def provenance_of_def)
qed

section \<open>Writing the fixtures\<close>

text \<open>The router the generator is pinned to, and one of its requests. A fixture is written whatever the mode.\<close>

definition HOSTED_URL :: url where
  "HOSTED_URL = \<lparr>u_scheme = ''https'', u_netloc = ''graphhopper.com'', u_hostname = Some ''graphhopper.com'', u_path = ''/api/1/route''\<rparr>"

definition gh_request :: "json \<Rightarrow> http_request" where
  "gh_request body = \<lparr>fq_method = ''POST'', fq_url = HOSTED_URL, fq_params = None, fq_json = body, fq_data = None, fq_content = None,
     fq_headers = Some [(''Content-Type'', ''application/json'')], fq_cost = 0, fq_service = Some ''graphhopper'', fq_persist = Some True\<rparr>"

definition gh_key :: "fetch_env \<Rightarrow> json \<Rightarrow> string \<times> string" where
  "gh_key e body = (''graphhopper'', signature (fe_hash e) (gh_request body))"

definition json_answer_of :: "int \<Rightarrow> json \<Rightarrow> http_response" where
  "json_answer_of status j = \<lparr>hr_status = status, hr_headers = [(''content-type'', ''application/json'')], hr_body = BJson j\<rparr>"

text \<open>The first four bytes of the digest (a parameter) of the scenario and the preset, big end first.\<close>

definition seed_for :: "(string \<Rightarrow> nat list) \<Rightarrow> scenario \<Rightarrow> string \<Rightarrow> nat" where
  "seed_for digest sn preset = foldl (\<lambda>n b. n * 256 + b) 0 (take 4 (digest (sn_slug sn @ ''/'' @ preset)))"

text \<open>\<open>fx.current_mode = lambda: "live"\<close> and \<open>recording_as(PROVENANCE_SYNTHETIC)\<close>.\<close>

definition generating :: "fetch_env \<Rightarrow> fetch_env" where
  "generating e = e\<lparr>fe_mode := Live, fe_record_provenance := PROVENANCE_SYNTHETIC\<rparr>"

record generator =
  gn_env :: environ
  gn_fetch :: fetch_env
  gn_digest :: "string \<Rightarrow> nat list"
  gn_rng :: "nat \<Rightarrow> rng"
  gn_sizes :: "json \<Rightarrow> nat list"
  gn_scale_text :: "real \<Rightarrow> string"
  gn_force :: bool
  gn_origin :: latlon
  gn_destination :: "latlon option"

definition scenario_body :: "generator \<Rightarrow> scenario \<Rightarrow> string \<Rightarrow> real \<Rightarrow> json" where
  "scenario_body gn sn preset scale =
     build_request_body (gn_env gn) (gn_origin gn) (gn_destination gn) (sn_minutes sn) (sn_mode sn) preset None scale"

text \<open>The presets that have no route are written by hand, as the error the router would give.\<close>

fun write_unroutable :: "generator \<Rightarrow> scenario \<Rightarrow> string list \<Rightarrow> fetch_state \<Rightarrow> fetch_state \<times> string list" where
  "write_unroutable gn sn [] s = (s, [])"
| "write_unroutable gn sn (preset # ps) s =
     (let body = scenario_body gn sn preset 1; key = gh_key (gn_fetch gn) body
      in if fs_fixtures s key \<noteq> None \<and> \<not> gn_force gn then write_unroutable gn sn ps s
         else let en = fixture_envelope (gh_request body) (json_answer_of 400 unroutable_payload) PROVENANCE_SYNTHETIC;
                  (s', written) = write_unroutable gn sn ps (s\<lparr>fs_fixtures := (fs_fixtures s)(key \<mapsto> Some en)\<rparr>)
              in (s', (sn_slug sn @ ''/'' @ preset @ '' (unroutable)'') # written))"

definition generator_tasks :: "generator \<Rightarrow> scenario \<Rightarrow> (string \<times> real) list" where
  "generator_tasks gn sn =
     concat (map (\<lambda>preset. map (Pair preset) (loop_scales_for preset (gn_destination gn)))
       (filter (\<lambda>preset. preset \<notin> set (sn_unroutable sn)) SYNTHETIC_PRESETS))"

text \<open>One request after the other, answered by the mock transport; an error of \<open>fetch\<close> ends the run.\<close>

definition answered_task :: "generator \<Rightarrow> scenario \<Rightarrow> string \<Rightarrow> json \<Rightarrow> fetch_state \<Rightarrow> fetch_result" where
  "answered_task gn sn preset body s =
     (let payload = synth_payload body preset sn (gn_rng gn (seed_for (gn_digest gn) sn preset))
      in fetch (generating (gn_fetch gn)) (gh_request body) 0 (Answers (json_answer_of 200 payload) (gn_sizes gn payload)) s)"

definition task_label :: "generator \<Rightarrow> scenario \<Rightarrow> string \<Rightarrow> real \<Rightarrow> string" where
  "task_label gn sn preset scale = sn_slug sn @ ''/'' @ preset @ (if scale = 1 then '''' else '' x'' @ gn_scale_text gn scale)"

fun write_tasks :: "generator \<Rightarrow> scenario \<Rightarrow> (string \<times> real) list \<Rightarrow> fetch_state
    \<Rightarrow> fetch_state \<times> (fetch_error, string list) result" where
  "write_tasks gn sn [] s = (s, Inr [])"
| "write_tasks gn sn ((preset, scale) # ts) s =
     (let body = scenario_body gn sn preset scale
      in if fs_fixtures s (gh_key (gn_fetch gn) body) \<noteq> None \<and> \<not> gn_force gn then write_tasks gn sn ts s
         else let f = answered_task gn sn preset body s
              in case fr_result f of
                   Inl x \<Rightarrow> (fr_state f, Inl x)
                 | Inr r \<Rightarrow>
                     (case write_tasks gn sn ts (fr_state f) of
                        (s', Inl x) \<Rightarrow> (s', Inl x)
                      | (s', Inr written) \<Rightarrow> (s', Inr (task_label gn sn preset scale # written))))"

definition generate :: "generator \<Rightarrow> scenario \<Rightarrow> fetch_state \<Rightarrow> fetch_state \<times> (fetch_error, string list) result" where
  "generate gn sn s =
     (let (s1, written) = write_unroutable gn sn (sn_unroutable sn) s
      in case write_tasks gn sn (generator_tasks gn sn) s1 of
           (s2, Inl x) \<Rightarrow> (s2, Inl x)
         | (s2, Inr drawn) \<Rightarrow> (s2, Inr (written @ drawn)))"

definition generator_for :: "generator \<Rightarrow> scenario \<Rightarrow> generator" where
  "generator_for gn sn = gn\<lparr>gn_origin := the (location_point (sn_origin sn)),
     gn_destination := map_option (\<lambda>d. the (location_point d)) (sn_destination sn)\<rparr>"

fun generate_all :: "generator \<Rightarrow> scenario list \<Rightarrow> fetch_state \<Rightarrow> fetch_state \<times> (fetch_error, string list) result" where
  "generate_all gn [] s = (s, Inr [])"
| "generate_all gn (sn # sns) s =
     (case generate (generator_for gn sn) sn s of
        (s1, Inl x) \<Rightarrow> (s1, Inl x)
      | (s1, Inr written) \<Rightarrow>
          (case generate_all gn sns s1 of (s2, Inl x) \<Rightarrow> (s2, Inl x) | (s2, Inr rest) \<Rightarrow> (s2, Inr (written @ rest))))"

text \<open>
  The environment as the script leaves it: three variables pinned, then \<open>load_dotenv\<close> on import, which
  only adds what is not set.
\<close>

definition pinned :: "environ \<Rightarrow> environ \<Rightarrow> environ" where
  "pinned dotenv env =
     (let env1 = env(''MEANDER_GRAPHHOPPER_URL'' \<mapsto> ''https://graphhopper.com/api/1/route'',
                     ''MEANDER_GRAPHHOPPER_SELF_HOSTED'' \<mapsto> ''0'', ''MEANDER_PATH_DETAILS'' := None)
      in dotenv ++ env1)"

section \<open>What can be relied on\<close>

text \<open>A fixture is as it was, or it says it is made up.\<close>

definition only_synthetic :: "fetch_state \<Rightarrow> fetch_state \<Rightarrow> bool" where
  "only_synthetic s s' \<longleftrightarrow> (\<forall>k. fs_fixtures s' k = fs_fixtures s k \<or> fs_fixtures s' k = None
     \<or> (\<exists>en. fs_fixtures s' k = Some (Some en) \<and> en_provenance en = JStr PROVENANCE_SYNTHETIC))"

lemma only_synthetic_refl [simp]: "only_synthetic s s"
  by (simp add: only_synthetic_def)

lemma only_synthetic_trans: "only_synthetic s s1 \<Longrightarrow> only_synthetic s1 s2 \<Longrightarrow> only_synthetic s s2"
  unfolding only_synthetic_def by metis

lemma write_unroutable_synthetic: "only_synthetic s (fst (write_unroutable gn sn ps s))"
proof (induction gn sn ps s rule: write_unroutable.induct)
  case (2 gn sn preset ps s)
  let ?body = "scenario_body gn sn preset 1"
  let ?en = "fixture_envelope (gh_request ?body) (json_answer_of 400 unroutable_payload) PROVENANCE_SYNTHETIC"
  let ?s = "s\<lparr>fs_fixtures := (fs_fixtures s)(gh_key (gn_fetch gn) ?body \<mapsto> Some ?en)\<rparr>"
  have step: "only_synthetic s ?s" by (simp add: only_synthetic_def fixture_envelope_def)
  show ?case
  proof (cases "fs_fixtures s (gh_key (gn_fetch gn) ?body) \<noteq> None \<and> \<not> gn_force gn")
    case True
    then show ?thesis using 2(1) [OF refl refl True] by (simp add: Let_def)
  next
    case False
    then show ?thesis using only_synthetic_trans [OF step 2(2) [OF refl refl False refl]] by (auto simp: Let_def split: prod.splits)
  qed
qed simp

lemma generating_fetch_synthetic: "only_synthetic s (fr_state (fetch (generating e) q utc up s))"
  by (auto simp: only_synthetic_def fetch_def generating_def after_answer_def Let_def budget_applies_def fixture_envelope_def
      split: upstream.splits)

lemma write_tasks_synthetic: "only_synthetic s (fst (write_tasks gn sn ts s))"
proof (induction ts arbitrary: s)
  case (Cons t ts)
  obtain preset scale where t: "t = (preset, scale)" by fastforce
  let ?f = "answered_task gn sn preset (scenario_body gn sn preset scale) s"
  have f: "only_synthetic s (fr_state ?f)" unfolding answered_task_def Let_def by (rule generating_fetch_synthetic)
  show ?case
    using Cons [of s] only_synthetic_trans [OF f Cons [of "fr_state ?f"]] f
    by (auto simp: t Let_def split: sum.splits prod.splits)
qed simp

lemma generate_synthetic: "only_synthetic s (fst (generate gn sn s))"
proof -
  obtain s1 w where u: "write_unroutable gn sn (sn_unroutable sn) s = (s1, w)" by fastforce
  obtain s2 r where t: "write_tasks gn sn (generator_tasks gn sn) s1 = (s2, r)" by fastforce
  have "only_synthetic s s2"
    using only_synthetic_trans write_unroutable_synthetic [of s gn sn "sn_unroutable sn"]
      write_tasks_synthetic [of s1 gn sn "generator_tasks gn sn"] u t by (metis fst_conv)
  then show ?thesis by (cases r) (simp_all add: generate_def u t)
qed

lemma generate_all_synthetic: "only_synthetic s (fst (generate_all gn sns s))"
proof (induction sns arbitrary: s)
  case (Cons sn sns)
  obtain s1 r where g: "generate (generator_for gn sn) sn s = (s1, r)" by fastforce
  have "only_synthetic s s1" using generate_synthetic [of s "generator_for gn sn" sn] g by simp
  then show ?case using only_synthetic_trans Cons [of s1] by (cases r) (auto simp: g split: prod.splits sum.splits)
qed simp

text \<open>
  C34 Nothing made up can be taken for a measurement. Whatever a run of the generator does, every fixture it
  leaves different from before reads as synthetic, and a route the client makes of one is marked so,
  which forces its card to call its scores a placeholder.
\<close>

theorem generated_routes_say_what_they_are:
  assumes "generate_all gn sns s = (s', res)" and "fs_fixtures s' (service, sig) \<noteq> fs_fixtures s (service, sig)"
    and "read_fixture pystr (fs_fixtures s') service sig = Some r"
  shows "is_synthetic r
    \<and> (post_route pystr' self_hosted m svc preset (Inr r) = Inr rt \<longrightarrow>
         rr_synthetic_upstream rt \<and> scoring_method (rr_synthetic_upstream rt) a = ''placeholder'')"
proof -
  obtain en where en: "fs_fixtures s' (service, sig) = Some (Some en)"
    using assms(3) by (auto simp: read_fixture_def split: option.splits)
  have "en_provenance en = JStr PROVENANCE_SYNTHETIC"
  proof -
    have "only_synthetic s s'" using generate_all_synthetic [of s gn sns] assms(1) by simp
    then show ?thesis using en assms(2) unfolding only_synthetic_def by (metis option.inject option.distinct(1))
  qed
  then have "envelope_provenance pystr en = PROVENANCE_SYNTHETIC" by (simp add: envelope_provenance_def PROVENANCE_SYNTHETIC_def)
  then have syn: "is_synthetic r" using read_written [of "fs_fixtures s'" service sig en pystr, OF en] assms(3) by (auto simp: is_synthetic_def)
  moreover have "rr_synthetic_upstream rt" if "post_route pystr' self_hosted m svc preset (Inr r) = Inr rt"
    using that syn parse_path_ok [of pystr' _ m "is_synthetic r" preset rt]
    by (auto simp: post_route_def Let_def split: option.splits if_splits)
  ultimately show ?thesis by (simp add: scoring_method_def)
qed

lemma answered_task_keeps:
  assumes "fr_result (answered_task gn sn preset body s) = Inr r"
  shows "fs_fixtures (fr_state (answered_task gn sn preset body s)) (gh_key (gn_fetch gn) body) \<noteq> None
    \<and> (fs_fixtures s k \<noteq> None \<longrightarrow> fs_fixtures (fr_state (answered_task gn sn preset body s)) k \<noteq> None)"
  using assms
  by (auto simp: answered_task_def Let_def fetch_def generating_def budget_applies_def after_answer_def gh_request_def service_of_def
      gh_key_def passthrough_def json_answer_of_def signature_def signature_payload_def split: if_splits)

lemma write_tasks_complete:
  assumes "write_tasks gn sn ts s = (s', Inr written)"
  shows "(fs_fixtures s k \<noteq> None \<longrightarrow> fs_fixtures s' k \<noteq> None)
    \<and> (\<forall>(preset, scale) \<in> set ts. fs_fixtures s' (gh_key (gn_fetch gn) (scenario_body gn sn preset scale)) \<noteq> None)"
  using assms
proof (induction ts arbitrary: s written k)
  case (Cons t ts)
  obtain preset scale where t: "t = (preset, scale)" by fastforce
  let ?body = "scenario_body gn sn preset scale" let ?key = "gh_key (gn_fetch gn) ?body"
  let ?f = "answered_task gn sn preset ?body s"
  show ?case
  proof (cases "fs_fixtures s ?key \<noteq> None \<and> \<not> gn_force gn")
    case True
    then have "write_tasks gn sn ts s = (s', Inr written)" using Cons(2) by (simp add: t Let_def)
    then show ?thesis using Cons(1) [of s written k] Cons(1) [of s written ?key] True by (simp add: t)
  next
    case False
    then obtain r w where r: "fr_result ?f = Inr r" and w: "write_tasks gn sn ts (fr_state ?f) = (s', Inr w)"
      using Cons(2) by (auto simp: t Let_def split: if_splits sum.splits prod.splits)
    show ?thesis
      using Cons(1) [OF w, of k] Cons(1) [OF w, of ?key] answered_task_keeps [OF r] by (auto simp: t)
  qed
qed simp

lemma generate_complete:
  assumes "generate gn sn s = (s', Inr written)" and "(preset, scale) \<in> set (generator_tasks gn sn)"
  shows "fs_fixtures s' (gh_key (gn_fetch gn) (scenario_body gn sn preset scale)) \<noteq> None"
proof -
  obtain s1 drawn where "write_tasks gn sn (generator_tasks gn sn) s1 = (s', Inr drawn)"
    using assms(1) by (auto simp: generate_def split: prod.splits sum.splits)
  from write_tasks_complete [OF this, THEN conjunct2] show ?thesis using assms(2) by fastforce
qed

lemma loop_scales_cover:
  assumes "preset \<in> {''quiet'', ''air'', ''shade''}"
    and "\<forall>x \<in> set (loop_scales_for preset d). post (build_request_body env p d n m preset None x) = post' (build_request_body env p d n m preset None x)"
  shows "route_preference env post preset p d n m = route_preference env post' preset p d n m"
proof (cases d)
  case None
  have scales: "loop_scales_for preset None = PREFERENCE_LOOP_SCALES" using assms(1) by (auto simp: loop_scales_for_def PREFERENCE_LOOP_PRESETS_def)
  have "map (\<lambda>x. post (build_request_body env p None n m preset None x)) xs = map (\<lambda>x. post' (build_request_body env p None n m preset None x)) xs"
    if "set xs \<subseteq> set PREFERENCE_LOOP_SCALES" for xs
    using that assms(2) by (auto simp: None scales)
  from this [OF subset_refl] this [OF set_take_subset, of 2]
  show ?thesis unfolding route_preference_def None option.case Let_def by (cases "graphhopper_is_self_hosted env") (simp_all only: if_True if_False)
next
  case (Some q)
  then show ?thesis using assms(2) by (simp add: route_preference_def loop_scales_for_def)
qed

text \<open>
  The demo never goes dark half-way through a preference search: after a run that went through there is
  a fixture for the body of every rung of every preset that can be routed, and a preference preset asks
  the router for no other body, so its answer is settled by them.
\<close>

theorem every_rung_has_a_fixture:
  assumes "generate gn sn s = (s', Inr written)" and "preset \<in> set SYNTHETIC_PRESETS" and "preset \<notin> set (sn_unroutable sn)"
  shows "(\<forall>scale \<in> set (loop_scales_for preset (gn_destination gn)).
        fs_fixtures s' (gh_key (gn_fetch gn) (scenario_body gn sn preset scale)) \<noteq> None)
    \<and> (preset \<in> {''quiet'', ''air'', ''shade''} \<and>
       (\<forall>scale \<in> set (loop_scales_for preset (gn_destination gn)).
           post (scenario_body gn sn preset scale) = post' (scenario_body gn sn preset scale)) \<longrightarrow>
       route_preference (gn_env gn) post preset (gn_origin gn) (gn_destination gn) (sn_minutes sn) (sn_mode sn)
       = route_preference (gn_env gn) post' preset (gn_origin gn) (gn_destination gn) (sn_minutes sn) (sn_mode sn))"
proof -
  note there = generate_complete [OF assms(1)]
  have "(preset, scale) \<in> set (generator_tasks gn sn)" if "scale \<in> set (loop_scales_for preset (gn_destination gn))" for scale
    using that assms(2,3) by (auto simp: generator_tasks_def)
  then show ?thesis using there loop_scales_cover by (fastforce simp: scenario_body_def)
qed

definition demo_generator :: generator where
  "demo_generator = \<lparr>gn_env = pinned Map.empty Map.empty, gn_fetch = recorder Live, gn_digest = (\<lambda>text. [0, 0, 0, 0]), gn_rng = (\<lambda>seed. plain_rng),
     gn_sizes = (\<lambda>j. [1]), gn_scale_text = (\<lambda>x. ''''), gn_force = True, gn_origin = hyde_park, gn_destination = None\<rparr>"

lemma demo_generation: "\<exists>s' written. generate demo_generator demo_loop blank_state = (s', Inr written)"
proof -
  have one: "\<exists>r. fr_result (answered_task demo_generator sn preset body s) = Inr r" for sn preset body s
    by (simp add: answered_task_def Let_def fetch_def generating_def budget_applies_def after_answer_def gh_request_def
        demo_generator_def recorder_def MAX_RESPONSE_BYTES_def leaks_secret_def passthrough_def json_answer_of_def contains_def)
  have tasks: "\<exists>s' w. write_tasks demo_generator sn ts s = (s', Inr w)" for sn ts s
  proof (induction ts arbitrary: s)
    case (Cons t ts)
    obtain preset scale where t: "t = (preset, scale)" by fastforce
    obtain r where r: "fr_result (answered_task demo_generator sn preset (scenario_body demo_generator sn preset scale) s) = Inr r"
      using one by blast
    obtain s1 w1 s2 w2 where "write_tasks demo_generator sn ts s = (s1, Inr w1)"
        "write_tasks demo_generator sn ts (fr_state (answered_task demo_generator sn preset (scenario_body demo_generator sn preset scale) s)) = (s2, Inr w2)"
      using Cons by meson
    then show ?case using r by (simp add: t Let_def)
  qed simp
  obtain s' w where w: "write_tasks demo_generator demo_loop (generator_tasks demo_generator demo_loop) blank_state = (s', Inr w)"
    using tasks by blast
  have "sn_unroutable demo_loop = []" by (simp add: demo_loop_def SCENARIOS_def)
  then have "generate demo_generator demo_loop blank_state = (s', Inr w)" by (simp add: generate_def w)
  then show ?thesis by blast
qed

lemma every_rung_has_a_fixture_witness:
  "\<exists>s' written. generate demo_generator demo_loop blank_state = (s', Inr written)
    \<and> (\<forall>scale \<in> {1, 0.7, 0.45}. fs_fixtures s' (gh_key (recorder Live) (scenario_body demo_generator demo_loop ''quiet'' scale)) \<noteq> None)"
proof -
  obtain s' written where run: "generate demo_generator demo_loop blank_state = (s', Inr written)" using demo_generation by blast
  have "loop_scales_for ''quiet'' None = [1, 0.7, 0.45]"
    by (simp add: loop_scales_for_def PREFERENCE_LOOP_PRESETS_def PREFERENCE_LOOP_SCALES_def)
  then show ?thesis
    using every_rung_has_a_fixture [OF run, of "''quiet''"] run
    by (simp add: SYNTHETIC_PRESETS_def demo_loop_def SCENARIOS_def demo_generator_def)
qed


lemma generated_routes_say_what_they_are_witness:
  "\<exists>s' res r. generate_all demo_generator [demo_loop] blank_state = (s', res)
     \<and> read_fixture (\<lambda>_. '''') (fs_fixtures s') ''graphhopper'' ''sig'' = Some r \<and> is_synthetic r"
proof -
  have gen: "generator_for demo_generator demo_loop = demo_generator"
    by (simp add: generator_for_def demo_generator_def demo_loop_def SCENARIOS_def location_point_def TEST_LOCATIONS_def hyde_park_def)
  obtain s' written where run: "generate demo_generator demo_loop blank_state = (s', Inr written)" using demo_generation by blast
  then have all: "generate_all demo_generator [demo_loop] blank_state = (s', Inr written)" by (simp add: gen)
  have "gh_key (gn_fetch demo_generator) body = (''graphhopper'', ''sig'')" for body
    by (simp add: gh_key_def demo_generator_def recorder_def signature_def)
  moreover have "(''fastest'', 1) \<in> set (generator_tasks demo_generator demo_loop)"
    by (simp add: generator_tasks_def SYNTHETIC_PRESETS_def demo_loop_def SCENARIOS_def loop_scales_for_def PREFERENCE_LOOP_PRESETS_def)
  ultimately have there: "fs_fixtures s' (''graphhopper'', ''sig'') \<noteq> None" using generate_complete [OF run] by metis
  obtain en where en: "fs_fixtures s' (''graphhopper'', ''sig'') = Some (Some en)"
  proof -
    have blank: "fs_fixtures blank_state (''graphhopper'', ''sig'') = None" by (simp add: blank_state_def)
    have "only_synthetic blank_state s'" using generate_all_synthetic [of blank_state demo_generator "[demo_loop]"] all by simp
    then have "\<exists>en. fs_fixtures s' (''graphhopper'', ''sig'') = Some (Some en)"
      unfolding only_synthetic_def using there blank by metis
    then show ?thesis using that by blast
  qed
  then obtain r where r: "read_fixture (\<lambda>_. '''') (fs_fixtures s') ''graphhopper'' ''sig'' = Some r" using read_written by blast
  then show ?thesis using generated_routes_say_what_they_are [OF all _ r] en all by (auto simp: blank_state_def)
qed

text \<open>
  The corpus is keyed the same on every machine: whatever the variables the script finds, the bodies it
  asks for are those of an environment with nothing set, as long as the developer's .env names no path
  details.
\<close>

lemma pinned_hosted: "\<not> graphhopper_is_self_hosted (pinned dotenv env)"
  by (simp add: pinned_def graphhopper_is_self_hosted_def stripped_def SELF_HOSTED_ENV_def says_yes_def py_defs)

lemma pinned_details: "path_details (pinned dotenv env)
    = (case dotenv ''MEANDER_PATH_DETAILS'' of None \<Rightarrow> path_details Map.empty | Some raw \<Rightarrow> if raw = [] then path_details Map.empty else comma_list raw)"
proof -
  have "pinned dotenv env ''MEANDER_PATH_DETAILS'' = dotenv ''MEANDER_PATH_DETAILS''" by (simp add: pinned_def map_add_def)
  then show ?thesis
    using pinned_hosted [of dotenv env] empty_env_not_self_hosted by (simp add: path_details_def split: option.splits)
qed

lemma body_details: "jget ''details'' (build_request_body env p d n m preset i x) = JList (map JStr (path_details env))"
  by (simp add: build_request_body_def base_body_def Let_def split: option.splits)

theorem corpus_ignores_the_environment:
  assumes "dotenv ''MEANDER_PATH_DETAILS'' = None"
  shows "build_request_body (pinned dotenv env) p d n m preset i x = build_request_body Map.empty p d n m preset i x"
  using pinned_details [of dotenv env] assms pinned_hosted empty_env_not_self_hosted
  by (simp add: build_request_body_def base_body_def preset_model_def)

lemma corpus_ignores_the_environment_witness:
  "build_request_body (pinned [''MEANDER_GRAPHHOPPER_SELF_HOSTED'' \<mapsto> ''1''] [''MEANDER_PATH_DETAILS'' \<mapsto> ''surface'']) hyde_park None 35 Foot ''quiet'' None 1
   = build_request_body Map.empty hyde_park None 35 Foot ''quiet'' None 1"
  by (rule corpus_ignores_the_environment) simp

text \<open>
  With path details in the .env file it is not: the script unsets the variable before the import that
  loads the file, and the import sets it again.
\<close>

theorem dotenv_details_reach_the_corpus:
  "build_request_body (pinned [''MEANDER_PATH_DETAILS'' \<mapsto> ''surface''] Map.empty) hyde_park None 35 Foot ''quiet'' None 1
   \<noteq> build_request_body Map.empty hyde_park None 35 Foot ''quiet'' None 1"
proof -
  have "path_details (pinned [''MEANDER_PATH_DETAILS'' \<mapsto> ''surface''] Map.empty) = [''surface'']"
    unfolding pinned_details by (simp add: comma_list_def py_defs)
  moreover have "path_details Map.empty = DEFAULT_PATH_DETAILS"
    using empty_env_not_self_hosted by (simp add: path_details_def)
  ultimately show ?thesis
    using body_details [of "pinned [''MEANDER_PATH_DETAILS'' \<mapsto> ''surface''] Map.empty" hyde_park None 35 Foot "''quiet''" None 1]
      body_details [of Map.empty hyde_park None 35 Foot "''quiet''" None 1] by (auto simp: DEFAULT_PATH_DETAILS_def)
qed

text \<open>
  The scenic search has a second rung on a loop, and the generator has no fixture for it: the body is
  none of those it writes.
\<close>

theorem second_scenic_rung_has_no_fixture:
  "(20, 0.8) \<in> set (scenic_candidates False True)
 \<and> build_request_body (gn_env demo_generator) hyde_park None 35 Foot ''scenic'' (Some 20) 0.8
   \<notin> (\<lambda>(preset, scale). scenario_body demo_generator demo_loop preset scale) ` set (generator_tasks demo_generator demo_loop)"
proof -
  have asked: "jget ''round_trip.distance'' (build_request_body (gn_env demo_generator) hyde_park None 35 Foot ''scenic'' (Some 20) 0.8) = JNum 2100"
    unfolding loop_distance using round_half_even_of_int [of 2100] by (simp add: LOOP_SPEED_M_PER_MIN_def)
  have written: "jget ''round_trip.distance'' (scenario_body demo_generator demo_loop preset scale) \<noteq> JNum 2100" if "scale \<in> {1, 0.7, 0.45}" for preset scale
  proof -
    have b: "real_of_int (round_half_even x) \<noteq> 2100" if "x < 2099 \<or> 2101 < x" for x
      using round_half_even_bounds [of x] that by auto
    have "scenario_body demo_generator demo_loop preset scale
        = build_request_body (gn_env demo_generator) hyde_park None 35 Foot preset None scale"
      by (simp add: scenario_body_def demo_generator_def demo_loop_def SCENARIOS_def)
    then show ?thesis unfolding loop_distance using that b [of "75 * 35 * scale"] by (auto simp: loop_distance LOOP_SPEED_M_PER_MIN_def)
  qed
  have "scale \<in> {1, 0.7, 0.45}" if "(preset, scale) \<in> set (generator_tasks demo_generator demo_loop)" for preset scale
    using that by (auto simp: generator_tasks_def loop_scales_for_def PREFERENCE_LOOP_SCALES_def split: if_splits)
  then show ?thesis using asked written
    by (fastforce simp: scenic_candidates_def SCENIC_LOOP_CANDIDATES_def)
qed

end
