(* ===== verification/Recorder.thy ===== *)
theory Recorder
  imports Synthetic
begin

text \<open>
  The two tools that write real fixtures: backend/record_fixtures.py, which asks the upstreams the
  questions of the scenarios, and scripts/migrate_fixtures.py, which moves the fixtures of GraphHopper
  to their new keys after the request body has changed. What a preset does when it is run (its requests,
  what they leave on disk, its route) is an argument of the recorder, and so is what the router answers
  to a re-issued request.
\<close>

section \<open>What a scenario costs\<close>

text \<open>The bodies a preset may ask the router for: its candidates, and whether they are metered decides how many.\<close>

definition preset_bodies :: "environ \<Rightarrow> latlon \<Rightarrow> latlon option \<Rightarrow> int \<Rightarrow> mode \<Rightarrow> string \<Rightarrow> json list" where
  "preset_bodies env p d n m preset =
     (if preset = ''scenic''
      then map (\<lambda>(i, x). build_request_body env p d n m ''scenic'' (Some i) x) (scenic_candidates (graphhopper_is_self_hosted env) (d = None))
      else if preset \<in> PREFERENCE_LOOP_PRESETS \<and> d = None
      then map (build_request_body env p d n m preset None)
             (if graphhopper_is_self_hosted env then PREFERENCE_LOOP_SCALES else take 2 PREFERENCE_LOOP_SCALES)
      else [build_request_body env p d n m preset None 1])"

definition worst_case :: "scenario list \<Rightarrow> int" where
  "worst_case scenarios = int (length scenarios) * 14 * GRAPHHOPPER_CREDIT_COST"

section \<open>Recording\<close>

type_synonym runner = "string \<Rightarrow> scenario \<Rightarrow> raw_route option \<Rightarrow> fetch_state \<Rightarrow> fetch_state \<times> (routing_error, raw_route) result"

text \<open>The key of a body at the configured router, and the deletion \<open>--force\<close> begins with.\<close>

definition body_key :: "fetch_env \<Rightarrow> url \<Rightarrow> json \<Rightarrow> string \<times> string" where
  "body_key e u body = (''graphhopper'', signature (fe_hash e) ((gh_request body)\<lparr>fq_url := u\<rparr>))"

definition signature_for :: "fetch_env \<Rightarrow> url \<Rightarrow> environ \<Rightarrow> latlon \<Rightarrow> latlon option \<Rightarrow> scenario \<Rightarrow> string \<Rightarrow> string \<times> string" where
  "signature_for e u env p d sn preset = body_key e u (build_request_body env p d (sn_minutes sn) (sn_mode sn) preset None 1)"

definition forget :: "string \<times> string \<Rightarrow> fetch_state \<Rightarrow> fetch_state" where
  "forget key s = s\<lparr>fs_fixtures := (fs_fixtures s)(key := None)\<rparr>"

text \<open>The presets of a scenario in turn; one that fails costs its own recording and no other.\<close>

fun record_presets :: "(scenario \<Rightarrow> string \<Rightarrow> string \<times> string) \<Rightarrow> runner \<Rightarrow> bool \<Rightarrow> scenario \<Rightarrow> string list \<Rightarrow> raw_route option
    \<Rightarrow> fetch_state \<Rightarrow> fetch_state \<times> nat" where
  "record_presets key run force sn [] fastest s = (s, 0)"
| "record_presets key run force sn (name # names) fastest s =
     (let s1 = (if force then forget (key sn name) s else s)
      in case run name sn (if name = ''scenic'' then fastest else None) s1 of
           (s2, Inl e) \<Rightarrow> record_presets key run force sn names fastest s2
         | (s2, Inr route) \<Rightarrow>
             (let (s3, n) = record_presets key run force sn names (if name = ''fastest'' then Some route else fastest) s2
              in (s3, Suc n)))"

fun record_graphhopper :: "(scenario \<Rightarrow> string \<Rightarrow> string \<times> string) \<Rightarrow> runner \<Rightarrow> bool \<Rightarrow> scenario list \<Rightarrow> fetch_state \<Rightarrow> fetch_state \<times> nat" where
  "record_graphhopper key run force [] s = (s, 0)"
| "record_graphhopper key run force (sn # sns) s =
     (let (s1, n) = record_presets key run force sn SYNTHETIC_PRESETS None s;
          (s2, k) = record_graphhopper key run force sns s1
      in (s2, n + k))"

text \<open>Place names and enrichment: one question each, the ones that fail are passed over.\<close>

fun record_each :: "('q \<Rightarrow> fetch_state \<Rightarrow> fetch_state \<times> bool) \<Rightarrow> 'q list \<Rightarrow> fetch_state \<Rightarrow> fetch_state \<times> nat" where
  "record_each ask [] s = (s, 0)"
| "record_each ask (q # qs) s =
     (let (s1, ok) = ask q s; (s2, n) = record_each ask qs s1 in (s2, if ok then Suc n else n))"

definition record_nominatim :: "(string \<Rightarrow> fetch_state \<Rightarrow> fetch_state \<times> bool) \<Rightarrow> fetch_state \<Rightarrow> fetch_state \<times> nat" where
  "record_nominatim search = record_each search (map tl_name TEST_LOCATIONS)"

definition record_enrichment :: "(scenario \<Rightarrow> fetch_state \<Rightarrow> fetch_state \<times> bool) \<Rightarrow> fetch_state \<Rightarrow> fetch_state \<times> nat" where
  "record_enrichment drain = record_each drain SCENARIOS"

text \<open>The exit status, the state and how many requests were recorded.\<close>

definition record_main :: "settings \<Rightarrow> string list \<Rightarrow> (fetch_state \<Rightarrow> fetch_state \<times> nat) \<Rightarrow> (fetch_state \<Rightarrow> fetch_state \<times> nat)
    \<Rightarrow> (fetch_state \<Rightarrow> fetch_state \<times> nat) \<Rightarrow> fetch_state \<Rightarrow> int \<times> fetch_state \<times> nat" where
  "record_main st services0 graphhopper nominatim enrichment s =
     (if st_fixture_mode st \<noteq> Record then (2, s, 0)
      else let services = (if ''graphhopper'' \<in> set services0 \<and> no_key (st_graphhopper_key st)
                           then filter (\<lambda>x. x \<noteq> ''graphhopper'') services0 else services0);
               (s1, a) = (if ''graphhopper'' \<in> set services then graphhopper s else (s, 0));
               (s2, b) = (if ''nominatim'' \<in> set services then nominatim s1 else (s1, 0));
               (s3, c) = (if ''enrichment'' \<in> set services then enrichment s2 else (s2, 0))
           in (0, s3, a + b + c))"

section \<open>Migrating\<close>

text \<open>\<open>key=raw\<close>; what is neither a keyword nor JSON is the string itself. \<open>decode\<close> is \<open>json.loads\<close>.\<close>

definition patch_value :: "(string \<Rightarrow> json option) \<Rightarrow> string \<Rightarrow> json" where
  "patch_value decode raw =
     (if raw = ''true'' then JBool True else if raw = ''false'' then JBool False else if raw = ''null'' then JNull
      else case decode raw of Some j \<Rightarrow> j | None \<Rightarrow> JStr raw)"

definition parse_patch :: "(string \<Rightarrow> json option) \<Rightarrow> string list \<Rightarrow> (string \<times> json) list" where
  "parse_patch decode items =
     foldl (\<lambda>patch item. AList.update (takeWhile (\<lambda>c. c \<noteq> CHR ''='') item)
         (patch_value decode (drop 1 (dropWhile (\<lambda>c. c \<noteq> CHR ''='') item))) patch) [] items"

text \<open>\<open>{**body, **patch}\<close>.\<close>

definition patched :: "(string \<times> json) list \<Rightarrow> json \<Rightarrow> json" where
  "patched patch body = foldl (\<lambda>b (k, v). jput k v b) body patch"

record migration_run =
  mg_files :: "string \<rightharpoonup> envelope"
  mg_migrated :: nat
  mg_unchanged :: nat
  mg_failed :: nat

datatype source = Reissue "json \<Rightarrow> (int \<times> json option) option" | Rekey

definition new_signature :: "(json \<Rightarrow> string) \<Rightarrow> url \<Rightarrow> json \<Rightarrow> string" where
  "new_signature hash u body = signature hash ((gh_request body)\<lparr>fq_url := u\<rparr>)"

text \<open>Moving one file: the new one is written, then the old one is removed.\<close>

definition move_to :: "bool \<Rightarrow> string \<Rightarrow> string \<Rightarrow> envelope \<Rightarrow> migration_run \<Rightarrow> migration_run" where
  "move_to dry_run old new en r =
     r\<lparr>mg_files := (if dry_run then mg_files r else (mg_files r)(new \<mapsto> en, old := None)), mg_migrated := Suc (mg_migrated r)\<rparr>"

text \<open>A fixture without a provenance counts as recorded; the record keeps what the file said as JSON.\<close>

definition made_up :: "envelope \<Rightarrow> bool" where
  "made_up en \<longleftrightarrow> en_provenance en = JStr PROVENANCE_SYNTHETIC"

text \<open>
  One file. \<open>None\<close> is the exception of a good answer that is not JSON, which nothing catches: the run
  ends there, with what it moved so far in its new place.
\<close>

definition migrate_file :: "(json \<Rightarrow> string) \<Rightarrow> url \<Rightarrow> (string \<times> json) list \<Rightarrow> source \<Rightarrow> bool \<Rightarrow> string
    \<Rightarrow> migration_run \<Rightarrow> migration_run option" where
  "migrate_file hash u patch src dry_run old r =
     (case mg_files r old of
        None \<Rightarrow> None
      | Some en \<Rightarrow>
          let body = en_json en; new = new_signature hash u (patched patch body)
          in if \<not> is_dict body \<or> \<not> jhas ''points'' body \<or> new = old
             then Some (r\<lparr>mg_unchanged := Suc (mg_unchanged r)\<rparr>)
             else if made_up en then Some (r\<lparr>mg_unchanged := Suc (mg_unchanged r)\<rparr>)
             else case src of
                 Rekey \<Rightarrow> Some (move_to dry_run old new (en\<lparr>en_json := patched patch body\<rparr>) r)
               | Reissue ask \<Rightarrow>
                   (case ask (patched patch body) of
                      None \<Rightarrow> Some (r\<lparr>mg_failed := Suc (mg_failed r)\<rparr>)
                    | Some (status, answer) \<Rightarrow>
                        if 400 \<le> status then Some (r\<lparr>mg_failed := Suc (mg_failed r)\<rparr>)
                        else case answer of
                            None \<Rightarrow> None
                          | Some j \<Rightarrow> Some (move_to dry_run old new (en\<lparr>en_json := patched patch body, en_status := status,
                               en_resp_headers := [(''content-type'', ''application/json'')], en_body := BJson j\<rparr>) r)))"

fun migrate_all :: "(json \<Rightarrow> string) \<Rightarrow> url \<Rightarrow> (string \<times> json) list \<Rightarrow> source \<Rightarrow> bool \<Rightarrow> string list
    \<Rightarrow> migration_run \<Rightarrow> migration_run \<times> bool" where
  "migrate_all hash u patch src dry_run [] r = (r, True)"
| "migrate_all hash u patch src dry_run (f # fs) r =
     (case migrate_file hash u patch src dry_run f r of
        None \<Rightarrow> (r, False)
      | Some r' \<Rightarrow> migrate_all hash u patch src dry_run fs r')"

text \<open>The exit status, one for an exception, and the run.\<close>

definition migrate_fixtures :: "(json \<Rightarrow> string) \<Rightarrow> url \<Rightarrow> (string \<times> json) list \<Rightarrow> source \<Rightarrow> bool \<Rightarrow> string list
    \<Rightarrow> (string \<rightharpoonup> envelope) \<Rightarrow> int \<times> migration_run" where
  "migrate_fixtures hash u patch src dry_run files dir =
     (let start = \<lparr>mg_files = dir, mg_migrated = 0, mg_unchanged = 0, mg_failed = 0\<rparr>
      in if patch = [] then (2, start)
         else case migrate_all hash u patch src dry_run files start of
             (r, ended) \<Rightarrow> (if ended \<and> mg_failed r = 0 then 0 else 1, r))"

section \<open>What recording asks for\<close>

text \<open>
  Fourteen requests are a ceiling on a metered router: the six presets of a scenario ask for at most
  fourteen bodies, and nothing but the answers to those decides their routes, so a budget that covers
  the worst case covers the pass.
\<close>

theorem fourteen_requests_are_a_ceiling:
  assumes "\<not> graphhopper_is_self_hosted env"
  shows "length (concat (map (preset_bodies env p d n m) SYNTHETIC_PRESETS)) \<le> 14
    \<and> ((\<forall>preset \<in> set SYNTHETIC_PRESETS. \<forall>b \<in> set (preset_bodies env p d n m preset). post b = post' b) \<longrightarrow>
        route_fastest env post p d n m = route_fastest env post' p d n m
      \<and> route_accessible env post p d n m = route_accessible env post' p d n m
      \<and> route_scenic env clip post p d n m fastest = route_scenic env clip post' p d n m fastest
      \<and> (\<forall>preset \<in> PREFERENCE_LOOP_PRESETS. route_preference env post preset p d n m = route_preference env post' preset p d n m))"
proof (intro conjI impI)
  show "length (concat (map (preset_bodies env p d n m) SYNTHETIC_PRESETS)) \<le> 14"
    using assms by (cases d) (simp_all add: SYNTHETIC_PRESETS_def preset_bodies_def PREFERENCE_LOOP_PRESETS_def scenic_candidates_def
        SCENIC_LOOP_CANDIDATES_def SCENIC_DISTANCE_INFLUENCE_LADDER_def PREFERENCE_LOOP_SCALES_def)
  assume agree: "\<forall>preset \<in> set SYNTHETIC_PRESETS. \<forall>b \<in> set (preset_bodies env p d n m preset). post b = post' b"
  show "route_fastest env post p d n m = route_fastest env post' p d n m"
    using agree by (simp add: route_fastest_def SYNTHETIC_PRESETS_def preset_bodies_def PREFERENCE_LOOP_PRESETS_def)
  show "route_accessible env post p d n m = route_accessible env post' p d n m"
    using agree by (simp add: route_accessible_def SYNTHETIC_PRESETS_def preset_bodies_def PREFERENCE_LOOP_PRESETS_def)
  have "\<forall>b \<in> set (preset_bodies env p d n m ''scenic''). post b = post' b" using agree by (simp add: SYNTHETIC_PRESETS_def)
  then have "map (\<lambda>(i, x). post (build_request_body env p d n m ''scenic'' (Some i) x)) (scenic_candidates (graphhopper_is_self_hosted env) (d = None))
      = map (\<lambda>(i, x). post' (build_request_body env p d n m ''scenic'' (Some i) x)) (scenic_candidates (graphhopper_is_self_hosted env) (d = None))"
    by (auto simp: preset_bodies_def)
  then show "route_scenic env clip post p d n m fastest = route_scenic env clip post' p d n m fastest"
    unfolding route_scenic_def Let_def by (simp only:)
  show "\<forall>preset \<in> PREFERENCE_LOOP_PRESETS. route_preference env post preset p d n m = route_preference env post' preset p d n m"
  proof
    fix preset assume pr: "preset \<in> PREFERENCE_LOOP_PRESETS"
    then have "preset \<in> set SYNTHETIC_PRESETS" "preset \<noteq> ''scenic''" by (auto simp: PREFERENCE_LOOP_PRESETS_def SYNTHETIC_PRESETS_def)
    then have b: "\<forall>b \<in> set (preset_bodies env p d n m preset). post b = post' b" "preset \<noteq> ''scenic''" using agree by auto
    show "route_preference env post preset p d n m = route_preference env post' preset p d n m"
    proof (cases d)
      case None
      have "map (\<lambda>x. post (build_request_body env p None n m preset None x)) (take 2 PREFERENCE_LOOP_SCALES)
          = map (\<lambda>x. post' (build_request_body env p None n m preset None x)) (take 2 PREFERENCE_LOOP_SCALES)"
        using b pr assms by (auto simp: preset_bodies_def None)
      then show ?thesis using assms unfolding route_preference_def None option.case Let_def by (simp only: if_False)
    next
      case (Some q)
      then show ?thesis using b by (simp add: route_preference_def preset_bodies_def)
    qed
  qed
qed

lemma fourteen_requests_are_a_ceiling_witness:
  "length (concat (map (preset_bodies Map.empty hyde_park None 35 Foot) SYNTHETIC_PRESETS)) \<le> 14"
  using fourteen_requests_are_a_ceiling [OF empty_env_not_self_hosted] by blast

text \<open>On a router of one's own a loop asks for seventeen; there the budget does not apply.\<close>

theorem seventeen_on_a_router_of_ones_own:
  "length (concat (map (preset_bodies local_env hyde_park None 35 Foot) SYNTHETIC_PRESETS)) = 17"
  using local_self_hosted by (simp add: SYNTHETIC_PRESETS_def preset_bodies_def PREFERENCE_LOOP_PRESETS_def scenic_candidates_def
      SCENIC_LOOP_CANDIDATES_def PREFERENCE_LOOP_SCALES_def)

lemma map_of_sorted: "distinct (map fst xs) \<Longrightarrow> map_of (sort_key fst xs) = map_of xs"
proof
  fix k assume d: "distinct (map fst xs)"
  then have s: "distinct (map fst (sort_key fst xs))" by (metis mset_eq_imp_distinct_iff mset_map mset_sort)
  show "map_of (sort_key fst xs) k = map_of xs k"
    using map_of_eq_Some_iff [OF d] map_of_eq_Some_iff [OF s] by (metis not_Some_eq set_sort)
qed

lemma jget_canonical:
  assumes "distinct (map fst kvs)"
  shows "jget k (canonical (JObj kvs)) = (case map_of kvs k of None \<Rightarrow> JNull | Some v \<Rightarrow> canonical v)"
proof -
  have "distinct (map fst (canonical_pairs kvs))" using assms by (simp add: canonical_pairs_map comp_def case_prod_unfold)
  then show ?thesis
    by (simp add: map_of_sorted canonical_pairs_map map_of_map split: option.splits)
qed

definition quiet_body :: "real \<Rightarrow> json" where
  "quiet_body x = build_request_body Map.empty hyde_park None 35 Foot ''quiet'' None x"

text \<open>
  \<open>--force\<close> means to record afresh, and forgets only the fixture of the first rung: in record mode the
  other rungs of a preference preset are still answered from disk.
\<close>

theorem force_keeps_the_other_rungs:
  assumes "inj_on (fe_hash e) ((\<lambda>x. signature_payload ((gh_request (quiet_body x))\<lparr>fq_url := u\<rparr>)) ` {1, 0.7, 0.45})"
  shows "fs_fixtures (forget (signature_for e u Map.empty hyde_park None demo_loop ''quiet'') s) (body_key e u (quiet_body 0.7))
       = fs_fixtures s (body_key e u (quiet_body 0.7))"
proof -
  have key: "signature_for e u Map.empty hyde_park None demo_loop ''quiet'' = body_key e u (quiet_body 1)"
    by (simp add: signature_for_def demo_loop_def SCENARIOS_def quiet_body_def)
  have dist: "jget ''round_trip.distance'' (canonical (quiet_body x)) = JNum (of_int (round_half_even (2625 * x)))" for x
    using empty_env_not_self_hosted
    by (simp add: quiet_body_def build_request_body_def base_body_def body_points_def preset_model_def FIXED_CUSTOM_MODELS_def
        jget_canonical LOOP_SPEED_M_PER_MIN_def)
  have "canonical (quiet_body 1) \<noteq> canonical (quiet_body 0.7)"
  proof
    assume "canonical (quiet_body 1) = canonical (quiet_body 0.7)"
    then have "real_of_int (round_half_even (2625 * 1)) = of_int (round_half_even (2625 * 0.7))"
      using dist [of 1] dist [of "0.7"] by simp
    then show False using round_half_even_bounds [of "2625 * 1"] round_half_even_bounds [of "2625 * 0.7"] by simp
  qed
  then have "signature_payload ((gh_request (quiet_body 0.7))\<lparr>fq_url := u\<rparr>) \<noteq> signature_payload ((gh_request (quiet_body 1))\<lparr>fq_url := u\<rparr>)"
    by (auto simp: signature_payload_def gh_request_def)
  then have "body_key e u (quiet_body 0.7) \<noteq> body_key e u (quiet_body 1)"
    using assms by (auto simp: body_key_def signature_def inj_on_def)
  then show ?thesis by (simp add: key forget_def)
qed

lemma force_keeps_the_other_rungs_witness:
  "\<exists>e. \<forall>s. fs_fixtures (forget (signature_for e HOSTED_URL Map.empty hyde_park None demo_loop ''quiet'') s) (body_key e HOSTED_URL (quiet_body 0.7))
     = fs_fixtures s (body_key e HOSTED_URL (quiet_body 0.7))"
proof -
  define sig where "sig x = signature_payload ((gh_request (quiet_body x))\<lparr>fq_url := HOSTED_URL\<rparr>)" for x
  define h :: "json \<Rightarrow> string" where "h j = (if j = sig 0.7 then ''a'' else if j = sig 0.45 then ''b'' else ''c'')" for j
  have "inj_on h (sig ` {1, 0.7, 0.45})" by (auto simp: inj_on_def h_def)
  then show ?thesis
    using force_keeps_the_other_rungs [of "(recorder Record)\<lparr>fe_hash := h\<rparr>" HOSTED_URL]
    by (intro exI [of _ "(recorder Record)\<lparr>fe_hash := h\<rparr>"]) (simp add: sig_def [abs_def])
qed

section \<open>Migrating once is enough\<close>

lemma update_same: "map_of kvs k = Some v \<Longrightarrow> AList.update k v kvs = kvs"
  by (induction kvs) (auto split: if_splits)

lemma patched_obj: "patched patch (JObj kvs) = JObj (foldl (\<lambda>b (k, v). AList.update k v b) kvs patch)"
proof (induction patch arbitrary: kvs)
  case (Cons kv patch)
  then show ?case by (cases kv) (simp add: patched_def)
qed (simp add: patched_def)

lemma foldl_updates: "distinct (map fst patch) \<Longrightarrow>
    map_of (foldl (\<lambda>b (k, v). AList.update k v b) kvs patch) k = (case map_of patch k of None \<Rightarrow> map_of kvs k | Some v \<Rightarrow> Some v)"
proof (induction patch arbitrary: kvs)
  case (Cons kv patch)
  obtain a v where kv: "kv = (a, v)" by fastforce
  have "a \<notin> fst ` set patch" using Cons(2) kv by simp
  then have "map_of patch a = None" by (simp add: map_of_eq_None_iff)
  then show ?case using Cons by (auto simp: kv update_conv split: option.splits)
qed simp

lemma foldl_same: "(\<forall>(k, v) \<in> set patch. map_of kvs k = Some v) \<Longrightarrow> foldl (\<lambda>b (k, v). AList.update k v b) kvs patch = kvs"
  by (induction patch) (auto simp: update_same)

text \<open>Patching a patched body changes nothing.\<close>

lemma patched_twice:
  assumes "distinct (map fst patch)"
  shows "patched patch (patched patch b) = patched patch b"
proof (cases "is_dict b")
  case True
  then obtain kvs where b: "b = JObj kvs" by (cases b) auto
  show ?thesis unfolding b patched_obj
    using foldl_updates [OF assms, of kvs] assms by (intro arg_cong [of _ _ JObj] foldl_same) (auto simp: map_of_is_SomeI)
next
  case False
  have "foldl (\<lambda>b (k, v). jput k v b) b ps = b" for ps using False by (induction ps) (auto split: prod.splits, (cases b; auto)+)
  then show ?thesis by (simp add: patched_def)
qed

lemma patched_dict: "is_dict (patched patch b) = is_dict b"
proof (cases "is_dict b")
  case True
  then obtain kvs where "b = JObj kvs" by (cases b) auto
  then show ?thesis by (simp add: patched_obj)
next
  case False
  have "foldl (\<lambda>b (k, v). jput k v b) b ps = b" for ps using False by (induction ps) (auto split: prod.splits, (cases b; auto)+)
  then show ?thesis by (simp add: patched_def)
qed

lemma patched_points:
  assumes "jhas ''points'' b" and "distinct (map fst patch)"
  shows "jhas ''points'' (patched patch b)"
proof (cases "is_dict b")
  case True
  then obtain kvs where b: "b = JObj kvs" by (cases b) auto
  have "map_of kvs ''points'' \<noteq> None" using assms(1) by (simp add: b)
  then show ?thesis unfolding b patched_obj
    using foldl_updates [OF assms(2), of kvs "''points''"] by (auto split: option.splits)
next
  case False
  then show ?thesis using assms(1) by (cases b) auto
qed

text \<open>
  A fixture the migration never moves: one a script made up, or one whose body is no object with points
  (no routing request). And a file that it leaves where it is, whatever the source.
\<close>

definition never_moved :: "envelope \<Rightarrow> bool" where
  "never_moved en \<longleftrightarrow> \<not> is_dict (en_json en) \<or> \<not> jhas ''points'' (en_json en) \<or> made_up en"

definition settled :: "(json \<Rightarrow> string) \<Rightarrow> url \<Rightarrow> (string \<times> json) list \<Rightarrow> string \<Rightarrow> envelope \<Rightarrow> bool" where
  "settled hash u patch f en \<longleftrightarrow> \<not> is_dict (en_json en) \<or> \<not> jhas ''points'' (en_json en)
     \<or> new_signature hash u (patched patch (en_json en)) = f \<or> made_up en"

lemma settled_stays:
  "mg_files r f = Some en \<Longrightarrow> settled hash u patch f en \<Longrightarrow>
     migrate_file hash u patch src dry_run f r = Some (r\<lparr>mg_unchanged := Suc (mg_unchanged r)\<rparr>)"
  by (auto simp: migrate_file_def settled_def Let_def)

text \<open>What a step of a rekey does: the file stays, or it is moved to a place where it is settled.\<close>

lemma rekey_step:
  assumes "distinct (map fst patch)" and "mg_files r f = Some en"
  obtains r' where "migrate_file hash u patch Rekey False f r = Some r'" and "mg_failed r' = mg_failed r"
    and "settled hash u patch f en \<and> mg_files r' = mg_files r
       \<or> (\<exists>new en'. new \<noteq> f \<and> settled hash u patch new en' \<and> \<not> never_moved en' \<and> mg_files r' = (mg_files r)(new \<mapsto> en', f := None))"
proof (cases "settled hash u patch f en")
  case True
  show ?thesis by (rule that [OF settled_stays [OF assms(2) True]]) (simp_all add: True)
next
  case False
  let ?body = "patched patch (en_json en)" let ?new = "new_signature hash u ?body" let ?en = "en\<lparr>en_json := ?body\<rparr>"
  have ne: "?new \<noteq> f" using False by (auto simp: settled_def)
  have "\<not> never_moved ?en"
    using False patched_points [OF _ assms(1)] by (auto simp: never_moved_def settled_def patched_dict made_up_def)
  moreover have "settled hash u patch ?new ?en" using patched_twice [OF assms(1), of "en_json en"] by (simp add: settled_def)
  moreover have "migrate_file hash u patch Rekey False f r = Some (move_to False f ?new ?en r)"
    using False assms(2) by (simp add: migrate_file_def settled_def Let_def)
  moreover have "mg_files (move_to False f ?new ?en r) = (mg_files r)(?new \<mapsto> ?en, f := None)" "mg_failed (move_to False f ?new ?en r) = mg_failed r"
    by (simp_all add: move_to_def)
  ultimately show ?thesis using that ne by blast
qed

lemma rekey_settles:
  assumes "distinct (map fst patch)" and "distinct fs" and "set fs \<subseteq> dom (mg_files r)"
    and "\<forall>f en. f \<notin> set fs \<and> mg_files r f = Some en \<longrightarrow> settled hash u patch f en"
  shows "\<exists>r'. migrate_all hash u patch Rekey False fs r = (r', True) \<and> mg_failed r' = mg_failed r
    \<and> (\<forall>f en. mg_files r' f = Some en \<longrightarrow> settled hash u patch f en)
    \<and> (\<forall>f en. mg_files r' f = Some en \<and> never_moved en \<longrightarrow> mg_files r f = Some en)"
  using assms(2-)
proof (induction fs arbitrary: r)
  case (Cons f fs)
  obtain en where en: "mg_files r f = Some en" using Cons(3) by auto
  obtain r' where r': "migrate_file hash u patch Rekey False f r = Some r'" "mg_failed r' = mg_failed r"
    and step: "settled hash u patch f en \<and> mg_files r' = mg_files r
       \<or> (\<exists>new en'. new \<noteq> f \<and> settled hash u patch new en' \<and> \<not> never_moved en' \<and> mg_files r' = (mg_files r)(new \<mapsto> en', f := None))"
    by (rule rekey_step [OF assms(1) en])
  have sub: "set fs \<subseteq> dom (mg_files r')" using step Cons(2,3) by auto
  have rest: "\<forall>g en. g \<notin> set fs \<and> mg_files r' g = Some en \<longrightarrow> settled hash u patch g en"
  proof (intro allI impI)
    fix g e assume g: "g \<notin> set fs \<and> mg_files r' g = Some e"
    show "settled hash u patch g e"
      using step g Cons(4) en by (cases "g = f") (auto split: if_splits)
  qed
  have "distinct fs" using Cons(2) by simp
  have d: "distinct fs" using Cons(2) by simp
  obtain r'' where r'': "migrate_all hash u patch Rekey False fs r' = (r'', True)" "mg_failed r'' = mg_failed r'"
      "\<forall>f en. mg_files r'' f = Some en \<longrightarrow> settled hash u patch f en"
      "\<forall>f en. mg_files r'' f = Some en \<and> never_moved en \<longrightarrow> mg_files r' f = Some en"
    using Cons(1) [OF d sub rest] by blast
  have kept: "mg_files r g = Some e" if "mg_files r' g = Some e" "never_moved e" for g e
    using step that by (auto split: if_splits)
  have "\<forall>f en. mg_files r'' f = Some en \<and> never_moved en \<longrightarrow> mg_files r f = Some en"
    using kept r''(4) by blast
  then show ?case using r' r'' by simp
qed simp

lemma settled_all_stay:
  assumes "\<forall>f en. mg_files r f = Some en \<longrightarrow> settled hash u patch f en" and "set fs \<subseteq> dom (mg_files r)"
  shows "\<exists>k. migrate_all hash u patch src dry_run fs r = (r\<lparr>mg_unchanged := k\<rparr>, True)"
  using assms
proof (induction fs arbitrary: r)
  case Nil
  show ?case by (intro exI [of _ "mg_unchanged r"]) simp
next
  case (Cons f fs)
  obtain en where en: "mg_files r f = Some en" using Cons(3) by auto
  have "settled hash u patch f en" using Cons(2) en by blast
  from settled_stays [OF en this] Cons(1) [of "r\<lparr>mg_unchanged := Suc (mg_unchanged r)\<rparr>"] Cons(2,3)
  show ?case by auto
qed


definition old_fixture :: envelope where
  "old_fixture = fixture_envelope (gh_request (JObj [(''points'', JList []), (''instructions'', JBool False)]))
     (json_answer_of 200 (JObj [])) PROVENANCE_RECORDED"


end
