(* ===== verification/Requests.thy ===== *)
theory Requests
  imports Gateway Logs
begin

text \<open>
  backend/main.py, \<open>request_context\<close>: the outermost middleware, which gives a request its id, puts it
  on every log line the request writes and on the reply, and writes the one line that records the request.
  What runs inside (the other middleware and the handler) is an argument: given the value of the
  context variable it returns the records it logs and a reply or an exception, by its traceback. Header
  names are compared as they are written. Also the reply for an exception that names its own status.
\<close>

section \<open>The middleware\<close>

definition http_error :: "int \<Rightarrow> string \<Rightarrow> (string \<times> string) list \<Rightarrow> reply" where
  "http_error status detail headers = (error_reply ''http_error'' detail status)\<lparr>ry_headers := headers\<rparr>"

definition duration_ms :: "real \<Rightarrow> real \<Rightarrow> real" where
  "duration_ms started now = round_dec 1 ((now - started) * 1000)"

definition main_record :: "string \<Rightarrow> string \<Rightarrow> string \<Rightarrow> string option \<Rightarrow> (string \<times> pyval) list \<Rightarrow> log_record" where
  "main_record created level m exc extra = \<lparr>lr_created = created, lr_levelname = level, lr_name = ''backend.main'', lr_msg = PStr m,
     lr_args = PTuple [], lr_exc = exc, lr_fields = extra\<rparr>"

definition failed_record :: "string \<Rightarrow> inbound \<Rightarrow> real \<Rightarrow> string \<Rightarrow> log_record" where
  "failed_record created req ms trace = main_record created ''ERROR'' ''request_failed'' (Some trace)
     [(''method'', PStr (in_method req)), (''path'', PStr (in_path req)), (''duration_ms'', PFloat ms)]"

definition request_record :: "string \<Rightarrow> inbound \<Rightarrow> real \<Rightarrow> reply \<Rightarrow> log_record" where
  "request_record created req ms reply = main_record created ''INFO'' ''request'' None
     [(''method'', PStr (in_method req)), (''path'', PStr (in_path req)), (''status'', PInt (ry_status reply)), (''duration_ms'', PFloat ms),
      (''cache'', case map_of (ry_headers reply) ''X-Meander-Cache'' of None \<Rightarrow> PNone | Some c \<Rightarrow> PStr c)]"

text \<open>
  The lines written (\<open>None\<close> for one the formatter loses), what comes out, and the context variable after it,
  which is reset to what it was before.
\<close>

definition request_context :: "printer \<Rightarrow> string \<Rightarrow> real \<times> real \<Rightarrow> string \<Rightarrow> inbound
    \<Rightarrow> (string option \<Rightarrow> log_record list \<times> (string, reply) result) \<Rightarrow> string option
    \<Rightarrow> (string \<times> pyval) list option list \<times> (string, reply) result \<times> string option" where
  "request_context pn created clocks fresh req inner var =
     (let rid = request_id fresh req; (records, out) = inner (Some rid);
          ms = duration_ms (fst clocks) (snd clocks); lines = map (emitted pn (Some rid)) records
      in case out of
          Inl trace \<Rightarrow> (lines @ [emitted pn (Some rid) (failed_record created req ms trace)], Inl trace, var)
        | Inr reply \<Rightarrow>
            let reply' = reply\<lparr>ry_headers := AList.update ''X-Request-Id'' rid (ry_headers reply)\<rparr>
            in (lines @ (if logged_request req then [emitted pn (Some rid) (request_record created req ms reply')] else []), Inr reply', var))"

section \<open>One id per request\<close>

lemma put_fields_value:
  assumes "put_fields pn kvs payload = Some out" and "distinct (map fst kvs)" and "k \<notin> set RESERVED" and "take 1 k \<noteq> ''_''"
  shows "map_of out k = (case map_of kvs k of None \<Rightarrow> map_of payload k | Some v \<Rightarrow> field_value pn v)"
  using assms
proof (induction pn kvs payload rule: put_fields.induct)
  case (2 pn j v kvs payload)
  show ?case
  proof (cases "j \<in> set RESERVED \<or> take 1 j = ''_''")
    case True
    then show ?thesis using 2(1) [OF True] 2(3-6) by auto
  next
    case False
    then obtain w where w: "field_value pn v = Some w" "put_fields pn kvs (AList.update j w payload) = Some out"
      using 2(3) by (auto simp: Option.bind_eq_Some_conv split: if_splits)
    have "map_of kvs j = None" using 2(4) by (simp add: map_of_eq_None_iff)
    then show ?thesis using 2(2) [OF False w(1) w(2)] 2(4-6) w(1) by (auto simp: update_conv split: option.splits)
  qed
qed simp

lemma map_of_by_key: "map_of (map (\<lambda>(k, v). (k, f k v)) xs) k = map_option (f k) (map_of xs k)"
  by (induction xs) auto

lemma emitted_id:
  assumes "emitted pn (Some rid) r = Some payload" and "distinct (map fst (lr_fields r))"
  shows "map_of payload ''request_id'' = Some (PStr (scrub_text rid))"
proof -
  let ?r = "privacy_filter pn (request_id_filter (Some rid) r)"
  obtain m out where out: "put_fields pn (lr_fields ?r)
      [(''ts'', PStr (lr_created ?r)), (''level'', PStr (lr_levelname ?r)), (''logger'', PStr (lr_name ?r)), (''msg'', PStr m)] = Some out"
    and p: "map_of payload ''request_id'' = map_of out ''request_id''"
    using assms(1) by (auto simp: emitted_def format_line_def Option.bind_eq_Some_conv update_conv split: option.splits)
  have "map fst (lr_fields ?r) = map fst (AList.update ''request_id'' (PStr rid) (lr_fields r))"
    by (simp add: privacy_filter_def request_id_filter_def case_prod_unfold comp_def)
  then have d: "distinct (map fst (lr_fields ?r))" using assms(2) by (simp add: distinct_update)
  have "str_lower ''request_id'' \<notin> set BANNED_FIELDS" by (simp add: BANNED_FIELDS_def string_defs)
  then have "map_of (lr_fields ?r) ''request_id'' = Some (PStr rid)"
    by (simp add: privacy_filter_def request_id_filter_def map_of_by_key update_conv)
  then show ?thesis
    using put_fields_value [OF out d, of "''request_id''"] by (simp add: p field_value_def RESERVED_def)
qed

text \<open>
  One id per request. Every line a request writes that is not lost carries its id, as the formatter
  prints a text; the reply carries the same id, the exception is passed on as it was, and the context
  variable is what it was before, so no line of another request can carry it. A request adds exactly one
  line of its own, and a probe that is answered none.
\<close>

theorem one_id_per_request:
  assumes "request_context pn created clocks fresh req inner var = (lines, out, var')"
    and "\<forall>r \<in> set (fst (inner (Some (request_id fresh req)))). distinct (map fst (lr_fields r))"
  shows "(\<forall>payload. Some payload \<in> set lines \<longrightarrow> map_of payload ''request_id'' = Some (PStr (scrub_text (request_id fresh req))))
    \<and> var' = var
    \<and> (case out of
          Inl e \<Rightarrow> snd (inner (Some (request_id fresh req))) = Inl e
        | Inr reply \<Rightarrow> map_of (ry_headers reply) ''X-Request-Id'' = Some (request_id fresh req)
            \<and> (\<exists>reply0. snd (inner (Some (request_id fresh req))) = Inr reply0 \<and> ry_status reply = ry_status reply0 \<and> ry_body reply = ry_body reply0))
    \<and> length lines = length (fst (inner (Some (request_id fresh req))))
        + (if (\<exists>reply. out = Inr reply) \<and> in_path req \<in> {''/healthz'', ''/readyz''} then 0 else 1)"
proof -
  let ?rid = "request_id fresh req"
  obtain records res where inner: "inner (Some ?rid) = (records, res)" by fastforce
  have own: "distinct (map fst (lr_fields (failed_record created req ms trace)))"
      "distinct (map fst (lr_fields (request_record created req ms reply)))" for ms trace reply
    by (simp_all add: failed_record_def request_record_def main_record_def)
  have "map_of payload ''request_id'' = Some (PStr (scrub_text ?rid))" if "Some payload \<in> set lines" for payload
  proof -
    have "\<exists>r. emitted pn (Some ?rid) r = Some payload \<and> distinct (map fst (lr_fields r))"
      using that assms own by (auto simp: request_context_def inner Let_def image_iff split: sum.splits if_splits; metis)
    then show ?thesis using emitted_id by blast
  qed
  moreover have "var' = var \<and> (case out of
          Inl e \<Rightarrow> res = Inl e
        | Inr reply \<Rightarrow> map_of (ry_headers reply) ''X-Request-Id'' = Some ?rid
            \<and> (\<exists>reply0. res = Inr reply0 \<and> ry_status reply = ry_status reply0 \<and> ry_body reply = ry_body reply0))"
    using assms(1) by (auto simp: request_context_def inner Let_def update_conv split: sum.splits)
  moreover have "length lines = length records + (if (\<exists>reply. out = Inr reply) \<and> in_path req \<in> {''/healthz'', ''/readyz''} then 0 else 1)"
    using assms(1) by (auto simp: request_context_def inner Let_def logged_request_def split: sum.splits if_splits)
  ultimately show ?thesis unfolding inner fst_conv snd_conv by blast
qed

definition traced_request :: inbound where
  "traced_request = \<lparr>in_method = ''GET'', in_path = ''/healthz'', in_peer = None, in_header = [''x-request-id'' \<mapsto> ''abc''], in_chunks = []\<rparr>"

lemma one_id_per_request_witness:
  "\<exists>lines reply. request_context plain_printer ''now'' (0, 1) ''f'' traced_request (\<lambda>rid. ([], Inr (error_reply ''k'' ''m'' 500))) None
       = (lines, Inr reply, None)
     \<and> lines = [] \<and> map_of (ry_headers reply) ''X-Request-Id'' = Some ''abc''"
proof -
  obtain lines out var where run: "request_context plain_printer ''now'' (0, 1) ''f'' traced_request
      (\<lambda>rid. ([], Inr (error_reply ''k'' ''m'' 500))) None = (lines, out, var)" by (metis prod_cases3)
  have rid: "request_id ''f'' traced_request = ''abc''" by (simp add: request_id_def present_header_def traced_request_def)
  show ?thesis
    using one_id_per_request [OF run] run unfolding rid by (cases out) (auto simp: traced_request_def)
qed

end
