(* ===== verification/Verify.thy ===== *)
theory Verify
  imports Extent Routing
begin

text \<open>
  scripts/verify_selfhosted.py: what a self-hosted router has to show before it is deployed. The clock
  and the answer of its information page, for each spot, are an argument, and so is what it answers to
  a routing request; the presets run are those of the routing client. What is printed is not modelled:
  a failure is a value, and not its sentence.
\<close>

section \<open>The spots\<close>

record spot =
  sp_name :: string
  sp_region :: string
  sp_point :: latlon
  sp_minutes :: int
  sp_mode :: mode

definition SPOTS :: "spot list" where
  "SPOTS =
     [\<lparr>sp_name = ''Colombo Fort'', sp_region = ''sri-lanka'', sp_point = LatLon 6.933727 79.850080, sp_minutes = 30, sp_mode = Foot\<rparr>,
      \<lparr>sp_name = ''Vondelpark, Amsterdam'', sp_region = ''netherlands'', sp_point = LatLon 52.357197 4.864119, sp_minutes = 35, sp_mode = Foot\<rparr>,
      \<lparr>sp_name = ''Hyde Park, London'', sp_region = ''great-britain'', sp_point = LatLon 51.507489 (- 0.162207), sp_minutes = 35, sp_mode = Foot\<rparr>,
      \<lparr>sp_name = ''Princes Street, Edinburgh'', sp_region = ''great-britain'', sp_point = LatLon 55.952326 (- 3.195041), sp_minutes = 40, sp_mode = Foot\<rparr>,
      \<lparr>sp_name = ''Central Park, New York'', sp_region = ''us/new-york'', sp_point = LatLon 40.781200 (- 73.966500), sp_minutes = 35, sp_mode = Foot\<rparr>,
      \<lparr>sp_name = ''Golden Gate Park, SF'', sp_region = ''us/california'', sp_point = LatLon 37.769400 (- 122.486200), sp_minutes = 35, sp_mode = Foot\<rparr>,
      \<lparr>sp_name = ''Jardin du Luxembourg, Paris'', sp_region = ''france'', sp_point = LatLon 48.846200 2.337200, sp_minutes = 35, sp_mode = Foot\<rparr>,
      \<lparr>sp_name = ''Brandenburg Gate, Berlin'', sp_region = ''germany'', sp_point = LatLon 52.516300 13.377700, sp_minutes = 35, sp_mode = Foot\<rparr>]"

definition covers :: "environ \<Rightarrow> real \<Rightarrow> fetched \<Rightarrow> extent_cache \<Rightarrow> spot \<Rightarrow> extent_cache \<times> (py_error, bool) result" where
  "covers env now f c s =
     (case outside_coverage env now f c (lat (sp_point s)) (lon (sp_point s)) of
        (c', Inl e) \<Rightarrow> (c', Inl e)
      | (c', Inr outside) \<Rightarrow> (c', Inr (outside = None)))"

section \<open>One spot\<close>

definition PRESET_NAMES :: "string list" where
  "PRESET_NAMES = [''fastest'', ''scenic'', ''accessible'', ''quiet'', ''shade'', ''air'']"

text \<open>\<open>PRESETS[name](point, None, minutes, mode)\<close>, with the baseline for the scenic one.\<close>

definition at_spot :: "environ \<Rightarrow> (latlon list \<Rightarrow> real option) \<Rightarrow> (string \<Rightarrow> json \<Rightarrow> (routing_error, raw_route) result)
    \<Rightarrow> spot \<Rightarrow> string \<Rightarrow> raw_route option \<Rightarrow> (routing_error, raw_route) result" where
  "at_spot env clip post s name fastest =
     (let p = sp_point s; n = sp_minutes s; m = sp_mode s
      in if name = ''fastest'' then route_fastest env (post name) p None n m
         else if name = ''scenic''
         then (case route_scenic env clip (post name) p None n m fastest of
                 Inl e \<Rightarrow> Inl e
               | Inr None \<Rightarrow> Inl (Crash PyRuntimeError)
               | Inr (Some r) \<Rightarrow> Inr r)
         else if name = ''accessible'' then route_accessible env (post name) p None n m
         else route_preference env (post name) name p None n m)"

definition shape_of :: "raw_route \<Rightarrow> (real \<times> real) list" where
  "shape_of r = map (\<lambda>p. (round_dec 5 (lat p), round_dec 5 (lon p))) (rr_points r)"

datatype failure = DidNotRoute string string routing_error | NoEffect string | NoSmoothness string

text \<open>No route at all is an answer of the accessible preset, and a failure of every other.\<close>

definition blocked_answer :: "string \<Rightarrow> routing_error \<Rightarrow> bool" where
  "blocked_answer name e \<longleftrightarrow> name = ''accessible'' \<and> (case e of NoRouteFound m p \<Rightarrow> True | _ \<Rightarrow> False)"

fun steered_at :: "(string \<Rightarrow> (routing_error, raw_route) result) \<Rightarrow> string \<Rightarrow> string list \<Rightarrow> (string \<times> raw_route) list \<times> failure list" where
  "steered_at run spot [] = ([], [])"
| "steered_at run spot (name # names) =
     (let (routes, failures) = steered_at run spot names
      in case run name of
           Inr r \<Rightarrow> ((name, r) # routes, failures)
         | Inl e \<Rightarrow> (routes, if blocked_answer name e then failures else DidNotRoute spot name e # failures))"

definition check_spot :: "string list \<Rightarrow> (string \<Rightarrow> raw_route option \<Rightarrow> (routing_error, raw_route) result) \<Rightarrow> string \<Rightarrow> failure list" where
  "check_spot details run spot =
     (case run ''fastest'' None of
        Inl e \<Rightarrow> [DidNotRoute spot ''fastest'' e]
      | Inr fastest \<Rightarrow>
          let (steered, failures) = steered_at (\<lambda>name. run name (Some fastest)) spot (filter (\<lambda>n. n \<noteq> ''fastest'') PRESET_NAMES);
              same = filter (\<lambda>(n, r). shape_of r = shape_of fastest) steered
          in failures
             @ (if steered \<noteq> [] \<and> length same = length steered then [NoEffect spot] else [])
             @ (if ''smoothness'' \<in> set details \<and> rr_details fastest ''smoothness'' = None then [NoSmoothness spot] else []))"

section \<open>The run\<close>

record verification =
  vf_failures :: "failure list"
  vf_checked :: nat
  vf_skipped :: "string list"

fun verify_spots :: "environ \<Rightarrow> (spot \<Rightarrow> real \<times> fetched) \<Rightarrow> (spot \<Rightarrow> failure list) \<Rightarrow> spot list \<Rightarrow> extent_cache
    \<Rightarrow> verification \<Rightarrow> (py_error, verification) result" where
  "verify_spots env info checks [] c v = Inr v"
| "verify_spots env info checks (s # ss) c v =
     (case covers env (fst (info s)) (snd (info s)) c s of
        (c', Inl e) \<Rightarrow> Inl e
      | (c', Inr False) \<Rightarrow> verify_spots env info checks ss c' (v\<lparr>vf_skipped := vf_skipped v @ [sp_name s]\<rparr>)
      | (c', Inr True) \<Rightarrow> verify_spots env info checks ss c'
           (v\<lparr>vf_checked := Suc (vf_checked v), vf_failures := vf_failures v @ checks s\<rparr>))"

text \<open>The exit status; an exception of the coverage check is nobody's and ends the run with one.\<close>

definition verify_selfhosted :: "environ \<Rightarrow> (latlon list \<Rightarrow> real option) \<Rightarrow> (string \<Rightarrow> json \<Rightarrow> (routing_error, raw_route) result)
    \<Rightarrow> (spot \<Rightarrow> real \<times> fetched) \<Rightarrow> int" where
  "verify_selfhosted env clip post info =
     (if \<not> graphhopper_is_self_hosted env then 2
      else case verify_spots env info (\<lambda>s. check_spot (path_details env) (at_spot env clip post s) (sp_name s)) SPOTS None
             \<lparr>vf_failures = [], vf_checked = 0, vf_skipped = []\<rparr> of
          Inl e \<Rightarrow> 1
        | Inr v \<Rightarrow> if vf_checked v = 0 then 1 else if vf_failures v \<noteq> [] then 1 else 0)"

section \<open>What a pass means\<close>

text \<open>A router whose information page says one and the same thing all along.\<close>

definition in_extent :: "box option \<Rightarrow> spot \<Rightarrow> bool" where
  "in_extent b s \<longleftrightarrow> (case b of None \<Rightarrow> True | Some x \<Rightarrow> box_contains x (lat (sp_point s)) (lon (sp_point s)))"

definition agreed :: "box option \<Rightarrow> extent_cache \<Rightarrow> bool" where
  "agreed b c \<longleftrightarrow> (case c of None \<Rightarrow> True | Some (b', t) \<Rightarrow> b' = b)"

lemma covers_in_extent:
  assumes "graphhopper_is_self_hosted env" and "extent_of f = Inr b" and "agreed b c"
  shows "\<exists>c'. covers env now f c s = (c', Inr (in_extent b s)) \<and> agreed b c'"
  using assms by (auto simp: covers_def outside_coverage_def routable_extent_def in_extent_def agreed_def split: option.splits)

lemma verify_spots_run:
  assumes "graphhopper_is_self_hosted env" and "\<And>s. extent_of (snd (info s)) = Inr b" and "agreed b c"
  shows "\<exists>v'. verify_spots env info checks ss c v = Inr v'
    \<and> vf_checked v' = vf_checked v + length (filter (in_extent b) ss)
    \<and> vf_failures v' = vf_failures v @ concat (map checks (filter (in_extent b) ss))"
  using assms(3)
proof (induction ss arbitrary: c v)
  case (Cons s ss)
  obtain c' where c: "covers env (fst (info s)) (snd (info s)) c s = (c', Inr (in_extent b s))" "agreed b c'"
    using covers_in_extent [OF assms(1) assms(2) Cons.prems] by blast
  show ?case
  proof (cases "in_extent b s")
    case True
    then show ?thesis
      using Cons.IH [OF c(2), of "v\<lparr>vf_checked := Suc (vf_checked v), vf_failures := vf_failures v @ checks s\<rparr>"] c(1) by auto
  next
    case False
    then show ?thesis
      using Cons.IH [OF c(2), of "v\<lparr>vf_skipped := vf_skipped v @ [sp_name s]\<rparr>"] c(1) by auto
  qed
qed simp

lemma steered_at_routes: "set (fst (steered_at run spot names)) = {(n, r). n \<in> set names \<and> run n = Inr r}"
  by (induction names) (auto split: sum.splits prod.splits)

lemma steered_at_failures:
  "snd (steered_at run spot names) = [] \<longleftrightarrow> (\<forall>n \<in> set names. \<forall>e. run n = Inl e \<longrightarrow> blocked_answer n e)"
  by (induction names) (auto split: sum.splits prod.splits)

lemma blocked_answer_iff: "blocked_answer name e \<longleftrightarrow> name = ''accessible'' \<and> (\<exists>m p. e = NoRouteFound m p)"
  by (cases e) (simp_all add: blocked_answer_def)

lemma filter_all: "length (filter P xs) = length xs \<longleftrightarrow> (\<forall>x \<in> set xs. P x)"
  by (metis filter_True length_filter_less less_irrefl)

lemma check_spot_passes:
  "check_spot details run spot = [] \<longleftrightarrow>
     (\<exists>fastest. run ''fastest'' None = Inr fastest
        \<and> (\<forall>name \<in> set (tl PRESET_NAMES). \<forall>e. run name (Some fastest) = Inl e \<longrightarrow> blocked_answer name e)
        \<and> (\<exists>name \<in> set (tl PRESET_NAMES). \<exists>r. run name (Some fastest) = Inr r \<and> shape_of r \<noteq> shape_of fastest)
        \<and> (''smoothness'' \<in> set details \<longrightarrow> rr_details fastest ''smoothness'' \<noteq> None))"
proof (cases "run ''fastest'' None")
  case (Inl e)
  then show ?thesis by (simp add: check_spot_def)
next
  case (Inr fastest)
  let ?names = "filter (\<lambda>n. n \<noteq> ''fastest'') PRESET_NAMES"
  obtain steered failures where st: "steered_at (\<lambda>name. run name (Some fastest)) spot ?names = (steered, failures)" by fastforce
  have names: "?names = tl PRESET_NAMES" by (simp add: PRESET_NAMES_def)
  have routes: "(n, r) \<in> set steered \<longleftrightarrow> n \<in> set (tl PRESET_NAMES) \<and> run n (Some fastest) = Inr r" for n r
    using steered_at_routes [of "\<lambda>name. run name (Some fastest)" spot ?names] st names by auto
  have fails: "failures = [] \<longleftrightarrow> (\<forall>n \<in> set (tl PRESET_NAMES). \<forall>e. run n (Some fastest) = Inl e \<longrightarrow> blocked_answer n e)"
    using steered_at_failures [of "\<lambda>name. run name (Some fastest)" spot ?names] st names by simp
  have some: "steered \<noteq> []" if "failures = []"
  proof (cases "run ''quiet'' (Some fastest)")
    case (Inl e)
    then show ?thesis using that fails by (auto simp: PRESET_NAMES_def blocked_answer_def)
  next
    case (Inr r)
    then show ?thesis using routes [of "''quiet''" r] by (auto simp: PRESET_NAMES_def)
  qed
  have dead: "(\<forall>x \<in> set steered. case x of (n, r) \<Rightarrow> shape_of r = shape_of fastest)
      \<longleftrightarrow> \<not> (\<exists>n \<in> set (tl PRESET_NAMES). \<exists>r. run n (Some fastest) = Inr r \<and> shape_of r \<noteq> shape_of fastest)"
    using routes by fast
  have "check_spot details run spot = [] \<longleftrightarrow> failures = []
      \<and> \<not> (\<forall>x \<in> set steered. case x of (n, r) \<Rightarrow> shape_of r = shape_of fastest)
      \<and> (''smoothness'' \<in> set details \<longrightarrow> rr_details fastest ''smoothness'' \<noteq> None)"
    using some by (auto simp: check_spot_def Inr st filter_all)
  then show ?thesis unfolding dead fails by (simp add: Inr)
qed

lemma pass_iff:
  assumes "\<And>s. extent_of (snd (info s)) = Inr b"
  shows "verify_selfhosted env clip post info = 0 \<longleftrightarrow>
     graphhopper_is_self_hosted env \<and> (\<exists>s \<in> set SPOTS. in_extent b s)
     \<and> (\<forall>s \<in> set SPOTS. in_extent b s \<longrightarrow> (\<exists>fastest.
      at_spot env clip post s ''fastest'' None = Inr fastest
    \<and> (\<forall>name \<in> set (tl PRESET_NAMES). \<forall>e. at_spot env clip post s name (Some fastest) = Inl e \<longrightarrow> blocked_answer name e)
    \<and> (\<exists>name \<in> set (tl PRESET_NAMES). \<exists>r. at_spot env clip post s name (Some fastest) = Inr r \<and> shape_of r \<noteq> shape_of fastest)
    \<and> (''smoothness'' \<in> set (path_details env) \<longrightarrow> rr_details fastest ''smoothness'' \<noteq> None)))"
proof (cases "graphhopper_is_self_hosted env")
  case True
  let ?checks = "\<lambda>s. check_spot (path_details env) (at_spot env clip post s) (sp_name s)"
  obtain v where v: "verify_spots env info ?checks SPOTS None \<lparr>vf_failures = [], vf_checked = 0, vf_skipped = []\<rparr> = Inr v"
      "vf_checked v = length (filter (in_extent b) SPOTS)" "vf_failures v = concat (map ?checks (filter (in_extent b) SPOTS))"
    using verify_spots_run [where info = info and b = b and c = None and checks = ?checks and ss = SPOTS
      and v = "\<lparr>vf_failures = [], vf_checked = 0, vf_skipped = []\<rparr>", OF True] assms by (auto simp: agreed_def)
  have "verify_selfhosted env clip post info = 0 \<longleftrightarrow>
      (\<exists>s \<in> set SPOTS. in_extent b s) \<and> (\<forall>s \<in> set SPOTS. in_extent b s \<longrightarrow> ?checks s = [])"
    using True v by (auto simp: verify_selfhosted_def filter_empty_conv)
  also have "\<dots> \<longleftrightarrow> (\<exists>s \<in> set SPOTS. in_extent b s) \<and> (\<forall>s \<in> set SPOTS. in_extent b s \<longrightarrow> (\<exists>fastest.
      at_spot env clip post s ''fastest'' None = Inr fastest
    \<and> (\<forall>name \<in> set (tl PRESET_NAMES). \<forall>e. at_spot env clip post s name (Some fastest) = Inl e \<longrightarrow> blocked_answer name e)
    \<and> (\<exists>name \<in> set (tl PRESET_NAMES). \<exists>r. at_spot env clip post s name (Some fastest) = Inr r \<and> shape_of r \<noteq> shape_of fastest)
    \<and> (''smoothness'' \<in> set (path_details env) \<longrightarrow> rr_details fastest ''smoothness'' \<noteq> None)))"
    unfolding check_spot_passes by (rule refl)
  finally show ?thesis using True by simp
qed (simp add: verify_selfhosted_def)

text \<open>
  C28 What a pass means. A run passes exactly when the router is self-hosted, some spot lies in what it
  covers, and at every such spot the fastest preset routes, every other preset routes or, the accessible
  one alone, answers that there is no route, at least one of them leaves the line of the fastest, and
  the smoothness that was asked for came back.
\<close>

theorem a_pass_is_a_router_that_works:
  assumes "\<And>s. extent_of (snd (info s)) = Inr b"
  shows "verify_selfhosted env clip post info = 0 \<longleftrightarrow>
     graphhopper_is_self_hosted env \<and> (\<exists>s \<in> set SPOTS. in_extent b s)
     \<and> (\<forall>s \<in> set SPOTS. in_extent b s \<longrightarrow> (\<exists>fastest.
           at_spot env clip post s ''fastest'' None = Inr fastest
         \<and> (\<forall>name \<in> {''scenic'', ''accessible'', ''quiet'', ''shade'', ''air''}. \<forall>e.
              at_spot env clip post s name (Some fastest) = Inl e \<longrightarrow> name = ''accessible'' \<and> (\<exists>m p. e = NoRouteFound m p))
         \<and> (\<exists>name \<in> {''scenic'', ''accessible'', ''quiet'', ''shade'', ''air''}. \<exists>r.
              at_spot env clip post s name (Some fastest) = Inr r \<and> shape_of r \<noteq> shape_of fastest)
         \<and> (''smoothness'' \<in> set (path_details env) \<longrightarrow> rr_details fastest ''smoothness'' \<noteq> None)))"
  using pass_iff [where b = b and info = info, OF assms] by (simp add: PRESET_NAMES_def blocked_answer_iff)

section \<open>Dead models\<close>

text \<open>What a preset returns has the line of something the router answered.\<close>

lemma with_note_points [simp]: "rr_points (with_note n r) = rr_points r"
  by (simp add: with_note_def)

lemma preference_from_the_router:
  assumes "route_preference env post preset p None n m = Inr r"
  shows "\<exists>body c. post body = Inr c \<and> rr_points r = rr_points c"
proof -
  define os where "os = map (\<lambda>x. post (build_request_body env p None n m preset None x))
      (if graphhopper_is_self_hosted env then PREFERENCE_LOOP_SCALES else take 2 PREFERENCE_LOOP_SCALES)"
  have ne: "os \<noteq> []" by (simp add: os_def PREFERENCE_LOOP_SCALES_def)
  obtain scored where sc: "(if graphhopper_is_self_hosted env then preference_unmetered n os else preference_metered n os []) = Inr scored"
    and r: "rr_points r = rr_points (snd (hd (sort_desc fst scored)))"
    using assms unfolding route_preference_def option.case Let_def os_def [symmetric] by (auto split: sum.splits)
  have "scored \<noteq> [] \<and> set scored \<subseteq> {(budget_fit (rr_duration_min c) n, c) |c. Inr c \<in> set os}"
    using sc ne preference_metered_ok [of n os "[]" scored] preference_unmetered_ok [of n os scored] by (auto split: if_splits)
  then have "\<exists>c. Inr c \<in> set os \<and> snd (hd (sort_desc fst scored)) = c"
    using sort_desc_hd_in [of scored fst] by fastforce
  then obtain x where "post (build_request_body env p None n m preset None x) = Inr (snd (hd (sort_desc fst scored)))"
    unfolding os_def by force
  then show ?thesis using r by blast
qed

lemma at_spot_from_the_router:
  assumes "at_spot env clip post s name fastest = Inr r" and "\<And>preset body c. post preset body = Inr c \<Longrightarrow> rr_preset_note c = None"
  shows "\<exists>body c. post name body = Inr c \<and> rr_points r = rr_points c"
proof -
  consider "name = ''fastest''" | "name = ''accessible''" | "name = ''scenic''"
    | "route_preference env (post name) name (sp_point s) None (sp_minutes s) (sp_mode s) = Inr r"
    using assms(1) by (fastforce simp: at_spot_def Let_def)
  then show ?thesis
  proof cases
    case 3
    then have "route_scenic env clip (post name) (sp_point s) None (sp_minutes s) (sp_mode s) fastest = Inr (Some r)"
      using assms(1) by (auto simp: at_spot_def Let_def split: sum.splits option.splits)
    from scenic_promise [OF this] assms(2) show ?thesis by (metis with_note_points)
  next
    case 4
    then show ?thesis by (rule preference_from_the_router)
  qed (use assms(1) in \<open>auto simp: at_spot_def route_fastest_def route_accessible_def\<close>)
qed

text \<open>
  A router that answers every request with one line, whatever it is asked, never passes: this is how a
  router looks that accepts the custom models and ignores them, wherever the loops it is asked for come
  out the same.
\<close>

theorem one_line_for_all_never_passes:
  assumes "\<And>name body c. post name body = Inr c \<Longrightarrow> rr_points c = line \<and> rr_preset_note c = None"
    and "\<And>s. extent_of (snd (info s)) = Inr b"
  shows "verify_selfhosted env clip post info \<noteq> 0"
proof
  assume "verify_selfhosted env clip post info = 0"
  then obtain s fastest name r where f: "at_spot env clip post s ''fastest'' None = Inr fastest"
      and r: "at_spot env clip post s name (Some fastest) = Inr r" "shape_of r \<noteq> shape_of fastest"
    unfolding pass_iff [where b = b and info = info, OF assms(2)] by metis
  have "rr_points fastest = line" "rr_points r = line"
    using at_spot_from_the_router [OF f] at_spot_from_the_router [OF r(1)] assms(1) by metis+
  then show False using r(2) by (simp add: shape_of_def)
qed

section \<open>Where dead models pass\<close>

text \<open>
  Every spot is a loop, and the searches of a loop ask for shorter ones too. A router that looks at the
  length it is asked for and at nothing else answers those with another line, and passes.
\<close>

definition one_of_two :: "string \<Rightarrow> bool \<Rightarrow> raw_route" where
  "one_of_two name long =
     (walk (if long then 60 else 30) name)\<lparr>rr_points := [LatLon 0 0, LatLon (if long then 2 else 1) 0],
        rr_details := [''smoothness'' \<mapsto> []]\<rparr>"

definition length_only :: "string \<Rightarrow> json \<Rightarrow> (routing_error, raw_route) result" where
  "length_only name body =
     Inr (one_of_two name (case jget ''round_trip.distance'' body of JNum x \<Rightarrow> 2200 < x | _ \<Rightarrow> False))"

definition plain_info :: "spot \<Rightarrow> real \<times> fetched" where
  "plain_info s = (0, Response 200 (Some (JObj [])))"

lemma plain_info_extent: "extent_of (snd (plain_info s)) = Inr None"
  by (simp add: plain_info_def extent_of_def parse_bbox_def)

lemma one_of_two_simps [simp]:
  "rr_points (one_of_two name long) = [LatLon 0 0, LatLon (if long then 2 else 1) 0]"
  "rr_duration_min (one_of_two name long) = (if long then 60 else 30)"
  "rr_details (one_of_two name long) = [''smoothness'' \<mapsto> []]"
  by (simp_all add: one_of_two_def walk_def)

lemma length_only_answers:
  "length_only name (build_request_body env p None n Foot preset i x)
   = Inr (one_of_two name (2200 < real_of_int (round_half_even (75 * of_int n * x))))"
  unfolding length_only_def loop_distance by (simp add: LOOP_SPEED_M_PER_MIN_def del: of_int_less_numeral_iff of_int_numeral_less_iff)

lemma spots_walk: "s \<in> set SPOTS \<Longrightarrow> sp_mode s = Foot \<and> sp_minutes s \<in> {30, 35, 40}"
  by (auto simp: SPOTS_def)

lemma full_loop_is_long: "n \<in> {30, 35, 40} \<Longrightarrow> 2200 < real_of_int (round_half_even (75 * of_int n * 1))"
  using round_half_even_of_int [of "75 * n"] by auto

lemma short_loop_is_short: "n \<in> {30, 35, 40} \<Longrightarrow> \<not> 2200 < real_of_int (round_half_even (75 * of_int n * 0.45))"
  using round_half_even_bounds [of "75 * of_int n * 0.45"] by auto

text \<open>A router that never refuses is never refused.\<close>

lemma all_answered: "(\<And>c. c \<in> set cs \<Longrightarrow> \<exists>r. c = Inr r) \<Longrightarrow> cs \<noteq> [] \<Longrightarrow> \<exists>r rs. successes cs = r # rs"
  by (induction cs rule: successes.induct) auto

lemma always_routed:
  assumes "graphhopper_is_self_hosted env" and "\<And>body. \<exists>r. post name body = Inr r"
  shows "\<exists>r. at_spot env clip post s name fastest = Inr r"
proof -
  have some: "\<exists>r rs. successes (map (\<lambda>x. post name (f x)) xs) = r # rs" if "xs \<noteq> []" for f :: "'x \<Rightarrow> json" and xs
    by (rule all_answered) (use assms(2) that in auto)
  have scenic: "\<exists>r. route_scenic env clip (post name) p None n m fastest = Inr (Some r)" for p n m
  proof -
    have "route_scenic env clip (post name) p None n m fastest \<noteq> Inl e" for e
      using some [of "scenic_candidates True True" "\<lambda>(i, x). build_request_body env p None n m ''scenic'' (Some i) x"] assms(1)
      by (auto simp: route_scenic_def scan_all_def case_prod_unfold)
    then show ?thesis using scenic_always_has_a_candidate [of env clip "post name" p None n m fastest]
      by (cases "route_scenic env clip (post name) p None n m fastest") auto
  qed
  have preference: "\<exists>r. route_preference env (post name) name p None n m = Inr r" for p n m
    using some [of PREFERENCE_LOOP_SCALES "\<lambda>x. build_request_body env p None n m name None x"] assms(1)
    by (auto simp: route_preference_def preference_unmetered_def PREFERENCE_LOOP_SCALES_def Let_def simp del: successes.simps)
  show ?thesis
    using scenic [of "sp_point s" "sp_minutes s" "sp_mode s"] preference [of "sp_point s" "sp_minutes s" "sp_mode s"] assms(2)
    by (auto simp: at_spot_def Let_def route_fastest_def route_accessible_def)
qed

lemma quiet_takes_the_short_loop:
  assumes "n \<in> {30, 35, 40}" and "route_preference local_env (length_only ''quiet'') ''quiet'' p None n Foot = Inr r"
  shows "rr_points r = [LatLon 0 0, LatLon 1 0]"
proof -
  let ?post = "\<lambda>x. length_only ''quiet'' (build_request_body local_env p None n Foot ''quiet'' None x)"
  obtain x c where c: "?post x = Inr c" "rr_points r = rr_points c"
    and best: "\<forall>y \<in> set PREFERENCE_LOOP_SCALES. \<forall>c'. ?post y = Inr c'
       \<longrightarrow> budget_fit (rr_duration_min c') n \<le> budget_fit (rr_duration_min c) n"
    using preference_is_the_closest_fit [OF local_self_hosted assms(2)] by (auto simp: with_note_def)
  have "budget_fit 30 n \<le> budget_fit (rr_duration_min c) n"
    using best [rule_format, of "0.45"] short_loop_is_short [OF assms(1)]
    by (auto simp: PREFERENCE_LOOP_SCALES_def length_only_answers)
  moreover have "budget_fit 60 n < budget_fit 30 n"
    using assms(1) by (auto simp: budget_fit_def)
  ultimately show ?thesis
    using c by (auto simp: length_only_answers split: if_splits)
qed

theorem dead_models_can_pass:
  "verify_selfhosted local_env clip length_only plain_info = 0"
proof -
  have passes: "\<exists>fastest. at_spot local_env clip length_only s ''fastest'' None = Inr fastest
      \<and> (\<forall>name \<in> set (tl PRESET_NAMES). \<forall>e. at_spot local_env clip length_only s name (Some fastest) = Inl e \<longrightarrow> blocked_answer name e)
      \<and> (\<exists>name \<in> set (tl PRESET_NAMES). \<exists>r. at_spot local_env clip length_only s name (Some fastest) = Inr r \<and> shape_of r \<noteq> shape_of fastest)
      \<and> (''smoothness'' \<in> set (path_details local_env) \<longrightarrow> rr_details fastest ''smoothness'' \<noteq> None)"
    if s: "s \<in> set SPOTS" for s
  proof -
    have sp: "sp_mode s = Foot" "sp_minutes s \<in> {30, 35, 40}" using spots_walk [OF s] by auto
    let ?fastest = "one_of_two ''fastest'' True"
    have f: "at_spot local_env clip length_only s ''fastest'' None = Inr ?fastest"
      using sp(1) full_loop_is_long [OF sp(2)] by (simp add: at_spot_def route_fastest_def length_only_answers)
    have all: "\<exists>r. at_spot local_env clip length_only s name (Some ?fastest) = Inr r" for name
      by (rule always_routed [OF local_self_hosted]) (simp add: length_only_def)
    obtain r where r: "at_spot local_env clip length_only s ''quiet'' (Some ?fastest) = Inr r" using all by blast
    then have "route_preference local_env (length_only ''quiet'') ''quiet'' (sp_point s) None (sp_minutes s) Foot = Inr r"
      using sp(1) by (simp add: at_spot_def)
    then have "rr_points r = [LatLon 0 0, LatLon 1 0]" by (rule quiet_takes_the_short_loop [OF sp(2)])
    then have "shape_of r \<noteq> shape_of ?fastest"
      using round_dec_of_int [of 5 1] round_dec_of_int [of 5 2] by (simp add: shape_of_def)
    moreover have "''quiet'' \<in> set (tl PRESET_NAMES)" by (simp add: PRESET_NAMES_def)
    moreover have "at_spot local_env clip length_only s name (Some ?fastest) \<noteq> Inl e" for name e
      using all [of name] by auto
    ultimately show ?thesis using f r by (intro exI [of _ ?fastest]) auto
  qed
  show ?thesis
    unfolding pass_iff [where b = None and info = plain_info, OF plain_info_extent]
    using passes local_self_hosted by (auto simp: in_extent_def SPOTS_def)
qed

lemma a_pass_is_a_router_that_works_witness:
  "graphhopper_is_self_hosted local_env \<and> (\<exists>s \<in> set SPOTS. in_extent None s)
   \<and> verify_selfhosted Map.empty (\<lambda>ps. None) length_only plain_info \<noteq> 0"
  using a_pass_is_a_router_that_works [of plain_info None local_env "\<lambda>ps. None" length_only, OF plain_info_extent]
    a_pass_is_a_router_that_works [of plain_info None Map.empty "\<lambda>ps. None" length_only, OF plain_info_extent]
    dead_models_can_pass empty_env_not_self_hosted by auto

lemma one_line_for_all_never_passes_witness:
  "verify_selfhosted local_env (\<lambda>ps. None) (\<lambda>name body. Inr (walk 30 name)) plain_info \<noteq> 0"
  by (rule one_line_for_all_never_passes [where line = "[LatLon 0 0, LatLon 1 0]", OF _ plain_info_extent])
    (auto simp: walk_def)

end
