(* ===== verification/Checks.thy ===== *)
theory Checks
  imports Extent "HOL-Library.List_Lexorder" "HOL-Library.Char_ord"
begin

text \<open>
  The remaining tools under scripts that decide something: load_test.py with its percentiles and its
  verdict, check_duplicate_defs.py, and the two guards check_new_fixtures.py and check_torch_free.py.
  What the server answers, what git, the parser and the interpreter say are arguments; printing is not
  modelled.
\<close>

section \<open>Percentiles\<close>

text \<open>\<open>None\<close> is the NaN of no values.\<close>

definition percentile :: "real list \<Rightarrow> real \<Rightarrow> real option" where
  "percentile values p =
     (if values = [] then None
      else let ordered = sort values;
               index = min (int (length ordered) - 1) (round_half_even (p / 100 * real_of_int (int (length ordered) - 1)))
           in Some (ordered ! nat index))"

section \<open>One request of the load test\<close>

record results =
  rs_served :: "real list"
  rs_refused :: "real list"
  rs_latencies :: "real list"
  rs_statuses :: "(int \<times> nat) list"
  rs_errors :: "(string \<times> nat) list"
  rs_degraded :: nat
  rs_blocked :: nat
  rs_methods :: "(json \<times> nat) list"

definition no_results :: results where
  "no_results = \<lparr>rs_served = [], rs_refused = [], rs_latencies = [], rs_statuses = [], rs_errors = [],
     rs_degraded = 0, rs_blocked = 0, rs_methods = []\<rparr>"

text \<open>\<open>counter[k] += 1\<close>.\<close>

definition tick :: "'k \<Rightarrow> ('k \<times> nat) list \<Rightarrow> ('k \<times> nat) list" where
  "tick k xs = AList.update k (Suc (case map_of xs k of None \<Rightarrow> 0 | Some n \<Rightarrow> n)) xs"

definition LOCATIONS :: "(string \<times> real \<times> real) list" where
  "LOCATIONS = [(''Colombo Fort'', 6.933727, 79.85008), (''Viharamahadevi'', 6.914899, 79.861364),
     (''Hyde Park'', 51.507489, - 0.162207), (''Euston Road'', 51.524718, - 0.13853), (''Vondelpark'', 52.357197, 4.864119)]"

definition body_for :: "nat \<Rightarrow> int \<Rightarrow> json" where
  "body_for i minutes =
     (case LOCATIONS ! (i mod length LOCATIONS) of (name, la, lo) \<Rightarrow>
        JObj [(''origin'', JObj [(''lat'', JNum la), (''lon'', JNum lo)]), (''minutes'', JNum (of_int minutes)),
              (''mode'', JStr ''auto''), (''objectives'', JList [JStr ''fastest'', JStr ''scenic'', JStr ''accessible''])])"

text \<open>What a loop over a decoded value goes through; \<open>None\<close> is the TypeError of what cannot be gone through.\<close>

fun iterated :: "json \<Rightarrow> json list option" where
  "iterated (JList xs) = Some xs"
| "iterated (JObj kvs) = Some (map (\<lambda>(k, v). JStr k) kvs)"
| "iterated (JStr s) = Some (map (\<lambda>c. JStr [c]) s)"
| "iterated _ = None"

definition unhashable :: "json \<Rightarrow> bool" where
  "unhashable j \<longleftrightarrow> is_list j \<or> is_dict j"

text \<open>One card of an answer; \<open>None\<close> is an exception, which ends the whole run.\<close>

definition note_card :: "json \<Rightarrow> results \<Rightarrow> results option" where
  "note_card route out =
     (let how = (if jhas ''scoring_method'' route then jget ''scoring_method'' route else JStr ''?'')
      in if \<not> is_dict route \<or> unhashable how then None
         else Some (out\<lparr>rs_methods := tick how (rs_methods out),
                        rs_blocked := (if jget ''status'' route \<noteq> JStr ''ok'' then Suc (rs_blocked out) else rs_blocked out),
                        rs_degraded := (if jget ''rest_stops'' route = JNull then Suc (rs_degraded out) else rs_degraded out)\<rparr>))"

fun note_cards :: "json list \<Rightarrow> results \<Rightarrow> results option" where
  "note_cards [] out = Some out"
| "note_cards (j # js) out = (case note_card j out of None \<Rightarrow> None | Some out' \<Rightarrow> note_cards js out')"

definition note_payload :: "json \<Rightarrow> results \<Rightarrow> results option" where
  "note_payload payload out =
     (if \<not> is_dict payload then None
      else case iterated (if jhas ''routes'' payload then jget ''routes'' payload else JList []) of
          None \<Rightarrow> None
        | Some cards \<Rightarrow> note_cards cards out)"

definition one_request :: "real \<times> fetched \<Rightarrow> results \<Rightarrow> results option" where
  "one_request answer out =
     (case answer of
        (elapsed, Unreachable e) \<Rightarrow> Some (out\<lparr>rs_errors := tick e (rs_errors out), rs_latencies := rs_latencies out @ [elapsed]\<rparr>)
      | (elapsed, Response status body) \<Rightarrow>
          let out1 = out\<lparr>rs_latencies := rs_latencies out @ [elapsed],
                rs_refused := (if status = 429 then rs_refused out @ [elapsed] else rs_refused out),
                rs_served := (if status = 429 then rs_served out else rs_served out @ [elapsed]),
                rs_statuses := tick status (rs_statuses out)\<rparr>
          in if status \<noteq> 200 then Some out1
             else case body of
                 None \<Rightarrow> Some (out1\<lparr>rs_errors := tick ''unparseable_body'' (rs_errors out1)\<rparr>)
               | Some payload \<Rightarrow> note_payload payload out1)"

section \<open>The run\<close>

text \<open>The bodies each user sends, one after the other.\<close>

definition plans :: "nat \<Rightarrow> nat \<Rightarrow> int \<Rightarrow> json list list" where
  "plans users requests_each minutes =
     map (\<lambda>u. map (\<lambda>i. body_for (u * requests_each + i) minutes) [0..<requests_each]) [0..<users]"

text \<open>
  The users at once. Nothing is awaited between an answer and its entry in the results, so a run is the
  entries in the order the requests finish: some interleaving of what each user is answered.
\<close>

inductive interleaves :: "'a list list \<Rightarrow> 'a list \<Rightarrow> bool" where
  nobody_left: "\<forall>xs \<in> set xss. xs = [] \<Longrightarrow> interleaves xss []"
| next_of: "i < length xss \<Longrightarrow> xss ! i = x # xs \<Longrightarrow> interleaves (xss[i := xs]) ys \<Longrightarrow> interleaves xss (x # ys)"

fun run_load :: "(real \<times> fetched) list \<Rightarrow> results \<Rightarrow> results option" where
  "run_load [] out = Some out"
| "run_load (a # as) out = (case one_request a out of None \<Rightarrow> None | Some out' \<Rightarrow> run_load as out')"

definition report :: "results \<Rightarrow> int" where
  "report out =
     (let server_errors = sum_list (map snd (filter (\<lambda>(s, c). 500 \<le> s) (rs_statuses out)))
      in if server_errors \<noteq> 0 then 1 else if rs_errors out \<noteq> [] then 1 else if rs_statuses out = [] then 1 else 0)"

text \<open>The exit status; one for a run that ended in an exception. \<open>host\<close> is what \<open>urlparse\<close> finds in the URL.\<close>

definition load_test :: "string option \<Rightarrow> bool \<Rightarrow> (real \<times> fetched) list \<Rightarrow> int" where
  "load_test host i_mean_it answers =
     (if (case host of None \<Rightarrow> '''' | Some h \<Rightarrow> h) \<notin> {''localhost'', ''127.0.0.1'', ''::1''} \<and> \<not> i_mean_it then 2
      else case run_load answers no_results of None \<Rightarrow> 1 | Some out \<Rightarrow> report out)"

section \<open>Definitions that shadow one another\<close>

text \<open>A statement as the scan sees it: a definition with its line, a class with its body, anything else.\<close>

datatype stmt = Def string nat | AsyncDef string nat | Class string nat "stmt list" | Other

fun defined :: "stmt \<Rightarrow> (string \<times> nat) option" where
  "defined (Def n l) = Some (n, l)"
| "defined (AsyncDef n l) = Some (n, l)"
| "defined (Class n l body) = Some (n, l)"
| "defined Other = None"

text \<open>\<open>lines.setdefault(name, []).append(lineno)\<close> over one statement list.\<close>

definition lines_of :: "stmt list \<Rightarrow> (string \<times> nat list) list" where
  "lines_of body =
     foldl (\<lambda>acc (n, l). AList.update n ((case map_of acc n of None \<Rightarrow> [] | Some ls \<Rightarrow> ls) @ [l]) acc) []
       (List.map_filter defined body)"

definition duplicates :: "stmt list \<Rightarrow> (string \<times> nat list) list" where
  "duplicates body = filter (\<lambda>(n, ls). 1 < length ls) (sort_key fst (lines_of body))"

datatype problem = DoesNotParse nat string | Twice "string option" string nat nat

definition scan_file :: "(nat \<times> string, stmt list) result \<Rightarrow> problem list" where
  "scan_file parsed =
     (case parsed of
        Inl (line, msg) \<Rightarrow> [DoesNotParse line msg]
      | Inr body \<Rightarrow>
          map (\<lambda>(n, ls). Twice None n (ls ! 1) (ls ! 0)) (duplicates body)
          @ concat (map (\<lambda>s. case s of
                Class c l inner \<Rightarrow> map (\<lambda>(n, ls). Twice (Some c) n (ls ! 1) (ls ! 0)) (duplicates inner)
              | _ \<Rightarrow> []) body))"

definition SKIP_PARTS :: "string list" where
  "SKIP_PARTS = [''tests'', ''__pycache__'', ''.venv'', ''node_modules'']"

text \<open>\<open>rglob\<close> gives the paths under a root by their parts; \<open>None\<close> is a root that does not exist.\<close>

definition python_files :: "(string \<Rightarrow> string list list option) \<Rightarrow> string list \<Rightarrow> string list list" where
  "python_files rglob roots =
     concat (map (\<lambda>root. case rglob root of None \<Rightarrow> []
                        | Some ps \<Rightarrow> filter (\<lambda>p. set SKIP_PARTS \<inter> set p = {}) (sort ps)) roots)"

definition check_duplicate_defs :: "(string \<Rightarrow> string list list option) \<Rightarrow> (string list \<Rightarrow> (nat \<times> string, stmt list) result)
    \<Rightarrow> string list \<Rightarrow> int" where
  "check_duplicate_defs rglob parse roots =
     (let files = python_files rglob roots; problems = concat (map (\<lambda>f. scan_file (parse f)) files)
      in if problems \<noteq> [] then 1 else 0)"

section \<open>The two guards\<close>

text \<open>\<open>git\<close> is the output of the staged additions, \<open>None\<close> when git fails.\<close>

definition staged_additions :: "string \<Rightarrow> string list" where
  "staged_additions out = filter (\<lambda>p. strip p \<noteq> []) (split_on (CHR 0x0A) out)"

definition check_new_fixtures :: "environ \<Rightarrow> string option \<Rightarrow> int" where
  "check_new_fixtures env git =
     (if env ''MEANDER_ALLOW_NEW_FIXTURES'' = Some ''1'' then 0
      else case git of None \<Rightarrow> 1 | Some out \<Rightarrow> if staged_additions out = [] then 0 else 1)"

definition FORBIDDEN :: "string list" where
  "FORBIDDEN = [''torch'', ''open_clip'', ''torchvision'']"

text \<open>\<open>spec\<close> says which modules can be found, \<open>imports\<close> whether the application imports.\<close>

definition check_torch_free :: "(string \<Rightarrow> bool) \<Rightarrow> bool \<Rightarrow> int" where
  "check_torch_free spec app_imports =
     (if list_ex spec FORBIDDEN then 1 else if \<not> app_imports then 1 else 0)"

section \<open>What the percentiles are\<close>

lemma sorted_at_most: "sorted xs \<Longrightarrow> k < length xs \<Longrightarrow> Suc k \<le> length (filter (\<lambda>v. v \<le> xs ! k) xs)"
proof -
  assume xs: "sorted xs" and k: "k < length xs"
  have "\<forall>v \<in> set (take (Suc k) xs). v \<le> xs ! k"
    using sorted_nth_mono [OF xs] k by (fastforce simp: in_set_conv_nth less_Suc_eq_le)
  then have "length (filter (\<lambda>v. v \<le> xs ! k) (take (Suc k) xs)) = Suc k" using k by (simp add: filter_True)
  then show ?thesis by (metis append_take_drop_id filter_append le_add1 length_append)
qed

lemma sorted_at_least: "sorted xs \<Longrightarrow> k < length xs \<Longrightarrow> length xs - k \<le> length (filter (\<lambda>v. xs ! k \<le> v) xs)"
proof -
  assume xs: "sorted xs" and k: "k < length xs"
  have "\<forall>v \<in> set (drop k xs). xs ! k \<le> v"
    using sorted_nth_mono [OF xs] k by (fastforce simp: in_set_conv_nth)
  then have "length (filter (\<lambda>v. xs ! k \<le> v) (drop k xs)) = length xs - k" using k by (simp add: filter_True)
  then show ?thesis by (metis append_take_drop_id filter_append le_add2 length_append)
qed

lemma length_filter_sort: "length (filter P (sort xs)) = length (filter P xs)"
  by (metis filter_sort length_sort)

lemma percentile_index:
  assumes "vs \<noteq> []" and "0 \<le> p" and "p \<le> 100"
  obtains k where "percentile vs p = Some (sort vs ! k)" and "k < length vs"
    and "int k = round_half_even (p / 100 * real_of_int (int (length vs) - 1))"
proof -
  let ?n = "int (length vs) - 1"
  have n: "0 \<le> ?n" using assms(1) by (cases vs) simp_all
  have "0 \<le> real_of_int ?n" using n by linarith
  then have "p / 100 * real_of_int ?n \<le> 1 * real_of_int ?n" by (rule mult_right_mono [rotated]) (use assms in simp)
  then have hi: "round_half_even (p / 100 * real_of_int ?n) \<le> ?n"
    using round_half_even_mono [of "p / 100 * real_of_int ?n" "real_of_int ?n"] unfolding mult_1 round_half_even_of_int by blast
  have "0 \<le> p / 100 * real_of_int ?n" by (rule mult_nonneg_nonneg) (use assms n in linarith)+
  then have lo: "0 \<le> round_half_even (p / 100 * real_of_int ?n)"
    using round_half_even_mono [of 0] round_half_even_of_int [of 0] by simp
  show ?thesis
    by (rule that [of "nat (round_half_even (p / 100 * real_of_int ?n))"]) (use assms hi lo n in \<open>auto simp: percentile_def Let_def min_absorb2\<close>)
qed

text \<open>
  A percentile of the load test is one of the times measured, at the rank it is named for: up to half a
  place, \<open>p\<close> per cent of the values are no larger and the rest no smaller. A higher percentile is never a
  smaller time, so the tail it reports is never better than the median.
\<close>

theorem percentiles_are_ranks:
  assumes "vs \<noteq> []" and "0 \<le> p" and "p \<le> q" and "q \<le> 100"
  shows "\<exists>x y. percentile vs p = Some x \<and> percentile vs q = Some y \<and> x \<in> set vs \<and> x \<le> y
    \<and> p / 100 * (real (length vs) - 1) + 1/2 \<le> real (length (filter (\<lambda>v. v \<le> x) vs))
    \<and> (1 - p / 100) * (real (length vs) - 1) + 1/2 \<le> real (length (filter (\<lambda>v. x \<le> v) vs))"
proof -
  let ?n = "real_of_int (int (length vs) - 1)"
  obtain k where k: "percentile vs p = Some (sort vs ! k)" "k < length vs" "int k = round_half_even (p / 100 * ?n)"
    using percentile_index [of vs p] assms by auto
  obtain l where l: "percentile vs q = Some (sort vs ! l)" "l < length vs" "int l = round_half_even (q / 100 * ?n)"
    using percentile_index [of vs q] assms by auto
  have n: "0 \<le> ?n" "?n = real (length vs) - 1" using assms(1) by (cases vs; simp)+
  have "p / 100 * ?n \<le> q / 100 * ?n" by (rule mult_right_mono) (use assms n in auto)
  then have "k \<le> l" using round_half_even_mono k(3) l(3) by (metis of_nat_le_iff)
  then have le: "sort vs ! k \<le> sort vs ! l" using l(2) by (simp add: sorted_nth_mono)
  have mem: "sort vs ! k \<in> set vs" using k(2) nth_mem [of k "sort vs"] by simp
  have r: "p / 100 * ?n - 1/2 \<le> real k" "real k \<le> p / 100 * ?n + 1/2"
    using round_half_even_bounds [of "p / 100 * ?n"] k(3) by (metis of_int_of_nat_eq)+
  have "real (Suc k) \<le> real (length (filter (\<lambda>v. v \<le> sort vs ! k) vs))"
    using sorted_at_most [of "sort vs" k] k(2) by (simp add: length_filter_sort)
  moreover have "real (length vs) - real k \<le> real (length (filter (\<lambda>v. sort vs ! k \<le> v) vs))"
    using sorted_at_least [of "sort vs" k] k(2) by (simp add: length_filter_sort)
  ultimately have "p / 100 * (real (length vs) - 1) + 1/2 \<le> real (length (filter (\<lambda>v. v \<le> sort vs ! k) vs))"
      "(1 - p / 100) * (real (length vs) - 1) + 1/2 \<le> real (length (filter (\<lambda>v. sort vs ! k \<le> v) vs))"
    using r left_diff_distrib [of 1 "p / 100" "real (length vs) - 1"] unfolding n(2) mult_1 by linarith+
  then show ?thesis using k(1) l(1) le mem by blast
qed

lemma percentiles_are_ranks_witness:
  "\<exists>x y. percentile [3, 1, 2] 50 = Some x \<and> percentile [3, 1, 2] 95 = Some y \<and> x \<in> {1, 2, 3} \<and> x \<le> y"
  using percentiles_are_ranks [of "[3, 1, 2]" 50 95] by auto

section \<open>What the verdict is about\<close>

lemma interleaves_mset: "interleaves xss ys \<Longrightarrow> mset ys = mset (concat xss)"
proof (induction rule: interleaves.induct)
  case (nobody_left xss)
  then show ?case by (simp add: concat_eq_Nil_conv)
next
  case (next_of i xss x xs ys)
  have "mset (concat xss) = mset (concat (take i xss @ (x # xs) # drop (Suc i) xss))"
    using id_take_nth_drop [OF next_of(1)] next_of(2) by simp
  then show ?case using next_of(1,4) by (simp add: upd_conv_take_nth_drop)
qed

lemma tick_keys [simp]: "fst ` set (tick k xs) = insert k (fst ` set xs)"
  by (simp add: tick_def dom_update)

lemma update_positive: "(\<forall>(k, n) \<in> set xs. 0 < n) \<Longrightarrow> 0 < v \<Longrightarrow> \<forall>(k, n) \<in> set (AList.update k0 v xs). 0 < (n::nat)"
  by (induction xs) auto

definition positive :: "('k \<times> nat) list \<Rightarrow> bool" where
  "positive xs \<longleftrightarrow> (\<forall>(k, n) \<in> set xs. 0 < n)"

lemma tick_positive [simp]: "positive xs \<Longrightarrow> positive (tick k xs)"
  unfolding tick_def positive_def by (rule update_positive) simp_all

text \<open>A payload whose cards can be read.\<close>

definition readable :: "json \<Rightarrow> bool" where
  "readable payload \<longleftrightarrow> is_dict payload
     \<and> (\<exists>cards. iterated (if jhas ''routes'' payload then jget ''routes'' payload else JList []) = Some cards
        \<and> (\<forall>c \<in> set cards. is_dict c \<and> \<not> unhashable (jget ''scoring_method'' c)))"

definition bookkeeping :: "results \<Rightarrow> real list \<times> real list \<times> real list \<times> (int \<times> nat) list \<times> (string \<times> nat) list" where
  "bookkeeping out = (rs_served out, rs_refused out, rs_latencies out, rs_statuses out, rs_errors out)"

lemma note_card_some: "(note_card c out \<noteq> None) \<longleftrightarrow> is_dict c \<and> \<not> unhashable (jget ''scoring_method'' c)"
  by (cases c) (auto simp: note_card_def Let_def unhashable_def split: if_splits option.splits)

lemma note_card_keeps: "note_card c out = Some out' \<Longrightarrow> bookkeeping out' = bookkeeping out"
  by (auto simp: note_card_def Let_def bookkeeping_def split: if_splits)

lemma note_cards_some: "(note_cards cs out \<noteq> None) \<longleftrightarrow> (\<forall>c \<in> set cs. is_dict c \<and> \<not> unhashable (jget ''scoring_method'' c))"
proof (induction cs arbitrary: out)
  case (Cons c cs)
  then show ?case using note_card_some [of c out] by (cases "note_card c out") auto
qed simp

lemma note_cards_keeps: "note_cards cs out = Some out' \<Longrightarrow> bookkeeping out' = bookkeeping out"
  by (induction cs arbitrary: out) (auto dest: note_card_keeps split: option.splits)

lemma note_payload_none: "note_payload p out = None \<longleftrightarrow> \<not> readable p"
proof (cases "iterated (if jhas ''routes'' p then jget ''routes'' p else JList [])")
  case (Some cards)
  then show ?thesis using note_cards_some [of cards out] by (auto simp: note_payload_def readable_def)
qed (simp add: note_payload_def readable_def)

lemma note_payload_keeps: "note_payload p out = Some out' \<Longrightarrow> bookkeeping out' = bookkeeping out"
  by (auto simp: note_payload_def dest: note_cards_keeps split: option.splits if_splits)

lemma bookkeeping_served: "bookkeeping out' = bookkeeping out \<Longrightarrow> rs_served out' = rs_served out \<and> rs_refused out' = rs_refused out
    \<and> rs_latencies out' = rs_latencies out \<and> rs_statuses out' = rs_statuses out \<and> rs_errors out' = rs_errors out"
  by (simp add: bookkeeping_def)

text \<open>The five accounts of one answer.\<close>

definition status_of :: "real \<times> fetched \<Rightarrow> int option" where
  "status_of a = (case snd a of Unreachable e \<Rightarrow> None | Response s b \<Rightarrow> Some s)"

definition error_of :: "real \<times> fetched \<Rightarrow> string option" where
  "error_of a = (case snd a of Unreachable e \<Rightarrow> Some e
     | Response s b \<Rightarrow> if s = 200 \<and> b = None then Some ''unparseable_body'' else None)"

definition crashes :: "real \<times> fetched \<Rightarrow> bool" where
  "crashes a \<longleftrightarrow> (case snd a of Unreachable e \<Rightarrow> False
     | Response s b \<Rightarrow> s = 200 \<and> (\<exists>p. b = Some p \<and> \<not> readable p))"

lemma one_request_none: "one_request a out = None \<longleftrightarrow> crashes a"
proof (cases a)
  case (Pair t f)
  then show ?thesis
    by (cases f) (auto simp: one_request_def crashes_def Let_def note_payload_none split: option.splits)
qed

lemma one_request_accounts:
  assumes "one_request a out = Some out'"
  shows "rs_served out' = rs_served out @ (if status_of a \<noteq> None \<and> status_of a \<noteq> Some 429 then [fst a] else [])
    \<and> rs_refused out' = rs_refused out @ (if status_of a = Some 429 then [fst a] else [])
    \<and> rs_latencies out' = rs_latencies out @ [fst a]
    \<and> rs_statuses out' = (case status_of a of None \<Rightarrow> rs_statuses out | Some s \<Rightarrow> tick s (rs_statuses out))
    \<and> rs_errors out' = (case error_of a of None \<Rightarrow> rs_errors out | Some e \<Rightarrow> tick e (rs_errors out))"
proof (cases a)
  case (Pair t f)
  then show ?thesis
    using assms
    by (cases f) (auto simp: one_request_def status_of_def error_of_def Let_def dest!: note_payload_keeps bookkeeping_served split: option.splits if_splits)
qed

lemma run_load_none: "run_load as out = None \<longleftrightarrow> (\<exists>a \<in> set as. crashes a)"
proof (induction as arbitrary: out)
  case (Cons a as)
  then show ?case using one_request_none [of a out] by (cases "one_request a out") auto
qed simp

lemma run_load_accounts:
  assumes "run_load as out = Some out'"
  shows "rs_served out' = rs_served out @ map fst (filter (\<lambda>a. status_of a \<noteq> None \<and> status_of a \<noteq> Some 429) as)
    \<and> rs_refused out' = rs_refused out @ map fst (filter (\<lambda>a. status_of a = Some 429) as)
    \<and> rs_latencies out' = rs_latencies out @ map fst as
    \<and> fst ` set (rs_statuses out') = fst ` set (rs_statuses out) \<union> {s. \<exists>a \<in> set as. status_of a = Some s}
    \<and> fst ` set (rs_errors out') = fst ` set (rs_errors out) \<union> {e. \<exists>a \<in> set as. error_of a = Some e}
    \<and> (positive (rs_statuses out) \<longrightarrow> positive (rs_statuses out'))"
  using assms
proof (induction as arbitrary: out)
  case (Cons a as)
  obtain o1 where o1: "one_request a out = Some o1" "run_load as o1 = Some out'" using Cons.prems by (auto split: option.splits)
  note IH = Cons.IH [OF o1(2)] and acc = one_request_accounts [OF o1(1)]
  have st: "fst ` set (rs_statuses o1) = fst ` set (rs_statuses out) \<union> {s. status_of a = Some s}"
      "fst ` set (rs_errors o1) = fst ` set (rs_errors out) \<union> {e. error_of a = Some e}"
    using acc by (auto split: option.splits)
  have pos: "positive (rs_statuses out) \<longrightarrow> positive (rs_statuses o1)"
    using acc by (auto split: option.splits)
  have "fst ` set (rs_statuses out') = fst ` set (rs_statuses out) \<union> {s. \<exists>x \<in> set (a # as). status_of x = Some s}"
    using IH unfolding st by auto
  moreover have "fst ` set (rs_errors out') = fst ` set (rs_errors out) \<union> {e. \<exists>x \<in> set (a # as). error_of x = Some e}"
    using IH unfolding st by auto
  moreover have "rs_served out' = rs_served out @ map fst (filter (\<lambda>a. status_of a \<noteq> None \<and> status_of a \<noteq> Some 429) (a # as))"
      "rs_refused out' = rs_refused out @ map fst (filter (\<lambda>a. status_of a = Some 429) (a # as))"
      "rs_latencies out' = rs_latencies out @ map fst (a # as)"
    using IH acc by auto
  ultimately show ?case using IH pos by blast
qed simp

lemma report_iff:
  assumes "positive (rs_statuses out)"
  shows "report out = 0 \<longleftrightarrow> rs_errors out = [] \<and> rs_statuses out \<noteq> [] \<and> (\<forall>s \<in> fst ` set (rs_statuses out). s < 500)"
proof -
  have "sum_list (map snd (filter (\<lambda>(s, c). 500 \<le> s) (rs_statuses out))) = 0
      \<longleftrightarrow> filter (\<lambda>(s, c). 500 \<le> s) (rs_statuses out) = []"
    using assms by (auto simp: sum_list_eq_0_iff positive_def filter_empty_conv)
  also have "\<dots> \<longleftrightarrow> (\<forall>s \<in> fst ` set (rs_statuses out). s < 500)"
    by (auto simp: filter_empty_conv)
  finally show ?thesis unfolding report_def Let_def by simp
qed

definition good_answer :: "real \<times> fetched \<Rightarrow> bool" where
  "good_answer a \<longleftrightarrow> (\<exists>t status body. a = (t, Response status body) \<and> status < 500
     \<and> (status = 200 \<longrightarrow> (\<exists>payload. body = Some payload \<and> readable payload)))"

lemma good_answer_iff: "good_answer a \<longleftrightarrow> \<not> crashes a \<and> error_of a = None \<and> (\<exists>s. status_of a = Some s \<and> s < 500)"
proof (cases a)
  case (Pair t f)
  then show ?thesis by (cases f) (auto simp: good_answer_def crashes_def error_of_def status_of_def)
qed

lemma local_host: "(case host of None \<Rightarrow> '''' | Some h \<Rightarrow> h) \<in> {''localhost'', ''127.0.0.1'', ''::1''}
    \<longleftrightarrow> host \<in> {Some ''localhost'', Some ''127.0.0.1'', Some ''::1''}"
  by (cases host) auto

lemma load_test_answers:
  "load_test host meant answers = 0 \<longleftrightarrow> (host \<in> {Some ''localhost'', Some ''127.0.0.1'', Some ''::1''} \<or> meant)
    \<and> answers \<noteq> [] \<and> (\<forall>a \<in> set answers. good_answer a)"
proof (cases "run_load answers no_results")
  case None
  then show ?thesis using run_load_none [of answers no_results] unfolding load_test_def local_host good_answer_iff by auto
next
  case (Some out)
  have acc: "fst ` set (rs_statuses out) = {s. \<exists>a \<in> set answers. status_of a = Some s}"
      "fst ` set (rs_errors out) = {e. \<exists>a \<in> set answers. error_of a = Some e}" "positive (rs_statuses out)"
    using run_load_accounts [OF Some] by (simp_all add: no_results_def positive_def)
  have calm: "\<forall>a \<in> set answers. \<not> crashes a" using Some run_load_none [of answers no_results] by auto
  have "rs_errors out = [] \<longleftrightarrow> fst ` set (rs_errors out) = {}" by simp
  then have err: "rs_errors out = [] \<longleftrightarrow> (\<forall>a \<in> set answers. error_of a = None)" unfolding acc(2) by (simp, metis option.exhaust option.distinct(1))
  have known: "error_of a = None \<Longrightarrow> status_of a \<noteq> None" for a
    by (cases a; cases "snd a") (auto simp: error_of_def status_of_def)
  have "rs_statuses out \<noteq> [] \<longleftrightarrow> fst ` set (rs_statuses out) \<noteq> {}" by simp
  then have stat: "rs_statuses out \<noteq> [] \<longleftrightarrow> (\<exists>a \<in> set answers. status_of a \<noteq> None)" unfolding acc(1) by blast
  have "report out = 0 \<longleftrightarrow> answers \<noteq> [] \<and> (\<forall>a \<in> set answers. good_answer a)"
  proof -
    have good: "good_answer a \<longleftrightarrow> error_of a = None \<and> (\<forall>s. status_of a = Some s \<longrightarrow> s < 500)" if "a \<in> set answers" for a
      using calm known [of a] that by (auto simp: good_answer_iff)
    have "answers \<noteq> [] \<longleftrightarrow> (\<exists>a \<in> set answers. status_of a \<noteq> None)" if "\<forall>a \<in> set answers. error_of a = None"
      using that known by (cases answers) auto
    then show ?thesis unfolding report_iff [OF acc(3)] err stat acc(1) using good by blast
  qed
  then show ?thesis using Some unfolding load_test_def local_host by auto
qed

text \<open>
  The verdict of a load test is about the answers and not about the run: whatever order concurrent users
  finish in, it passes exactly when the server is a local one or was meant, something was sent, and every
  request was answered, none with a 5xx, every 200 with a body that can be read as an answer.
\<close>

theorem load_verdict_is_about_the_answers:
  assumes "interleaves outcomes answers"
  shows "load_test host meant answers = 0 \<longleftrightarrow> (host \<in> {Some ''localhost'', Some ''127.0.0.1'', Some ''::1''} \<or> meant)
    \<and> concat outcomes \<noteq> [] \<and> (\<forall>a \<in> set (concat outcomes). \<exists>t status body. a = (t, Response status body) \<and> status < 500
        \<and> (status = 200 \<longrightarrow> (\<exists>payload. body = Some payload \<and> readable payload)))"
proof -
  have m: "mset answers = mset (concat outcomes)" using interleaves_mset [OF assms] .
  then have "set answers = set (concat outcomes)" "answers = [] \<longleftrightarrow> concat outcomes = []"
    by (metis set_mset_mset, metis mset_zero_iff)
  then show ?thesis unfolding load_test_answers good_answer_def by simp
qed

definition fine_answer :: "real \<times> fetched" where
  "fine_answer = (1, Response 200 (Some (JObj [(''routes'', JList [JObj [(''scoring_method'', JStr ''clip''), (''status'', JStr ''ok'')]])])))"

lemma two_users: "interleaves [[fine_answer], [(2, Response 429 None)]] [(2, Response 429 None), fine_answer]"
proof -
  have none: "interleaves [[], []] ([] :: (real \<times> fetched) list)" by (rule nobody_left) simp
  have one: "interleaves [[fine_answer], []] [fine_answer]" by (rule next_of [where i = 0 and xs = "[]"]) (simp_all add: none)
  show ?thesis by (rule next_of [where i = 1 and xs = "[]"]) (simp_all add: one)
qed

lemma load_verdict_is_about_the_answers_witness:
  "load_test (Some ''localhost'') False [(2, Response 429 None), fine_answer] = 0"
  unfolding load_verdict_is_about_the_answers [OF two_users]
  by (simp add: fine_answer_def readable_def unhashable_def)

lemma mset_percentile: "mset vs = mset ws \<Longrightarrow> percentile vs p = percentile ws p"
proof -
  assume m: "mset vs = mset ws"
  have "sort vs = sort ws" by (metis m mset_sort properties_for_sort sorted_sort)
  moreover have "vs = [] \<longleftrightarrow> ws = []" using m by (metis mset_zero_iff)
  ultimately show ?thesis by (simp add: percentile_def)
qed

text \<open>
  Every request is counted once and in one place, the refused apart from the served, and the percentiles
  the report prints are those of the answers, in whatever order they came.
\<close>

theorem every_request_is_counted_once:
  assumes "interleaves outcomes answers" and "run_load answers no_results = Some out"
  shows "length (rs_latencies out) = length (concat outcomes)
    \<and> length (rs_served out) + length (rs_refused out) + length (filter (\<lambda>(t, f). \<exists>e. f = Unreachable e) (concat outcomes))
      = length (concat outcomes)
    \<and> percentile (rs_served out) p
      = percentile (map fst (filter (\<lambda>(t, f). \<exists>s b. f = Response s b \<and> s \<noteq> 429) (concat outcomes))) p"
proof -
  have m: "mset answers = mset (concat outcomes)" using interleaves_mset [OF assms(1)] .
  have size_eq: "length (filter P answers) = length (filter P (concat outcomes))" for P
    using arg_cong [OF m, of "\<lambda>M. size (filter_mset P M)"] by (metis mset_filter size_mset)
  have preds: "(\<lambda>a. status_of a \<noteq> None \<and> status_of a \<noteq> Some 429) = (\<lambda>(t, f). \<exists>s b. f = Response s b \<and> s \<noteq> 429)"
    by (auto simp: fun_eq_iff status_of_def split: fetched.splits)
  note acc = run_load_accounts [OF assms(2)]
  have served: "rs_served out = map fst (filter (\<lambda>(t, f). \<exists>s b. f = Response s b \<and> s \<noteq> 429) answers)"
      and refused: "rs_refused out = map fst (filter (\<lambda>a. status_of a = Some 429) answers)"
      and latencies: "rs_latencies out = map fst answers"
    using acc unfolding preds by (simp_all add: no_results_def)
  have "length (filter (\<lambda>a. status_of a \<noteq> None \<and> status_of a \<noteq> Some 429) as) + length (filter (\<lambda>a. status_of a = Some 429) as)
      + length (filter (\<lambda>(t, f). \<exists>e. f = Unreachable e) as) = length as" for as
    by (induction as) (auto simp: status_of_def split: fetched.splits)
  from this [of answers] have parts: "length (rs_served out) + length (rs_refused out)
      + length (filter (\<lambda>(t, f). \<exists>e. f = Unreachable e) answers) = length answers"
    unfolding preds served refused by simp
  have "mset (rs_served out) = mset (map fst (filter (\<lambda>(t, f). \<exists>s b. f = Response s b \<and> s \<noteq> 429) (concat outcomes)))"
    unfolding served mset_map mset_filter m by (rule refl)
  moreover have "length answers = length (concat outcomes)" using m by (metis size_mset)
  ultimately show ?thesis using parts size_eq latencies by (auto intro: mset_percentile)
qed

lemma every_request_is_counted_once_witness:
  "\<exists>out. run_load [(2, Response 429 None), fine_answer] no_results = Some out \<and> percentile (rs_served out) 50 = Some 1"
proof -
  obtain out where out: "run_load [(2, Response 429 None), fine_answer] no_results = Some out"
    using run_load_none [of "[(2, Response 429 None), fine_answer]" no_results]
    by (auto simp: crashes_def fine_answer_def readable_def unhashable_def)
  moreover have "percentile (rs_served out) 50 = percentile [1] 50"
    using every_request_is_counted_once [OF two_users out, of 50] by (simp add: fine_answer_def)
  ultimately show ?thesis by (auto simp: percentile_def)
qed

text \<open>The users share the locations out evenly: together they send the bodies of \<open>0\<close> to the total, each once.\<close>

theorem plans_cover_the_requests:
  "concat (plans users requests_each minutes) = map (\<lambda>k. body_for k minutes) [0..<users * requests_each]"
proof (induction users)
  case (Suc users)
  have "[0..<users * requests_each + requests_each] = [0..<users * requests_each] @ map (\<lambda>i. i + users * requests_each) [0..<requests_each]"
    unfolding map_add_upt by (metis add.commute le0 upt_add_eq_append)
  then have "[0..<Suc users * requests_each] = [0..<users * requests_each] @ map (\<lambda>i. users * requests_each + i) [0..<requests_each]"
    by (simp add: add.commute)
  then show ?case using Suc by (simp add: plans_def comp_def)
qed (simp add: plans_def)

section \<open>What the duplicate scan finds\<close>

definition lines_at :: "string \<Rightarrow> (string \<times> nat) list \<Rightarrow> nat list" where
  "lines_at n ds = map snd (filter (\<lambda>(m, l). m = n) ds)"

lemma lines_at_simps [simp]: "lines_at n [] = []" "lines_at n ((m, l) # ds) = (if m = n then l # lines_at n ds else lines_at n ds)"
  by (simp_all add: lines_at_def)

lemma lines_at_in: "lines_at n ds = [] \<longleftrightarrow> n \<notin> fst ` set ds"
  by (force simp: lines_at_def filter_empty_conv)

lemma once_each: "(\<forall>n. length (lines_at n ds) \<le> 1) \<longleftrightarrow> distinct (map fst ds)"
proof (induction ds)
  case (Cons d ds)
  obtain m l where d: "d = (m, l)" by fastforce
  have "(\<forall>n. length (lines_at n (d # ds)) \<le> 1) \<longleftrightarrow> lines_at m ds = [] \<and> (\<forall>n. length (lines_at n ds) \<le> 1)"
    unfolding d by (auto simp: le_Suc_eq split: if_splits)
  then show ?case using Cons lines_at_in [of m ds] by (simp add: d)
qed simp

lemma collected_lines:
  "map_of (foldl (\<lambda>acc (n, l). AList.update n ((case map_of acc n of None \<Rightarrow> [] | Some ls \<Rightarrow> ls) @ [l]) acc) acc ds) n
   = (if map_of acc n = None \<and> lines_at n ds = [] then None
      else Some ((case map_of acc n of None \<Rightarrow> [] | Some ls \<Rightarrow> ls) @ lines_at n ds))"
proof (induction ds arbitrary: acc)
  case (Cons d ds)
  obtain m l where d: "d = (m, l)" by fastforce
  show ?case unfolding d using Cons by (auto simp: update_conv split: option.splits)
qed (auto split: option.splits)

lemma collected_distinct:
  "distinct (map fst acc) \<Longrightarrow>
   distinct (map fst (foldl (\<lambda>acc (n, l). AList.update n ((case map_of acc n of None \<Rightarrow> [] | Some ls \<Rightarrow> ls) @ [l]) acc) acc ds))"
  by (induction ds arbitrary: acc) (auto simp: distinct_update)

lemma duplicates_are:
  "(n, ls) \<in> set (duplicates body) \<longleftrightarrow> ls = lines_at n (List.map_filter defined body) \<and> 1 < length ls"
proof -
  have "distinct (map fst (lines_of body))" unfolding lines_of_def by (rule collected_distinct) simp
  then have "(n, ls) \<in> set (lines_of body) \<longleftrightarrow> map_of (lines_of body) n = Some ls" by simp
  also have "\<dots> \<longleftrightarrow> ls = lines_at n (List.map_filter defined body) \<and> ls \<noteq> []"
    unfolding lines_of_def collected_lines by auto
  finally show ?thesis by (auto simp: duplicates_def)
qed

lemma no_duplicates: "duplicates body = [] \<longleftrightarrow> distinct (map fst (List.map_filter defined body))"
proof -
  have "duplicates body = [] \<longleftrightarrow> (\<forall>n ls. (n, ls) \<notin> set (duplicates body))" by (cases "duplicates body") auto
  also have "\<dots> \<longleftrightarrow> (\<forall>n. length (lines_at n (List.map_filter defined body)) \<le> 1)"
    unfolding duplicates_are linorder_not_less [symmetric] by blast
  finally show ?thesis unfolding once_each .
qed

lemma clean_scan:
  "scan_file parsed = [] \<longleftrightarrow> (\<exists>body. parsed = Inr body \<and> distinct (map fst (List.map_filter defined body))
     \<and> (\<forall>c l inner. Class c l inner \<in> set body \<longrightarrow> distinct (map fst (List.map_filter defined inner))))"
proof (cases parsed)
  case (Inr body)
  have "(\<forall>s \<in> set body. (case s of Class c l inner \<Rightarrow> map (\<lambda>(n, ls). Twice (Some c) n (ls ! 1) (ls ! 0)) (duplicates inner) | _ \<Rightarrow> []) = [])
      \<longleftrightarrow> (\<forall>c l inner. Class c l inner \<in> set body \<longrightarrow> duplicates inner = [])"
    by (auto split: stmt.splits)
  then show ?thesis unfolding Inr scan_file_def by (simp add: no_duplicates del: One_nat_def)
qed (auto simp: scan_file_def)

text \<open>
  A silent merge does not pass. The scan is clean exactly when every file below the roots that is not
  skipped parses and defines each of its top-level names, and each name in the body of each of its
  top-level classes, once; every report names a definition and the two lines it first stands on.
\<close>

theorem clean_means_defined_once:
  "(check_duplicate_defs rglob parse roots = 0 \<longleftrightarrow>
     (\<forall>root \<in> set roots. \<forall>paths. rglob root = Some paths \<longrightarrow> (\<forall>f \<in> set paths. set SKIP_PARTS \<inter> set f = {} \<longrightarrow>
        (\<exists>body. parse f = Inr body \<and> distinct (map fst (List.map_filter defined body))
           \<and> (\<forall>c l inner. Class c l inner \<in> set body \<longrightarrow> distinct (map fst (List.map_filter defined inner)))))))
   \<and> (Twice None n l2 l1 \<in> set (scan_file (Inr body)) \<longrightarrow> (\<exists>rest. lines_at n (List.map_filter defined body) = l1 # l2 # rest))"
proof
  have "check_duplicate_defs rglob parse roots = 0 \<longleftrightarrow> (\<forall>f \<in> set (python_files rglob roots). scan_file (parse f) = [])"
    by (simp add: check_duplicate_defs_def Let_def)
  also have "\<dots> \<longleftrightarrow> (\<forall>root \<in> set roots. \<forall>paths. rglob root = Some paths \<longrightarrow> (\<forall>f \<in> set paths. set SKIP_PARTS \<inter> set f = {} \<longrightarrow> scan_file (parse f) = []))"
  proof -
    have "f \<in> set (python_files rglob roots) \<longleftrightarrow> (\<exists>root \<in> set roots. \<exists>paths. rglob root = Some paths \<and> f \<in> set paths \<and> set SKIP_PARTS \<inter> set f = {})" for f
      unfolding python_files_def by (force split: option.splits)
    then show ?thesis by blast
  qed
  finally show "check_duplicate_defs rglob parse roots = 0 \<longleftrightarrow>
     (\<forall>root \<in> set roots. \<forall>paths. rglob root = Some paths \<longrightarrow> (\<forall>f \<in> set paths. set SKIP_PARTS \<inter> set f = {} \<longrightarrow>
        (\<exists>body. parse f = Inr body \<and> distinct (map fst (List.map_filter defined body))
           \<and> (\<forall>c l inner. Class c l inner \<in> set body \<longrightarrow> distinct (map fst (List.map_filter defined inner))))))"
    unfolding clean_scan .
  show "Twice None n l2 l1 \<in> set (scan_file (Inr body)) \<longrightarrow> (\<exists>rest. lines_at n (List.map_filter defined body) = l1 # l2 # rest)"
  proof
    assume "Twice None n l2 l1 \<in> set (scan_file (Inr body))"
    then obtain ls where "(n, ls) \<in> set (duplicates body)" "l2 = ls ! 1" "l1 = ls ! 0"
      by (auto simp: scan_file_def split: stmt.splits)
    then have "ls = lines_at n (List.map_filter defined body)" "1 < length ls" unfolding duplicates_are by blast+
    moreover from this(2) obtain a b rest where "ls = a # b # rest" by (cases ls; cases "tl ls") auto
    ultimately have "lines_at n (List.map_filter defined body) = a # b # rest" by simp
    moreover from \<open>ls = a # b # rest\<close> have "l1 = a" "l2 = b" using \<open>l2 = ls ! 1\<close> \<open>l1 = ls ! 0\<close> by simp_all
    ultimately show "\<exists>rest. lines_at n (List.map_filter defined body) = l1 # l2 # rest" by simp
  qed
qed

text \<open>Two branches that each added \<open>_instructions\<close> to one file.\<close>

definition one_file :: "string \<Rightarrow> string list list option" where
  "one_file r = (if r = ''scripts'' then Some [[''scripts'', ''a.py'']] else None)"

lemma clean_means_defined_once_witness:
  "check_duplicate_defs one_file (\<lambda>f. Inr [Def ''_instructions'' 3, Other]) [''backend'', ''scripts''] = 0
   \<and> check_duplicate_defs one_file (\<lambda>f. Inr [Def ''_instructions'' 3, Other, Def ''_instructions'' 9]) [''backend'', ''scripts''] \<noteq> 0"
  by (simp add: clean_means_defined_once [THEN conjunct1] one_file_def SKIP_PARTS_def List.map_filter_simps)

text \<open>
  The two guards: without the opt-in a staged fixture is refused, and a deployment passes only without the
  forbidden modules and with an application that imports.
\<close>

lemma new_fixtures_need_the_opt_in:
  "check_new_fixtures env git = 0 \<longleftrightarrow>
     env ''MEANDER_ALLOW_NEW_FIXTURES'' = Some ''1'' \<or> (\<exists>out. git = Some out \<and> (\<forall>p \<in> set (split_on (CHR 0x0A) out). strip p = []))"
  by (auto simp: check_new_fixtures_def staged_additions_def filter_empty_conv split: option.splits)

lemma torch_free_means_importable:
  "check_torch_free spec app_imports = 0 \<longleftrightarrow> app_imports \<and> \<not> spec ''torch'' \<and> \<not> spec ''open_clip'' \<and> \<not> spec ''torchvision''"
  by (simp add: check_torch_free_def FORBIDDEN_def)

end
